(* ===== verification/Prelude.thy ===== *)
theory Prelude
  imports Main "HOL-Library.Word" "HOL-Library.AList" "HOL-Library.Char_ord"
    "HOL-Library.List_Lexorder"
begin

text \<open>
  What every component shares: the names of the machine types, the model of the hash maps
  (\<open>HashMap\<close>, \<open>DashMap\<close>) as association lists, the saturating operations of
  \<open>u64\<close>, the splitting of a slice into chunks, and the collections of facts the
  component proofs use.

  A Rust \<open>String\<close> is the \<open>string\<close> of its UTF-8 bytes. A hash map is a list of
  pairs with distinct keys; the order of the list stands for the iteration order, which
  Rust leaves unspecified, so no property depends on it. A \<open>usize\<close> that counts things
  held in memory is a \<open>nat\<close>; an integer the protocol carries keeps its width.
\<close>

section \<open>Machine types\<close>

type_synonym u8 = "8 word"
type_synonym u16 = "16 word"
type_synonym u32 = "32 word"
type_synonym u64 = "64 word"
type_synonym i32 = "32 word"
type_synonym bytes = "u8 list"

text \<open>A hash map, as the list of its pairs in iteration order.\<close>

type_synonym 'v hmap = "(string \<times> 'v) list"

text \<open>The facts that unfold an operation of a component on a concrete or symbolic state.\<close>

named_theorems op_defs

text \<open>The facts that say an operation keeps a component's invariant.\<close>

named_theorems inv_intros

section \<open>Hash maps\<close>

abbreviation hm_get :: "'v hmap \<Rightarrow> string \<Rightarrow> 'v option" where
  "hm_get m k \<equiv> map_of m k"

abbreviation hm_insert :: "string \<Rightarrow> 'v \<Rightarrow> 'v hmap \<Rightarrow> 'v hmap" where
  "hm_insert k v m \<equiv> AList.update k v m"

abbreviation hm_remove :: "string \<Rightarrow> 'v hmap \<Rightarrow> 'v hmap" where
  "hm_remove k m \<equiv> AList.delete k m"

definition hm_keys :: "'v hmap \<Rightarrow> string list" where
  "hm_keys m = map fst m"

definition hm_ok :: "'v hmap \<Rightarrow> bool" where
  "hm_ok m \<longleftrightarrow> distinct (map fst m)"

lemma map_of_hm_insert [simp]: "map_of (AList.update k v m) = (map_of m)(k \<mapsto> v)"
  by (rule update_conv')

lemma map_of_hm_remove [simp]: "map_of (AList.delete k m) = (map_of m)(k := None)"
  by (rule delete_conv')

lemma hm_ok_empty [simp, inv_intros]: "hm_ok []"
  by (simp add: hm_ok_def)

lemma hm_ok_insert [simp, inv_intros]: "hm_ok m \<Longrightarrow> hm_ok (AList.update k v m)"
  by (simp add: hm_ok_def distinct_update)

lemma hm_ok_remove [simp, inv_intros]: "hm_ok m \<Longrightarrow> hm_ok (AList.delete k m)"
  by (simp add: hm_ok_def distinct_delete)

lemma hm_ok_filter [simp, inv_intros]: "hm_ok m \<Longrightarrow> hm_ok (filter P m)"
  unfolding hm_ok_def by (induction m) auto

lemma hm_get_Some_iff: "hm_ok m \<Longrightarrow> map_of m k = Some v \<longleftrightarrow> (k, v) \<in> set m"
  by (simp add: hm_ok_def)

lemma hm_get_filter:
  "hm_ok m \<Longrightarrow> map_of (filter P m) k = Some v \<longleftrightarrow> map_of m k = Some v \<and> P (k, v)"
  by (simp add: hm_get_Some_iff)

lemma hm_get_filter_None:
  "hm_ok m \<Longrightarrow> map_of (filter P m) k = None \<longleftrightarrow> (\<forall>v. map_of m k = Some v \<longrightarrow> \<not> P (k, v))"
  by (metis hm_get_filter not_None_eq)

lemma hm_remove_absent: "map_of m k = None \<Longrightarrow> AList.delete k m = m"
  by (simp add: map_of_eq_None_iff)

lemma length_hm_remove:
  "hm_ok m \<Longrightarrow> map_of m k \<noteq> None \<Longrightarrow> Suc (length (AList.delete k m)) = length m"
proof (induction m)
  case Nil
  then show ?case by simp
next
  case (Cons p m)
  from Cons.prems(1) have ok: "hm_ok m" and new: "fst p \<notin> fst ` set m"
    by (simp_all add: hm_ok_def)
  show ?case
  proof (cases "fst p = k")
    case True
    with new show ?thesis by (cases p) simp
  next
    case False
    with Cons.prems(2) have "map_of m k \<noteq> None" by (cases p) simp
    with Cons.IH ok have "Suc (length (AList.delete k m)) = length m" by simp
    with False show ?thesis by (cases p) simp
  qed
qed

lemma length_hm_insert:
  "length (AList.update k v m) = (if map_of m k = None then Suc (length m) else length m)"
  by (induction m) auto

lemma hm_nonempty_iff: "m = [] \<longleftrightarrow> (\<forall>k. map_of m k = None)"
  by (cases m) (auto split: if_splits)

section \<open>Saturating arithmetic of u64\<close>

definition sat_sub :: "u64 \<Rightarrow> u64 \<Rightarrow> u64" where
  "sat_sub a b = (if b \<le> a then a - b else 0)"

definition sat_mul :: "u64 \<Rightarrow> u64 \<Rightarrow> u64" where
  "sat_mul a b = (if unat a * unat b < 2 ^ 64 then a * b else - 1)"

lemma unat_sat_sub: "unat (sat_sub a b) = unat a - unat b"
  by (auto simp: sat_sub_def unat_sub word_le_nat_alt)

lemma unat_max_u64: "unat (- 1 :: u64) = 2 ^ 64 - 1"
  by (simp add: unsigned_minus_1_eq_mask mask_eq_exp_minus_1)

lemma unat_sat_mul: "unat (sat_mul a b) = min (unat a * unat b) (2 ^ 64 - 1)"
  by (auto simp: sat_mul_def unat_word_ariths unat_max_u64)

section \<open>Chunks of a slice\<close>

text \<open>\<open>slice::chunks(n)\<close>: pieces of length \<open>n\<close>, the last one possibly shorter; none for
  an empty slice.\<close>

function chunks :: "nat \<Rightarrow> 'a list \<Rightarrow> 'a list list" where
  "chunks n xs = (if xs = [] \<or> n = 0 then [] else take n xs # chunks n (drop n xs))"
  by pat_completeness auto
termination
  by (relation "measure (\<lambda>(n, xs). length xs)") auto

declare chunks.simps [simp del]

lemma chunks_Nil [simp]: "chunks n [] = []"
  by (simp add: chunks.simps)

lemma chunks_step: "xs \<noteq> [] \<Longrightarrow> 0 < n \<Longrightarrow> chunks n xs = take n xs # chunks n (drop n xs)"
  by (subst chunks.simps) simp

lemma concat_chunks: "0 < n \<Longrightarrow> concat (chunks n xs) = xs"
proof (induction n xs rule: chunks.induct)
  case (1 n xs)
  then show ?case by (cases "xs = []") (simp_all add: chunks_step)
qed

lemma chunks_bound: "c \<in> set (chunks n xs) \<Longrightarrow> c \<noteq> [] \<and> length c \<le> n"
proof (induction n xs rule: chunks.induct)
  case (1 n xs)
  show ?case
  proof (cases "xs = [] \<or> n = 0")
    case True
    with "1.prems" show ?thesis by (auto simp: chunks.simps)
  next
    case False
    then have "chunks n xs = take n xs # chunks n (drop n xs)" by (simp add: chunks_step)
    with "1.prems" consider "c = take n xs" | "c \<in> set (chunks n (drop n xs))" by auto
    then show ?thesis using False "1.IH" by cases auto
  qed
qed

text \<open>Chunk \<open>i\<close> is the part of the slice at offset \<open>i * n\<close>.\<close>

lemma nth_chunks:
  "0 < n \<Longrightarrow> i < length (chunks n xs) \<Longrightarrow> chunks n xs ! i = take n (drop (i * n) xs)"
proof (induction n xs arbitrary: i rule: chunks.induct)
  case (1 n xs)
  show ?case
  proof (cases "xs = []")
    case True
    with "1.prems" show ?thesis by simp
  next
    case False
    with "1.prems" have step: "chunks n xs = take n xs # chunks n (drop n xs)"
      by (simp add: chunks_step)
    show ?thesis
    proof (cases i)
      case 0
      with step show ?thesis by simp
    next
      case (Suc j)
      with "1.prems" step have "j < length (chunks n (drop n xs))" by simp
      with "1.IH" "1.prems" False
      have "chunks n (drop n xs) ! j = take n (drop (j * n) (drop n xs))" by simp
      with Suc step show ?thesis by (simp add: add.commute)
    qed
  qed
qed

lemma length_chunks: "0 < n \<Longrightarrow> length (chunks n xs) = (length xs + n - 1) div n"
proof (induction n xs rule: chunks.induct)
  case (1 n xs)
  show ?case
  proof (cases "xs = []")
    case True
    with "1.prems" show ?thesis by simp
  next
    case False
    with "1" have IH: "length (chunks n (drop n xs)) = (length (drop n xs) + n - 1) div n"
      by simp
    have eq: "length (chunks n xs) = Suc ((length (drop n xs) + n - 1) div n)"
      using False "1.prems" IH by (simp add: chunks_step)
    show ?thesis
    proof (cases "n \<le> length xs")
      case True
      then have "length xs + n - 1 = (length (drop n xs) + n - 1) + n"
        using "1.prems" by simp
      then show ?thesis using eq "1.prems"
        by (metis div_add_self2 add.commute plus_1_eq_Suc not_gr_zero)
    next
      case f: False
      then obtain r where r: "length xs = Suc r" "r < n" using False by (cases "length xs") auto
      have "(length xs + n - 1) div n = Suc 0"
        using r "1.prems" by (simp add: div_add_self2)
      with eq f "1.prems" show ?thesis by simp
    qed
  qed
qed

section \<open>Strings\<close>

text \<open>\<open>str::contains\<close> of a string, over the bytes.\<close>

fun starts_with :: "string \<Rightarrow> string \<Rightarrow> bool" where
  "starts_with [] s = True"
| "starts_with (p # ps) [] = False"
| "starts_with (p # ps) (c # cs) = (p = c \<and> starts_with ps cs)"

fun contains :: "string \<Rightarrow> string \<Rightarrow> bool" where
  "contains p [] = (p = [])"
| "contains p (c # cs) = (starts_with p (c # cs) \<or> contains p cs)"

lemma starts_with_iff: "starts_with p s \<longleftrightarrow> (\<exists>t. s = p @ t)"
  by (induction p s rule: starts_with.induct) auto

lemma contains_iff: "contains p s \<longleftrightarrow> (\<exists>a b. s = a @ p @ b)"
proof (induction s)
  case Nil
  then show ?case by auto
next
  case (Cons c s)
  show ?case
  proof
    assume "contains p (c # s)"
    then consider "starts_with p (c # s)" | "contains p s" by auto
    then show "\<exists>a b. c # s = a @ p @ b"
    proof cases
      case 1
      then show ?thesis by (metis append_Nil starts_with_iff)
    next
      case 2
      with Cons.IH obtain a b where "s = a @ p @ b" by blast
      then have "c # s = (c # a) @ p @ b" by simp
      then show ?thesis by blast
    qed
  next
    assume "\<exists>a b. c # s = a @ p @ b"
    then obtain a b where eq: "c # s = a @ p @ b" by blast
    show "contains p (c # s)"
    proof (cases a)
      case Nil
      with eq have "starts_with p (c # s)" by (simp add: starts_with_iff)
      then show ?thesis by simp
    next
      case (Cons a' as)
      with eq have "s = as @ p @ b" by simp
      then have "contains p s" using Cons.IH by blast
      then show ?thesis by simp
    qed
  qed
qed

text \<open>\<open>str::trim\<close> on the ASCII white space.\<close>

definition is_space :: "char \<Rightarrow> bool" where
  "is_space c \<longleftrightarrow> c = CHR '' '' \<or> (9 \<le> (of_char c :: nat) \<and> (of_char c :: nat) \<le> 13)"

definition trim :: "string \<Rightarrow> string" where
  "trim s = rev (dropWhile is_space (rev (dropWhile is_space s)))"

lemma dropWhile_none: "\<forall>c \<in> set s. \<not> P c \<Longrightarrow> dropWhile P s = s"
  by (cases s) auto

lemma trim_id: "\<forall>c \<in> set s. \<not> is_space c \<Longrightarrow> trim s = s"
  by (simp add: trim_def dropWhile_none)

text \<open>\<open>str::split\<close> at a character.\<close>

fun split_on :: "char \<Rightarrow> string \<Rightarrow> string list" where
  "split_on d [] = [[]]"
| "split_on d (c # cs) =
     (if c = d then [] # split_on d cs
      else (case split_on d cs of [] \<Rightarrow> [[c]] | p # ps \<Rightarrow> (c # p) # ps))"

lemma split_on_none: "d \<notin> set s \<Longrightarrow> split_on d s = [s]"
  by (induction s) auto

lemma split_on_join:
  "\<forall>p \<in> set ps. d \<notin> set p \<Longrightarrow> ps \<noteq> [] \<Longrightarrow>
     split_on d (concat (map (\<lambda>p. p @ [d]) (butlast ps)) @ last ps) = ps"
proof (induction ps)
  case Nil
  then show ?case by simp
next
  case (Cons p ps)
  have app: "split_on d (q @ d # r) = q # split_on d r" if "d \<notin> set q" for q r
    using that by (induction q) auto
  have one: "split_on d q = [q]" if "d \<notin> set q" for q
    using that by (induction q) auto
  show ?case
  proof (cases "ps = []")
    case True
    with Cons.prems one show ?thesis by simp
  next
    case False
    with Cons app show ?thesis by simp
  qed
qed

text \<open>A string between single quotes, as messages show it, and a number in decimal.\<close>

definition quoted :: "string \<Rightarrow> string" where
  "quoted s = CHR 0x27 # s @ [CHR 0x27]"

fun digits :: "nat \<Rightarrow> string" where
  "digits n = (if n < 10 then [char_of (48 + n)] else digits (n div 10) @ [char_of (48 + n mod 10)])"

declare digits.simps [simp del]

end
