(* ===== verification/Interfaces.thy ===== *)
theory Interfaces
  imports Prelude
begin

text \<open>
  The contracts several components share, each a locale whose lemmas are proved once and
  interpreted on the components' own operations: a store of entries under keys
  (\<open>key_store\<close>), a store whose entries are taken out exactly once (\<open>take_store\<close>), a
  machine driven by events that keeps an invariant (\<open>event_machine\<close>), and a membership
  service whose members learn of their eviction from a rejected beat (\<open>membership\<close>).
\<close>

section \<open>Entries under keys\<close>

text \<open>
  What a client of a concurrent map relies on: \<open>get\<close> sees the last \<open>put\<close> or \<open>drop\<close> of
  its key and no other key's.
\<close>

locale key_store =
  fixes get :: "'s \<Rightarrow> 'k \<Rightarrow> 'v option"
    and put :: "'k \<Rightarrow> 'v \<Rightarrow> 's \<Rightarrow> 's"
    and drop :: "'k \<Rightarrow> 's \<Rightarrow> 's"
    and ok :: "'s \<Rightarrow> bool"
  assumes get_put: "ok s \<Longrightarrow> get (put k v s) k' = (if k' = k then Some v else get s k')"
    and get_drop: "ok s \<Longrightarrow> get (drop k s) k' = (if k' = k then None else get s k')"
    and ok_put: "ok s \<Longrightarrow> ok (put k v s)"
    and ok_drop: "ok s \<Longrightarrow> ok (drop k s)"
begin

lemma get_put_same: "ok s \<Longrightarrow> get (put k v s) k = Some v"
  by (simp add: get_put)

lemma get_put_other: "ok s \<Longrightarrow> k' \<noteq> k \<Longrightarrow> get (put k v s) k' = get s k'"
  by (simp add: get_put)

lemma put_replaces: "ok s \<Longrightarrow> get (put k w (put k v s)) k' = get (put k w s) k'"
  by (simp add: get_put ok_put)

lemma drop_undoes_put:
  "ok s \<Longrightarrow> get s k = None \<Longrightarrow> get (drop k (put k v s)) k' = get s k'"
  by (simp add: get_put get_drop ok_put)

lemma put_commute:
  "ok s \<Longrightarrow> k \<noteq> l \<Longrightarrow> get (put k v (put l w s)) k' = get (put l w (put k v s)) k'"
  by (simp add: get_put ok_put)

lemma ok_puts: "ok s \<Longrightarrow> ok (fold (\<lambda>(k, v). put k v) kvs s)"
  by (induction kvs arbitrary: s) (auto simp: ok_put)

lemma get_puts:
  "ok s \<Longrightarrow> get (fold (\<lambda>(k, v). put k v) kvs s) k =
     (case map_of (rev kvs) k of Some v \<Rightarrow> Some v | None \<Rightarrow> get s k)"
proof (induction kvs arbitrary: s)
  case Nil
  then show ?case by simp
next
  case (Cons kv kvs)
  obtain k0 v0 where kv: "kv = (k0, v0)" by (cases kv)
  with Cons show ?case
    by (auto simp: ok_put get_put map_add_def split: option.splits)
qed

lemma ok_drops: "ok s \<Longrightarrow> ok (fold drop ks s)"
  by (induction ks arbitrary: s) (auto simp: ok_drop)

lemma get_drops: "ok s \<Longrightarrow> get (fold drop ks s) k = (if k \<in> set ks then None else get s k)"
  by (induction ks arbitrary: s) (auto simp: ok_drop get_drop)

end

section \<open>Entries taken out once\<close>

text \<open>
  A store whose entries are consumed: \<open>take\<close> hands the entry over and removes it, so of any
  number of takers only the first gets it.
\<close>

locale take_store = key_store +
  fixes take :: "'k \<Rightarrow> 's \<Rightarrow> 'v option \<times> 's"
  assumes take_result: "ok s \<Longrightarrow> fst (take k s) = get s k"
    and take_state: "ok s \<Longrightarrow> snd (take k s) = drop k s"
begin

lemma ok_take: "ok s \<Longrightarrow> ok (snd (take k s))"
  by (simp add: take_state ok_drop)

lemma take_after_put: "ok s \<Longrightarrow> fst (take k (put k v s)) = Some v"
  by (simp add: take_result ok_put get_put)

lemma take_once: "ok s \<Longrightarrow> fst (take k (snd (take k s))) = None"
  by (simp add: take_result take_state ok_drop get_drop)

lemma take_other: "ok s \<Longrightarrow> k' \<noteq> k \<Longrightarrow> get (snd (take k s)) k' = get s k'"
  by (simp add: take_state get_drop)

end

section \<open>Event-driven machines\<close>

text \<open>A machine whose every step keeps an invariant keeps it over any run.\<close>

locale event_machine =
  fixes step :: "'s \<Rightarrow> 'e \<Rightarrow> 's"
    and inv :: "'s \<Rightarrow> bool"
  assumes inv_step: "inv s \<Longrightarrow> inv (step s e)"
begin

lemma inv_run: "inv s \<Longrightarrow> inv (foldl step s es)"
  by (induction es arbitrary: s) (auto intro: inv_step)

lemma inv_prefix: "inv s \<Longrightarrow> inv (foldl step s (take n es))"
  by (rule inv_run)

end

text \<open>A machine with final states, in which no event has an effect any more.\<close>

locale halting_machine = event_machine +
  fixes halted :: "'s \<Rightarrow> bool"
  assumes halted_step: "halted s \<Longrightarrow> step s e = s"
begin

lemma halted_run: "halted s \<Longrightarrow> foldl step s es = s"
  by (induction es) (auto simp: halted_step)

lemma first_halt:
  "halted (foldl step s es) \<Longrightarrow> foldl step s (es @ es') = foldl step s es"
  by (simp add: halted_run)

end

section \<open>Membership with rejected beats\<close>

text \<open>
  A service that members join and that may drop a member at any time. A member's beat tells
  it whether it is still a member; one that is told no joins again. The law that matters is
  that joining always succeeds, so a dropped member is back after one beat.
\<close>

locale membership =
  fixes member :: "'m \<Rightarrow> 's \<Rightarrow> bool"
    and beat :: "'m \<Rightarrow> 's \<Rightarrow> bool \<times> 's"
    and join :: "'m \<Rightarrow> 's \<Rightarrow> 's"
    and evict :: "'m \<Rightarrow> 's \<Rightarrow> 's"
    and ok :: "'s \<Rightarrow> bool"
  assumes beat_answer: "ok s \<Longrightarrow> fst (beat m s) = member m s"
    and beat_member: "ok s \<Longrightarrow> member m' (snd (beat m s)) = member m' s"
    and join_member: "ok s \<Longrightarrow> member m (join m s)"
    and join_other: "ok s \<Longrightarrow> m' \<noteq> m \<Longrightarrow> member m' (join m s) = member m' s"
    and evict_member: "ok s \<Longrightarrow> \<not> member m (evict m s)"
    and evict_other: "ok s \<Longrightarrow> m' \<noteq> m \<Longrightarrow> member m' (evict m s) = member m' s"
    and ok_beat: "ok s \<Longrightarrow> ok (snd (beat m s))"
    and ok_join: "ok s \<Longrightarrow> ok (join m s)"
    and ok_evict: "ok s \<Longrightarrow> ok (evict m s)"
begin

text \<open>What a member does about the answer to its beat.\<close>

lemma evicted_learns: "ok s \<Longrightarrow> \<not> fst (beat m (evict m s))"
  by (simp add: beat_answer evict_member ok_evict)

lemma recovers_after_beat:
  assumes "ok s" and "beat m s = (b, s')"
  shows "member m (if b then s' else join m s')"
proof (cases b)
  case True
  with assms show ?thesis
    by (metis beat_answer beat_member fst_conv snd_conv)
next
  case False
  from assms have "ok s'" by (metis ok_beat snd_conv)
  with False show ?thesis by (simp add: join_member)
qed

lemma next_beat_accepted:
  assumes "ok s" and "beat m s = (b, s')"
  shows "fst (beat m (if b then s' else join m s'))"
proof -
  from assms have "ok s'" by (metis ok_beat snd_conv)
  then have "ok (if b then s' else join m s')" by (simp add: ok_join)
  then show ?thesis
    using recovers_after_beat [OF assms] by (simp add: beat_answer)
qed

end

section \<open>The hash map model keeps the contract\<close>

definition hm_take :: "string \<Rightarrow> 'v hmap \<Rightarrow> 'v option \<times> 'v hmap" where
  "hm_take k m = (hm_get m k, hm_remove k m)"

interpretation hm: take_store hm_get hm_insert hm_remove hm_ok hm_take
  by unfold_locales (auto simp: hm_take_def)

end
