(* ===== verification/Protocol.thy ===== *)
theory Protocol
  imports Prelude
begin

text \<open>
  The messages that daemon and server exchange (\<open>protocol/src/lib.rs\<close>): the \<open>Message\<close> enum
  with its variants in the source's order, the metadata a daemon registers with, the
  snapshot summaries, the defaults of optional fields, and the request a response answers.

  The text form of a message (serde and the base64 engine) is third-party code; a component
  that receives a text frame takes the result of parsing it as an input.
\<close>

section \<open>Data\<close>

record snapshot_info =
  si_id :: string
  si_created_at :: u64
  si_message :: string
  si_tags :: "string list"
  si_file_count :: nat
  si_total_size :: u64

record daemon_metadata =
  hostname :: string
  platform :: string
  arch :: string
  version :: string
  labels :: "string hmap"

datatype message =
    Register string daemon_metadata
      \<comment> \<open>daemon_id, metadata\<close>
  | RegisterAck bool string
      \<comment> \<open>success, message\<close>
  | Heartbeat
  | HeartbeatAck bool string
      \<comment> \<open>success, reason\<close>
  | Pong
  | ExecuteCommand string string u64 "string hmap" "string option"
      \<comment> \<open>request_id, command, timeout_secs, env, cwd\<close>
  | CommandOutput string string string i32 u64
      \<comment> \<open>request_id, stdout, stderr, exit_code, duration_ms\<close>
  | CommandError string string
      \<comment> \<open>request_id, error\<close>
  | NewSession string u16 u16 string
      \<comment> \<open>session_id, rows, cols, term\<close>
  | SessionStarted string bool "string option"
      \<comment> \<open>session_id, success, error\<close>
  | SessionInput string bytes
      \<comment> \<open>session_id, data\<close>
  | SessionOutput string bytes
      \<comment> \<open>session_id, data\<close>
  | SessionResize string u16 u16
      \<comment> \<open>session_id, rows, cols\<close>
  | SessionClose string
      \<comment> \<open>session_id\<close>
  | SessionExit string i32
      \<comment> \<open>session_id, exit_code\<close>
  | FileUploadStart string string u64 "u32 option"
      \<comment> \<open>request_id, path, total_size, mode\<close>
  | FileUploadChunk string bytes u64
      \<comment> \<open>request_id, data, offset\<close>
  | FileUploadComplete string bool "string option"
      \<comment> \<open>request_id, success, error\<close>
  | FileDownloadStart string string
      \<comment> \<open>request_id, path\<close>
  | FileDownloadChunk string bytes u64 bool
      \<comment> \<open>request_id, data, offset, is_last\<close>
  | FileDownloadError string string
      \<comment> \<open>request_id, error\<close>
  | CreateSnapshot string string "string option" "string list option"
      \<comment> \<open>request_id, workspace, message, tags\<close>
  | SnapshotCreated string string nat u64
      \<comment> \<open>request_id, snapshot_id, file_count, total_size\<close>
  | RestoreSnapshot string string string
      \<comment> \<open>request_id, snapshot_id, destination\<close>
  | SnapshotRestored string nat
      \<comment> \<open>request_id, file_count\<close>
  | ListSnapshots string "string list option"
      \<comment> \<open>request_id, tags\<close>
  | SnapshotList string "snapshot_info list"
      \<comment> \<open>request_id, snapshots\<close>
  | FindSnapshotByTag string string
      \<comment> \<open>request_id, tag\<close>
  | GetSnapshot string string
      \<comment> \<open>request_id, snapshot_id\<close>
  | SnapshotDetails string "snapshot_info option"
      \<comment> \<open>request_id, snapshot\<close>
  | DeleteSnapshot string string
      \<comment> \<open>request_id, snapshot_id\<close>
  | SnapshotDeleted string
      \<comment> \<open>request_id\<close>
  | SnapshotError string string
      \<comment> \<open>request_id, error\<close>
  | Error string bool
      \<comment> \<open>message, recoverable\<close>

section \<open>Defaults of omitted fields\<close>

definition default_timeout :: u64 where
  "default_timeout = 300"

definition default_term :: string where
  "default_term = ''xterm-256color''"

section \<open>Requests and the responses to them\<close>

text \<open>The request id that a daemon's final answer to a request carries.\<close>

fun response_id :: "message \<Rightarrow> string option" where
  "response_id (CommandOutput r _ _ _ _) = Some r"
| "response_id (CommandError r _) = Some r"
| "response_id (SnapshotCreated r _ _ _) = Some r"
| "response_id (SnapshotRestored r _) = Some r"
| "response_id (SnapshotList r _) = Some r"
| "response_id (SnapshotDetails r _) = Some r"
| "response_id (SnapshotDeleted r) = Some r"
| "response_id (SnapshotError r _) = Some r"
| "response_id _ = None"

text \<open>The request id of a request that waits for such an answer.\<close>

fun request_id :: "message \<Rightarrow> string option" where
  "request_id (ExecuteCommand r _ _ _ _) = Some r"
| "request_id (CreateSnapshot r _ _ _) = Some r"
| "request_id (RestoreSnapshot r _ _) = Some r"
| "request_id (ListSnapshots r _) = Some r"
| "request_id (FindSnapshotByTag r _) = Some r"
| "request_id (GetSnapshot r _) = Some r"
| "request_id (DeleteSnapshot r _) = Some r"
| "request_id _ = None"

text \<open>Which answers fit which request.\<close>

definition answers :: "message \<Rightarrow> message \<Rightarrow> bool" where
  "answers q a =
     (case q of
        ExecuteCommand r _ _ _ _ \<Rightarrow>
          (case a of CommandOutput r' _ _ _ _ \<Rightarrow> r = r' | CommandError r' _ \<Rightarrow> r = r' | _ \<Rightarrow> False)
      | CreateSnapshot r _ _ _ \<Rightarrow>
          (case a of SnapshotCreated r' _ _ _ \<Rightarrow> r = r' | SnapshotError r' _ \<Rightarrow> r = r' | _ \<Rightarrow> False)
      | RestoreSnapshot r _ _ \<Rightarrow>
          (case a of SnapshotRestored r' _ \<Rightarrow> r = r' | SnapshotError r' _ \<Rightarrow> r = r' | _ \<Rightarrow> False)
      | ListSnapshots r _ \<Rightarrow>
          (case a of SnapshotList r' _ \<Rightarrow> r = r' | SnapshotError r' _ \<Rightarrow> r = r' | _ \<Rightarrow> False)
      | FindSnapshotByTag r _ \<Rightarrow>
          (case a of SnapshotDetails r' _ \<Rightarrow> r = r' | SnapshotError r' _ \<Rightarrow> r = r' | _ \<Rightarrow> False)
      | GetSnapshot r _ \<Rightarrow>
          (case a of SnapshotDetails r' _ \<Rightarrow> r = r' | SnapshotError r' _ \<Rightarrow> r = r' | _ \<Rightarrow> False)
      | DeleteSnapshot r _ \<Rightarrow>
          (case a of SnapshotDeleted r' \<Rightarrow> r = r' | SnapshotError r' _ \<Rightarrow> r = r' | _ \<Rightarrow> False)
      | _ \<Rightarrow> False)"

lemma answers_ids: "answers q a \<Longrightarrow> request_id q \<noteq> None \<and> response_id a = request_id q"
  by (cases q) (auto simp: answers_def split: message.splits)

lemma no_request_is_response: "request_id m \<noteq> None \<Longrightarrow> response_id m = None"
  by (cases m) auto

end
