(* ===== verification/Connection.thy ===== *)
theory Connection
  imports Interfaces Protocol
begin

text \<open>
  One connected daemon as the server sees it (\<open>server/src/registry.rs\<close>, \<open>DaemonConnection\<close>
  and \<open>FileTransfer\<close>), with the channels it is wired to: the queue of requests towards the
  daemon's WebSocket task, the one-shot channels on which callers wait for a response, and the
  queues that carry the output of interactive sessions.

  A sender is the number of its channel. The value of the system clock is an argument
  (\<open>now\<close>, in seconds). The atomic and concurrent fields are updated through \<open>&self\<close> in the
  source, so every operation here takes the connection and returns it updated.
\<close>

section \<open>Channels\<close>

text \<open>An unbounded queue: sending fails exactly when the receiver is gone.\<close>

record 'a mpsc =
  queue :: "'a list"
  receiver_open :: bool

definition mpsc_new :: "'a mpsc" where
  "mpsc_new = \<lparr>queue = [], receiver_open = True\<rparr>"

definition mpsc_send :: "'a \<Rightarrow> 'a mpsc \<Rightarrow> bool \<times> 'a mpsc" where
  "mpsc_send x ch = (if receiver_open ch then (True, ch\<lparr>queue := queue ch @ [x]\<rparr>) else (False, ch))"

definition mpsc_recv :: "'a mpsc \<Rightarrow> 'a option \<times> 'a mpsc" where
  "mpsc_recv ch = (case queue ch of [] \<Rightarrow> (None, ch) | x # xs \<Rightarrow> (Some x, ch\<lparr>queue := xs\<rparr>))"

definition mpsc_close :: "'a mpsc \<Rightarrow> 'a mpsc" where
  "mpsc_close ch = ch\<lparr>queue := [], receiver_open := False\<rparr>"

text \<open>A one-shot channel: empty, holding the one value sent, or closed because one of its ends
  is gone without a value having been sent.\<close>

datatype oneshot = OsEmpty | OsSent message | OsClosed

fun os_send :: "message \<Rightarrow> oneshot \<Rightarrow> oneshot" where
  "os_send m OsEmpty = OsSent m"
| "os_send m s = s"

fun os_close :: "oneshot \<Rightarrow> oneshot" where
  "os_close OsEmpty = OsClosed"
| "os_close s = s"

record channels =
  req_chans :: "nat \<Rightarrow> message mpsc"
  oneshots :: "nat \<Rightarrow> oneshot"
  out_chans :: "nat \<Rightarrow> bytes mpsc"

definition channels_new :: channels where
  "channels_new = \<lparr>req_chans = (\<lambda>_. mpsc_new), oneshots = (\<lambda>_. OsEmpty), out_chans = (\<lambda>_. mpsc_new)\<rparr>"

section \<open>State\<close>

record file_transfer =
  ft_path :: string
  ft_chunks :: "bytes list"
  ft_total_size :: u64
  ft_received_size :: u64

record connection =
  conn_id :: string
  metadata :: daemon_metadata
  last_heartbeat :: u64
  connected_at :: u64
  request_tx :: nat
  pending_requests :: "nat hmap"
  sessions :: "nat hmap"
  file_transfers :: "file_transfer hmap"

definition connection_new :: "u64 \<Rightarrow> string \<Rightarrow> daemon_metadata \<Rightarrow> nat \<Rightarrow> connection" where
  "connection_new now i meta tx =
     \<lparr>conn_id = i, metadata = meta, last_heartbeat = now, connected_at = now, request_tx = tx,
      pending_requests = [], sessions = [], file_transfers = []\<rparr>"

section \<open>Heartbeats\<close>

definition update_heartbeat :: "u64 \<Rightarrow> connection \<Rightarrow> connection" where
  "update_heartbeat now c = c\<lparr>last_heartbeat := now\<rparr>"

definition seconds_since_heartbeat :: "u64 \<Rightarrow> connection \<Rightarrow> u64" where
  "seconds_since_heartbeat now c = sat_sub now (last_heartbeat c)"

section \<open>Requests\<close>

definition send_message :: "message \<Rightarrow> connection \<Rightarrow> channels \<Rightarrow> (string + unit) \<times> channels" where
  "send_message msg c chs =
     (case mpsc_send msg (req_chans chs (request_tx c)) of
        (False, ch) \<Rightarrow> (Inl ''Daemon channel closed'', chs)
      | (True, ch) \<Rightarrow> (Inr (), chs\<lparr>req_chans := (req_chans chs)(request_tx c := ch)\<rparr>))"

text \<open>Inserting under a taken id drops the sender stored there.\<close>

definition register_request :: "string \<Rightarrow> nat \<Rightarrow> connection \<times> channels \<Rightarrow> connection \<times> channels" where
  "register_request rid tx = (\<lambda>(c, chs).
     (c\<lparr>pending_requests := hm_insert rid tx (pending_requests c)\<rparr>,
      (case hm_get (pending_requests c) rid of
         None \<Rightarrow> chs
       | Some old \<Rightarrow> chs\<lparr>oneshots := (oneshots chs)(old := os_close (oneshots chs old))\<rparr>)))"

definition complete_request ::
  "string \<Rightarrow> message \<Rightarrow> connection \<times> channels \<Rightarrow> connection \<times> channels" where
  "complete_request rid response = (\<lambda>(c, chs).
     (case hm_get (pending_requests c) rid of
        None \<Rightarrow> (c, chs)
      | Some tx \<Rightarrow>
          (c\<lparr>pending_requests := hm_remove rid (pending_requests c)\<rparr>,
           chs\<lparr>oneshots := (oneshots chs)(tx := os_send response (oneshots chs tx))\<rparr>)))"

definition is_busy :: "connection \<Rightarrow> bool" where
  "is_busy c = (pending_requests c \<noteq> [])"

section \<open>Interactive sessions\<close>

definition register_session :: "string \<Rightarrow> nat \<Rightarrow> connection \<Rightarrow> connection" where
  "register_session sid tx c = c\<lparr>sessions := hm_insert sid tx (sessions c)\<rparr>"

definition send_session_output :: "string \<Rightarrow> bytes \<Rightarrow> connection \<Rightarrow> channels \<Rightarrow> channels" where
  "send_session_output sid data c chs =
     (case hm_get (sessions c) sid of
        None \<Rightarrow> chs
      | Some tx \<Rightarrow>
          chs\<lparr>out_chans := (out_chans chs)(tx := snd (mpsc_send data (out_chans chs tx)))\<rparr>)"

definition close_session :: "string \<Rightarrow> connection \<Rightarrow> connection" where
  "close_session sid c = c\<lparr>sessions := hm_remove sid (sessions c)\<rparr>"

section \<open>File transfers\<close>

definition start_file_transfer :: "string \<Rightarrow> string \<Rightarrow> u64 \<Rightarrow> connection \<Rightarrow> connection" where
  "start_file_transfer tid path total_size c =
     c\<lparr>file_transfers :=
         hm_insert tid \<lparr>ft_path = path, ft_chunks = [], ft_total_size = total_size, ft_received_size = 0\<rparr>
           (file_transfers c)\<rparr>"

definition add_file_chunk :: "string \<Rightarrow> bytes \<Rightarrow> connection \<Rightarrow> connection" where
  "add_file_chunk tid data c =
     (case hm_get (file_transfers c) tid of
        None \<Rightarrow> c
      | Some t \<Rightarrow>
          c\<lparr>file_transfers :=
              hm_insert tid
                (t\<lparr>ft_received_size := ft_received_size t + of_nat (length data),
                   ft_chunks := ft_chunks t @ [data]\<rparr>)
                (file_transfers c)\<rparr>)"

definition complete_file_transfer :: "string \<Rightarrow> connection \<Rightarrow> bytes option \<times> connection" where
  "complete_file_transfer tid c =
     (case hm_take tid (file_transfers c) of
        (t, rest) \<Rightarrow> (map_option (\<lambda>t. concat (ft_chunks t)) t, c\<lparr>file_transfers := rest\<rparr>))"

section \<open>Invariant\<close>

text \<open>The maps have one entry per key, and a transfer counts the bytes it has buffered.\<close>

definition transfer_ok :: "file_transfer \<Rightarrow> bool" where
  "transfer_ok t \<longleftrightarrow> ft_received_size t = of_nat (length (concat (ft_chunks t)))"

definition conn_ok :: "connection \<Rightarrow> bool" where
  "conn_ok c \<longleftrightarrow> hm_ok (pending_requests c) \<and> hm_ok (sessions c) \<and> hm_ok (file_transfers c) \<and>
     (\<forall>tid t. hm_get (file_transfers c) tid = Some t \<longrightarrow> transfer_ok t)"

lemma conn_ok_new [inv_intros]: "conn_ok (connection_new now i meta tx)"
  by (simp add: conn_ok_def connection_new_def)

lemma conn_ok_heartbeat [inv_intros]: "conn_ok c \<Longrightarrow> conn_ok (update_heartbeat now c)"
  by (simp add: conn_ok_def update_heartbeat_def)

lemma conn_ok_register_request [inv_intros]:
  "conn_ok (fst s) \<Longrightarrow> conn_ok (fst (register_request rid tx s))"
  by (cases s) (simp add: conn_ok_def register_request_def)

lemma conn_ok_complete_request [inv_intros]:
  "conn_ok (fst s) \<Longrightarrow> conn_ok (fst (complete_request rid m s))"
  by (cases s) (simp add: conn_ok_def complete_request_def split: option.splits)

lemma conn_ok_register_session [inv_intros]: "conn_ok c \<Longrightarrow> conn_ok (register_session sid tx c)"
  by (simp add: conn_ok_def register_session_def)

lemma conn_ok_close_session [inv_intros]: "conn_ok c \<Longrightarrow> conn_ok (close_session sid c)"
  by (simp add: conn_ok_def close_session_def)

lemma conn_ok_start_transfer [inv_intros]: "conn_ok c \<Longrightarrow> conn_ok (start_file_transfer tid p n c)"
  by (auto simp: conn_ok_def start_file_transfer_def transfer_ok_def)

lemma conn_ok_add_chunk [inv_intros]: "conn_ok c \<Longrightarrow> conn_ok (add_file_chunk tid d c)"
  by (auto simp: conn_ok_def add_file_chunk_def transfer_ok_def split: option.splits)

lemma conn_ok_complete_transfer [inv_intros]:
  "conn_ok c \<Longrightarrow> conn_ok (snd (complete_file_transfer tid c))"
  by (auto simp: conn_ok_def complete_file_transfer_def hm_take_def split: if_splits)

section \<open>The connection's maps as keyed stores\<close>

definition pending_get :: "connection \<times> channels \<Rightarrow> string \<Rightarrow> nat option" where
  "pending_get s rid = hm_get (pending_requests (fst s)) rid"

definition session_get :: "connection \<Rightarrow> string \<Rightarrow> nat option" where
  "session_get c sid = hm_get (sessions c) sid"

interpretation pend: key_store pending_get register_request
    "\<lambda>rid. complete_request rid response" "\<lambda>s. conn_ok (fst s)" for response
  by unfold_locales
    (auto simp: pending_get_def register_request_def complete_request_def conn_ok_def
      split: prod.splits option.splits)

interpretation sess: key_store session_get register_session close_session conn_ok
  by unfold_locales
    (auto simp: session_get_def register_session_def close_session_def conn_ok_def)

section \<open>Lemmas on the operations\<close>

lemma complete_request_delivers:
  assumes "pending_get (c, chs) rid = Some tx" and "oneshots chs tx = OsEmpty"
  shows "oneshots (snd (complete_request rid m (c, chs))) tx = OsSent m"
  using assms by (simp add: complete_request_def pending_get_def)

lemma complete_request_unknown:
  "pending_get s rid = None \<Longrightarrow> complete_request rid m s = s"
  by (cases s) (simp add: complete_request_def pending_get_def)

lemma complete_request_other_oneshot:
  "pending_get (c, chs) rid \<noteq> Some tx \<Longrightarrow>
     oneshots (snd (complete_request rid m (c, chs))) tx = oneshots chs tx"
  by (auto simp: complete_request_def pending_get_def split: option.splits)

lemma complete_request_frame [simp]:
  "req_chans (snd (complete_request rid m s)) = req_chans (snd s)"
  "out_chans (snd (complete_request rid m s)) = out_chans (snd s)"
  "conn_id (fst (complete_request rid m s)) = conn_id (fst s)"
  "request_tx (fst (complete_request rid m s)) = request_tx (fst s)"
  "last_heartbeat (fst (complete_request rid m s)) = last_heartbeat (fst s)"
  "metadata (fst (complete_request rid m s)) = metadata (fst s)"
  "connected_at (fst (complete_request rid m s)) = connected_at (fst s)"
  "sessions (fst (complete_request rid m s)) = sessions (fst s)"
  "file_transfers (fst (complete_request rid m s)) = file_transfers (fst s)"
  by (cases s; simp add: complete_request_def split: option.splits)+

lemma register_request_frame [simp]:
  "req_chans (snd (register_request rid tx s)) = req_chans (snd s)"
  "out_chans (snd (register_request rid tx s)) = out_chans (snd s)"
  "conn_id (fst (register_request rid tx s)) = conn_id (fst s)"
  "request_tx (fst (register_request rid tx s)) = request_tx (fst s)"
  "last_heartbeat (fst (register_request rid tx s)) = last_heartbeat (fst s)"
  "metadata (fst (register_request rid tx s)) = metadata (fst s)"
  "connected_at (fst (register_request rid tx s)) = connected_at (fst s)"
  "sessions (fst (register_request rid tx s)) = sessions (fst s)"
  "file_transfers (fst (register_request rid tx s)) = file_transfers (fst s)"
  by (cases s; simp add: register_request_def split: option.splits)+

lemma is_busy_iff: "is_busy c \<longleftrightarrow> (\<exists>rid. pending_get (c, chs) rid \<noteq> None)"
  by (simp add: is_busy_def pending_get_def hm_nonempty_iff)

lemma send_message_ok:
  "fst (send_message m c chs) = Inr () \<longleftrightarrow> receiver_open (req_chans chs (request_tx c))"
  by (simp add: send_message_def mpsc_send_def)

lemma send_message_queue:
  "queue (req_chans (snd (send_message m c chs)) ch) =
     (if ch = request_tx c \<and> receiver_open (req_chans chs ch)
      then queue (req_chans chs ch) @ [m] else queue (req_chans chs ch))"
  by (auto simp: send_message_def mpsc_send_def)

lemma send_message_frame [simp]:
  "oneshots (snd (send_message m c chs)) = oneshots chs"
  "out_chans (snd (send_message m c chs)) = out_chans chs"
  "receiver_open (req_chans (snd (send_message m c chs)) ch) = receiver_open (req_chans chs ch)"
  by (auto simp: send_message_def mpsc_send_def)

text \<open>The transfer that a run of chunks builds up.\<close>

lemma add_file_chunk_get:
  "hm_get (file_transfers (add_file_chunk tid d c)) tid' =
     (if tid' = tid
      then map_option (\<lambda>t. t\<lparr>ft_received_size := ft_received_size t + of_nat (length d),
                             ft_chunks := ft_chunks t @ [d]\<rparr>) (hm_get (file_transfers c) tid)
      else hm_get (file_transfers c) tid')"
  by (auto simp: add_file_chunk_def split: option.splits)

lemma add_file_chunks_get:
  "hm_get (file_transfers (fold (add_file_chunk tid) ds c)) tid =
     map_option (\<lambda>t. t\<lparr>ft_received_size := ft_received_size t + of_nat (length (concat ds)),
                       ft_chunks := ft_chunks t @ ds\<rparr>) (hm_get (file_transfers c) tid)"
proof (induction ds arbitrary: c)
  case Nil
  then show ?case by (cases "hm_get (file_transfers c) tid") simp_all
next
  case (Cons d ds)
  show ?case
    by (cases "hm_get (file_transfers c) tid")
      (simp_all add: Cons.IH add_file_chunk_get add.assoc)
qed

lemma complete_file_transfer_result:
  "fst (complete_file_transfer tid c) =
     map_option (\<lambda>t. concat (ft_chunks t)) (hm_get (file_transfers c) tid)"
  by (simp add: complete_file_transfer_def hm_take_def)

lemma seconds_since_heartbeat_nat:
  "unat (seconds_since_heartbeat now c) = unat now - unat (last_heartbeat c)"
  by (simp add: seconds_since_heartbeat_def unat_sat_sub)

end
