(* ===== verification/Registry.thy ===== *)
theory Registry
  imports Connection
begin

text \<open>
  The registry of connected daemons (\<open>server/src/registry.rs\<close>, \<open>DaemonRegistry\<close>,
  \<open>RegistryStats\<close>, \<open>DaemonInfo\<close>).

  The source maps a daemon id to an \<open>Arc<DaemonConnection>\<close>, and callers keep the \<open>Arc\<close>
  after the entry is gone or replaced. The model therefore has a heap of connections: an
  \<open>Arc\<close> is its number in the heap, and the registry maps ids to numbers. A pass over the
  map that reads the clock for every entry is given one clock value for the pass.
\<close>

section \<open>State\<close>

record registry =
  connections :: "nat hmap"
  heap :: "nat \<Rightarrow> connection"
  next_arc :: nat

definition dummy_connection :: connection where
  "dummy_connection = connection_new 0 [] \<lparr>hostname = [], platform = [], arch = [], version = [], labels = []\<rparr> 0"

definition registry_new :: registry where
  "registry_new = \<lparr>connections = [], heap = (\<lambda>_. dummy_connection), next_arc = 0\<rparr>"

text \<open>An operation through an \<open>Arc\<close> changes the connection in the heap.\<close>

definition update_arc :: "nat \<Rightarrow> (connection \<Rightarrow> connection) \<Rightarrow> registry \<Rightarrow> registry" where
  "update_arc a f reg = reg\<lparr>heap := (heap reg)(a := f (heap reg a))\<rparr>"

section \<open>Operations\<close>

definition register :: "connection \<Rightarrow> registry \<Rightarrow> nat \<times> registry" where
  "register conn reg =
     (let i = conn_id conn; a = next_arc reg
      in (a, reg\<lparr>heap := (heap reg)(a := conn), next_arc := Suc a,
                 connections := hm_insert i a (connections reg)\<rparr>))"

definition registry_get :: "registry \<Rightarrow> string \<Rightarrow> nat option" where
  "registry_get reg i = hm_get (connections reg) i"

definition registry_remove :: "string \<Rightarrow> registry \<Rightarrow> registry" where
  "registry_remove i reg = reg\<lparr>connections := hm_remove i (connections reg)\<rparr>"

definition label_match :: "string hmap option \<Rightarrow> connection \<Rightarrow> bool" where
  "label_match filter_labels conn =
     (case filter_labels of
        Some f \<Rightarrow>
          (if f \<noteq> []
           then list_all (\<lambda>(key, value).
                  (case hm_get (labels (metadata conn)) key of None \<Rightarrow> False | Some v \<Rightarrow> v = value)) f
           else True)
      | None \<Rightarrow> True)"

definition registry_list_all :: "string hmap option \<Rightarrow> registry \<Rightarrow> string list" where
  "registry_list_all filter_labels reg =
     map fst (filter (\<lambda>(_, a). label_match filter_labels (heap reg a)) (connections reg))"

definition registry_count :: "registry \<Rightarrow> nat" where
  "registry_count reg = length (connections reg)"

definition is_stale :: "u64 \<Rightarrow> u64 \<Rightarrow> connection \<Rightarrow> bool" where
  "is_stale now timeout_secs conn = (timeout_secs < seconds_since_heartbeat now conn)"

definition cleanup_stale :: "u64 \<Rightarrow> u64 \<Rightarrow> registry \<Rightarrow> nat \<times> registry" where
  "cleanup_stale now timeout_secs reg =
     (length (filter (\<lambda>(_, a). is_stale now timeout_secs (heap reg a)) (connections reg)),
      reg\<lparr>connections :=
            filter (\<lambda>(_, a). \<not> is_stale now timeout_secs (heap reg a)) (connections reg)\<rparr>)"

section \<open>Statistics\<close>

record daemon_info =
  di_hostname :: string
  di_platform :: string
  di_arch :: string
  di_version :: string
  di_labels :: "string hmap"
  di_is_busy :: bool
  di_connected_secs :: u64
  di_seconds_since_heartbeat :: u64

record registry_stats =
  total_daemons :: nat
  by_platform :: "nat hmap"
  oldest_connection_secs :: u64
  daemons :: "daemon_info hmap"

definition conn_age :: "u64 \<Rightarrow> connection \<Rightarrow> u64" where
  "conn_age now conn = sat_sub now (connected_at conn)"

definition daemon_info_of :: "u64 \<Rightarrow> connection \<Rightarrow> daemon_info" where
  "daemon_info_of now conn =
     \<lparr>di_hostname = hostname (metadata conn), di_platform = platform (metadata conn),
      di_arch = arch (metadata conn), di_version = version (metadata conn),
      di_labels = labels (metadata conn), di_is_busy = is_busy conn,
      di_connected_secs = conn_age now conn,
      di_seconds_since_heartbeat = seconds_since_heartbeat now conn\<rparr>"

definition count_of :: "nat hmap \<Rightarrow> string \<Rightarrow> nat" where
  "count_of m p = (case hm_get m p of None \<Rightarrow> 0 | Some n \<Rightarrow> n)"

definition stats_entry :: "u64 \<Rightarrow> connection \<Rightarrow> registry_stats \<Rightarrow> registry_stats" where
  "stats_entry now conn stats =
     (let p = platform (metadata conn); age = conn_age now conn
      in stats\<lparr>by_platform := hm_insert p (count_of (by_platform stats) p + 1) (by_platform stats),
               oldest_connection_secs :=
                 (if oldest_connection_secs stats < age then age else oldest_connection_secs stats),
               daemons := hm_insert (conn_id conn) (daemon_info_of now conn) (daemons stats)\<rparr>)"

definition get_stats :: "u64 \<Rightarrow> registry \<Rightarrow> registry_stats" where
  "get_stats now reg =
     fold (\<lambda>(_, a). stats_entry now (heap reg a)) (connections reg)
       \<lparr>total_daemons = registry_count reg, by_platform = [], oldest_connection_secs = 0, daemons = []\<rparr>"

section \<open>Invariant\<close>

text \<open>One entry per id; every entry's \<open>Arc\<close> is allocated and its connection has the entry's id;
  every allocated connection is well-formed.\<close>

definition reg_ok :: "registry \<Rightarrow> bool" where
  "reg_ok reg \<longleftrightarrow> hm_ok (connections reg) \<and>
     (\<forall>i a. registry_get reg i = Some a \<longrightarrow> a < next_arc reg \<and> conn_id (heap reg a) = i)"

definition heap_ok :: "registry \<Rightarrow> bool" where
  "heap_ok reg \<longleftrightarrow> (\<forall>a. conn_ok (heap reg a))"

lemma reg_ok_new [inv_intros]: "reg_ok registry_new"
  by (simp add: reg_ok_def registry_new_def registry_get_def)

lemma heap_ok_new [inv_intros]: "heap_ok registry_new"
  by (simp add: heap_ok_def registry_new_def dummy_connection_def conn_ok_new)

lemma register_arc: "fst (register conn reg) = next_arc reg"
  by (simp add: register_def Let_def)

lemma register_get:
  "registry_get (snd (register conn reg)) i =
     (if i = conn_id conn then Some (next_arc reg) else registry_get reg i)"
  by (simp add: register_def Let_def registry_get_def)

lemma register_heap:
  "heap (snd (register conn reg)) a = (if a = next_arc reg then conn else heap reg a)"
  by (simp add: register_def Let_def)

lemma register_next: "next_arc (snd (register conn reg)) = Suc (next_arc reg)"
  by (simp add: register_def Let_def)

lemma remove_get:
  "registry_get (registry_remove i reg) i' = (if i' = i then None else registry_get reg i')"
  by (simp add: registry_remove_def registry_get_def)

lemma remove_frame [simp]:
  "heap (registry_remove i reg) = heap reg" "next_arc (registry_remove i reg) = next_arc reg"
  by (simp_all add: registry_remove_def)

lemma cleanup_frame [simp]:
  "heap (snd (cleanup_stale now t reg)) = heap reg"
  "next_arc (snd (cleanup_stale now t reg)) = next_arc reg"
  by (simp_all add: cleanup_stale_def)

lemma update_arc_frame [simp]:
  "connections (update_arc a f reg) = connections reg"
  "next_arc (update_arc a f reg) = next_arc reg"
  "registry_get (update_arc a f reg) = registry_get reg"
  by (simp_all add: update_arc_def registry_get_def fun_eq_iff)

lemma update_arc_heap: "heap (update_arc a f reg) b = (if b = a then f (heap reg a) else heap reg b)"
  by (simp add: update_arc_def)

lemma reg_ok_register [inv_intros]: "reg_ok reg \<Longrightarrow> reg_ok (snd (register conn reg))"
proof -
  assume ok: "reg_ok reg"
  then have "hm_ok (connections (snd (register conn reg)))"
    by (simp add: reg_ok_def register_def Let_def)
  moreover have "a < next_arc (snd (register conn reg)) \<and> conn_id (heap (snd (register conn reg)) a) = i"
    if "registry_get (snd (register conn reg)) i = Some a" for i a
    using that ok
    by (auto simp: register_get register_heap register_next reg_ok_def less_Suc_eq split: if_splits)
  ultimately show ?thesis by (simp add: reg_ok_def)
qed

lemma reg_ok_remove [inv_intros]: "reg_ok reg \<Longrightarrow> reg_ok (registry_remove i reg)"
  by (auto simp: reg_ok_def remove_get registry_remove_def registry_get_def)

lemma cleanup_get:
  "reg_ok reg \<Longrightarrow> registry_get (snd (cleanup_stale now t reg)) i =
     (case registry_get reg i of
        None \<Rightarrow> None
      | Some a \<Rightarrow> if is_stale now t (heap reg a) then None else Some a)"
proof -
  assume "reg_ok reg"
  then have ok: "hm_ok (connections reg)" by (simp add: reg_ok_def)
  let ?P = "\<lambda>(_, a). \<not> is_stale now t (heap reg a)"
  have get: "registry_get (snd (cleanup_stale now t reg)) i = map_of (filter ?P (connections reg)) i"
    by (simp add: cleanup_stale_def registry_get_def)
  show ?thesis
  proof (cases "map_of (filter ?P (connections reg)) i")
    case None
    with hm_get_filter_None [OF ok, of ?P i] get show ?thesis
      by (auto simp: registry_get_def split: option.splits)
  next
    case (Some a)
    with hm_get_filter [OF ok, of ?P i a] get show ?thesis
      by (auto simp: registry_get_def)
  qed
qed

lemma reg_ok_cleanup [inv_intros]: "reg_ok reg \<Longrightarrow> reg_ok (snd (cleanup_stale now t reg))"
proof -
  assume ok: "reg_ok reg"
  then have "hm_ok (connections (snd (cleanup_stale now t reg)))"
    by (simp add: reg_ok_def cleanup_stale_def)
  moreover have "a < next_arc reg \<and> conn_id (heap reg a) = i"
    if "registry_get (snd (cleanup_stale now t reg)) i = Some a" for i a
    using that ok by (auto simp: cleanup_get reg_ok_def split: option.splits if_splits)
  ultimately show ?thesis by (simp add: reg_ok_def)
qed

lemma reg_ok_update_arc [inv_intros]:
  "reg_ok reg \<Longrightarrow> (\<And>c. conn_id (f c) = conn_id c) \<Longrightarrow> reg_ok (update_arc a f reg)"
  by (simp add: reg_ok_def update_arc_heap)

lemma heap_ok_update_arc [inv_intros]:
  "heap_ok reg \<Longrightarrow> (\<And>c. conn_ok c \<Longrightarrow> conn_ok (f c)) \<Longrightarrow> heap_ok (update_arc a f reg)"
  by (simp add: heap_ok_def update_arc_heap)

lemma heap_ok_register [inv_intros]:
  "heap_ok reg \<Longrightarrow> conn_ok conn \<Longrightarrow> heap_ok (snd (register conn reg))"
  by (simp add: heap_ok_def register_heap)

text \<open>The registry is a keyed store of connections.\<close>

definition registry_lookup :: "registry \<Rightarrow> string \<Rightarrow> connection option" where
  "registry_lookup reg i = map_option (heap reg) (registry_get reg i)"

lemma registry_lookup_register:
  assumes "reg_ok reg"
  shows "registry_lookup (snd (register conn reg)) i =
     (if i = conn_id conn then Some conn else registry_lookup reg i)"
proof (cases "registry_get reg i")
  case None
  then show ?thesis by (simp add: registry_lookup_def register_get register_heap)
next
  case (Some a)
  with assms have "a \<noteq> next_arc reg" by (auto simp: reg_ok_def)
  with Some show ?thesis by (simp add: registry_lookup_def register_get register_heap)
qed

lemma registry_lookup_remove:
  "registry_lookup (registry_remove i reg) i' = (if i' = i then None else registry_lookup reg i')"
  by (simp add: registry_lookup_def remove_get)

text \<open>What a registration leaves under an id, as the contract of a keyed store.\<close>

definition registration_of :: "registry \<Rightarrow> string \<Rightarrow> (u64 \<times> daemon_metadata \<times> nat) option" where
  "registration_of reg i =
     map_option (\<lambda>c. (connected_at c, metadata c, request_tx c)) (registry_lookup reg i)"

definition registry_admit :: "string \<Rightarrow> u64 \<times> daemon_metadata \<times> nat \<Rightarrow> registry \<Rightarrow> registry" where
  "registry_admit i r reg =
     (case r of (now, meta, tx) \<Rightarrow> snd (register (connection_new now i meta tx) reg))"

interpretation regs: key_store registration_of registry_admit registry_remove reg_ok
  by unfold_locales
    (auto simp: registration_of_def registry_admit_def registry_lookup_register
      registry_lookup_remove connection_new_def split: prod.splits intro: inv_intros)

section \<open>Lemmas on the passes over the registry\<close>

lemma connections_keys:
  "reg_ok reg \<Longrightarrow> (i, a) \<in> set (connections reg) \<Longrightarrow>
     a < next_arc reg \<and> conn_id (heap reg a) = i"
  by (simp add: reg_ok_def registry_get_def flip: hm_get_Some_iff)

lemma registry_get_iff:
  "reg_ok reg \<Longrightarrow> registry_get reg i = Some a \<longleftrightarrow> (i, a) \<in> set (connections reg)"
  by (simp add: reg_ok_def registry_get_def hm_get_Some_iff)

lemma cleanup_count:
  "fst (cleanup_stale now t reg) + registry_count (snd (cleanup_stale now t reg)) = registry_count reg"
proof -
  have "length (filter P xs) + length (filter (\<lambda>x. \<not> P x) xs) = length xs"
    for P and xs :: "(string \<times> nat) list"
    by (rule sum_length_filter_compl)
  from this [of "\<lambda>(_, a). is_stale now t (heap reg a)"] show ?thesis
    by (simp add: cleanup_stale_def registry_count_def case_prod_unfold)
qed

lemma is_stale_nat:
  "is_stale now t c \<longleftrightarrow> unat t < unat now - unat (last_heartbeat c)"
  by (simp add: is_stale_def word_less_nat_alt seconds_since_heartbeat_nat)

text \<open>The three running results of the statistics pass, each on its own.\<close>

lemma count_of_insert: "count_of (hm_insert p n m) q = (if q = p then n else count_of m q)"
  by (simp add: count_of_def)

lemma stats_entry_fields:
  "by_platform (stats_entry now c st) =
     hm_insert (platform (metadata c)) (count_of (by_platform st) (platform (metadata c)) + 1)
       (by_platform st)"
  "total_daemons (stats_entry now c st) = total_daemons st"
  "oldest_connection_secs (stats_entry now c st) = max (conn_age now c) (oldest_connection_secs st)"
  "daemons (stats_entry now c st) = hm_insert (conn_id c) (daemon_info_of now c) (daemons st)"
  by (auto simp: stats_entry_def Let_def max_def)

lemma stats_by_platform:
  "count_of (by_platform (fold (\<lambda>(_, a). stats_entry now (h a)) es st)) p =
     count_of (by_platform st) p + length (filter (\<lambda>(_, a). platform (metadata (h a)) = p) es)"
  by (induction es arbitrary: st) (auto simp: stats_entry_fields count_of_insert)

lemma stats_total [simp]:
  "total_daemons (fold (\<lambda>(_, a). stats_entry now (h a)) es st) = total_daemons st"
  by (induction es arbitrary: st) (auto simp: stats_entry_fields)

lemma stats_oldest:
  "oldest_connection_secs (fold (\<lambda>(_, a). stats_entry now (h a)) es st) =
     fold (\<lambda>(_, a). max (conn_age now (h a))) es (oldest_connection_secs st)"
  by (induction es arbitrary: st) (auto simp: stats_entry_fields)

lemma stats_daemons:
  "daemons (fold (\<lambda>(_, a). stats_entry now (h a)) es st) =
     fold (\<lambda>(k, v). hm_insert k v)
       (map (\<lambda>(_, a). (conn_id (h a), daemon_info_of now (h a))) es) (daemons st)"
  by (induction es arbitrary: st) (auto simp: stats_entry_fields)

end
