(* ===== verification/Wire.thy ===== *)
theory Wire
  imports Protocol "HOL-Library.Monad_Syntax"
begin

text \<open>
  The JSON form of the messages, as the attributes of \<open>protocol/src/lib.rs\<close> fix it: the variant's name in
  snake case under \<open>type\<close>, the fields under their names, defaults for omitted ones, \<open>null\<close> or nothing
  for an absent option, byte strings through \<open>base64_bytes\<close>.

  \<open>serde_json\<close> turns text into values and back; here a message is the members of its object, in order.
  A reader takes members in any order, ignores those it does not know, and refuses a member it knows
  that is given twice. A number is an integer; one that does not fit its field is refused. The base64
  engine is a parameter. That \<open>serde\<close> also reads an array in place of an object is not modelled.
\<close>

section \<open>Values\<close>

datatype json =
    JNull
  | JBool bool
  | JNum int
  | JStr string
  | JArr "json list"
  | JObj "(string \<times> json) list"

text \<open>The field of an object, as a reader of the statistics takes it.\<close>

fun json_get :: "json \<Rightarrow> string \<Rightarrow> json option" where
  "json_get (JObj fs) k = map_of fs k"
| "json_get _ k = None"

record base64 =
  b64_encode :: "bytes \<Rightarrow> string"
  b64_decode :: "string \<Rightarrow> bytes option"

section \<open>Writing\<close>

definition opt_json :: "('a \<Rightarrow> json) \<Rightarrow> 'a option \<Rightarrow> json" where
  "opt_json f x = (case x of None \<Rightarrow> JNull | Some y \<Rightarrow> f y)"

definition bytes_json :: "base64 \<Rightarrow> bytes \<Rightarrow> json" where
  "bytes_json w d = JStr (b64_encode w d)"

definition map_json :: "string hmap \<Rightarrow> json" where
  "map_json m = JObj (map (\<lambda>(k, v). (k, JStr v)) m)"

definition strs_json :: "string list \<Rightarrow> json" where
  "strs_json xs = JArr (map JStr xs)"

definition info_json :: "snapshot_info \<Rightarrow> json" where
  "info_json s = JObj
     [(''id'', JStr (si_id s)), (''created_at'', JNum (uint (si_created_at s))), (''message'', JStr (si_message s)),
      (''tags'', strs_json (si_tags s)), (''file_count'', JNum (int (si_file_count s))),
      (''total_size'', JNum (uint (si_total_size s)))]"

definition metadata_json :: "daemon_metadata \<Rightarrow> json" where
  "metadata_json md = JObj
     [(''hostname'', JStr (hostname md)), (''platform'', JStr (platform md)), (''arch'', JStr (arch md)),
      (''version'', JStr (version md)), (''labels'', map_json (labels md))]"

fun message_tag :: "message \<Rightarrow> string" where
  "message_tag (Register _ _) = ''register''"
| "message_tag (RegisterAck _ _) = ''register_ack''"
| "message_tag Heartbeat = ''heartbeat''"
| "message_tag (HeartbeatAck _ _) = ''heartbeat_ack''"
| "message_tag Pong = ''pong''"
| "message_tag (ExecuteCommand _ _ _ _ _) = ''execute_command''"
| "message_tag (CommandOutput _ _ _ _ _) = ''command_output''"
| "message_tag (CommandError _ _) = ''command_error''"
| "message_tag (NewSession _ _ _ _) = ''new_session''"
| "message_tag (SessionStarted _ _ _) = ''session_started''"
| "message_tag (SessionInput _ _) = ''session_input''"
| "message_tag (SessionOutput _ _) = ''session_output''"
| "message_tag (SessionResize _ _ _) = ''session_resize''"
| "message_tag (SessionClose _) = ''session_close''"
| "message_tag (SessionExit _ _) = ''session_exit''"
| "message_tag (FileUploadStart _ _ _ _) = ''file_upload_start''"
| "message_tag (FileUploadChunk _ _ _) = ''file_upload_chunk''"
| "message_tag (FileUploadComplete _ _ _) = ''file_upload_complete''"
| "message_tag (FileDownloadStart _ _) = ''file_download_start''"
| "message_tag (FileDownloadChunk _ _ _ _) = ''file_download_chunk''"
| "message_tag (FileDownloadError _ _) = ''file_download_error''"
| "message_tag (CreateSnapshot _ _ _ _) = ''create_snapshot''"
| "message_tag (SnapshotCreated _ _ _ _) = ''snapshot_created''"
| "message_tag (RestoreSnapshot _ _ _) = ''restore_snapshot''"
| "message_tag (SnapshotRestored _ _) = ''snapshot_restored''"
| "message_tag (ListSnapshots _ _) = ''list_snapshots''"
| "message_tag (SnapshotList _ _) = ''snapshot_list''"
| "message_tag (FindSnapshotByTag _ _) = ''find_snapshot_by_tag''"
| "message_tag (GetSnapshot _ _) = ''get_snapshot''"
| "message_tag (SnapshotDetails _ _) = ''snapshot_details''"
| "message_tag (DeleteSnapshot _ _) = ''delete_snapshot''"
| "message_tag (SnapshotDeleted _) = ''snapshot_deleted''"
| "message_tag (SnapshotError _ _) = ''snapshot_error''"
| "message_tag (Error _ _) = ''error''"

fun members :: "base64 \<Rightarrow> message \<Rightarrow> (string \<times> json) list" where
  "members w (Register i md) = [(''daemon_id'', JStr i), (''metadata'', metadata_json md)]"
| "members w (RegisterAck ok msg) = [(''success'', JBool ok), (''message'', JStr msg)]"
| "members w Heartbeat = []"
| "members w (HeartbeatAck ok why) = [(''success'', JBool ok), (''reason'', JStr why)]"
| "members w Pong = []"
| "members w (ExecuteCommand rid cmd secs env cwd) =
     [(''request_id'', JStr rid), (''command'', JStr cmd), (''timeout_secs'', JNum (uint secs)),
      (''env'', map_json env), (''cwd'', opt_json JStr cwd)]"
| "members w (CommandOutput rid out errs code ms) =
     [(''request_id'', JStr rid), (''stdout'', JStr out), (''stderr'', JStr errs),
      (''exit_code'', JNum (sint code)), (''duration_ms'', JNum (uint ms))]"
| "members w (CommandError rid err) = [(''request_id'', JStr rid), (''error'', JStr err)]"
| "members w (NewSession sid r c tm) =
     [(''session_id'', JStr sid), (''rows'', JNum (uint r)), (''cols'', JNum (uint c)),
      (''term'', JStr tm)]"
| "members w (SessionStarted sid ok err) =
     [(''session_id'', JStr sid), (''success'', JBool ok), (''error'', opt_json JStr err)]"
| "members w (SessionInput sid d) = [(''session_id'', JStr sid), (''data'', bytes_json w d)]"
| "members w (SessionOutput sid d) = [(''session_id'', JStr sid), (''data'', bytes_json w d)]"
| "members w (SessionResize sid r c) =
     [(''session_id'', JStr sid), (''rows'', JNum (uint r)), (''cols'', JNum (uint c))]"
| "members w (SessionClose sid) = [(''session_id'', JStr sid)]"
| "members w (SessionExit sid code) = [(''session_id'', JStr sid), (''exit_code'', JNum (sint code))]"
| "members w (FileUploadStart rid p len md) =
     [(''request_id'', JStr rid), (''path'', JStr p), (''total_size'', JNum (uint len)),
      (''mode'', opt_json (\<lambda>x. JNum (uint x)) md)]"
| "members w (FileUploadChunk rid d off) =
     [(''request_id'', JStr rid), (''data'', bytes_json w d), (''offset'', JNum (uint off))]"
| "members w (FileUploadComplete rid ok err) =
     [(''request_id'', JStr rid), (''success'', JBool ok), (''error'', opt_json JStr err)]"
| "members w (FileDownloadStart rid p) = [(''request_id'', JStr rid), (''path'', JStr p)]"
| "members w (FileDownloadChunk rid d off fin) =
     [(''request_id'', JStr rid), (''data'', bytes_json w d), (''offset'', JNum (uint off)),
      (''is_last'', JBool fin)]"
| "members w (FileDownloadError rid err) = [(''request_id'', JStr rid), (''error'', JStr err)]"
| "members w (CreateSnapshot rid ws msg tgs) =
     [(''request_id'', JStr rid), (''workspace'', JStr ws), (''message'', opt_json JStr msg),
      (''tags'', opt_json strs_json tgs)]"
| "members w (SnapshotCreated rid sn n len) =
     [(''request_id'', JStr rid), (''snapshot_id'', JStr sn), (''file_count'', JNum (int n)),
      (''total_size'', JNum (uint len))]"
| "members w (RestoreSnapshot rid sn dest) =
     [(''request_id'', JStr rid), (''snapshot_id'', JStr sn), (''destination'', JStr dest)]"
| "members w (SnapshotRestored rid n) = [(''request_id'', JStr rid), (''file_count'', JNum (int n))]"
| "members w (ListSnapshots rid tgs) = [(''request_id'', JStr rid), (''tags'', opt_json strs_json tgs)]"
| "members w (SnapshotList rid ss) = [(''request_id'', JStr rid), (''snapshots'', JArr (map info_json ss))]"
| "members w (FindSnapshotByTag rid tg) = [(''request_id'', JStr rid), (''tag'', JStr tg)]"
| "members w (GetSnapshot rid sn) = [(''request_id'', JStr rid), (''snapshot_id'', JStr sn)]"
| "members w (SnapshotDetails rid s) = [(''request_id'', JStr rid), (''snapshot'', opt_json info_json s)]"
| "members w (DeleteSnapshot rid sn) = [(''request_id'', JStr rid), (''snapshot_id'', JStr sn)]"
| "members w (SnapshotDeleted rid) = [(''request_id'', JStr rid)]"
| "members w (SnapshotError rid err) = [(''request_id'', JStr rid), (''error'', JStr err)]"
| "members w (Error msg rec) = [(''message'', JStr msg), (''recoverable'', JBool rec)]"

definition to_object :: "base64 \<Rightarrow> message \<Rightarrow> (string \<times> json) list" where
  "to_object w m = (''type'', JStr (message_tag m)) # members w m"

section \<open>Reading\<close>

fun as_str :: "json \<Rightarrow> string option" where
  "as_str (JStr s) = Some s"
| "as_str _ = None"

fun as_bool :: "json \<Rightarrow> bool option" where
  "as_bool (JBool b) = Some b"
| "as_bool _ = None"

definition as_uint :: "json \<Rightarrow> 'a :: len word option" where
  "as_uint j = (case j of
     JNum n \<Rightarrow> if 0 \<le> n \<and> n < 2 ^ LENGTH('a) then Some (word_of_int n) else None
   | _ \<Rightarrow> None)"

definition as_sint :: "json \<Rightarrow> i32 option" where
  "as_sint j = (case j of
     JNum n \<Rightarrow> if - (2 ^ 31) \<le> n \<and> n < 2 ^ 31 then Some (word_of_int n) else None
   | _ \<Rightarrow> None)"

text \<open>A \<open>usize\<close> has 64 bits.\<close>

definition as_size :: "json \<Rightarrow> nat option" where
  "as_size j = (case j of
     JNum n \<Rightarrow> if 0 \<le> n \<and> n < 2 ^ 64 then Some (nat n) else None
   | _ \<Rightarrow> None)"

definition as_bytes :: "base64 \<Rightarrow> json \<Rightarrow> bytes option" where
  "as_bytes w j = (case as_str j of None \<Rightarrow> None | Some s \<Rightarrow> b64_decode w s)"

fun all_some :: "'a option list \<Rightarrow> 'a list option" where
  "all_some [] = Some []"
| "all_some (x # xs) = do { y \<leftarrow> x; ys \<leftarrow> all_some xs; Some (y # ys) }"

definition as_list :: "(json \<Rightarrow> 'a option) \<Rightarrow> json \<Rightarrow> 'a list option" where
  "as_list f j = (case j of JArr js \<Rightarrow> all_some (map f js) | _ \<Rightarrow> None)"

definition as_strs :: "json \<Rightarrow> string list option" where
  "as_strs = as_list as_str"

text \<open>A later value of a key replaces an earlier one.\<close>

definition as_map :: "json \<Rightarrow> string hmap option" where
  "as_map j = (case j of
     JObj kvs \<Rightarrow>
       map_option (\<lambda>vs. fold (\<lambda>(k, v). hm_insert k v) (zip (map fst kvs) vs) [])
         (all_some (map (\<lambda>(k, v). as_str v) kvs))
   | _ \<Rightarrow> None)"

definition as_option :: "(json \<Rightarrow> 'a option) \<Rightarrow> json \<Rightarrow> 'a option option" where
  "as_option f j = (if j = JNull then Some None else map_option Some (f j))"

text \<open>The members of one name: a field that must be there, one with a default, and an option.\<close>

definition values_of :: "(string \<times> json) list \<Rightarrow> string \<Rightarrow> json list" where
  "values_of fs k = map snd (filter (\<lambda>(n, _). n = k) fs)"

definition with_default :: "(string \<times> json) list \<Rightarrow> string \<Rightarrow> 'a \<Rightarrow> (json \<Rightarrow> 'a option) \<Rightarrow> 'a option" where
  "with_default fs k d f = (case values_of fs k of [] \<Rightarrow> Some d | [j] \<Rightarrow> f j | _ \<Rightarrow> None)"

definition required :: "(string \<times> json) list \<Rightarrow> string \<Rightarrow> (json \<Rightarrow> 'a option) \<Rightarrow> 'a option" where
  "required fs k f = (case values_of fs k of [j] \<Rightarrow> f j | _ \<Rightarrow> None)"

definition optional :: "(string \<times> json) list \<Rightarrow> string \<Rightarrow> (json \<Rightarrow> 'a option) \<Rightarrow> 'a option option" where
  "optional fs k f = with_default fs k None (as_option f)"

definition as_info :: "json \<Rightarrow> snapshot_info option" where
  "as_info j = (case j of
     JObj fs \<Rightarrow>
       do { i \<leftarrow> required fs ''id'' as_str; t \<leftarrow> required fs ''created_at'' as_uint;
          msg \<leftarrow> required fs ''message'' as_str; tgs \<leftarrow> required fs ''tags'' as_strs;
          n \<leftarrow> required fs ''file_count'' as_size; len \<leftarrow> required fs ''total_size'' as_uint;
          Some \<lparr>si_id = i, si_created_at = t, si_message = msg, si_tags = tgs, si_file_count = n,
            si_total_size = len\<rparr> }
   | _ \<Rightarrow> None)"

definition as_metadata :: "json \<Rightarrow> daemon_metadata option" where
  "as_metadata j = (case j of
     JObj fs \<Rightarrow>
       do { h \<leftarrow> required fs ''hostname'' as_str; pf \<leftarrow> required fs ''platform'' as_str;
          a \<leftarrow> required fs ''arch'' as_str; v \<leftarrow> with_default fs ''version'' [] as_str;
          ls \<leftarrow> with_default fs ''labels'' [] as_map;
          Some \<lparr>hostname = h, platform = pf, arch = a, version = v, labels = ls\<rparr> }
   | _ \<Rightarrow> None)"

definition variants :: "base64 \<Rightarrow> (string \<times> ((string \<times> json) list \<Rightarrow> message option)) list" where
  "variants w =
     [(''register'', \<lambda>fs.
        do { i \<leftarrow> required fs ''daemon_id'' as_str;
          md \<leftarrow> required fs ''metadata'' as_metadata; Some (Register i md) }),
      (''register_ack'', \<lambda>fs.
        do { ok \<leftarrow> required fs ''success'' as_bool;
          msg \<leftarrow> required fs ''message'' as_str; Some (RegisterAck ok msg) }),
      (''heartbeat'', \<lambda>fs. Some Heartbeat),
      (''heartbeat_ack'', \<lambda>fs.
        do { ok \<leftarrow> required fs ''success'' as_bool;
          why \<leftarrow> required fs ''reason'' as_str; Some (HeartbeatAck ok why) }),
      (''pong'', \<lambda>fs. Some Pong),
      (''execute_command'', \<lambda>fs.
        do { rid \<leftarrow> required fs ''request_id'' as_str;
          cmd \<leftarrow> required fs ''command'' as_str;
          secs \<leftarrow> with_default fs ''timeout_secs'' default_timeout as_uint;
          env \<leftarrow> with_default fs ''env'' [] as_map;
          cwd \<leftarrow> optional fs ''cwd'' as_str;
          Some (ExecuteCommand rid cmd secs env cwd) }),
      (''command_output'', \<lambda>fs.
        do { rid \<leftarrow> required fs ''request_id'' as_str;
          out \<leftarrow> required fs ''stdout'' as_str;
          errs \<leftarrow> required fs ''stderr'' as_str;
          code \<leftarrow> required fs ''exit_code'' as_sint;
          ms \<leftarrow> required fs ''duration_ms'' as_uint;
          Some (CommandOutput rid out errs code ms) }),
      (''command_error'', \<lambda>fs.
        do { rid \<leftarrow> required fs ''request_id'' as_str;
          err \<leftarrow> required fs ''error'' as_str; Some (CommandError rid err) }),
      (''new_session'', \<lambda>fs.
        do { sid \<leftarrow> required fs ''session_id'' as_str;
          r \<leftarrow> required fs ''rows'' as_uint; c \<leftarrow> required fs ''cols'' as_uint;
          tm \<leftarrow> with_default fs ''term'' default_term as_str;
          Some (NewSession sid r c tm) }),
      (''session_started'', \<lambda>fs.
        do { sid \<leftarrow> required fs ''session_id'' as_str;
          ok \<leftarrow> required fs ''success'' as_bool;
          err \<leftarrow> optional fs ''error'' as_str; Some (SessionStarted sid ok err) }),
      (''session_input'', \<lambda>fs.
        do { sid \<leftarrow> required fs ''session_id'' as_str;
          d \<leftarrow> required fs ''data'' (as_bytes w); Some (SessionInput sid d) }),
      (''session_output'', \<lambda>fs.
        do { sid \<leftarrow> required fs ''session_id'' as_str;
          d \<leftarrow> required fs ''data'' (as_bytes w); Some (SessionOutput sid d) }),
      (''session_resize'', \<lambda>fs.
        do { sid \<leftarrow> required fs ''session_id'' as_str;
          r \<leftarrow> required fs ''rows'' as_uint; c \<leftarrow> required fs ''cols'' as_uint;
          Some (SessionResize sid r c) }),
      (''session_close'', \<lambda>fs.
        do { sid \<leftarrow> required fs ''session_id'' as_str; Some (SessionClose sid) }),
      (''session_exit'', \<lambda>fs.
        do { sid \<leftarrow> required fs ''session_id'' as_str;
          code \<leftarrow> required fs ''exit_code'' as_sint; Some (SessionExit sid code) }),
      (''file_upload_start'', \<lambda>fs.
        do { rid \<leftarrow> required fs ''request_id'' as_str;
          p \<leftarrow> required fs ''path'' as_str;
          len \<leftarrow> required fs ''total_size'' as_uint;
          md \<leftarrow> optional fs ''mode'' as_uint; Some (FileUploadStart rid p len md) }),
      (''file_upload_chunk'', \<lambda>fs.
        do { rid \<leftarrow> required fs ''request_id'' as_str;
          d \<leftarrow> required fs ''data'' (as_bytes w);
          off \<leftarrow> required fs ''offset'' as_uint; Some (FileUploadChunk rid d off) }),
      (''file_upload_complete'', \<lambda>fs.
        do { rid \<leftarrow> required fs ''request_id'' as_str;
          ok \<leftarrow> required fs ''success'' as_bool;
          err \<leftarrow> optional fs ''error'' as_str; Some (FileUploadComplete rid ok err) }),
      (''file_download_start'', \<lambda>fs.
        do { rid \<leftarrow> required fs ''request_id'' as_str;
          p \<leftarrow> required fs ''path'' as_str; Some (FileDownloadStart rid p) }),
      (''file_download_chunk'', \<lambda>fs.
        do { rid \<leftarrow> required fs ''request_id'' as_str;
          d \<leftarrow> required fs ''data'' (as_bytes w);
          off \<leftarrow> required fs ''offset'' as_uint;
          fin \<leftarrow> required fs ''is_last'' as_bool;
          Some (FileDownloadChunk rid d off fin) }),
      (''file_download_error'', \<lambda>fs.
        do { rid \<leftarrow> required fs ''request_id'' as_str;
          err \<leftarrow> required fs ''error'' as_str; Some (FileDownloadError rid err) }),
      (''create_snapshot'', \<lambda>fs.
        do { rid \<leftarrow> required fs ''request_id'' as_str;
          ws \<leftarrow> required fs ''workspace'' as_str;
          msg \<leftarrow> optional fs ''message'' as_str;
          tgs \<leftarrow> optional fs ''tags'' as_strs; Some (CreateSnapshot rid ws msg tgs) }),
      (''snapshot_created'', \<lambda>fs.
        do { rid \<leftarrow> required fs ''request_id'' as_str;
          sn \<leftarrow> required fs ''snapshot_id'' as_str;
          n \<leftarrow> required fs ''file_count'' as_size;
          len \<leftarrow> required fs ''total_size'' as_uint;
          Some (SnapshotCreated rid sn n len) }),
      (''restore_snapshot'', \<lambda>fs.
        do { rid \<leftarrow> required fs ''request_id'' as_str;
          sn \<leftarrow> required fs ''snapshot_id'' as_str;
          dest \<leftarrow> required fs ''destination'' as_str;
          Some (RestoreSnapshot rid sn dest) }),
      (''snapshot_restored'', \<lambda>fs.
        do { rid \<leftarrow> required fs ''request_id'' as_str;
          n \<leftarrow> required fs ''file_count'' as_size; Some (SnapshotRestored rid n) }),
      (''list_snapshots'', \<lambda>fs.
        do { rid \<leftarrow> required fs ''request_id'' as_str;
          tgs \<leftarrow> optional fs ''tags'' as_strs; Some (ListSnapshots rid tgs) }),
      (''snapshot_list'', \<lambda>fs.
        do { rid \<leftarrow> required fs ''request_id'' as_str;
          ss \<leftarrow> required fs ''snapshots'' (as_list as_info);
          Some (SnapshotList rid ss) }),
      (''find_snapshot_by_tag'', \<lambda>fs.
        do { rid \<leftarrow> required fs ''request_id'' as_str;
          tg \<leftarrow> required fs ''tag'' as_str; Some (FindSnapshotByTag rid tg) }),
      (''get_snapshot'', \<lambda>fs.
        do { rid \<leftarrow> required fs ''request_id'' as_str;
          sn \<leftarrow> required fs ''snapshot_id'' as_str; Some (GetSnapshot rid sn) }),
      (''snapshot_details'', \<lambda>fs.
        do { rid \<leftarrow> required fs ''request_id'' as_str;
          s \<leftarrow> optional fs ''snapshot'' as_info; Some (SnapshotDetails rid s) }),
      (''delete_snapshot'', \<lambda>fs.
        do { rid \<leftarrow> required fs ''request_id'' as_str;
          sn \<leftarrow> required fs ''snapshot_id'' as_str; Some (DeleteSnapshot rid sn) }),
      (''snapshot_deleted'', \<lambda>fs.
        do { rid \<leftarrow> required fs ''request_id'' as_str; Some (SnapshotDeleted rid) }),
      (''snapshot_error'', \<lambda>fs.
        do { rid \<leftarrow> required fs ''request_id'' as_str;
          err \<leftarrow> required fs ''error'' as_str; Some (SnapshotError rid err) }),
      (''error'', \<lambda>fs.
        do { msg \<leftarrow> required fs ''message'' as_str;
          rec \<leftarrow> with_default fs ''recoverable'' False as_bool; Some (Error msg rec) })]"

definition of_object :: "base64 \<Rightarrow> (string \<times> json) list \<Rightarrow> message option" where
  "of_object w fs =
     do { t \<leftarrow> required fs ''type'' as_str;
        read \<leftarrow> map_of (variants w) t;
        read (filter (\<lambda>(n, _). n \<noteq> ''type'') fs) }"

section \<open>Finding a variant\<close>

fun variant_index :: "message \<Rightarrow> nat" where
  "variant_index (Register _ _) = 0"
| "variant_index (RegisterAck _ _) = 1"
| "variant_index Heartbeat = 2"
| "variant_index (HeartbeatAck _ _) = 3"
| "variant_index Pong = 4"
| "variant_index (ExecuteCommand _ _ _ _ _) = 5"
| "variant_index (CommandOutput _ _ _ _ _) = 6"
| "variant_index (CommandError _ _) = 7"
| "variant_index (NewSession _ _ _ _) = 8"
| "variant_index (SessionStarted _ _ _) = 9"
| "variant_index (SessionInput _ _) = 10"
| "variant_index (SessionOutput _ _) = 11"
| "variant_index (SessionResize _ _ _) = 12"
| "variant_index (SessionClose _) = 13"
| "variant_index (SessionExit _ _) = 14"
| "variant_index (FileUploadStart _ _ _ _) = 15"
| "variant_index (FileUploadChunk _ _ _) = 16"
| "variant_index (FileUploadComplete _ _ _) = 17"
| "variant_index (FileDownloadStart _ _) = 18"
| "variant_index (FileDownloadChunk _ _ _ _) = 19"
| "variant_index (FileDownloadError _ _) = 20"
| "variant_index (CreateSnapshot _ _ _ _) = 21"
| "variant_index (SnapshotCreated _ _ _ _) = 22"
| "variant_index (RestoreSnapshot _ _ _) = 23"
| "variant_index (SnapshotRestored _ _) = 24"
| "variant_index (ListSnapshots _ _) = 25"
| "variant_index (SnapshotList _ _) = 26"
| "variant_index (FindSnapshotByTag _ _) = 27"
| "variant_index (GetSnapshot _ _) = 28"
| "variant_index (SnapshotDetails _ _) = 29"
| "variant_index (DeleteSnapshot _ _) = 30"
| "variant_index (SnapshotDeleted _) = 31"
| "variant_index (SnapshotError _ _) = 32"
| "variant_index (Error _ _) = 33"

lemma variant_at: "variants w ! variant_index m = (message_tag m, snd (variants w ! variant_index m))"
  "variant_index m < length (variants w)"
  by (cases m; simp add: variants_def)+

lemma variants_distinct: "distinct (map fst (variants w))"
  by code_simp

text \<open>The reader for a message's type.\<close>

lemma variant_found: "map_of (variants w) (message_tag m) = Some (snd (variants w ! variant_index m))"
  using nth_mem [OF variant_at(2) [of m w]] variants_distinct [of w] variant_at(1) [of w m]
  by (intro map_of_is_SomeI) simp_all

section \<open>Round trip\<close>

lemma values_of_simps [simp]:
  "values_of [] k = []"
  "values_of ((n, j) # fs) k = (if n = k then j # values_of fs k else values_of fs k)"
  by (simp_all add: values_of_def)

lemma values_of_tagless [simp]:
  "k \<noteq> ''type'' \<Longrightarrow> values_of (filter (\<lambda>(n, _). n \<noteq> ''type'') fs) k = values_of fs k"
  by (induction fs) auto

lemma all_some_map: "(\<And>x. x \<in> set xs \<Longrightarrow> f x = Some (g x)) \<Longrightarrow> all_some (map f xs) = Some (map g xs)"
  by (induction xs) auto

lemma as_uint_uint [simp]: "as_uint (JNum (uint x)) = Some x"
  using unsigned_less [where 'a = int, of x] by (simp add: as_uint_def)

lemma as_sint_sint [simp]: "as_sint (JNum (sint (x :: i32))) = Some x"
  using sint_ge [of x] sint_lt [of x] by (simp add: as_sint_def)

lemma as_size_int [simp]: "n < 2 ^ 64 \<Longrightarrow> as_size (JNum (int n)) = Some n"
  by (simp add: as_size_def)

lemma as_strs_json [simp]: "as_strs (strs_json xs) = Some xs"
  by (simp add: as_strs_def as_list_def strs_json_def all_some_map [where g = "\<lambda>x. x"] comp_def)

lemma insert_all: "hm_ok (ys @ xs) \<Longrightarrow> fold (\<lambda>(k, v). hm_insert k v) xs ys = ys @ xs"
proof (induction xs arbitrary: ys)
  case (Cons x xs)
  obtain k v where x: "x = (k, v)" by (cases x)
  have "AList.update k v ys = ys @ [(k, v)]"
    using Cons.prems unfolding x by (induction ys) (auto simp: hm_ok_def)
  with Cons.IH [of "ys @ [(k, v)]"] Cons.prems show ?case by (simp add: x)
qed simp

lemma as_map_json [simp]: "hm_ok m \<Longrightarrow> as_map (map_json m) = Some m"
proof -
  assume "hm_ok m"
  have "all_some (map (\<lambda>(k, v). as_str v) (map (\<lambda>(k, v). (k, JStr v)) m)) = Some (map snd m)"
    by (simp add: comp_def case_prod_unfold all_some_map [where g = snd])
  moreover have "zip (map fst (map (\<lambda>(k, v). (k, JStr v)) m)) (map snd m) = m"
    by (induction m) auto
  ultimately show "as_map (map_json m) = Some m"
    using insert_all [of "[]" m] \<open>hm_ok m\<close> by (simp add: as_map_def map_json_def)
qed

lemma json_not_null [simp]:
  "strs_json xs \<noteq> JNull" "info_json s \<noteq> JNull" "map_json m \<noteq> JNull"
  by (simp_all add: strs_json_def info_json_def map_json_def)

lemma as_option_json [simp]:
  "(\<And>x. f x \<noteq> JNull) \<Longrightarrow> (\<And>x. v = Some x \<Longrightarrow> g (f x) = Some x) \<Longrightarrow> as_option g (opt_json f v) = Some v"
  by (cases v) (simp_all add: as_option_def opt_json_def)

text \<open>Counts of a \<open>usize\<close> have 64 bits, and maps have distinct keys.\<close>

definition info_ok :: "snapshot_info \<Rightarrow> bool" where
  "info_ok s \<longleftrightarrow> si_file_count s < 2 ^ 64"

fun message_ok :: "message \<Rightarrow> bool" where
  "message_ok (Register _ md) = hm_ok (labels md)"
| "message_ok (ExecuteCommand _ _ _ env _) = hm_ok env"
| "message_ok (SnapshotCreated _ _ n _) = (n < 2 ^ 64)"
| "message_ok (SnapshotRestored _ n) = (n < 2 ^ 64)"
| "message_ok (SnapshotList _ ss) = list_all info_ok ss"
| "message_ok (SnapshotDetails _ s) = (case s of None \<Rightarrow> True | Some i \<Rightarrow> info_ok i)"
| "message_ok _ = True"

lemma as_info_json [simp]: "info_ok s \<Longrightarrow> as_info (info_json s) = Some s"
  by (simp add: as_info_def info_json_def required_def info_ok_def)

lemma as_metadata_json [simp]: "hm_ok (labels md) \<Longrightarrow> as_metadata (metadata_json md) = Some md"
  by (simp add: as_metadata_def metadata_json_def required_def with_default_def)

lemma as_infos_json [simp]: "list_all info_ok ss \<Longrightarrow> as_list as_info (JArr (map info_json ss)) = Some ss"
  by (simp add: as_list_def list_all_iff all_some_map [where g = "\<lambda>x. x"] comp_def)

text \<open>The fields of a message that may be left out, because they hold their default.\<close>

fun omissible :: "message \<Rightarrow> string list" where
  "omissible (ExecuteCommand _ _ secs env cwd) =
     (if secs = default_timeout then [''timeout_secs''] else []) @ (if env = [] then [''env''] else []) @
     (if cwd = None then [''cwd''] else [])"
| "omissible (NewSession _ _ _ tm) = (if tm = default_term then [''term''] else [])"
| "omissible (SessionStarted _ _ err) = (if err = None then [''error''] else [])"
| "omissible (FileUploadStart _ _ _ md) = (if md = None then [''mode''] else [])"
| "omissible (FileUploadComplete _ _ err) = (if err = None then [''error''] else [])"
| "omissible (CreateSnapshot _ _ msg tgs) =
     (if msg = None then [''message''] else []) @ (if tgs = None then [''tags''] else [])"
| "omissible (ListSnapshots _ tgs) = (if tgs = None then [''tags''] else [])"
| "omissible (SnapshotDetails _ s) = (if s = None then [''snapshot''] else [])"
| "omissible (Error _ rec) = (if rec then [] else [''recoverable''])"
| "omissible _ = []"

text \<open>What a field's reader makes of the members that a well-formed object has for it.\<close>

lemma read_fields:
  "values_of fs k = [j] \<Longrightarrow> required fs k f = f j"
  "values_of fs k = [j] \<or> d = f' \<and> values_of fs k = [] \<Longrightarrow> f j = Some f' \<Longrightarrow> with_default fs k d f = Some f'"
  by (auto simp: required_def with_default_def)

lemma read_optional:
  "values_of fs k = [j] \<or> v = None \<and> values_of fs k = [] \<Longrightarrow> as_option f j = Some v \<Longrightarrow> optional fs k f = Some v"
  by (auto simp: optional_def with_default_def)

lemmas field_readers = read_fields read_optional

lemma optional_json:
  "(\<And>x. f x \<noteq> JNull) \<Longrightarrow> (\<And>x. v = Some x \<Longrightarrow> g (f x) = Some x) \<Longrightarrow>
   values_of fs k = [opt_json f v] \<or> v = None \<and> values_of fs k = [] \<Longrightarrow> optional fs k g = Some v"
  by (erule read_optional) (rule as_option_json; blast)

lemma optional_str [simp]:
  "values_of fs k = [opt_json JStr v] \<or> v = None \<and> values_of fs k = [] \<Longrightarrow> optional fs k as_str = Some v"
  by (rule optional_json) auto

lemma optional_uint [simp]:
  "values_of fs k = [opt_json (\<lambda>x. JNum (uint x)) v] \<or> v = None \<and> values_of fs k = [] \<Longrightarrow>
     optional fs k as_uint = Some v"
  by (rule optional_json) auto

lemma optional_strs [simp]:
  "values_of fs k = [opt_json strs_json v] \<or> v = None \<and> values_of fs k = [] \<Longrightarrow> optional fs k as_strs = Some v"
  by (rule optional_json) auto

lemma optional_info [simp]:
  "values_of fs k = [opt_json info_json v] \<or> v = None \<and> values_of fs k = [] \<Longrightarrow>
     (case v of None \<Rightarrow> True | Some s \<Rightarrow> info_ok s) \<Longrightarrow> optional fs k as_info = Some v"
  by (rule optional_json) auto

text \<open>An object that has, for every field of a message, the member that is written for it, or none when
  the field holds its default.\<close>

definition carries :: "base64 \<Rightarrow> message \<Rightarrow> (string \<times> json) list \<Rightarrow> bool" where
  "carries w m fs \<longleftrightarrow> values_of fs ''type'' = [JStr (message_tag m)] \<and>
     list_all (\<lambda>(k, j). values_of fs k = [j] \<or> k \<in> set (omissible m) \<and> values_of fs k = []) (members w m)"

lemma variant_reads:
  assumes "\<And>d. b64_decode w (b64_encode w d) = Some d" and "message_ok m" and "carries w m fs"
  shows "Option.bind (map_of (variants w) (message_tag m)) (\<lambda>r. r (filter (\<lambda>(n, _). n \<noteq> ''type'') fs)) = Some m"
  using assms
  unfolding variant_found
  by (cases m) (auto simp: carries_def variants_def required_def with_default_def as_bytes_def bytes_json_def
      split: if_splits)

text \<open>C14. A message survives the wire: whatever object holds its type and its members, in any order, with any
  further members of other names, and with or without the members that hold their default, is read
  as that message. In particular what one side writes the other side reads, a newer peer may add
  members, and an older one may leave the optional ones out.\<close>

theorem message_round_trip:
  assumes "\<And>d. b64_decode w (b64_encode w d) = Some d" and "message_ok m" and "carries w m fs"
  shows "of_object w fs = Some m"
  using variant_reads [OF assms] assms(3) by (simp add: of_object_def required_def carries_def)

text \<open>Any injective coding will do; here a byte is a character.\<close>

definition demo_base64 :: base64 where
  "demo_base64 = \<lparr>b64_encode = map (\<lambda>b. char_of (unat b)), b64_decode = (\<lambda>s. Some (map (\<lambda>c. of_nat (of_char c)) s))\<rparr>"

lemma demo_base64_law: "b64_decode demo_base64 (b64_encode demo_base64 d) = Some d"
proof -
  have "unat b < 256" for b :: u8 using unsigned_less [where 'a = nat, of b] by simp
  then show ?thesis by (simp add: demo_base64_def comp_def)
qed

theorem message_round_trip_witness:
  "of_object demo_base64
     [(''command'', JStr ''ls''), (''hint'', JNull), (''request_id'', JStr ''r1''), (''type'', JStr ''execute_command''),
      (''env'', JObj [(''A'', JStr ''1'')])] =
     Some (ExecuteCommand ''r1'' ''ls'' default_timeout [(''A'', ''1'')] None) \<and>
   of_object demo_base64 (to_object demo_base64 (SessionInput ''s1'' [104, 105])) = Some (SessionInput ''s1'' [104, 105])"
proof (intro conjI)
  have ok: "message_ok (ExecuteCommand ''r1'' ''ls'' default_timeout [(''A'', ''1'')] None)"
    by (simp add: hm_ok_def)
  have c: "carries demo_base64 (ExecuteCommand ''r1'' ''ls'' default_timeout [(''A'', ''1'')] None)
     [(''command'', JStr ''ls''), (''hint'', JNull), (''request_id'', JStr ''r1''), (''type'', JStr ''execute_command''),
      (''env'', JObj [(''A'', JStr ''1'')])]"
    by (simp add: carries_def map_json_def)
  show "of_object demo_base64
     [(''command'', JStr ''ls''), (''hint'', JNull), (''request_id'', JStr ''r1''), (''type'', JStr ''execute_command''),
      (''env'', JObj [(''A'', JStr ''1'')])] =
     Some (ExecuteCommand ''r1'' ''ls'' default_timeout [(''A'', ''1'')] None)"
    by (rule message_round_trip [OF demo_base64_law ok c])
  show "of_object demo_base64 (to_object demo_base64 (SessionInput ''s1'' [104, 105])) = Some (SessionInput ''s1'' [104, 105])"
    by (rule message_round_trip [OF demo_base64_law]) (simp_all add: carries_def to_object_def)
qed

text \<open>The fields with a default, and the options, of a message's variant.\<close>

fun defaulted :: "message \<Rightarrow> string list" where
  "defaulted (ExecuteCommand _ _ _ _ _) = [''timeout_secs'', ''env'', ''cwd'']"
| "defaulted (NewSession _ _ _ _) = [''term'']"
| "defaulted (SessionStarted _ _ _) = [''error'']"
| "defaulted (FileUploadStart _ _ _ _) = [''mode'']"
| "defaulted (FileUploadComplete _ _ _) = [''error'']"
| "defaulted (CreateSnapshot _ _ _ _) = [''message'', ''tags'']"
| "defaulted (ListSnapshots _ _) = [''tags'']"
| "defaulted (SnapshotDetails _ _) = [''snapshot'']"
| "defaulted (Error _ _) = [''recoverable'']"
| "defaulted _ = []"

lemma refused_fields [simp]:
  "Suc 0 < length (values_of fs k) \<Longrightarrow> required fs k f = None"
  "Suc 0 < length (values_of fs k) \<Longrightarrow> with_default fs k d f = None"
  "Suc 0 < length (values_of fs k) \<Longrightarrow> optional fs k f = None"
  "values_of fs k = [] \<Longrightarrow> required fs k f = None"
  by (auto simp: required_def with_default_def optional_def split: list.splits)

lemma variant_refuses:
  "(k, j) \<in> set (members w m) \<Longrightarrow>
     Suc 0 < length (values_of fs k) \<or> values_of fs k = [] \<and> k \<notin> set (defaulted m) \<Longrightarrow>
     Option.bind (map_of (variants w') (message_tag m)) (\<lambda>r. r fs) = None"
  unfolding variant_found by (cases m; simp add: variants_def; (elim disjE conjE)?; simp)

text \<open>An object is refused when a member of its variant is given twice, or when one is missing that is
  neither an option nor has a default.\<close>

theorem bad_members_refused:
  assumes "values_of fs ''type'' = [JStr (message_tag m)]" and "(k, j) \<in> set (members w m)"
    and "1 < length (values_of fs k) \<or> values_of fs k = [] \<and> k \<notin> set (defaulted m)"
  shows "of_object w' fs = None"
proof -
  have "k \<noteq> ''type''" using assms(2) by (cases m) auto
  with variant_refuses [OF assms(2), of "filter (\<lambda>(n, _). n \<noteq> ''type'') fs" w'] assms(1,3)
  show ?thesis by (simp add: of_object_def required_def)
qed

theorem bad_members_refused_witness:
  "of_object demo_base64 [(''type'', JStr ''session_close''), (''session_id'', JStr ''a''), (''session_id'', JStr ''b'')] =
     None \<and>
   of_object demo_base64 [(''type'', JStr ''session_close'')] = None"
  using bad_members_refused [of "[(''type'', JStr ''session_close''), (''session_id'', JStr ''a''),
      (''session_id'', JStr ''b'')]" "SessionClose ''c''" "''session_id''" "JStr ''c''" demo_base64]
    bad_members_refused [of "[(''type'', JStr ''session_close'')]" "SessionClose ''c''" "''session_id''" "JStr ''c''"
      demo_base64]
  by simp

end
