(* ===== verification/Server.thy ===== *)
theory Server
  imports Registry Wire
begin

text \<open>
  The WebSocket side of the server (\<open>server/src/server.rs\<close>): the subprotocol check of the
  upgrade, the handler of a daemon's messages, the loop of one WebSocket task with its cleanup,
  the heartbeat monitor, and the body of \<open>/stats\<close>.

  A text frame is represented by what \<open>serde_json::from_str\<close> makes of it, \<open>None\<close> for text
  that is no message. What a task sends is logged as the list of its messages; \<open>ws_tx_ok\<close> says
  whether the sink still takes frames.
\<close>

section \<open>Upgrade\<close>

definition supported_protocol :: string where
  "supported_protocol = ''sandd.v1''"

datatype upgrade = Upgrade string | BadRequest string

text \<open>The argument is the \<open>sec-websocket-protocol\<close> header, if there is one that is text.\<close>

definition websocket_handler :: "string option \<Rightarrow> upgrade" where
  "websocket_handler header =
     (let has_protocol =
        (case header of
           None \<Rightarrow> False
         | Some protocols \<Rightarrow> list_ex (\<lambda>p. trim p = supported_protocol) (split_on CHR '','' protocols))
      in if has_protocol then Upgrade supported_protocol
         else BadRequest ''Missing required Sec-WebSocket-Protocol: sandd.v1'')"

section \<open>State of a server and of a WebSocket task\<close>

record server =
  reg :: registry
  chans :: channels

record ws_task =
  daemon_id :: "string option"
  req_chan :: nat
  ws_sent :: "message list"
  ws_tx_ok :: bool
  ws_running :: bool

definition server_new :: server where
  "server_new = \<lparr>reg = registry_new, chans = channels_new\<rparr>"

definition ws_task_new :: "nat \<Rightarrow> ws_task" where
  "ws_task_new ch =
     \<lparr>daemon_id = None, req_chan = ch, ws_sent = [], ws_tx_ok = True, ws_running = True\<rparr>"

definition ws_send :: "message \<Rightarrow> ws_task \<Rightarrow> bool \<times> ws_task" where
  "ws_send m t = (if ws_tx_ok t then (True, t\<lparr>ws_sent := ws_sent t @ [m]\<rparr>) else (False, t))"

text \<open>Sending where the result is only logged.\<close>

definition ws_reply :: "message \<Rightarrow> ws_task \<Rightarrow> ws_task" where
  "ws_reply m t = snd (ws_send m t)"

text \<open>An operation on the connection that is registered under the task's id, if there is one.\<close>

definition with_conn :: "ws_task \<Rightarrow> (nat \<Rightarrow> server \<Rightarrow> server) \<Rightarrow> server \<Rightarrow> server" where
  "with_conn t f srv =
     (case daemon_id t of
        None \<Rightarrow> srv
      | Some i \<Rightarrow> (case registry_get (reg srv) i of None \<Rightarrow> srv | Some a \<Rightarrow> f a srv))"

definition arc_op :: "(connection \<Rightarrow> connection) \<Rightarrow> nat \<Rightarrow> server \<Rightarrow> server" where
  "arc_op f a srv = srv\<lparr>reg := update_arc a f (reg srv)\<rparr>"

definition arc_chan_op ::
  "(connection \<times> channels \<Rightarrow> connection \<times> channels) \<Rightarrow> nat \<Rightarrow> server \<Rightarrow> server" where
  "arc_chan_op f a srv =
     (case f (heap (reg srv) a, chans srv) of
        (c, chs) \<Rightarrow> \<lparr>reg = update_arc a (\<lambda>_. c) (reg srv), chans = chs\<rparr>)"

section \<open>Messages from a daemon\<close>

definition handle_heartbeat :: "u64 \<Rightarrow> string \<Rightarrow> registry \<Rightarrow> bool \<times> registry" where
  "handle_heartbeat now i rg =
     (case registry_get rg i of
        Some a \<Rightarrow> (True, update_arc a (update_heartbeat now) rg)
      | None \<Rightarrow> (False, rg))"

definition handle_register ::
  "u64 \<Rightarrow> string \<Rightarrow> daemon_metadata \<Rightarrow> ws_task \<Rightarrow> server \<Rightarrow> ws_task \<times> server" where
  "handle_register now i meta t srv =
     (if i = [] then (ws_reply (RegisterAck False ''no daemon id'') t, srv)
      else
        (let t = t\<lparr>daemon_id := Some i\<rparr>;
             new_conn = connection_new now i meta (req_chan t);
             srv = srv\<lparr>reg := snd (register new_conn (reg srv))\<rparr>
         in (ws_reply (RegisterAck True ''Successfully registered'') t, srv)))"

definition handle_heartbeat_message :: "u64 \<Rightarrow> ws_task \<Rightarrow> server \<Rightarrow> ws_task \<times> server" where
  "handle_heartbeat_message now t srv =
     (case daemon_id t of
        None \<Rightarrow> (t, srv)
      | Some i \<Rightarrow>
          (case handle_heartbeat now i (reg srv) of
             (registered, rg) \<Rightarrow>
               (ws_reply
                  (HeartbeatAck registered (if registered then [] else ''daemon is not registered'')) t,
                srv\<lparr>reg := rg\<rparr>)))"

definition handle_response :: "string \<Rightarrow> message \<Rightarrow> ws_task \<Rightarrow> server \<Rightarrow> server" where
  "handle_response rid response t srv =
     with_conn t (arc_chan_op (complete_request rid response)) srv"

definition handle_daemon_message ::
  "u64 \<Rightarrow> message \<Rightarrow> ws_task \<Rightarrow> server \<Rightarrow> ws_task \<times> server" where
  "handle_daemon_message now msg t srv =
     (case msg of
        Register i meta \<Rightarrow> handle_register now i meta t srv
      | Heartbeat \<Rightarrow> handle_heartbeat_message now t srv
      | CommandOutput r _ _ _ _ \<Rightarrow> (t, handle_response r msg t srv)
      | CommandError r _ \<Rightarrow> (t, handle_response r msg t srv)
      | SnapshotCreated r _ _ _ \<Rightarrow> (t, handle_response r msg t srv)
      | SnapshotRestored r _ \<Rightarrow> (t, handle_response r msg t srv)
      | SnapshotList r _ \<Rightarrow> (t, handle_response r msg t srv)
      | SnapshotDetails r _ \<Rightarrow> (t, handle_response r msg t srv)
      | SnapshotDeleted r \<Rightarrow> (t, handle_response r msg t srv)
      | SnapshotError r _ \<Rightarrow> (t, handle_response r msg t srv)
      | SessionOutput sid data \<Rightarrow>
          (t, with_conn t
                (\<lambda>a s. s\<lparr>chans := send_session_output sid data (heap (reg s) a) (chans s)\<rparr>) srv)
      | SessionExit sid _ \<Rightarrow> (t, with_conn t (arc_op (close_session sid)) srv)
      | FileDownloadChunk r data _ _ \<Rightarrow> (t, with_conn t (arc_op (add_file_chunk r data)) srv)
      | _ \<Rightarrow> (t, srv))"

section \<open>The loop of a WebSocket task\<close>

text \<open>
  What the \<open>select!\<close> of one iteration wakes up with: a text frame, a close frame, any other
  frame, a socket error, the end of the stream (the pattern of that branch does not match, so
  the \<open>select!\<close> goes on waiting for a request), or a request queued by the Python side.
\<close>

datatype ws_event = WsText "message option" | WsClose | WsOther | WsErr | WsEnd | ReqReady

definition ws_cleanup :: "ws_task \<Rightarrow> server \<Rightarrow> ws_task \<times> server" where
  "ws_cleanup t srv =
     (let rg = (case daemon_id t of None \<Rightarrow> reg srv | Some i \<Rightarrow> registry_remove i (reg srv));
          cs = chans srv
      in (t\<lparr>ws_running := False\<rparr>,
          \<lparr>reg = rg,
           chans = cs\<lparr>req_chans := (req_chans cs)(req_chan t := mpsc_close (req_chans cs (req_chan t)))\<rparr>\<rparr>))"

definition ws_step :: "u64 \<Rightarrow> ws_event \<Rightarrow> ws_task \<Rightarrow> server \<Rightarrow> ws_task \<times> server" where
  "ws_step now ev t srv =
     (if \<not> ws_running t then (t, srv)
      else case ev of
        WsErr \<Rightarrow> ws_cleanup t srv
      | WsText (Some message) \<Rightarrow> handle_daemon_message now message t srv
      | WsText None \<Rightarrow> (t, srv)
      | WsClose \<Rightarrow> ws_cleanup t srv
      | WsOther \<Rightarrow> (t, srv)
      | WsEnd \<Rightarrow> (t, srv)
      | ReqReady \<Rightarrow>
          (case mpsc_recv (req_chans (chans srv) (req_chan t)) of
             (None, _) \<Rightarrow> (t, srv)
           | (Some request, ch) \<Rightarrow>
               (let cs = chans srv;
                    srv = srv\<lparr>chans := cs\<lparr>req_chans := (req_chans cs)(req_chan t := ch)\<rparr>\<rparr>
                in case ws_send request t of
                     (True, t) \<Rightarrow> (t, srv)
                   | (False, t) \<Rightarrow> ws_cleanup t srv)))"

section \<open>Heartbeat monitor\<close>

definition heartbeat_timeout :: u64 where
  "heartbeat_timeout = 30"

definition heartbeat_monitor_tick :: "u64 \<Rightarrow> server \<Rightarrow> nat \<times> server" where
  "heartbeat_monitor_tick now srv =
     (case cleanup_stale now heartbeat_timeout (reg srv) of
        (removed, rg) \<Rightarrow> (removed, srv\<lparr>reg := rg\<rparr>))"

section \<open>Statistics over HTTP\<close>

definition daemon_json :: "daemon_info \<Rightarrow> json" where
  "daemon_json d = JObj
     [(''hostname'', JStr (di_hostname d)),
      (''platform'', JStr (di_platform d)),
      (''arch'', JStr (di_arch d)),
      (''version'', JStr (di_version d)),
      (''labels'', JObj (map (\<lambda>(k, v). (k, JStr v)) (di_labels d))),
      (''is_busy'', JBool (di_is_busy d)),
      (''connected_secs'', JNum (uint (di_connected_secs d))),
      (''seconds_since_heartbeat'', JNum (uint (di_seconds_since_heartbeat d)))]"

definition stats_body :: "registry_stats \<Rightarrow> json" where
  "stats_body stats = JObj
     [(''total_daemons'', JNum (int (total_daemons stats))),
      (''by_platform'', JObj (map (\<lambda>(k, n). (k, JNum (int n))) (by_platform stats))),
      (''oldest_connection_secs'', JNum (uint (oldest_connection_secs stats))),
      (''daemons'', JObj (map (\<lambda>(i, d). (i, daemon_json d)) (daemons stats)))]"

definition stats_handler :: "u64 \<Rightarrow> server \<Rightarrow> json" where
  "stats_handler now srv = stats_body (get_stats now (reg srv))"

section \<open>Lemmas on single operations\<close>

lemma ws_reply_fields [simp]:
  "daemon_id (ws_reply m t) = daemon_id t" "req_chan (ws_reply m t) = req_chan t"
  "ws_running (ws_reply m t) = ws_running t" "ws_tx_ok (ws_reply m t) = ws_tx_ok t"
  by (simp_all add: ws_reply_def ws_send_def)

lemma ws_reply_sent: "ws_sent (ws_reply m t) = (if ws_tx_ok t then ws_sent t @ [m] else ws_sent t)"
  by (simp add: ws_reply_def ws_send_def)

lemma arc_op_fields [simp]:
  "reg (arc_op f a srv) = update_arc a f (reg srv)" "chans (arc_op f a srv) = chans srv"
  by (simp_all add: arc_op_def)

lemma arc_chan_op_fields [simp]:
  "reg (arc_chan_op f a srv) = update_arc a (\<lambda>_. fst (f (heap (reg srv) a, chans srv))) (reg srv)"
  "chans (arc_chan_op f a srv) = snd (f (heap (reg srv) a, chans srv))"
  by (simp_all add: arc_chan_op_def split: prod.splits)

lemma with_conn_cases:
  obtains "with_conn t f srv = srv"
  | i a where "daemon_id t = Some i" "registry_get (reg srv) i = Some a" "with_conn t f srv = f a srv"
proof (cases "\<exists>i a. daemon_id t = Some i \<and> registry_get (reg srv) i = Some a")
  case True
  then obtain i a where "daemon_id t = Some i" "registry_get (reg srv) i = Some a" by blast
  then show thesis by (intro that(2)) (simp_all add: with_conn_def)
next
  case False
  then show thesis by (intro that(1)) (auto simp: with_conn_def split: option.splits)
qed

lemma handle_response_message:
  "response_id msg = Some r \<Longrightarrow>
     handle_daemon_message now msg t srv = (t, handle_response r msg t srv)"
  by (cases msg) (simp_all add: handle_daemon_message_def)

text \<open>What a message other than \<open>Register\<close> and \<open>Heartbeat\<close> can do: nothing, or change the
  connection of the sender's own id.\<close>

lemma handle_other_message:
  assumes "\<nexists>i meta. msg = Register i meta" and "msg \<noteq> Heartbeat"
  obtains "handle_daemon_message now msg t srv = (t, srv)"
  | r where "response_id msg = Some r"
      "handle_daemon_message now msg t srv = (t, with_conn t (arc_chan_op (complete_request r msg)) srv)"
  | sid data where
      "handle_daemon_message now msg t srv =
         (t, with_conn t
               (\<lambda>a s. s\<lparr>chans := send_session_output sid data (heap (reg s) a) (chans s)\<rparr>) srv)"
  | sid where "handle_daemon_message now msg t srv = (t, with_conn t (arc_op (close_session sid)) srv)"
  | r data where "handle_daemon_message now msg t srv = (t, with_conn t (arc_op (add_file_chunk r data)) srv)"
proof (cases "response_id msg")
  case (Some r)
  with that(2) show thesis by (simp add: handle_response_message handle_response_def)
next
  case None
  with assms have "handle_daemon_message now msg t srv = (t, srv) \<or>
      (\<exists>sid data. msg = SessionOutput sid data) \<or> (\<exists>sid code. msg = SessionExit sid code) \<or>
      (\<exists>r data off l. msg = FileDownloadChunk r data off l)"
    by (cases msg) (auto simp: handle_daemon_message_def)
  then show thesis using that(1,3-5) by (auto simp: handle_daemon_message_def)
qed

lemma send_session_output_frame [simp]:
  "oneshots (send_session_output sid d c chs) = oneshots chs"
  "req_chans (send_session_output sid d c chs) = req_chans chs"
  by (simp_all add: send_session_output_def split: option.splits)

lemma add_file_chunk_frame [simp]:
  "conn_id (add_file_chunk r d c) = conn_id c" "request_tx (add_file_chunk r d c) = request_tx c"
  "pending_requests (add_file_chunk r d c) = pending_requests c"
  "last_heartbeat (add_file_chunk r d c) = last_heartbeat c"
  by (simp_all add: add_file_chunk_def split: option.splits)

lemma close_session_frame [simp]:
  "conn_id (close_session sid c) = conn_id c" "request_tx (close_session sid c) = request_tx c"
  "pending_requests (close_session sid c) = pending_requests c"
  "last_heartbeat (close_session sid c) = last_heartbeat c"
  by (simp_all add: close_session_def)

lemma update_heartbeat_frame [simp]:
  "conn_id (update_heartbeat now c) = conn_id c"
  "request_tx (update_heartbeat now c) = request_tx c"
  "pending_requests (update_heartbeat now c) = pending_requests c"
  "last_heartbeat (update_heartbeat now c) = now"
  by (simp_all add: update_heartbeat_def)

section \<open>The registry's invariant over the handlers\<close>

lemma reg_ok_heartbeat [inv_intros]: "reg_ok rg \<Longrightarrow> reg_ok (snd (handle_heartbeat now i rg))"
  by (auto simp: handle_heartbeat_def intro: inv_intros split: option.splits)

lemma heartbeat_registry_get [simp]:
  "registry_get (snd (handle_heartbeat now i rg)) i' = registry_get rg i'"
  by (simp add: handle_heartbeat_def split: option.splits)

lemma reg_ok_with_conn_op:
  "reg_ok (reg srv) \<Longrightarrow> (\<And>c. conn_id (f c) = conn_id c) \<Longrightarrow> reg_ok (reg (with_conn t (arc_op f) srv))"
  by (rule with_conn_cases [of t "arc_op f" srv]) (auto intro: inv_intros)

lemma reg_ok_arc_chan_op:
  "reg_ok (reg srv) \<Longrightarrow> (\<And>s. conn_id (fst (f s)) = conn_id (fst s)) \<Longrightarrow>
     reg_ok (reg (arc_chan_op f a srv))"
  by (auto simp: reg_ok_def update_arc_heap)

lemma reg_ok_response: "reg_ok (reg srv) \<Longrightarrow> reg_ok (reg (handle_response r m t srv))"
  unfolding handle_response_def
  by (rule with_conn_cases [of t "arc_chan_op (complete_request r m)" srv])
    (auto simp del: arc_chan_op_fields intro: reg_ok_arc_chan_op)

lemma reg_ok_register_message:
  "reg_ok (reg srv) \<Longrightarrow> reg_ok (reg (snd (handle_register now i meta t srv)))"
  by (simp add: handle_register_def Let_def reg_ok_register)

lemma reg_ok_heartbeat_message:
  "reg_ok (reg srv) \<Longrightarrow> reg_ok (reg (snd (handle_heartbeat_message now t srv)))"
  by (auto simp: handle_heartbeat_message_def split: option.splits prod.splits)
    (metis reg_ok_heartbeat snd_conv)

lemma reg_ok_message:
  assumes ok: "reg_ok (reg srv)"
  shows "reg_ok (reg (snd (handle_daemon_message now msg t srv)))"
proof (cases "(\<exists>i meta. msg = Register i meta) \<or> msg = Heartbeat")
  case True
  then show ?thesis using ok
    by (auto simp: handle_daemon_message_def reg_ok_register_message reg_ok_heartbeat_message)
next
  case False
  show ?thesis
  proof (rule handle_other_message [of msg now t srv])
    fix sid data
    assume "handle_daemon_message now msg t srv =
      (t, with_conn t (\<lambda>a s. s\<lparr>chans := send_session_output sid data (heap (reg s) a) (chans s)\<rparr>) srv)"
    then show ?thesis using ok
      by (auto simp: with_conn_def split: option.splits)
  qed (use False ok reg_ok_response in
      \<open>auto simp: reg_ok_with_conn_op simp flip: handle_response_def\<close>)
qed

lemma reg_ok_cleanup_task: "reg_ok (reg srv) \<Longrightarrow> reg_ok (reg (snd (ws_cleanup t srv)))"
  by (auto simp: ws_cleanup_def Let_def intro: inv_intros split: option.splits)

lemma reg_ok_ws_step: "reg_ok (reg srv) \<Longrightarrow> reg_ok (reg (snd (ws_step now ev t srv)))"
  by (auto simp: ws_step_def Let_def reg_ok_message reg_ok_cleanup_task
      split: ws_event.splits option.splits prod.splits bool.splits)

lemma reg_ok_monitor: "reg_ok (reg srv) \<Longrightarrow> reg_ok (reg (snd (heartbeat_monitor_tick now srv)))"
  by (auto simp: heartbeat_monitor_tick_def split: prod.splits) (metis reg_ok_cleanup snd_conv)

section \<open>The registry as a membership service\<close>

interpretation beats: membership "\<lambda>i rg. registry_get rg i \<noteq> None" "handle_heartbeat now"
    "\<lambda>i. registry_admit i r" registry_remove reg_ok for now r
proof unfold_locales
  show "fst (handle_heartbeat now i rg) = (registry_get rg i \<noteq> None)" for i rg
    by (simp add: handle_heartbeat_def split: option.splits)
  show "reg_ok rg \<Longrightarrow> reg_ok (registry_admit i r rg)" for i rg
    by (rule regs.ok_put)
qed (auto simp: registry_admit_def register_get remove_get connection_new_def
    intro: inv_intros split: prod.splits)

end
