(* ===== verification/PyApi.thy ===== *)
theory PyApi
  imports Server
begin

text \<open>
  The Python-facing API of the server (\<open>server/src/python.rs\<close>): \<open>Server.exec\<close>, the sessions,
  the file transfers, the listings and the snapshot operations.

  A call that waits for a response has three steps in the source: take the connection's \<open>Arc\<close>
  from the registry, register a one-shot sender under a fresh request id, and queue the request.
  It then blocks until the response arrives, the sender is dropped, or the timeout fires. What the
  rest of the server does in the meantime is the argument \<open>env\<close>, a function on the server's
  state; the outcome is read off the one-shot channel afterwards. The request id and the number of
  the one-shot channel, which the source draws fresh, are arguments too. Conversion to Python
  objects is the identity.
\<close>

section \<open>Errors and waiting\<close>

datatype py_error = PyValueError string | PyRuntimeError string | PyTimeoutError string

datatype wait = Received message | ChannelClosed | TimedOut

definition await_response :: "nat \<Rightarrow> (server \<Rightarrow> server) \<Rightarrow> server \<Rightarrow> wait \<times> server" where
  "await_response os env srv =
     (let srv' = env srv
      in (case oneshots (chans srv') os of
            OsSent m \<Rightarrow> Received m | OsClosed \<Rightarrow> ChannelClosed | OsEmpty \<Rightarrow> TimedOut, srv'))"

definition daemon_not_found :: "string \<Rightarrow> py_error" where
  "daemon_not_found i = PyValueError (''Daemon '' @ i @ '' not found'')"

section \<open>Steps of a call on a connection\<close>

definition call_register :: "string \<Rightarrow> nat \<Rightarrow> nat \<Rightarrow> server \<Rightarrow> server" where
  "call_register rid os a srv = arc_chan_op (register_request rid os) a srv"

definition call_send :: "message \<Rightarrow> nat \<Rightarrow> server \<Rightarrow> (string + unit) \<times> server" where
  "call_send m a srv =
     (case send_message m (heap (reg srv) a) (chans srv) of (r, cs) \<Rightarrow> (r, srv\<lparr>chans := cs\<rparr>))"

text \<open>The part the request/response calls share: look up, register, send, wait. The message and
  the prefix of the send error are the call's own.\<close>

definition request_response ::
  "string \<Rightarrow> string \<Rightarrow> message \<Rightarrow> (server \<Rightarrow> server) \<Rightarrow> string \<Rightarrow> nat \<Rightarrow> server \<Rightarrow>
     (py_error + wait) \<times> server" where
  "request_response i send_error msg env rid os srv =
     (case registry_get (reg srv) i of
        None \<Rightarrow> (Inl (daemon_not_found i), srv)
      | Some a \<Rightarrow>
          (case call_send msg a (call_register rid os a srv) of
             (Inl e, srv1) \<Rightarrow> (Inl (PyRuntimeError (send_error @ e)), srv1)
           | (Inr _, srv1) \<Rightarrow>
               (case await_response os env srv1 of (w, srv2) \<Rightarrow> (Inr w, srv2))))"

text \<open>Apply the call's own reading of the outcome.\<close>

definition finish :: "(wait \<Rightarrow> py_error + 'a) \<Rightarrow> (py_error + wait) \<times> server \<Rightarrow> (py_error + 'a) \<times> server" where
  "finish f = (\<lambda>(r, srv). (case r of Inl e \<Rightarrow> (Inl e, srv) | Inr w \<Rightarrow> (f w, srv)))"

section \<open>Commands\<close>

record command_result =
  cr_stdout :: string
  cr_stderr :: string
  cr_exit_code :: i32
  cr_duration_ms :: u64

fun exec_result :: "wait \<Rightarrow> py_error + command_result" where
  "exec_result (Received (CommandOutput _ out err code ms)) =
     Inr \<lparr>cr_stdout = out, cr_stderr = err, cr_exit_code = code, cr_duration_ms = ms\<rparr>"
| "exec_result (Received (CommandError _ e)) = Inl (PyRuntimeError (''Command error: '' @ e))"
| "exec_result (Received _) = Inl (PyRuntimeError ''Unexpected response type'')"
| "exec_result ChannelClosed = Inl (PyRuntimeError ''Command channel closed'')"
| "exec_result TimedOut = Inl (PyTimeoutError ''Command execution timed out'')"

definition exec ::
  "(server \<Rightarrow> server) \<Rightarrow> string \<Rightarrow> nat \<Rightarrow> string \<Rightarrow> string \<Rightarrow> u64 \<Rightarrow> string hmap option \<Rightarrow>
     string option \<Rightarrow> server \<Rightarrow> (py_error + command_result) \<times> server" where
  "exec env rid os i command timeout cmd_env cwd srv =
     finish exec_result
       (request_response i ''Failed to send command: ''
          (ExecuteCommand rid command timeout (case cmd_env of None \<Rightarrow> [] | Some e \<Rightarrow> e) cwd)
          env rid os srv)"

section \<open>Sessions\<close>

record session =
  ses_session_id :: string
  ses_daemon_id :: string
  ses_output :: nat

definition new_session ::
  "string \<Rightarrow> nat \<Rightarrow> string \<Rightarrow> u16 \<Rightarrow> u16 \<Rightarrow> string \<Rightarrow> server \<Rightarrow> (py_error + session) \<times> server" where
  "new_session sid out i rows cols term srv =
     (case registry_get (reg srv) i of
        None \<Rightarrow> (Inl (daemon_not_found i), srv)
      | Some a \<Rightarrow>
          (case call_send (NewSession sid rows cols term) a (arc_op (register_session sid out) a srv) of
             (Inl e, srv1) \<Rightarrow> (Inl (PyRuntimeError (''Failed to start session: '' @ e)), srv1)
           | (Inr _, srv1) \<Rightarrow>
               (Inr \<lparr>ses_session_id = sid, ses_daemon_id = i, ses_output = out\<rparr>, srv1)))"

definition session_send ::
  "string \<Rightarrow> message \<Rightarrow> session \<Rightarrow> server \<Rightarrow> (py_error + unit) \<times> server" where
  "session_send send_error m ses srv =
     (case registry_get (reg srv) (ses_daemon_id ses) of
        None \<Rightarrow> (Inl (PyRuntimeError ''Daemon disconnected''), srv)
      | Some a \<Rightarrow>
          (case call_send m a srv of
             (Inl e, srv1) \<Rightarrow> (Inl (PyRuntimeError (send_error @ e)), srv1)
           | (Inr _, srv1) \<Rightarrow> (Inr (), srv1)))"

definition session_write :: "bytes \<Rightarrow> session \<Rightarrow> server \<Rightarrow> (py_error + unit) \<times> server" where
  "session_write data ses =
     session_send ''Failed to write: '' (SessionInput (ses_session_id ses) data) ses"

definition session_resize :: "u16 \<Rightarrow> u16 \<Rightarrow> session \<Rightarrow> server \<Rightarrow> (py_error + unit) \<times> server" where
  "session_resize rows cols ses =
     session_send ''Failed to resize: '' (SessionResize (ses_session_id ses) rows cols) ses"

definition session_close :: "session \<Rightarrow> server \<Rightarrow> (py_error + unit) \<times> server" where
  "session_close ses =
     session_send ''Failed to close session: '' (SessionClose (ses_session_id ses)) ses"

text \<open>Reading gives the next piece of output, or nothing: on timeout and after the end alike.\<close>

definition session_read :: "(server \<Rightarrow> server) \<Rightarrow> session \<Rightarrow> server \<Rightarrow> bytes option \<times> server" where
  "session_read env ses srv =
     (let srv1 = env srv; cs = chans srv1
      in case mpsc_recv (out_chans cs (ses_output ses)) of
           (r, ch) \<Rightarrow> (r, srv1\<lparr>chans := cs\<lparr>out_chans := (out_chans cs)(ses_output ses := ch)\<rparr>\<rparr>))"

section \<open>File transfers\<close>

definition chunk_size :: nat where
  "chunk_size = 64 * 1024"

fun send_chunks :: "string \<Rightarrow> nat \<Rightarrow> (nat \<times> bytes) list \<Rightarrow> server \<Rightarrow> (py_error + unit) \<times> server" where
  "send_chunks rid a [] srv = (Inr (), srv)"
| "send_chunks rid a ((offset, chunk) # rest) srv =
     (case call_send (FileUploadChunk rid chunk (of_nat (offset * chunk_size))) a srv of
        (Inl e, srv1) \<Rightarrow> (Inl (PyRuntimeError (''Failed to send chunk: '' @ e)), srv1)
      | (Inr _, srv1) \<Rightarrow> send_chunks rid a rest srv1)"

definition upload_file ::
  "string \<Rightarrow> string \<Rightarrow> string \<Rightarrow> bytes \<Rightarrow> server \<Rightarrow> (py_error + unit) \<times> server" where
  "upload_file rid i remote_path data srv =
     (case registry_get (reg srv) i of
        None \<Rightarrow> (Inl (daemon_not_found i), srv)
      | Some a \<Rightarrow>
          (case call_send (FileUploadStart rid remote_path (of_nat (length data)) None) a srv of
             (Inl e, srv1) \<Rightarrow> (Inl (PyRuntimeError (''Failed to start upload: '' @ e)), srv1)
           | (Inr _, srv1) \<Rightarrow> send_chunks rid a (enumerate 0 (chunks chunk_size data)) srv1))"

definition download_file ::
  "(server \<Rightarrow> server) \<Rightarrow> string \<Rightarrow> string \<Rightarrow> string \<Rightarrow> server \<Rightarrow> (py_error + bytes) \<times> server" where
  "download_file env rid i remote_path srv =
     (case registry_get (reg srv) i of
        None \<Rightarrow> (Inl (daemon_not_found i), srv)
      | Some a \<Rightarrow>
          (case call_send (FileDownloadStart rid remote_path) a
                  (arc_op (start_file_transfer rid remote_path 0) a srv) of
             (Inl e, srv1) \<Rightarrow> (Inl (PyRuntimeError (''Failed to start download: '' @ e)), srv1)
           | (Inr _, srv1) \<Rightarrow>
               (let srv2 = env srv1
                in case complete_file_transfer rid (heap (reg srv2) a) of
                     (r, c) \<Rightarrow>
                       (case r of
                          None \<Rightarrow> Inl (PyRuntimeError ''File transfer did not complete'')
                        | Some d \<Rightarrow> Inr d,
                        arc_op (\<lambda>_. c) a srv2))))"

section \<open>Listings\<close>

record py_daemon_info =
  pd_id :: string
  pd_version :: string
  pd_labels :: "string hmap"
  pd_is_busy :: bool

definition py_daemon_info_of :: "connection \<Rightarrow> py_daemon_info" where
  "py_daemon_info_of c =
     \<lparr>pd_id = conn_id c, pd_version = version (metadata c), pd_labels = labels (metadata c),
      pd_is_busy = is_busy c\<rparr>"

definition list_daemons :: "string hmap option \<Rightarrow> server \<Rightarrow> py_daemon_info list" where
  "list_daemons filter_labels srv =
     List.map_filter (\<lambda>i. map_option (\<lambda>a. py_daemon_info_of (heap (reg srv) a)) (registry_get (reg srv) i))
       (registry_list_all filter_labels (reg srv))"

definition daemon_count :: "server \<Rightarrow> nat" where
  "daemon_count srv = registry_count (reg srv)"

record py_stats =
  ps_total_daemons :: nat
  ps_by_platform :: "nat hmap"
  ps_oldest_connection_secs :: u64

definition py_get_stats :: "u64 \<Rightarrow> server \<Rightarrow> py_stats" where
  "py_get_stats now srv =
     (let stats = get_stats now (reg srv)
      in \<lparr>ps_total_daemons = total_daemons stats, ps_by_platform = by_platform stats,
          ps_oldest_connection_secs = oldest_connection_secs stats\<rparr>)"

definition get_daemon :: "string \<Rightarrow> server \<Rightarrow> py_daemon_info option" where
  "get_daemon i srv =
     map_option (\<lambda>a. py_daemon_info_of (heap (reg srv) a)) (registry_get (reg srv) i)"

section \<open>Snapshots\<close>

fun create_snapshot_result :: "wait \<Rightarrow> py_error + string" where
  "create_snapshot_result (Received (SnapshotCreated _ snapshot_id _ _)) = Inr snapshot_id"
| "create_snapshot_result (Received (SnapshotError _ e)) =
     Inl (PyRuntimeError (''Snapshot error: '' @ e))"
| "create_snapshot_result (Received _) = Inl (PyRuntimeError ''Unexpected response type'')"
| "create_snapshot_result ChannelClosed = Inl (PyRuntimeError ''Snapshot channel closed'')"
| "create_snapshot_result TimedOut = Inl (PyTimeoutError ''Snapshot creation timed out'')"

definition py_create_snapshot ::
  "(server \<Rightarrow> server) \<Rightarrow> string \<Rightarrow> nat \<Rightarrow> string \<Rightarrow> string \<Rightarrow> string option \<Rightarrow>
     string list option \<Rightarrow> server \<Rightarrow> (py_error + string) \<times> server" where
  "py_create_snapshot env rid os i workspace message tags srv =
     finish create_snapshot_result
       (request_response i ''Failed to send snapshot request: ''
          (CreateSnapshot rid workspace message tags) env rid os srv)"

fun restore_snapshot_result :: "wait \<Rightarrow> py_error + nat" where
  "restore_snapshot_result (Received (SnapshotRestored _ file_count)) = Inr file_count"
| "restore_snapshot_result (Received (SnapshotError _ e)) =
     Inl (PyRuntimeError (''Restore error: '' @ e))"
| "restore_snapshot_result (Received _) = Inl (PyRuntimeError ''Unexpected response type'')"
| "restore_snapshot_result ChannelClosed = Inl (PyRuntimeError ''Restore channel closed'')"
| "restore_snapshot_result TimedOut = Inl (PyTimeoutError ''Restore timed out'')"

definition py_restore_snapshot ::
  "(server \<Rightarrow> server) \<Rightarrow> string \<Rightarrow> nat \<Rightarrow> string \<Rightarrow> string \<Rightarrow> string \<Rightarrow> server \<Rightarrow>
     (py_error + nat) \<times> server" where
  "py_restore_snapshot env rid os i snapshot_id destination srv =
     finish restore_snapshot_result
       (request_response i ''Failed to send restore request: ''
          (RestoreSnapshot rid snapshot_id destination) env rid os srv)"

fun list_snapshots_result :: "wait \<Rightarrow> py_error + snapshot_info list" where
  "list_snapshots_result (Received (SnapshotList _ snapshots)) = Inr snapshots"
| "list_snapshots_result (Received (SnapshotError _ e)) = Inl (PyRuntimeError (''List error: '' @ e))"
| "list_snapshots_result (Received _) = Inl (PyRuntimeError ''Unexpected response type'')"
| "list_snapshots_result ChannelClosed = Inl (PyRuntimeError ''List channel closed'')"
| "list_snapshots_result TimedOut = Inl (PyTimeoutError ''List timed out'')"

definition py_list_snapshots ::
  "(server \<Rightarrow> server) \<Rightarrow> string \<Rightarrow> nat \<Rightarrow> string \<Rightarrow> string list option \<Rightarrow> server \<Rightarrow>
     (py_error + snapshot_info list) \<times> server" where
  "py_list_snapshots env rid os i tags srv =
     finish list_snapshots_result
       (request_response i ''Failed to send list request: '' (ListSnapshots rid tags) env rid os srv)"

fun find_snapshot_result :: "wait \<Rightarrow> py_error + snapshot_info option" where
  "find_snapshot_result (Received (SnapshotDetails _ None)) = Inr None"
| "find_snapshot_result (Received (SnapshotDetails _ (Some s))) = Inr (Some s)"
| "find_snapshot_result (Received (SnapshotError _ e)) = Inl (PyRuntimeError (''Find error: '' @ e))"
| "find_snapshot_result (Received _) = Inl (PyRuntimeError ''Unexpected response type'')"
| "find_snapshot_result ChannelClosed = Inl (PyRuntimeError ''Find channel closed'')"
| "find_snapshot_result TimedOut = Inl (PyTimeoutError ''Find timed out'')"

definition py_find_snapshot_by_tag ::
  "(server \<Rightarrow> server) \<Rightarrow> string \<Rightarrow> nat \<Rightarrow> string \<Rightarrow> string \<Rightarrow> server \<Rightarrow>
     (py_error + snapshot_info option) \<times> server" where
  "py_find_snapshot_by_tag env rid os i tag srv =
     finish find_snapshot_result
       (request_response i ''Failed to send find request: '' (FindSnapshotByTag rid tag) env rid os srv)"

fun get_snapshot_result :: "wait \<Rightarrow> py_error + snapshot_info option" where
  "get_snapshot_result (Received (SnapshotDetails _ (Some s))) = Inr (Some s)"
| "get_snapshot_result (Received (SnapshotDetails _ None)) = Inr None"
| "get_snapshot_result (Received (SnapshotError _ e)) = Inl (PyRuntimeError (''Get error: '' @ e))"
| "get_snapshot_result (Received _) = Inl (PyRuntimeError ''Unexpected response type'')"
| "get_snapshot_result ChannelClosed = Inl (PyRuntimeError ''Get channel closed'')"
| "get_snapshot_result TimedOut = Inl (PyTimeoutError ''Get timed out'')"

definition py_get_snapshot ::
  "(server \<Rightarrow> server) \<Rightarrow> string \<Rightarrow> nat \<Rightarrow> string \<Rightarrow> string \<Rightarrow> server \<Rightarrow>
     (py_error + snapshot_info option) \<times> server" where
  "py_get_snapshot env rid os i snapshot_id srv =
     finish get_snapshot_result
       (request_response i ''Failed to send get request: '' (GetSnapshot rid snapshot_id) env rid os srv)"

fun delete_snapshot_result :: "wait \<Rightarrow> py_error + unit" where
  "delete_snapshot_result (Received (SnapshotDeleted _)) = Inr ()"
| "delete_snapshot_result (Received (SnapshotError _ e)) =
     Inl (PyRuntimeError (''Delete error: '' @ e))"
| "delete_snapshot_result (Received _) = Inl (PyRuntimeError ''Unexpected response type'')"
| "delete_snapshot_result ChannelClosed = Inl (PyRuntimeError ''Delete channel closed'')"
| "delete_snapshot_result TimedOut = Inl (PyTimeoutError ''Delete timed out'')"

definition py_delete_snapshot ::
  "(server \<Rightarrow> server) \<Rightarrow> string \<Rightarrow> nat \<Rightarrow> string \<Rightarrow> string \<Rightarrow> server \<Rightarrow> (py_error + unit) \<times> server" where
  "py_delete_snapshot env rid os i snapshot_id srv =
     finish delete_snapshot_result
       (request_response i ''Failed to send delete request: '' (DeleteSnapshot rid snapshot_id)
          env rid os srv)"

end
