(* ===== verification/System.thy ===== *)
theory System
  imports PyApi
begin

text \<open>
  The server as a whole: any number of WebSocket tasks, the heartbeat monitor, and Python threads
  in the middle of their calls, interleaved in any order. A step is one wake-up of a task's
  \<open>select!\<close>, one tick of the monitor, or one step of a call; a thread that has taken an \<open>Arc\<close> may
  go on using it after the registry has dropped or replaced the entry.

  Two components of the state are not the program's: \<open>owner\<close> records for every one-shot channel the
  request id it was created for, \<open>home\<close> the connection it was registered on. No step reads them
  except to say that request ids, which the source draws as UUIDs, are fresh.
\<close>

section \<open>Steps\<close>

record system =
  srv :: server
  tasks :: "nat \<Rightarrow> ws_task"
  ntasks :: nat
  nos :: nat
  owner :: "nat \<Rightarrow> string"
  home :: "nat \<Rightarrow> nat"

definition system_new :: system where
  "system_new = \<lparr>srv = server_new, tasks = ws_task_new, ntasks = 0, nos = 0,
     owner = (\<lambda>_. []), home = (\<lambda>_. 0)\<rparr>"

inductive sys_step :: "system \<Rightarrow> system \<Rightarrow> bool" where
  accept:
    "sys_step s (s\<lparr>tasks := (tasks s)(ntasks s := ws_task_new (ntasks s)), ntasks := Suc (ntasks s)\<rparr>)"
| task_step:
    "k < ntasks s \<Longrightarrow> ws_step now ev (tasks s k) (srv s) = (t', srv') \<Longrightarrow>
     sys_step s (s\<lparr>tasks := (tasks s)(k := t'), srv := srv'\<rparr>)"
| sink_broken:
    "k < ntasks s \<Longrightarrow>
     sys_step s (s\<lparr>tasks := (tasks s)(k := (tasks s k)\<lparr>ws_tx_ok := False\<rparr>)\<rparr>)"
| monitor:
    "sys_step s (s\<lparr>srv := snd (heartbeat_monitor_tick now (srv s))\<rparr>)"
| call_begin:
    "a < next_arc (reg (srv s)) \<Longrightarrow> (\<forall>o' < nos s. owner s o' \<noteq> rid) \<Longrightarrow>
     sys_step s (s\<lparr>srv := call_register rid (nos s) a (srv s), nos := Suc (nos s),
                   owner := (owner s)(nos s := rid), home := (home s)(nos s := a)\<rparr>)"
| call_message:
    "a < next_arc (reg (srv s)) \<Longrightarrow>
     sys_step s (s\<lparr>srv := snd (call_send m a (srv s))\<rparr>)"
| open_session:
    "a < next_arc (reg (srv s)) \<Longrightarrow>
     sys_step s (s\<lparr>srv := arc_op (register_session sid out) a (srv s)\<rparr>)"
| begin_transfer:
    "a < next_arc (reg (srv s)) \<Longrightarrow>
     sys_step s (s\<lparr>srv := arc_op (start_file_transfer rid path 0) a (srv s)\<rparr>)"
| end_transfer:
    "a < next_arc (reg (srv s)) \<Longrightarrow>
     sys_step s (s\<lparr>srv := arc_op (\<lambda>c. snd (complete_file_transfer rid c)) a (srv s)\<rparr>)"

inductive_cases sys_stepE: "sys_step s s'"

definition reachable :: "system \<Rightarrow> bool" where
  "reachable s = sys_step\<^sup>*\<^sup>* system_new s"

section \<open>Invariant\<close>

definition pending_at :: "server \<Rightarrow> nat \<Rightarrow> string \<Rightarrow> nat option" where
  "pending_at sv a rid = hm_get (pending_requests (heap (reg sv) a)) rid"

text \<open>
  The registry is well-formed, no entry has the empty id, every connection's channel belongs to a
  task; a pending entry names an unanswered one-shot channel of that request on that connection,
  and every unanswered channel is still pending;
  a value in a one-shot channel is a response to the request the channel was created for; no
  one-shot channel has lost its sender.
\<close>

definition srv_ok :: "nat \<Rightarrow> nat \<Rightarrow> (nat \<Rightarrow> string) \<Rightarrow> (nat \<Rightarrow> nat) \<Rightarrow> server \<Rightarrow> bool" where
  "srv_ok n os_n own hom sv \<longleftrightarrow>
     reg_ok (reg sv) \<and> registry_get (reg sv) [] = None \<and>
     (\<forall>a < next_arc (reg sv). request_tx (heap (reg sv) a) < n) \<and>
     (\<forall>a rid q. pending_at sv a rid = Some q \<longrightarrow>
        a < next_arc (reg sv) \<and> q < os_n \<and> own q = rid \<and> hom q = a \<and> oneshots (chans sv) q = OsEmpty) \<and>
     (\<forall>q m. oneshots (chans sv) q = OsSent m \<longrightarrow> q < os_n \<and> response_id m = Some (own q)) \<and>
     (\<forall>q. oneshots (chans sv) q \<noteq> OsClosed) \<and>
     (\<forall>q < os_n. oneshots (chans sv) q = OsEmpty \<longrightarrow> pending_at sv (hom q) (own q) = Some q)"

definition sys_ok :: "system \<Rightarrow> bool" where
  "sys_ok s \<longleftrightarrow> srv_ok (ntasks s) (nos s) (owner s) (home s) (srv s) \<and>
     (\<forall>k < ntasks s. req_chan (tasks s k) = k)"

lemma srv_ok_reg: "srv_ok n q own hom sv \<Longrightarrow> reg_ok (reg sv)"
  by (simp add: srv_ok_def)

lemma srv_ok_pendingD:
  "srv_ok n q own hom sv \<Longrightarrow> pending_at sv a rid = Some p \<Longrightarrow>
     a < next_arc (reg sv) \<and> p < q \<and> own p = rid \<and> hom p = a \<and> oneshots (chans sv) p = OsEmpty"
  by (simp add: srv_ok_def)

lemma srv_ok_same:
  assumes "srv_ok n q own hom sv" and "reg_ok (reg sv')" and "registry_get (reg sv') [] = None"
    and "next_arc (reg sv') = next_arc (reg sv)"
    and "\<And>a. request_tx (heap (reg sv') a) = request_tx (heap (reg sv) a)"
    and "\<And>a. pending_requests (heap (reg sv') a) = pending_requests (heap (reg sv) a)"
    and "oneshots (chans sv') = oneshots (chans sv)"
  shows "srv_ok n q own hom sv'"
  using assms by (simp add: srv_ok_def pending_at_def)

lemma srv_ok_arc_op:
  assumes ok: "srv_ok n q own hom sv"
    and f: "\<And>c. conn_id (f c) = conn_id c" "\<And>c. request_tx (f c) = request_tx c"
      "\<And>c. pending_requests (f c) = pending_requests c"
  shows "srv_ok n q own hom (arc_op f a sv)"
  using ok by (rule srv_ok_same)
    (use ok f in \<open>auto simp: srv_ok_def update_arc_heap intro: reg_ok_update_arc\<close>)

lemma srv_ok_chans:
  assumes "srv_ok n q own hom sv" and "oneshots cs = oneshots (chans sv)"
  shows "srv_ok n q own hom (sv\<lparr>chans := cs\<rparr>)"
  using assms(1) by (rule srv_ok_same) (use assms in \<open>auto simp: srv_ok_def\<close>)

lemma srv_ok_reg_shrinks:
  assumes "srv_ok n q own hom sv" and "reg_ok rg" and "heap rg = heap (reg sv)"
    and "next_arc rg = next_arc (reg sv)"
    and "\<And>i a. registry_get rg i = Some a \<Longrightarrow> registry_get (reg sv) i = Some a"
  shows "srv_ok n q own hom (sv\<lparr>reg := rg\<rparr>)"
  using assms(1)
proof (rule srv_ok_same)
  show "registry_get (reg (sv\<lparr>reg := rg\<rparr>)) [] = None"
    using assms by (cases "registry_get rg []") (auto simp: srv_ok_def)
qed (use assms in auto)

lemma pending_complete:
  "pending_at (arc_chan_op (complete_request r m) a sv) a' rid =
     (if a' = a \<and> rid = r then None else pending_at sv a' rid)"
  by (auto simp: pending_at_def update_arc_heap complete_request_def split: option.splits)

lemma oneshots_complete:
  "oneshots (snd (complete_request r m (heap (reg sv) a, chans sv))) q =
     (if pending_at sv a r = Some q then os_send m (oneshots (chans sv) q) else oneshots (chans sv) q)"
  by (auto simp: pending_at_def complete_request_def split: option.splits)

lemma srv_ok_complete:
  assumes ok: "srv_ok n q own hom sv" and r: "response_id m = Some r"
  shows "srv_ok n q own hom (arc_chan_op (complete_request r m) a sv)"
proof -
  let ?sv = "arc_chan_op (complete_request r m) a sv"
  have reg: "reg_ok (reg ?sv)" using ok
    by (intro reg_ok_arc_chan_op) (auto simp: srv_ok_def)
  have tx: "request_tx (heap (reg ?sv) a') = request_tx (heap (reg sv) a')" for a'
    by (simp add: update_arc_heap)
  have pend: "a' < next_arc (reg sv) \<and> p < q \<and> own p = rid \<and> hom p = a' \<and>
      oneshots (chans ?sv) p = OsEmpty" if "pending_at ?sv a' rid = Some p" for a' rid p
  proof -
    from that have at: "pending_at sv a' rid = Some p" and ne: "\<not> (a' = a \<and> rid = r)"
      by (auto simp: pending_complete split: if_splits)
    have "pending_at sv a r \<noteq> Some p"
    proof
      assume "pending_at sv a r = Some p"
      from srv_ok_pendingD [OF ok this] srv_ok_pendingD [OF ok at] ne show False by auto
    qed
    with at ok show ?thesis by (auto simp: srv_ok_def oneshots_complete)
  qed
  have sent: "p < q \<and> response_id m' = Some (own p)" if "oneshots (chans ?sv) p = OsSent m'" for p m'
  proof (cases "pending_at sv a r = Some p")
    case True
    with ok that r show ?thesis by (auto simp: srv_ok_def oneshots_complete)
  next
    case False
    with ok that show ?thesis by (auto simp: srv_ok_def oneshots_complete)
  qed
  have closed: "oneshots (chans ?sv) p \<noteq> OsClosed" for p
    using ok by (cases "oneshots (chans sv) p") (auto simp: srv_ok_def oneshots_complete)
  have "pending_at ?sv (hom p) (own p) = Some p" if "p < q" "oneshots (chans ?sv) p = OsEmpty" for p
  proof -
    from that have ne: "pending_at sv a r \<noteq> Some p" and "oneshots (chans sv) p = OsEmpty"
      using srv_ok_pendingD [OF ok, of a r p] by (auto simp: oneshots_complete split: if_splits)
    with that ok have "pending_at sv (hom p) (own p) = Some p" by (simp add: srv_ok_def)
    with ne show ?thesis by (auto simp: pending_complete)
  qed
  then show ?thesis using ok reg tx pend sent closed by (simp add: srv_ok_def)
qed

lemma srv_ok_with_conn:
  assumes "srv_ok n q own hom sv" and "\<And>a. srv_ok n q own hom (f a sv)"
  shows "srv_ok n q own hom (with_conn t f sv)"
  by (rule with_conn_cases [of t f sv]) (use assms in auto)

lemma pending_new [simp]: "pending_requests (connection_new now i meta tx) = []"
  by (simp add: connection_new_def)

lemma srv_ok_register:
  assumes ok: "srv_ok n q own hom sv" and t: "req_chan t < n"
  shows "srv_ok n q own hom (snd (handle_register now i meta t sv))"
proof (cases "i = []")
  case True
  with ok show ?thesis by (simp add: handle_register_def)
next
  case False
  let ?rg = "snd (register (connection_new now i meta (req_chan t)) (reg sv))"
  have i: "conn_id (connection_new now i meta (req_chan t)) = i"
    and tx: "request_tx (connection_new now i meta (req_chan t)) = req_chan t"
    by (simp_all add: connection_new_def)
  have eq: "snd (handle_register now i meta t sv) = sv\<lparr>reg := ?rg\<rparr>"
    using False by (simp add: handle_register_def Let_def)
  have "reg_ok ?rg" using ok by (simp add: srv_ok_def reg_ok_register)
  moreover have "registry_get ?rg [] = None"
    using ok False by (simp add: register_get i srv_ok_def)
  moreover have "request_tx (heap ?rg a) < n" if "a < next_arc ?rg" for a
    using that ok t by (auto simp: register_next register_heap tx srv_ok_def less_Suc_eq)
  moreover have "a < next_arc ?rg \<and> p < q \<and> own p = rid \<and> hom p = a \<and> oneshots (chans sv) p = OsEmpty"
    if "pending_at (sv\<lparr>reg := ?rg\<rparr>) a rid = Some p" for a rid p
  proof -
    from that have "a \<noteq> next_arc (reg sv)" and at: "pending_at sv a rid = Some p"
      by (auto simp: pending_at_def register_heap split: if_splits)
    with ok have "a < next_arc (reg sv) \<and> p < q \<and> own p = rid \<and> hom p = a \<and>
        oneshots (chans sv) p = OsEmpty" by (auto simp: srv_ok_def)
    then show ?thesis by (simp add: register_next)
  qed
  moreover have "pending_at (sv\<lparr>reg := ?rg\<rparr>) (hom p) (own p) = Some p"
    if "p < q" "oneshots (chans sv) p = OsEmpty" for p
  proof -
    from that ok have at: "pending_at sv (hom p) (own p) = Some p" by (simp add: srv_ok_def)
    with srv_ok_pendingD [OF ok at] show ?thesis by (simp add: pending_at_def register_heap)
  qed
  ultimately show ?thesis using ok unfolding eq by (simp add: srv_ok_def)
qed

lemma srv_ok_heartbeat:
  "srv_ok n q own hom sv \<Longrightarrow> srv_ok n q own hom (snd (handle_heartbeat_message now t sv))"
proof -
  assume ok: "srv_ok n q own hom sv"
  have "srv_ok n q own hom (sv\<lparr>reg := update_arc a (update_heartbeat now) (reg sv)\<rparr>)" for a
    using srv_ok_arc_op [OF ok, of "update_heartbeat now" a] by (simp add: arc_op_def)
  with ok show ?thesis
    by (auto simp: handle_heartbeat_message_def handle_heartbeat_def split: option.splits)
qed

lemma srv_ok_message:
  assumes ok: "srv_ok n q own hom sv" and t: "req_chan t < n"
  shows "srv_ok n q own hom (snd (handle_daemon_message now msg t sv))"
proof (cases "(\<exists>i meta. msg = Register i meta) \<or> msg = Heartbeat")
  case True
  then show ?thesis using ok t
    by (auto simp: handle_daemon_message_def srv_ok_register srv_ok_heartbeat)
next
  case False
  show ?thesis
    by (rule handle_other_message [of msg now t sv])
      (use False ok in \<open>auto intro!: srv_ok_with_conn srv_ok_complete srv_ok_arc_op srv_ok_chans\<close>)
qed

lemma srv_ok_cleanup: "srv_ok n q own hom sv \<Longrightarrow> srv_ok n q own hom (snd (ws_cleanup t sv))"
proof -
  assume ok: "srv_ok n q own hom sv"
  have "srv_ok n q own hom (sv\<lparr>reg := registry_remove i (reg sv)\<rparr>)" for i
    using ok by (rule srv_ok_reg_shrinks)
      (use ok in \<open>auto simp: srv_ok_def remove_get intro: reg_ok_remove split: if_splits\<close>)
  then have rm: "srv_ok n q own hom
      (sv\<lparr>reg := (case daemon_id t of None \<Rightarrow> reg sv | Some i \<Rightarrow> registry_remove i (reg sv))\<rparr>)"
    using ok by (cases "daemon_id t") simp_all
  have "snd (ws_cleanup t sv) =
      sv\<lparr>reg := (case daemon_id t of None \<Rightarrow> reg sv | Some i \<Rightarrow> registry_remove i (reg sv)),
         chans := (chans sv)\<lparr>req_chans :=
           (req_chans (chans sv))(req_chan t := mpsc_close (req_chans (chans sv) (req_chan t)))\<rparr>\<rparr>"
    by (simp add: ws_cleanup_def Let_def)
  with srv_ok_chans [OF rm] show ?thesis by simp
qed

lemma srv_ok_ws_step:
  assumes ok: "srv_ok n q own hom sv" and t: "req_chan t < n"
  shows "srv_ok n q own hom (snd (ws_step now ev t sv))"
proof -
  have c: "srv_ok n q own hom (sv\<lparr>chans := (chans sv)\<lparr>req_chans := x\<rparr>\<rparr>)" for x
    using ok by (rule srv_ok_chans) simp
  show ?thesis using ok t c
    by (auto simp: ws_step_def Let_def srv_ok_message srv_ok_cleanup
        split: ws_event.splits option.splits prod.splits bool.splits)
qed

lemma srv_ok_monitor:
  "srv_ok n q own hom sv \<Longrightarrow> srv_ok n q own hom (snd (heartbeat_monitor_tick now sv))"
proof -
  assume ok: "srv_ok n q own hom sv"
  let ?rg = "snd (cleanup_stale now heartbeat_timeout (reg sv))"
  have "srv_ok n q own hom (sv\<lparr>reg := ?rg\<rparr>)"
    using ok by (rule srv_ok_reg_shrinks)
      (use ok in \<open>auto simp: srv_ok_def cleanup_get intro: reg_ok_cleanup split: option.splits if_splits\<close>)
  then show ?thesis by (simp add: heartbeat_monitor_tick_def case_prod_unfold)
qed

lemma srv_ok_more: "srv_ok n q own hom sv \<Longrightarrow> n \<le> n' \<Longrightarrow> srv_ok n' q own hom sv"
  unfolding srv_ok_def by (meson order_less_le_trans)

text \<open>A call registers a fresh one-shot channel under a fresh request id.\<close>

lemma pending_fresh:
  "srv_ok n q own hom sv \<Longrightarrow> \<forall>p < q. own p \<noteq> rid \<Longrightarrow> pending_at sv a rid = None"
  by (cases "pending_at sv a rid") (auto dest: srv_ok_pendingD)

lemma call_register_fields:
  assumes "pending_at sv a rid = None"
  shows "chans (call_register rid p a sv) = chans sv"
    "pending_at (call_register rid p a sv) a' rid' =
       (if a' = a \<and> rid' = rid then Some p else pending_at sv a' rid')"
  using assms by (auto simp: call_register_def register_request_def pending_at_def update_arc_heap
      split: option.splits)

lemma srv_ok_call_register:
  assumes ok: "srv_ok n q own hom sv" and fresh: "\<forall>p < q. own p \<noteq> rid"
    and a: "a < next_arc (reg sv)"
  shows "srv_ok n (Suc q) (own(q := rid)) (hom(q := a)) (call_register rid q a sv)"
proof -
  let ?sv = "call_register rid q a sv"
  note f = call_register_fields [OF pending_fresh [OF ok fresh, of a], of q]
  have q: "oneshots (chans sv) q = OsEmpty"
    using ok by (cases "oneshots (chans sv) q") (auto simp: srv_ok_def)
  have reg: "reg_ok (reg ?sv)" unfolding call_register_def
    using ok by (intro reg_ok_arc_chan_op) (auto simp: srv_ok_def)
  have same: "registry_get (reg ?sv) = registry_get (reg sv)" "next_arc (reg ?sv) = next_arc (reg sv)"
    "request_tx (heap (reg ?sv) a') = request_tx (heap (reg sv) a')" for a'
    by (simp_all add: call_register_def update_arc_heap)
  have "a' < next_arc (reg sv) \<and> p < Suc q \<and> (own(q := rid)) p = rid' \<and> (hom(q := a)) p = a' \<and>
      oneshots (chans sv) p = OsEmpty" if "pending_at ?sv a' rid' = Some p" for a' rid' p
    using that ok a q by (fastforce simp: f srv_ok_def split: if_splits)
  moreover have "p < Suc q \<and> response_id m = Some ((own(q := rid)) p)"
    if "oneshots (chans sv) p = OsSent m" for p m
    using that ok q by (fastforce simp: srv_ok_def)
  moreover have "pending_at ?sv ((hom(q := a)) p) ((own(q := rid)) p) = Some p"
    if "p < Suc q" "oneshots (chans sv) p = OsEmpty" for p
  proof (cases "p = q")
    case True
    then show ?thesis by (simp add: f)
  next
    case False
    with that have p: "p < q" by simp
    with that ok fresh show ?thesis by (auto simp: f srv_ok_def)
  qed
  ultimately show ?thesis using ok reg same by (simp add: srv_ok_def f)
qed

lemma srv_ok_call_send: "srv_ok n q own hom sv \<Longrightarrow> srv_ok n q own hom (snd (call_send m a sv))"
proof -
  assume ok: "srv_ok n q own hom sv"
  have "snd (call_send m a sv) = sv\<lparr>chans := snd (send_message m (heap (reg sv) a) (chans sv))\<rparr>"
    by (simp add: call_send_def split: prod.splits)
  with srv_ok_chans [OF ok] show ?thesis by simp
qed

section \<open>Every reachable state is well-formed\<close>

lemma ws_step_req_chan [simp]: "req_chan (fst (ws_step now ev t sv)) = req_chan t"
proof -
  have reg: "req_chan (fst (handle_register now i meta t sv)) = req_chan t" for i meta sv
    by (simp add: handle_register_def Let_def)
  have beat: "req_chan (fst (handle_heartbeat_message now t sv)) = req_chan t" for sv
    by (simp add: handle_heartbeat_message_def split: option.splits prod.splits)
  have msg: "req_chan (fst (handle_daemon_message now m t sv)) = req_chan t" for m sv
    by (cases m) (simp_all add: handle_daemon_message_def reg beat)
  have cln: "req_chan (fst (ws_cleanup t sv)) = req_chan t" for t sv
    by (simp add: ws_cleanup_def Let_def)
  show ?thesis
    by (auto simp: ws_step_def Let_def msg cln ws_send_def
        split: ws_event.splits option.splits prod.splits bool.splits if_splits)
qed

lemma sys_ok_new: "sys_ok system_new"
  by (simp add: sys_ok_def system_new_def srv_ok_def server_new_def channels_new_def
      pending_at_def registry_new_def registry_get_def reg_ok_def dummy_connection_def)

lemma sys_ok_step: "sys_step s s' \<Longrightarrow> sys_ok s \<Longrightarrow> sys_ok s'"
proof (induction rule: sys_step.induct)
  case (accept s)
  then show ?case by (auto simp: sys_ok_def ws_task_new_def intro: srv_ok_more)
next
  case (task_step k s now ev t' srv')
  then have "srv' = snd (ws_step now ev (tasks s k) (srv s))"
    and "t' = fst (ws_step now ev (tasks s k) (srv s))" by simp_all
  with task_step show ?case by (auto simp: sys_ok_def srv_ok_ws_step)
next
  case (call_begin a s rid)
  then show ?case by (auto simp: sys_ok_def srv_ok_call_register)
qed (auto simp: sys_ok_def srv_ok_monitor srv_ok_call_send register_session_def start_file_transfer_def
    complete_file_transfer_def hm_take_def intro!: srv_ok_arc_op)

lemma reachable_ok: "reachable s \<Longrightarrow> sys_ok s"
  unfolding reachable_def
  by (induction rule: rtranclp_induct) (auto intro: sys_ok_new sys_ok_step)

end
