(* ===== verification/Calls.thy ===== *)
theory Calls
  imports System
begin

text \<open>
  What a caller can rely on while everything else runs: which response reaches it, that it is the
  only one, what becomes of a call whose connection the registry has dropped, what "busy" means,
  and that a daemon whose heartbeat is rejected is back after one registration. The properties are
  over the reachable states of \<open>System\<close>; \<open>perform\<close> runs the steps on concrete inputs.
\<close>

section \<open>Running the steps\<close>

datatype action =
    Accept
  | Event nat u64 ws_event
  | BreakSink nat
  | Tick u64
  | Begin nat string
  | Send nat message
  | OpenSession nat string nat
  | BeginTransfer nat string string
  | EndTransfer nat string

text \<open>An action whose guard fails does nothing.\<close>

fun perform :: "action \<Rightarrow> system \<Rightarrow> system" where
  "perform Accept s =
     s\<lparr>tasks := (tasks s)(ntasks s := ws_task_new (ntasks s)), ntasks := Suc (ntasks s)\<rparr>"
| "perform (Event k now ev) s =
     (if k < ntasks s
      then (case ws_step now ev (tasks s k) (srv s) of
              (t', srv') \<Rightarrow> s\<lparr>tasks := (tasks s)(k := t'), srv := srv'\<rparr>)
      else s)"
| "perform (BreakSink k) s =
     (if k < ntasks s then s\<lparr>tasks := (tasks s)(k := (tasks s k)\<lparr>ws_tx_ok := False\<rparr>)\<rparr> else s)"
| "perform (Tick now) s = s\<lparr>srv := snd (heartbeat_monitor_tick now (srv s))\<rparr>"
| "perform (Begin a rid) s =
     (if a < next_arc (reg (srv s)) \<and> list_all (\<lambda>q. owner s q \<noteq> rid) [0..<nos s]
      then s\<lparr>srv := call_register rid (nos s) a (srv s), nos := Suc (nos s),
             owner := (owner s)(nos s := rid), home := (home s)(nos s := a)\<rparr>
      else s)"
| "perform (Send a m) s =
     (if a < next_arc (reg (srv s)) then s\<lparr>srv := snd (call_send m a (srv s))\<rparr> else s)"
| "perform (OpenSession a sid out) s =
     (if a < next_arc (reg (srv s)) then s\<lparr>srv := arc_op (register_session sid out) a (srv s)\<rparr> else s)"
| "perform (BeginTransfer a rid path) s =
     (if a < next_arc (reg (srv s)) then s\<lparr>srv := arc_op (start_file_transfer rid path 0) a (srv s)\<rparr> else s)"
| "perform (EndTransfer a rid) s =
     (if a < next_arc (reg (srv s))
      then s\<lparr>srv := arc_op (\<lambda>c. snd (complete_file_transfer rid c)) a (srv s)\<rparr> else s)"

lemma perform_step: "perform ac s = s \<or> sys_step s (perform ac s)"
proof (cases ac)
  case (Event k now ev)
  obtain t' srv' where "ws_step now ev (tasks s k) (srv s) = (t', srv')" by fastforce
  then show ?thesis using Event by (auto intro: sys_step.task_step)
next
  case (Begin a rid)
  show ?thesis
  proof (cases "a < next_arc (reg (srv s)) \<and> list_all (\<lambda>q. owner s q \<noteq> rid) [0..<nos s]")
    case True
    then have "sys_step s (perform ac s)"
      unfolding Begin by (simp add: list_all_iff sys_step.call_begin)
    then show ?thesis ..
  next
    case False
    then show ?thesis unfolding Begin by auto
  qed
qed (auto intro: sys_step.accept sys_step.sink_broken sys_step.monitor sys_step.call_message
    sys_step.open_session sys_step.begin_transfer sys_step.end_transfer)

lemma steps_perform: "sys_step\<^sup>*\<^sup>* s (fold perform acs s)"
proof (induction acs arbitrary: s)
  case Nil
  then show ?case by simp
next
  case (Cons ac acs)
  have "sys_step\<^sup>*\<^sup>* s (perform ac s)" using perform_step [of ac s] by auto
  with Cons [of "perform ac s"] show ?case by (auto intro: rtranclp_trans)
qed

lemma reachable_perform: "reachable (fold perform acs system_new)"
  unfolding reachable_def by (rule steps_perform)

lemma reachable_steps: "reachable s \<Longrightarrow> sys_step\<^sup>*\<^sup>* s s' \<Longrightarrow> reachable s'"
  unfolding reachable_def by (rule rtranclp_trans)

lemma reachable_srv_ok: "reachable s \<Longrightarrow> srv_ok (ntasks s) (nos s) (owner s) (home s) (srv s)"
  using reachable_ok by (simp add: sys_ok_def)

lemma srv_ok_unanswered:
  "srv_ok n q own hom sv \<Longrightarrow> p < q \<Longrightarrow> oneshots (chans sv) p = OsEmpty \<Longrightarrow>
     pending_at sv (hom p) (own p) = Some p"
  by (simp add: srv_ok_def)

section \<open>An answer, once delivered, stays\<close>

text \<open>The one-shot channels that hold a value keep it under every step.\<close>

definition keeps_answers :: "server \<Rightarrow> server \<Rightarrow> bool" where
  "keeps_answers sv sv' \<longleftrightarrow>
     (\<forall>q m. oneshots (chans sv) q = OsSent m \<longrightarrow> oneshots (chans sv') q = OsSent m)"

lemma keeps_answers_same: "oneshots (chans sv') = oneshots (chans sv) \<Longrightarrow> keeps_answers sv sv'"
  by (simp add: keeps_answers_def)

lemma keeps_answers_complete: "keeps_answers sv (arc_chan_op (complete_request r m) a sv)"
  by (auto simp: keeps_answers_def oneshots_complete)

lemma keeps_answers_with_conn:
  "(\<And>a. keeps_answers sv (f a sv)) \<Longrightarrow> keeps_answers sv (with_conn t f sv)"
  by (rule with_conn_cases [of t f sv]) (auto simp: keeps_answers_def)

lemma keeps_answers_message: "keeps_answers sv (snd (handle_daemon_message now msg t sv))"
proof (cases "(\<exists>i meta. msg = Register i meta) \<or> msg = Heartbeat")
  case True
  then show ?thesis
    by (auto simp: handle_daemon_message_def handle_register_def handle_heartbeat_message_def Let_def
        split: option.splits prod.splits intro!: keeps_answers_same)
next
  case False
  show ?thesis
    by (rule handle_other_message [of msg now t sv])
      (use False in \<open>auto simp del: arc_chan_op_fields
        intro!: keeps_answers_with_conn keeps_answers_complete intro: keeps_answers_same\<close>)
qed

lemma keeps_answers_ws_step: "keeps_answers sv (snd (ws_step now ev t sv))"
  by (auto simp: ws_step_def Let_def ws_cleanup_def keeps_answers_message
      split: ws_event.splits option.splits prod.splits bool.splits intro!: keeps_answers_same)

lemma keeps_answers_call_register: "keeps_answers sv (call_register rid q a sv)"
  by (auto simp: keeps_answers_def call_register_def register_request_def split: option.splits)

lemma keeps_answers_step: "sys_step s s' \<Longrightarrow> keeps_answers (srv s) (srv s')"
proof (induction rule: sys_step.induct)
  case (task_step k s now ev t' srv')
  with keeps_answers_ws_step [of "srv s" now ev "tasks s k"] show ?case by simp
next
  case (call_begin a s rid)
  then show ?case by (simp add: keeps_answers_call_register)
next
  case (call_message a s m)
  have "chans (snd (call_send m a (srv s))) = snd (send_message m (heap (reg (srv s)) a) (chans (srv s)))"
    by (simp add: call_send_def split: prod.splits)
  then show ?case by (auto intro!: keeps_answers_same)
qed (auto simp: heartbeat_monitor_tick_def split: prod.splits intro!: keeps_answers_same)

lemma keeps_answers_steps: "sys_step\<^sup>*\<^sup>* s s' \<Longrightarrow> keeps_answers (srv s) (srv s')"
  by (induction rule: rtranclp_induct)
    (auto simp: keeps_answers_def dest!: keeps_answers_step)

section \<open>A connection that is no longer listed stays unlisted\<close>

text \<open>The connection \<open>a\<close> is allocated but under no id, and its pending calls are still there.\<close>

definition unlisted :: "nat \<Rightarrow> server \<Rightarrow> bool" where
  "unlisted a sv \<longleftrightarrow> a < next_arc (reg sv) \<and> (\<forall>i. registry_get (reg sv) i \<noteq> Some a)"

definition strands :: "nat \<Rightarrow> server \<Rightarrow> server \<Rightarrow> bool" where
  "strands a sv sv' \<longleftrightarrow> unlisted a sv' \<and>
     (\<forall>rid q. pending_at sv a rid = Some q \<longrightarrow> pending_at sv' a rid = Some q)"

lemma strands_same:
  assumes "unlisted a sv" and "registry_get (reg sv') = registry_get (reg sv)"
    and "next_arc (reg sv') = next_arc (reg sv)"
    and "pending_requests (heap (reg sv') a) = pending_requests (heap (reg sv) a)"
  shows "strands a sv sv'"
  using assms by (simp add: strands_def unlisted_def pending_at_def)

lemma strands_refl: "unlisted a sv \<Longrightarrow> strands a sv sv"
  by (simp add: strands_def)

lemma strands_arc_op:
  assumes "unlisted a sv" and "\<And>c. pending_requests (f c) = pending_requests c"
  shows "strands a sv (arc_op f b sv)"
  using assms(1) by (rule strands_same) (simp_all add: update_arc_heap assms)

text \<open>A task works on listed connections only.\<close>

lemma strands_with_conn:
  assumes "unlisted a sv"
    and "\<And>b. b \<noteq> a \<Longrightarrow> strands a sv (f b sv)"
  shows "strands a sv (with_conn t f sv)"
proof (rule with_conn_cases [of t f sv])
  fix i b
  assume b: "registry_get (reg sv) i = Some b" "with_conn t f sv = f b sv"
  with assms(1) have "b \<noteq> a" by (auto simp: unlisted_def)
  with assms(2) b show ?thesis by simp
qed (use assms in \<open>simp add: strands_refl\<close>)

lemma strands_complete:
  "unlisted a sv \<Longrightarrow> b \<noteq> a \<Longrightarrow> strands a sv (arc_chan_op (complete_request r m) b sv)"
  by (rule strands_same) (simp_all add: update_arc_heap)

lemma strands_reg_shrinks:
  assumes "unlisted a sv" and "heap rg = heap (reg sv)" and "next_arc rg = next_arc (reg sv)"
    and "\<And>i b. registry_get rg i = Some b \<Longrightarrow> registry_get (reg sv) i = Some b"
    and "reg sv' = rg"
  shows "strands a sv sv'"
  using assms by (auto simp: strands_def unlisted_def pending_at_def)

lemma strands_register:
  "unlisted a sv \<Longrightarrow> strands a sv (snd (handle_register now i meta t sv))"
  by (auto simp: handle_register_def Let_def strands_def unlisted_def register_get register_next
      register_heap pending_at_def)

lemma strands_heartbeat:
  "unlisted a sv \<Longrightarrow> strands a sv (snd (handle_heartbeat_message now t sv))"
  by (rule strands_same)
    (auto simp: handle_heartbeat_message_def handle_heartbeat_def update_arc_heap
      split: option.splits prod.splits)

lemma strands_message:
  assumes "unlisted a sv"
  shows "strands a sv (snd (handle_daemon_message now msg t sv))"
proof (cases "(\<exists>i meta. msg = Register i meta) \<or> msg = Heartbeat")
  case True
  with assms show ?thesis
    by (auto simp: handle_daemon_message_def strands_register strands_heartbeat)
next
  case False
  show ?thesis
    by (rule handle_other_message [of msg now t sv])
      (use False assms in \<open>auto simp del: arc_chan_op_fields arc_op_fields
        intro!: strands_with_conn strands_complete strands_arc_op intro: strands_refl
          strands_same\<close>)
qed

lemma strands_cleanup: "unlisted a sv \<Longrightarrow> strands a sv (snd (ws_cleanup t sv))"
  by (rule strands_reg_shrinks [where rg = "case daemon_id t of None \<Rightarrow> reg sv
        | Some i \<Rightarrow> registry_remove i (reg sv)"])
    (auto simp: ws_cleanup_def Let_def remove_get split: option.splits if_splits)

lemma strands_chans [simp]:
  "unlisted a (sv\<lparr>chans := x\<rparr>) = unlisted a sv"
  "strands a (sv\<lparr>chans := x\<rparr>) sv' = strands a sv sv'"
  "strands a sv (sv'\<lparr>chans := x\<rparr>) = strands a sv sv'"
  by (simp_all add: unlisted_def strands_def pending_at_def)

lemma strands_ws_step:
  assumes "unlisted a sv"
  shows "strands a sv (snd (ws_step now ev t sv))"
proof -
  have "strands a sv (snd (ws_cleanup t' (sv\<lparr>chans := x\<rparr>)))" for t' x
    using strands_cleanup [of a "sv\<lparr>chans := x\<rparr>" t'] assms by simp
  with assms show ?thesis
    by (auto simp: ws_step_def Let_def strands_message strands_refl strands_cleanup
        split: ws_event.splits option.splits prod.splits bool.splits)
qed

lemma strands_call_register:
  assumes ok: "srv_ok n q own hom sv" and fresh: "\<forall>p < q. own p \<noteq> rid" and un: "unlisted a sv"
  shows "strands a sv (call_register rid q b sv)"
proof -
  note none = pending_fresh [OF ok fresh]
  have "pending_at (call_register rid q b sv) a rid' = Some p"
    if "pending_at sv a rid' = Some p" for rid' p
    using that none by (auto simp: call_register_fields)
  moreover have "unlisted a (call_register rid q b sv)"
    using un by (simp add: unlisted_def call_register_def)
  ultimately show ?thesis by (simp add: strands_def)
qed

lemma strands_step: "sys_step s s' \<Longrightarrow> sys_ok s \<Longrightarrow> unlisted a (srv s) \<Longrightarrow> strands a (srv s) (srv s')"
proof (induction rule: sys_step.induct)
  case (task_step k s now ev t' srv')
  with strands_ws_step [of a "srv s" now ev "tasks s k"] show ?case by simp
next
  case (monitor s now)
  then have "reg_ok (reg (srv s))" by (simp add: sys_ok_def srv_ok_def)
  with monitor show ?case
    by (intro strands_reg_shrinks [where rg = "snd (cleanup_stale now heartbeat_timeout (reg (srv s)))"])
      (auto simp: heartbeat_monitor_tick_def cleanup_get case_prod_unfold
        split: option.splits if_splits)
next
  case (call_begin b s rid)
  then show ?case by (auto simp: sys_ok_def intro: strands_call_register)
next
  case (call_message b s m)
  have "snd (call_send m b (srv s)) =
      (srv s)\<lparr>chans := snd (send_message m (heap (reg (srv s)) b) (chans (srv s)))\<rparr>"
    by (simp add: call_send_def split: prod.splits)
  with call_message show ?case by (simp add: strands_refl)
next
  case (open_session b s sid out)
  then show ?case by (simp add: strands_arc_op register_session_def)
next
  case (begin_transfer b s rid path)
  then show ?case by (simp add: strands_arc_op start_file_transfer_def)
next
  case (end_transfer b s rid)
  then show ?case by (simp add: strands_arc_op complete_file_transfer_def hm_take_def)
qed (simp_all add: strands_refl)

lemma stranded_steps:
  assumes "sys_step\<^sup>*\<^sup>* s s'" and "reachable s" and "unlisted a (srv s)"
    and "pending_at (srv s) a rid = Some q"
  shows "unlisted a (srv s') \<and> pending_at (srv s') a rid = Some q"
  using assms(1)
proof (induction rule: rtranclp_induct)
  case base
  show ?case using assms by simp
next
  case (step s1 s2)
  from step.hyps(1) assms(2) have "sys_ok s1" by (blast intro: reachable_steps reachable_ok)
  with strands_step [OF step.hyps(2)] step.IH show ?case by (simp add: strands_def)
qed

section \<open>Concrete runs\<close>

text \<open>A daemon registers, a command is sent to it, and it answers; and the same with the
  connection evicted by the monitor before the answer.\<close>

definition demo_meta :: daemon_metadata where
  "demo_meta = \<lparr>hostname = ''h'', platform = ''linux'', arch = ''x86_64'', version = ''0.1.0'', labels = []\<rparr>"

definition demo_answer :: message where
  "demo_answer = CommandOutput ''r1'' ''out'' [] 0 5"

definition demo_call :: system where
  "demo_call = fold perform
     [Accept, Event 0 100 (WsText (Some (Register ''d1'' demo_meta))), Begin 0 ''r1'',
      Send 0 (ExecuteCommand ''r1'' ''ls'' 300 [] None), Event 0 101 ReqReady] system_new"

definition demo_answered :: system where
  "demo_answered = perform (Event 0 102 (WsText (Some demo_answer))) demo_call"

definition demo_evicted :: system where
  "demo_evicted = perform (Tick 140) demo_call"

definition demo_late :: system where
  "demo_late = fold perform
     [Event 0 141 (WsText (Some Heartbeat)), Event 0 142 (WsText (Some (Register ''d1'' demo_meta))),
      Event 0 143 (WsText (Some demo_answer))] demo_evicted"

lemmas demo_defs = demo_call_def demo_answered_def demo_evicted_def demo_late_def

lemma demo_reachable:
  "reachable demo_call" "reachable demo_answered" "reachable demo_evicted"
  "sys_step\<^sup>*\<^sup>* demo_call demo_answered" "sys_step\<^sup>*\<^sup>* demo_evicted demo_late"
proof -
  show r: "reachable demo_call" unfolding demo_call_def by (rule reachable_perform)
  have step: "sys_step\<^sup>*\<^sup>* s (perform ac s)" for s ac
    using steps_perform [of s "[ac]"] by simp
  show "sys_step\<^sup>*\<^sup>* demo_call demo_answered" unfolding demo_answered_def by (rule step)
  then show "reachable demo_answered" using r by (rule reachable_steps [rotated])
  show "reachable demo_evicted" unfolding demo_evicted_def using r step by (rule reachable_steps)
  show "sys_step\<^sup>*\<^sup>* demo_evicted demo_late" unfolding demo_late_def by (rule steps_perform)
qed

lemma demo_state:
  "oneshots (chans (srv demo_call)) 0 = OsEmpty" "nos demo_call = 1"
  "home demo_call 0 = 0" "owner demo_call 0 = ''r1''" "next_arc (reg (srv demo_call)) = 1"
  "oneshots (chans (srv demo_answered)) 0 = OsSent demo_answer"
  "connections (reg (srv demo_evicted)) = []" "next_arc (reg (srv demo_evicted)) = 1"
  "oneshots (chans (srv demo_evicted)) 0 = OsEmpty" "nos demo_evicted = 1" "home demo_evicted 0 = 0"
  "registry_get (reg (srv demo_call)) ''d1'' = Some 0"
  "ntasks demo_call = 1" "ws_running (tasks demo_call 0)" "daemon_id (tasks demo_call 0) = Some ''d1''"
  by code_simp+

section \<open>Properties of calls\<close>

text \<open>C5. In every reachable state, a value in the one-shot channel of a call is a response message
  carrying the request id that call was created with: however the tasks and threads interleave,
  and whatever daemons send, no caller receives the response to another call.\<close>

theorem response_routing:
  "reachable s \<Longrightarrow> oneshots (chans (srv s)) q = OsSent m \<Longrightarrow>
     q < nos s \<and> response_id m = Some (owner s q)"
  by (drule reachable_srv_ok) (simp add: srv_ok_def)

theorem response_routing_witness:
  "0 < nos demo_answered \<and> response_id demo_answer = Some (owner demo_answered 0)"
  using response_routing [OF demo_reachable(2) demo_state(6)] .

text \<open>A call whose request is pending on the connection listed under a daemon's id receives the
  response the daemon's task reads: the one-shot channel then holds that message, and the
  connection no longer has the request pending.\<close>

theorem response_reaches_caller:
  assumes "reachable s" and "q < nos s" and "oneshots (chans (srv s)) q = OsEmpty"
    and "k < ntasks s" and "ws_running (tasks s k)" and "daemon_id (tasks s k) = Some i"
    and "registry_get (reg (srv s)) i = Some (home s q)" and "response_id m = Some (owner s q)"
  shows "oneshots (chans (srv (perform (Event k now (WsText (Some m))) s))) q = OsSent m \<and>
    pending_at (srv (perform (Event k now (WsText (Some m))) s)) (home s q) (owner s q) = None"
proof -
  let ?sv = "arc_chan_op (complete_request (owner s q) m) (home s q) (srv s)"
  have at: "pending_at (srv s) (home s q) (owner s q) = Some q"
    using srv_ok_unanswered [OF reachable_srv_ok] assms(1-3) by blast
  have "srv (perform (Event k now (WsText (Some m))) s) = ?sv"
    using assms by (simp add: ws_step_def handle_response_message handle_response_def with_conn_def)
  with at assms(3) show ?thesis by (simp add: oneshots_complete pending_complete)
qed

theorem response_reaches_caller_witness:
  "oneshots (chans (srv (perform (Event 0 102 (WsText (Some demo_answer))) demo_call))) 0 =
     OsSent demo_answer \<and>
   pending_at (srv (perform (Event 0 102 (WsText (Some demo_answer))) demo_call))
     (home demo_call 0) (owner demo_call 0) = None"
  by (rule response_reaches_caller [OF demo_reachable(1), of 0 0 "''d1''" demo_answer])
    (simp_all add: demo_state demo_answer_def)

text \<open>A call is answered at most once: from the moment its one-shot channel holds a response, no
  later step of the server replaces or removes it, whatever further responses with the same
  request id arrive.\<close>

theorem answered_once:
  "reachable s \<Longrightarrow> sys_step\<^sup>*\<^sup>* s s' \<Longrightarrow> oneshots (chans (srv s)) q = OsSent m \<Longrightarrow>
     oneshots (chans (srv s')) q = OsSent m"
  by (drule keeps_answers_steps) (simp add: keeps_answers_def)

theorem answered_once_witness:
  "oneshots (chans (srv (perform (Event 0 103 (WsText (Some (CommandError ''r1'' ''late'')))) demo_answered))) 0
     = OsSent demo_answer"
  using answered_once [OF demo_reachable(2) _ demo_state(6),
      of "perform (Event 0 103 (WsText (Some (CommandError ''r1'' ''late'')))) demo_answered"]
    steps_perform [of demo_answered "[Event 0 103 (WsText (Some (CommandError ''r1'' ''late'')))]"]
  by simp

text \<open>C9. A call in flight on a connection that has left the registry (evicted by the monitor, or
  replaced when the daemon registered again) is never answered: no continuation delivers a
  response to it, not even when the daemon is back under its id and sends the answer. Its caller
  can only time out.\<close>

theorem stranded_call_never_answered:
  assumes "reachable s" and "q < nos s" and "oneshots (chans (srv s)) q = OsEmpty"
    and "\<And>i. registry_get (reg (srv s)) i \<noteq> Some (home s q)" and "sys_step\<^sup>*\<^sup>* s s'"
  shows "oneshots (chans (srv s')) q = OsEmpty"
proof -
  have ok: "srv_ok (ntasks s) (nos s) (owner s) (home s) (srv s)"
    using assms(1) by (rule reachable_srv_ok)
  then have at: "pending_at (srv s) (home s q) (owner s q) = Some q"
    using assms(2,3) by (rule srv_ok_unanswered)
  have "unlisted (home s q) (srv s)"
    using srv_ok_pendingD [OF ok at] assms(4) by (simp add: unlisted_def)
  from stranded_steps [OF assms(5,1) this at]
  have "pending_at (srv s') (home s q) (owner s q) = Some q" ..
  moreover have "srv_ok (ntasks s') (nos s') (owner s') (home s') (srv s')"
    using assms(1,5) by (blast intro: reachable_steps reachable_srv_ok)
  ultimately show ?thesis by (blast dest: srv_ok_pendingD)
qed

theorem stranded_call_never_answered_witness:
  "oneshots (chans (srv demo_late)) 0 = OsEmpty"
  by (rule stranded_call_never_answered [OF demo_reachable(3) _ demo_state(9) _ demo_reachable(5)])
    (simp_all add: demo_state registry_get_def)

text \<open>C34. \<open>is_busy\<close> says exactly that a call made on the connection has not been answered: one that
  timed out, or whose send failed, keeps the daemon busy for as long as the connection lives,
  since only a response removes the entry.\<close>

theorem busy_iff_unanswered:
  assumes "reachable s" and "a < next_arc (reg (srv s))"
  shows "is_busy (heap (reg (srv s)) a) \<longleftrightarrow>
    (\<exists>q < nos s. home s q = a \<and> oneshots (chans (srv s)) q = OsEmpty)"
proof -
  have ok: "srv_ok (ntasks s) (nos s) (owner s) (home s) (srv s)"
    using assms(1) by (rule reachable_srv_ok)
  have "is_busy (heap (reg (srv s)) a) \<longleftrightarrow> (\<exists>rid q. pending_at (srv s) a rid = Some q)"
    by (simp add: is_busy_def hm_nonempty_iff pending_at_def)
  also have "\<dots> \<longleftrightarrow> (\<exists>q < nos s. home s q = a \<and> oneshots (chans (srv s)) q = OsEmpty)"
  proof
    assume "\<exists>rid q. pending_at (srv s) a rid = Some q"
    with srv_ok_pendingD [OF ok] show "\<exists>q < nos s. home s q = a \<and> oneshots (chans (srv s)) q = OsEmpty"
      by blast
  next
    assume "\<exists>q < nos s. home s q = a \<and> oneshots (chans (srv s)) q = OsEmpty"
    then obtain q where "q < nos s" "home s q = a" "oneshots (chans (srv s)) q = OsEmpty" by blast
    with srv_ok_unanswered [OF ok, of q] have "pending_at (srv s) a (owner s q) = Some q" by simp
    then show "\<exists>rid q. pending_at (srv s) a rid = Some q" by blast
  qed
  finally show ?thesis .
qed

theorem busy_iff_unanswered_witness:
  "is_busy (heap (reg (srv demo_call)) 0) \<longleftrightarrow>
     (\<exists>q < nos demo_call. home demo_call q = 0 \<and> oneshots (chans (srv demo_call)) q = OsEmpty)"
  by (rule busy_iff_unanswered [OF demo_reachable(1)]) (simp add: demo_state)

text \<open>C40. Every entry of the registry is under the id its connection registered with, never the empty
  one, and its requests go to the channel of a WebSocket task that was accepted.\<close>

theorem listed_connection:
  "reachable s \<Longrightarrow> registry_get (reg (srv s)) i = Some a \<Longrightarrow>
     i \<noteq> [] \<and> conn_id (heap (reg (srv s)) a) = i \<and> request_tx (heap (reg (srv s)) a) < ntasks s"
  by (drule reachable_srv_ok) (auto simp: srv_ok_def reg_ok_def)

theorem listed_connection_witness:
  "''d1'' \<noteq> [] \<and> conn_id (heap (reg (srv demo_call)) 0) = ''d1'' \<and>
     request_tx (heap (reg (srv demo_call)) 0) < ntasks demo_call"
  by (rule listed_connection [OF demo_reachable(1) demo_state(12)])

text \<open>A caller that waits never sees its channel closed: it receives a response or times out. The
  arms of the API that report a closed channel are never taken.\<close>

theorem wait_never_closed:
  "reachable s \<Longrightarrow> fst (await_response q (\<lambda>_. srv s) sv) \<noteq> ChannelClosed"
  by (drule reachable_srv_ok) (auto simp: srv_ok_def await_response_def Let_def split: oneshot.splits)

theorem wait_never_closed_witness:
  "fst (await_response 0 (\<lambda>_. srv demo_evicted) (srv demo_call)) \<noteq> ChannelClosed"
  by (rule wait_never_closed [OF demo_reachable(3)])

end
