(* ===== verification/CallSpec.thy ===== *)
theory CallSpec
  imports Calls
begin

text \<open>
  What the controller promises its callers, as a specification over request ids alone: a call waits,
  is answered with a response that carries its id, or is lost. \<open>call_status\<close> reads the state of every
  call off the state of the server, and every step of the server is a step of the specification.
\<close>

section \<open>The specification\<close>

datatype call_status = NoCall | Waiting | Lost | Answered message

type_synonym calls = "string \<Rightarrow> call_status"

text \<open>A call begins, also on a connection that is already gone; a call that waits is answered; the
  calls of a connection are lost together. Nothing leads back from an answer or a loss.\<close>

inductive spec_step :: "calls \<Rightarrow> calls \<Rightarrow> bool" where
  begin_call: "cs rid = NoCall \<Longrightarrow> st \<in> {Waiting, Lost} \<Longrightarrow> spec_step cs (cs(rid := st))"
| answer_call: "cs rid = Waiting \<Longrightarrow> response_id m = Some rid \<Longrightarrow> spec_step cs (cs(rid := Answered m))"
| lose_calls: "spec_step cs (\<lambda>rid. if cs rid = Waiting \<and> rid \<in> gone then Lost else cs rid)"

inductive_cases spec_stepE: "spec_step cs cs'"

lemma spec_answered: "spec_step\<^sup>*\<^sup>* cs cs' \<Longrightarrow> cs rid = Answered m \<Longrightarrow> cs' rid = Answered m"
  by (induction rule: rtranclp_induct) (auto elim!: spec_stepE)

lemma spec_lost: "spec_step\<^sup>*\<^sup>* cs cs' \<Longrightarrow> cs rid = Lost \<Longrightarrow> cs' rid = Lost"
  by (induction rule: rtranclp_induct) (auto elim!: spec_stepE)

lemma spec_correlated:
  "spec_step\<^sup>*\<^sup>* (\<lambda>_. NoCall) cs \<Longrightarrow> cs rid = Answered m \<Longrightarrow> response_id m = Some rid"
  by (induction arbitrary: rid m rule: rtranclp_induct) (auto elim!: spec_stepE split: if_splits)

section \<open>What the server's state says of a call\<close>

definition status_of :: "system \<Rightarrow> nat \<Rightarrow> call_status" where
  "status_of s q =
     (case oneshots (chans (srv s)) q of
        OsSent m \<Rightarrow> Answered m
      | _ \<Rightarrow> (if home s q \<in> snd ` set (connections (reg (srv s))) then Waiting else Lost))"

definition call_status :: "system \<Rightarrow> calls" where
  "call_status s rid =
     (case find (\<lambda>q. owner s q = rid) [0..<nos s] of None \<Rightarrow> NoCall | Some q \<Rightarrow> status_of s q)"

text \<open>Request ids are fresh, so no two calls share one.\<close>

definition ids_distinct :: "system \<Rightarrow> bool" where
  "ids_distinct s \<longleftrightarrow> inj_on (owner s) {..<nos s}"

lemma ids_distinct_step: "sys_step s s' \<Longrightarrow> ids_distinct s \<Longrightarrow> ids_distinct s'"
  by (induction rule: sys_step.induct) (auto simp: ids_distinct_def lessThan_Suc inj_on_def)

lemma reachable_distinct: "reachable s \<Longrightarrow> ids_distinct s"
  unfolding reachable_def
  by (induction rule: rtranclp_induct)
    (auto simp: ids_distinct_step, simp add: ids_distinct_def system_new_def)

lemma find_owner:
  assumes "ids_distinct s" and "q < nos s"
  shows "find (\<lambda>p. owner s p = owner s q) [0..<nos s] = Some q"
proof -
  obtain p where p: "find (\<lambda>p. owner s p = owner s q) [0..<nos s] = Some p"
    using assms(2) by (cases "find (\<lambda>p. owner s p = owner s q) [0..<nos s]") (auto simp: find_None_iff)
  then have "p < nos s" "owner s p = owner s q" by (auto simp: find_Some_iff)
  with assms have "p = q" by (auto simp: ids_distinct_def inj_on_def)
  with p show ?thesis by simp
qed

lemma call_status_owner:
  "ids_distinct s \<Longrightarrow> q < nos s \<Longrightarrow> call_status s (owner s q) = status_of s q"
  by (simp add: call_status_def find_owner)

lemma call_status_none: "(\<And>q. q < nos s \<Longrightarrow> owner s q \<noteq> rid) \<Longrightarrow> call_status s rid = NoCall"
  using find_None_iff [of "\<lambda>q. owner s q = rid" "[0..<nos s]"] by (auto simp: call_status_def)

lemma call_status_cases:
  assumes "ids_distinct s" and "owner s' = owner s" and "nos s' = nos s"
  obtains "call_status s rid = NoCall" "call_status s' rid = NoCall"
  | q where "q < nos s" "rid = owner s q" "call_status s rid = status_of s q" "call_status s' rid = status_of s' q"
proof (cases "\<exists>q < nos s. rid = owner s q")
  case True
  then obtain q where q: "q < nos s" "rid = owner s q" by blast
  moreover have "ids_distinct s'" using assms by (simp add: ids_distinct_def)
  ultimately show thesis
    using assms that(2) call_status_owner [of s q] call_status_owner [of s' q] by simp
next
  case False
  then show thesis using assms that(1) call_status_none [of s rid] call_status_none [of s' rid] by auto
qed

lemma listed_iff:
  "reg_ok rg \<Longrightarrow> a \<in> snd ` set (connections rg) \<longleftrightarrow> (\<exists>i. registry_get rg i = Some a)"
  by (force simp: registry_get_iff)

section \<open>Steps\<close>

text \<open>One step delivers at most one answer.\<close>

definition one_answer :: "server \<Rightarrow> server \<Rightarrow> bool" where
  "one_answer sv sv' \<longleftrightarrow> oneshots (chans sv') = oneshots (chans sv) \<or>
     (\<exists>q m. oneshots (chans sv') = (oneshots (chans sv))(q := OsSent m))"

lemma one_answer_same: "oneshots (chans sv') = oneshots (chans sv) \<Longrightarrow> one_answer sv sv'"
  by (simp add: one_answer_def)

lemma one_answer_complete: "one_answer sv (arc_chan_op (complete_request r m) a sv)"
proof (cases "pending_at sv a r")
  case None
  then show ?thesis by (intro one_answer_same) (simp add: fun_eq_iff oneshots_complete)
next
  case (Some q)
  then have "oneshots (chans (arc_chan_op (complete_request r m) a sv)) =
      (oneshots (chans sv))(q := os_send m (oneshots (chans sv) q))"
    by (auto simp: fun_eq_iff oneshots_complete)
  then show ?thesis
    by (cases "oneshots (chans sv) q") (auto simp: one_answer_def fun_upd_idem)
qed

lemma one_answer_with_conn:
  "(\<And>a. one_answer sv (f a sv)) \<Longrightarrow> one_answer sv (with_conn t f sv)"
  by (rule with_conn_cases [of t f sv]) (auto simp: one_answer_def)

lemma one_answer_message: "one_answer sv (snd (handle_daemon_message now msg t sv))"
proof (cases "(\<exists>i meta. msg = Register i meta) \<or> msg = Heartbeat")
  case True
  then show ?thesis
    by (auto simp: handle_daemon_message_def handle_register_def handle_heartbeat_message_def Let_def
        split: option.splits prod.splits intro!: one_answer_same)
next
  case False
  show ?thesis
    by (rule handle_other_message [of msg now t sv])
      (use False in \<open>auto simp del: arc_chan_op_fields
        intro!: one_answer_with_conn one_answer_complete intro: one_answer_same\<close>)
qed

lemma one_answer_ws_step: "one_answer sv (snd (ws_step now ev t sv))"
  by (auto simp: ws_step_def Let_def ws_cleanup_def one_answer_message
      split: ws_event.splits option.splits prod.splits bool.splits intro!: one_answer_same)

lemma one_answer_step:
  "sys_step s s' \<Longrightarrow> (nos s' = nos s \<longrightarrow> owner s' = owner s \<and> home s' = home s \<and> one_answer (srv s) (srv s'))"
proof (induction rule: sys_step.induct)
  case (task_step k s now ev t' srv')
  with one_answer_ws_step [of "srv s" now ev "tasks s k"] show ?case by simp
next
  case (call_message a s m)
  have "chans (snd (call_send m a (srv s))) = snd (send_message m (heap (reg (srv s)) a) (chans (srv s)))"
    by (simp add: call_send_def split: prod.splits)
  then show ?case by (auto intro!: one_answer_same)
qed (auto simp: heartbeat_monitor_tick_def split: prod.splits intro!: one_answer_same)

text \<open>What a step that begins no call does to one call: a loss is final, and so is an answer.\<close>

lemma status_step:
  assumes r: "reachable s" and step: "sys_step s s'" and n: "nos s' = nos s" and q: "q < nos s"
  shows "status_of s' q = status_of s q \<or> status_of s q = Waiting"
proof -
  note ok = reachable_srv_ok [OF r]
  have r': "reachable s'" using r step by (blast intro: reachable_steps)
  note ok' = reachable_srv_ok [OF r']
  have same: "home s' = home s" using one_answer_step [OF step] n by simp
  consider m where "oneshots (chans (srv s)) q = OsSent m" | "oneshots (chans (srv s)) q = OsEmpty"
    using ok by (cases "oneshots (chans (srv s)) q") (auto simp: srv_ok_def)
  then show ?thesis
  proof cases
    case (1 m)
    with keeps_answers_step [OF step] show ?thesis by (simp add: keeps_answers_def status_of_def)
  next
    case 2
    show ?thesis
    proof (cases "status_of s q = Waiting")
      case False
      with 2 have gone: "home s q \<notin> snd ` set (connections (reg (srv s)))"
        by (auto simp: status_of_def split: if_splits)
      note at = srv_ok_unanswered [OF ok q 2]
      have un: "unlisted (home s q) (srv s)"
        using gone srv_ok_pendingD [OF ok at] listed_iff [OF srv_ok_reg [OF ok]] by (auto simp: unlisted_def)
      from stranded_steps [OF _ r un at, of s'] step
      have "unlisted (home s q) (srv s')" and at': "pending_at (srv s') (home s q) (owner s q) = Some q"
        by auto
      then have "home s' q \<notin> snd ` set (connections (reg (srv s')))"
        using listed_iff [OF srv_ok_reg [OF ok']] same by (auto simp: unlisted_def)
      with srv_ok_pendingD [OF ok' at'] 2 gone show ?thesis by (simp add: status_of_def)
    qed simp
  qed
qed

text \<open>A step that begins no call answers at most one, and loses some that waited.\<close>

lemma refine_quiet:
  assumes r: "reachable s" and step: "sys_step s s'" and n: "nos s' = nos s"
  shows "spec_step\<^sup>*\<^sup>* (call_status s) (call_status s')"
proof -
  have own: "owner s' = owner s" and one: "one_answer (srv s) (srv s')"
    using one_answer_step [OF step] n by simp_all
  note d = reachable_distinct [OF r]
  let ?gone = "{rid. call_status s' rid = Lost}"
  have lose: "spec_step cs (call_status s')"
    if "\<And>rid. call_status s' rid = (if cs rid = Waiting \<and> rid \<in> ?gone then Lost else cs rid)" for cs
  proof -
    have "call_status s' = (\<lambda>rid. if cs rid = Waiting \<and> rid \<in> ?gone then Lost else cs rid)"
      by (rule ext) (rule that)
    with lose_calls [of cs ?gone] show ?thesis by (simp only:)
  qed
  show ?thesis
  proof (cases "oneshots (chans (srv s')) = oneshots (chans (srv s))")
    case True
    have "call_status s' rid = (if call_status s rid = Waiting \<and> rid \<in> ?gone then Lost else call_status s rid)" for rid
    proof (rule call_status_cases [OF d own n, of rid])
      fix q
      assume q: "q < nos s" and "call_status s rid = status_of s q" "call_status s' rid = status_of s' q"
      moreover from status_step [OF r step n q] True
      have "status_of s' q = status_of s q \<or> status_of s q = Waiting \<and> status_of s' q = Lost"
        by (auto simp: status_of_def split: oneshot.splits if_splits)
      ultimately show ?thesis by auto
    qed simp
    from lose [OF this] show ?thesis by blast
  next
    case False
    with one obtain q m where upd: "oneshots (chans (srv s')) = (oneshots (chans (srv s)))(q := OsSent m)"
      by (auto simp: one_answer_def)
    have r': "reachable s'" using r step by (blast intro: reachable_steps)
    from upd have "oneshots (chans (srv s')) q = OsSent m" by simp
    from response_routing [OF r' this] have q: "q < nos s" and rid: "response_id m = Some (owner s q)"
      using n own by simp_all
    have st': "status_of s' q = Answered m" using upd by (simp add: status_of_def)
    have "status_of s q \<noteq> Answered m"
      using False upd by (auto simp: status_of_def fun_upd_idem split: oneshot.splits if_splits)
    with status_step [OF r step n q] st' have w: "call_status s (owner s q) = Waiting"
      by (simp add: call_status_owner [OF d q])
    let ?mid = "(call_status s)(owner s q := Answered m)"
    have chg: "call_status s' i = (if ?mid i = Waiting \<and> i \<in> ?gone then Lost else ?mid i)" for i
    proof (rule call_status_cases [OF d own n, of i])
      fix p
      assume p: "p < nos s" "i = owner s p" and st: "call_status s i = status_of s p" "call_status s' i = status_of s' p"
      show ?thesis
      proof (cases "p = q")
        case True
        with p st st' show ?thesis by simp
      next
        case False
        with d p q have "i \<noteq> owner s q" by (auto simp: ids_distinct_def inj_on_def)
        moreover from status_step [OF r step n p(1)] upd False
        have "status_of s' p = status_of s p \<or> status_of s p = Waiting \<and> status_of s' p = Lost"
          by (auto simp: status_of_def split: oneshot.splits if_splits)
        ultimately show ?thesis using st by auto
      qed
    next
      assume "call_status s i = NoCall" "call_status s' i = NoCall"
      moreover from this(1) w have "i \<noteq> owner s q" by auto
      ultimately show ?thesis by simp
    qed
    have "spec_step ?mid (call_status s')" by (rule lose) (rule chg)
    with answer_call [of "call_status s" "owner s q" m] w rid
    show ?thesis by (metis r_into_rtranclp rtranclp.rtrancl_into_rtrancl)
  qed
qed

lemma refine_step:
  assumes r: "reachable s" and step: "sys_step s s'"
  shows "spec_step\<^sup>*\<^sup>* (call_status s) (call_status s')"
proof (cases "nos s' = nos s")
  case True
  then show ?thesis by (rule refine_quiet [OF r step])
next
  case False
  then obtain a rid where call_begin:
    "s' = s\<lparr>srv := call_register rid (nos s) a (srv s), nos := Suc (nos s),
       owner := (owner s)(nos s := rid), home := (home s)(nos s := a)\<rparr>"
    "a < next_arc (reg (srv s))" "\<forall>o' < nos s. owner s o' \<noteq> rid"
    using step by (auto elim: sys_stepE)
  note ok = reachable_srv_ok [OF r]
  have fresh: "\<forall>p < nos s. owner s p \<noteq> rid" by (rule call_begin(3))
  note reg = call_register_fields(1) [OF pending_fresh [OF ok fresh]]
  have conns: "connections (reg (srv s')) = connections (reg (srv s))"
    by (simp add: call_begin(1) call_register_def)
  have "oneshots (chans (srv s)) (nos s) = OsEmpty"
    using ok by (cases "oneshots (chans (srv s)) (nos s)") (auto simp: srv_ok_def)
  then have new: "status_of s' (nos s) \<in> {Waiting, Lost}"
    by (auto simp: status_of_def call_begin(1) reg)
  have d': "ids_distinct s'" using reachable_distinct [OF r] step by (rule ids_distinct_step [rotated])
  have "call_status s' i = ((call_status s)(rid := status_of s' (nos s))) i" for i
  proof (cases "\<exists>q < nos s. i = owner s q")
    case True
    then obtain q where q: "q < nos s" "i = owner s q" by blast
    with fresh have "i \<noteq> rid" "i = owner s' q" "q < nos s'" by (auto simp: call_begin(1))
    moreover have "status_of s' q = status_of s q"
      using q conns by (simp add: status_of_def call_begin(1) reg)
    ultimately show ?thesis
      using q call_status_owner [OF d', of q] call_status_owner [OF reachable_distinct [OF r], of q] by simp
  next
    case False
    then have old: "call_status s i = NoCall" by (intro call_status_none) auto
    show ?thesis
    proof (cases "i = rid")
      case True
      with call_status_owner [OF d', of "nos s"] show ?thesis by (simp add: call_begin(1))
    next
      case ne: False
      with False have "call_status s' i = NoCall"
        by (intro call_status_none) (auto simp: call_begin(1) less_Suc_eq)
      with ne old show ?thesis by simp
    qed
  qed
  then have "call_status s' = (call_status s)(rid := status_of s' (nos s))" ..
  moreover have "call_status s rid = NoCall" using fresh by (intro call_status_none) auto
  ultimately show ?thesis using begin_call [OF _ new] by (metis r_into_rtranclp)
qed

lemma refine_steps: "sys_step\<^sup>*\<^sup>* s s' \<Longrightarrow> reachable s \<Longrightarrow> spec_step\<^sup>*\<^sup>* (call_status s) (call_status s')"
proof (induction rule: rtranclp_induct)
  case (step s1 s2)
  then have "reachable s1" by (blast intro: reachable_steps)
  from refine_step [OF this step.hyps(2)] step.IH [OF step.prems] show ?case by (rule rtranclp_trans [rotated])
qed simp

section \<open>Refinement\<close>

text \<open>C2. The server implements the specification: every run of it is, call by call, a run of the
  specification that starts with no calls, and the value a caller finds in its channel is exactly
  the answer of the specification.\<close>

theorem calls_refine_spec:
  assumes "reachable s" and "sys_step\<^sup>*\<^sup>* s s'" and "q < nos s"
  shows "spec_step\<^sup>*\<^sup>* (\<lambda>_. NoCall) (call_status s) \<and> spec_step\<^sup>*\<^sup>* (call_status s) (call_status s') \<and>
    (oneshots (chans (srv s)) q = OsSent m \<longleftrightarrow> call_status s (owner s q) = Answered m)"
proof (intro conjI)
  have "reachable system_new" by (simp add: reachable_def)
  from refine_steps [OF _ this, of s] assms(1)
  show "spec_step\<^sup>*\<^sup>* (\<lambda>_. NoCall) (call_status s)"
    by (simp add: reachable_def call_status_def [abs_def] system_new_def)
  show "spec_step\<^sup>*\<^sup>* (call_status s) (call_status s')" by (rule refine_steps [OF assms(2,1)])
  show "oneshots (chans (srv s)) q = OsSent m \<longleftrightarrow> call_status s (owner s q) = Answered m"
    using call_status_owner [OF reachable_distinct [OF assms(1)] assms(3)]
    by (auto simp: status_of_def split: oneshot.splits)
qed

theorem calls_refine_spec_witness:
  "spec_step\<^sup>*\<^sup>* (call_status demo_call) (call_status demo_answered) \<and>
   call_status demo_call ''r1'' = Waiting \<and> call_status demo_answered ''r1'' = Answered demo_answer \<and>
   call_status demo_evicted ''r1'' = Lost"
proof -
  have "call_status demo_call ''r1'' = Waiting" "call_status demo_answered ''r1'' = Answered demo_answer"
    "call_status demo_evicted ''r1'' = Lost"
    by code_simp+
  with calls_refine_spec [OF demo_reachable(1,4), of 0] demo_state show ?thesis by simp
qed

end
