(* ===== verification/Handlers.thy ===== *)
theory Handlers
  imports Calls
begin

text \<open>
  Properties of the server's handlers and of the API calls, one server state at a time: the
  upgrade, registration and heartbeats, isolation between daemons, the order of requests, the
  heartbeat monitor, disconnects, and what each API call queues, returns and leaves behind.
\<close>

section \<open>Upgrade\<close>

text \<open>For a header that lists the protocols \<open>ps\<close>, separated by commas, the upgrade is accepted
  exactly when one of them is the server's subprotocol up to surrounding white space, and the
  server then selects that subprotocol; it is refused otherwise, and when there is no header.\<close>

theorem upgrade_iff_offered:
  assumes "ps \<noteq> []" and "\<forall>p \<in> set ps. CHR '','' \<notin> set p"
  shows "websocket_handler (Some (concat (map (\<lambda>p. p @ '','') (butlast ps)) @ last ps)) =
      (if \<exists>p \<in> set ps. trim p = ''sandd.v1'' then Upgrade ''sandd.v1''
       else BadRequest ''Missing required Sec-WebSocket-Protocol: sandd.v1'') \<and>
    websocket_handler None = BadRequest ''Missing required Sec-WebSocket-Protocol: sandd.v1''"
  using split_on_join [OF assms(2,1)]
  by (simp add: websocket_handler_def supported_protocol_def list_ex_iff)

theorem upgrade_iff_offered_witness:
  "websocket_handler (Some ''chat, sandd.v1'') = Upgrade ''sandd.v1'' \<and>
   websocket_handler (Some ''sandd.v10,sandd.v2'') =
     BadRequest ''Missing required Sec-WebSocket-Protocol: sandd.v1''"
  using upgrade_iff_offered [of "[''chat'', '' sandd.v1'']"]
    upgrade_iff_offered [of "[''sandd.v10'', ''sandd.v2'']"]
  by (simp add: trim_def is_space_def)

section \<open>Registration and heartbeats\<close>

text \<open>A client's reaction to the answer of its heartbeat: to register again when rejected.\<close>

definition beat_round :: "u64 \<Rightarrow> string \<Rightarrow> daemon_metadata \<Rightarrow> ws_task \<times> server \<Rightarrow> ws_task \<times> server" where
  "beat_round now i meta = (\<lambda>(t, sv).
     (case handle_daemon_message now Heartbeat t sv of
        (t1, sv1) \<Rightarrow>
          (case last (ws_sent t1) of
             HeartbeatAck success _ \<Rightarrow>
               (if success then (t1, sv1)
                else handle_daemon_message now (Register i meta) t1 sv1)
           | _ \<Rightarrow> (t1, sv1))))"

lemma register_ack:
  "i \<noteq> [] \<Longrightarrow> ws_tx_ok t \<Longrightarrow>
     ws_sent (fst (handle_register now i meta t sv)) = ws_sent t @ [RegisterAck True ''Successfully registered'']"
  by (simp add: handle_register_def Let_def ws_reply_sent)

lemma heartbeat_ack:
  "daemon_id t = Some i \<Longrightarrow> ws_tx_ok t \<Longrightarrow>
     ws_sent (fst (handle_heartbeat_message now t sv)) =
       ws_sent t @ [HeartbeatAck (registry_get (reg sv) i \<noteq> None)
         (if registry_get (reg sv) i \<noteq> None then [] else ''daemon is not registered'')]"
  by (simp add: handle_heartbeat_message_def handle_heartbeat_def ws_reply_sent split: option.splits)

text \<open>The round, in the terms of the membership contract.\<close>

lemma beat_round_registry:
  assumes "daemon_id t = Some i" and "i \<noteq> []" and "ws_tx_ok t"
    and "handle_heartbeat now i (reg sv) = (b, rg)"
  shows "reg (snd (beat_round now i meta (t, sv))) =
      (if b then rg else registry_admit i (now, meta, req_chan t) rg)"
    "daemon_id (fst (beat_round now i meta (t, sv))) = Some i"
    "ws_tx_ok (fst (beat_round now i meta (t, sv)))"
  using assms
  by (auto simp: beat_round_def handle_daemon_message_def handle_heartbeat_message_def
      ws_reply_sent handle_register_def registry_admit_def Let_def split: prod.splits)

text \<open>C10. A daemon that reacts to a rejected heartbeat by registering again on the same socket is
  listed after one round, whether or not it had been evicted; if it had been, its requests go to
  the queue of that socket's task; and its next heartbeat is accepted.\<close>

theorem heartbeat_recovery:
  assumes "reg_ok (reg sv)" and "daemon_id t = Some i" and "i \<noteq> []" and "ws_tx_ok t"
    and "beat_round now i meta (t, sv) = (t', sv')"
  shows "registry_get (reg sv') i \<noteq> None \<and>
    (registry_get (reg sv) i = None \<longrightarrow>
       registry_lookup (reg sv') i = Some (connection_new now i meta (req_chan t))) \<and>
    last (ws_sent (fst (handle_daemon_message now' Heartbeat t' sv'))) = HeartbeatAck True []"
proof -
  obtain b rg where b: "handle_heartbeat now i (reg sv) = (b, rg)" by fastforce
  note r = beat_round_registry [OF assms(2-4) b, of meta, unfolded assms(5), simplified]
  have ok: "reg_ok rg" using reg_ok_heartbeat [OF assms(1), of now i] b by simp
  have listed: "registry_get (reg sv') i \<noteq> None"
    using beats.recovers_after_beat [OF assms(1) b, of "(now, meta, req_chan t)"] r(1) by simp
  moreover have "registry_lookup (reg sv') i = Some (connection_new now i meta (req_chan t))"
    if "registry_get (reg sv) i = None"
  proof -
    from that b have "\<not> b" by (simp add: handle_heartbeat_def)
    with r(1) have "reg sv' = snd (register (connection_new now i meta (req_chan t)) rg)"
      by (simp add: registry_admit_def)
    then show ?thesis using registry_lookup_register [OF ok] by (simp add: connection_new_def)
  qed
  moreover have "last (ws_sent (fst (handle_daemon_message now' Heartbeat t' sv'))) = HeartbeatAck True []"
    using heartbeat_ack [OF r(2,3)] listed by (simp add: handle_daemon_message_def)
  ultimately show ?thesis by blast
qed

text \<open>The state of the eviction run: the monitor has removed the daemon, whose task still runs.\<close>

lemma demo_evicted_task:
  "daemon_id (tasks demo_evicted 0) = Some ''d1''" "ws_tx_ok (tasks demo_evicted 0)"
  "registry_get (reg (srv demo_evicted)) ''d1'' = None" "ws_running (tasks demo_evicted 0)"
  by code_simp+

lemma demo_evicted_ok: "reg_ok (reg (srv demo_evicted))"
  using reachable_srv_ok [OF demo_reachable(3)] by (rule srv_ok_reg)

theorem heartbeat_recovery_witness:
  "\<exists>t' sv'. registry_get (reg sv') ''d1'' \<noteq> None \<and>
    (registry_get (reg (srv demo_evicted)) ''d1'' = None \<longrightarrow>
       registry_lookup (reg sv') ''d1'' =
         Some (connection_new 141 ''d1'' demo_meta (req_chan (tasks demo_evicted 0)))) \<and>
    last (ws_sent (fst (handle_daemon_message 146 Heartbeat t' sv'))) = HeartbeatAck True []"
  using heartbeat_recovery [OF demo_evicted_ok demo_evicted_task(1) _ demo_evicted_task(2), of 141 demo_meta]
  by (metis list.distinct(1) surj_pair)

section \<open>Isolation\<close>

lemma reg_ok_distinct:
  "reg_ok rg \<Longrightarrow> registry_get rg i = Some a \<Longrightarrow> registry_get rg j = Some a \<Longrightarrow> i = j"
  unfolding reg_ok_def by metis

text \<open>The entry of \<open>j\<close>, its connection \<open>a\<close> and the calls on it are the same in both states.\<close>

definition undisturbed :: "nat \<Rightarrow> (nat \<Rightarrow> nat) \<Rightarrow> string \<Rightarrow> nat \<Rightarrow> server \<Rightarrow> server \<Rightarrow> bool" where
  "undisturbed q hom j a sv sv' \<longleftrightarrow>
     registry_get (reg sv') j = registry_get (reg sv) j \<and> heap (reg sv') a = heap (reg sv) a \<and>
     (\<forall>p < q. hom p = a \<longrightarrow> oneshots (chans sv') p = oneshots (chans sv) p)"

lemma undisturbed_refl: "undisturbed q hom j a sv sv"
  by (simp add: undisturbed_def)

lemma undisturbed_chans [simp]:
  "undisturbed q hom j a (sv\<lparr>chans := (chans sv)\<lparr>req_chans := x\<rparr>\<rparr>) sv' = undisturbed q hom j a sv sv'"
  "undisturbed q hom j a sv (sv'\<lparr>chans := (chans sv')\<lparr>req_chans := x\<rparr>\<rparr>) = undisturbed q hom j a sv sv'"
  by (simp_all add: undisturbed_def)

lemma undisturbed_output:
  "undisturbed q hom j a sv (sv\<lparr>chans := send_session_output sid d c (chans sv)\<rparr>)"
  by (simp add: undisturbed_def)

lemma undisturbed_with_conn:
  assumes "srv_ok n q own hom sv" and "daemon_id t = Some i" and "j \<noteq> i"
    and "registry_get (reg sv) j = Some a" and "\<And>b. b \<noteq> a \<Longrightarrow> undisturbed q hom j a sv (f b sv)"
  shows "undisturbed q hom j a sv (with_conn t f sv)"
proof (rule with_conn_cases [of t f sv])
  fix i' b
  assume b: "daemon_id t = Some i'" "registry_get (reg sv) i' = Some b" "with_conn t f sv = f b sv"
  with assms have "b \<noteq> a" by (auto dest: srv_ok_reg reg_ok_distinct)
  with assms(5) b show ?thesis by simp
qed (simp add: undisturbed_refl)

lemma undisturbed_complete:
  assumes "srv_ok n q own hom sv" and "b \<noteq> a"
  shows "undisturbed q hom j a sv (arc_chan_op (complete_request r m) b sv)"
  using assms
  by (auto simp: undisturbed_def update_arc_heap oneshots_complete dest: srv_ok_pendingD)

lemma undisturbed_arc_op: "b \<noteq> a \<Longrightarrow> undisturbed q hom j a sv (arc_op f b sv)"
  by (simp add: undisturbed_def update_arc_heap)

lemma undisturbed_message:
  assumes "srv_ok n q own hom sv" and "daemon_id t = Some i" and "j \<noteq> i"
    and "registry_get (reg sv) j = Some a" and "\<nexists>k meta. msg = Register k meta"
  shows "undisturbed q hom j a sv (snd (handle_daemon_message now msg t sv))"
proof (cases "msg = Heartbeat")
  case True
  with assms(2-4) reg_ok_distinct [OF srv_ok_reg [OF assms(1)]] show ?thesis
    by (auto simp: handle_daemon_message_def handle_heartbeat_message_def handle_heartbeat_def
        undisturbed_def update_arc_heap split: option.splits)
next
  case False
  note wc = undisturbed_with_conn [OF assms(1-4)]
  show ?thesis
    by (rule handle_other_message [OF assms(5) False, of now t sv])
      (use assms(1) in \<open>auto simp del: arc_chan_op_fields arc_op_fields
        intro!: wc undisturbed_complete undisturbed_arc_op undisturbed_output
        intro: undisturbed_refl\<close>)
qed

lemma undisturbed_cleanup:
  "daemon_id t = Some i \<Longrightarrow> j \<noteq> i \<Longrightarrow> undisturbed q hom j a sv (snd (ws_cleanup t sv))"
  by (simp add: ws_cleanup_def Let_def undisturbed_def remove_get)

text \<open>C33. What a daemon sends can only affect the entry of its own id: after any event on its task but
  a registration, the entries of all other ids, their connections, and the calls pending on those
  connections are as before. Closing the socket removes at most the task's own id.\<close>

theorem task_isolation:
  assumes "srv_ok n q own hom sv" and "daemon_id t = Some i" and "j \<noteq> i"
    and "registry_get (reg sv) j = Some a" and "\<nexists>k meta. ev = WsText (Some (Register k meta))"
    and "ws_step now ev t sv = (t', sv')"
  shows "registry_get (reg sv') j = Some a \<and> heap (reg sv') a = heap (reg sv) a \<and>
    (\<forall>p < q. hom p = a \<longrightarrow> oneshots (chans sv') p = oneshots (chans sv) p)"
proof -
  have cln: "undisturbed q hom j a sv (snd (ws_cleanup t1 (sv\<lparr>chans := (chans sv)\<lparr>req_chans := x\<rparr>\<rparr>)))"
    if "daemon_id t1 = Some i" for t1 x
    using undisturbed_cleanup [OF that assms(3), of q hom a "sv\<lparr>chans := (chans sv)\<lparr>req_chans := x\<rparr>\<rparr>"]
    by simp
  have "undisturbed q hom j a sv (snd (ws_step now ev t sv))"
    using assms(2,5) cln undisturbed_cleanup [OF assms(2,3), of q hom a sv]
    by (auto simp: ws_step_def Let_def undisturbed_message [OF assms(1-4)] undisturbed_refl ws_send_def
        split: ws_event.splits option.splits prod.splits bool.splits if_splits)
  with assms(4,6) show ?thesis by (simp add: undisturbed_def)
qed

text \<open>Two daemons, each on its own socket; the second closes.\<close>

definition demo_two :: system where
  "demo_two = fold perform
     [Accept, Event 1 104 (WsText (Some (Register ''d2'' demo_meta)))] demo_call"

lemma demo_two_reachable: "reachable demo_two"
  unfolding demo_two_def by (rule reachable_steps [OF demo_reachable(1) steps_perform])

lemma demo_two_state:
  "daemon_id (tasks demo_two 1) = Some ''d2''" "registry_get (reg (srv demo_two)) ''d1'' = Some 0"
  "registry_get (reg (srv demo_two)) ''d2'' = Some 1"
  by code_simp+

theorem task_isolation_witness:
  "\<exists>t' sv'. ws_step 105 WsClose (tasks demo_two 1) (srv demo_two) = (t', sv') \<and>
    registry_get (reg sv') ''d1'' = Some 0 \<and> heap (reg sv') 0 = heap (reg (srv demo_two)) 0 \<and>
    (\<forall>p < nos demo_two. home demo_two p = 0 \<longrightarrow>
       oneshots (chans sv') p = oneshots (chans (srv demo_two)) p)"
proof -
  obtain t' sv' where s: "ws_step 105 WsClose (tasks demo_two 1) (srv demo_two) = (t', sv')"
    by fastforce
  from task_isolation [OF reachable_srv_ok [OF demo_two_reachable] demo_two_state(1) _
      demo_two_state(2) _ s] s
  show ?thesis by auto
qed

section \<open>Order of requests\<close>

definition forward :: "u64 \<Rightarrow> ws_task \<times> server \<Rightarrow> ws_task \<times> server" where
  "forward now = (\<lambda>(t, sv). ws_step now ReqReady t sv)"

lemma forward_one:
  assumes "ws_running t" and "ws_tx_ok t" and "queue (req_chans (chans sv) (req_chan t)) = m # ms"
  shows "forward now (t, sv) =
    (t\<lparr>ws_sent := ws_sent t @ [m]\<rparr>,
     sv\<lparr>chans := (chans sv)\<lparr>req_chans :=
       (req_chans (chans sv))(req_chan t := (req_chans (chans sv) (req_chan t))\<lparr>queue := ms\<rparr>)\<rparr>\<rparr>)"
  using assms by (simp add: forward_def ws_step_def mpsc_recv_def ws_send_def Let_def)

text \<open>The requests queued for a daemon go out over its socket all, each once, in the order they
  were queued: after as many wake-ups of the task as there are queued messages, exactly these have
  been appended to what it sent, and the queue is empty; nothing else of the server has changed.\<close>

theorem requests_in_order:
  "ws_running t \<Longrightarrow> ws_tx_ok t \<Longrightarrow> queue (req_chans (chans sv) (req_chan t)) = ms \<Longrightarrow>
   (forward now ^^ length ms) (t, sv) =
     (t\<lparr>ws_sent := ws_sent t @ ms\<rparr>,
      sv\<lparr>chans := (chans sv)\<lparr>req_chans :=
        (req_chans (chans sv))(req_chan t := (req_chans (chans sv) (req_chan t))\<lparr>queue := []\<rparr>)\<rparr>\<rparr>)"
proof (induction ms arbitrary: t sv)
  case Nil
  have "(req_chans (chans sv))(req_chan t := (req_chans (chans sv) (req_chan t))\<lparr>queue := []\<rparr>) =
      req_chans (chans sv)"
    using Nil.prems(3) by (auto simp: fun_eq_iff)
  then show ?case by simp
next
  case (Cons m ms)
  note one = forward_one [OF Cons.prems, of now]
  show ?case
    unfolding length_Cons funpow_Suc_right comp_apply one
    by (subst Cons.IH) (use Cons.prems in simp_all)
qed

theorem requests_in_order_witness:
  "(forward 7 ^^ 2) (ws_task_new 0, snd (call_send Pong 0 (snd (call_send Heartbeat 0 server_new)))) =
     ((ws_task_new 0)\<lparr>ws_sent := [] @ [Heartbeat, Pong]\<rparr>, server_new)"
proof -
  let ?sv = "snd (call_send Pong 0 (snd (call_send Heartbeat 0 server_new)))"
  have q: "queue (req_chans (chans ?sv) (req_chan (ws_task_new 0))) = [Heartbeat, Pong]"
    "ws_running (ws_task_new 0)" "ws_tx_ok (ws_task_new 0)" "ws_sent (ws_task_new 0) = []"
    by code_simp+
  have same: "?sv\<lparr>chans := (chans ?sv)\<lparr>req_chans :=
      (req_chans (chans ?sv))(req_chan (ws_task_new 0) :=
        (req_chans (chans ?sv) (req_chan (ws_task_new 0)))\<lparr>queue := []\<rparr>)\<rparr>\<rparr> = server_new"
    by (simp add: call_send_def send_message_def mpsc_send_def server_new_def channels_new_def
        mpsc_new_def registry_new_def dummy_connection_def connection_new_def ws_task_new_def
        fun_eq_iff)
  show ?thesis
    using requests_in_order [OF q(2,3,1), of 7] q(4) same by (simp add: numeral_2_eq_2)
qed

section \<open>Heartbeat monitor\<close>

text \<open>One tick of the heartbeat monitor drops exactly the entries whose last heartbeat is more than
  30 seconds old, counts them, and changes nothing else; an entry whose heartbeat is in the future
  of the clock is kept.\<close>

theorem monitor_tick:
  assumes "reg_ok (reg sv)" and "heartbeat_monitor_tick now sv = (removed, sv')"
  shows "registry_get (reg sv') i =
      (case registry_get (reg sv) i of
         None \<Rightarrow> None
       | Some a \<Rightarrow> if 30 < unat now - unat (last_heartbeat (heap (reg sv) a)) then None else Some a) \<and>
    removed + registry_count (reg sv') = registry_count (reg sv) \<and>
    heap (reg sv') = heap (reg sv) \<and> chans sv' = chans sv"
proof -
  have "reg sv' = snd (cleanup_stale now heartbeat_timeout (reg sv))" "chans sv' = chans sv"
    "removed = fst (cleanup_stale now heartbeat_timeout (reg sv))"
    using assms(2) by (auto simp: heartbeat_monitor_tick_def split: prod.splits)
  with assms(1) show ?thesis
    by (simp add: cleanup_get cleanup_count is_stale_nat heartbeat_timeout_def split: option.splits)
qed

theorem monitor_tick_witness:
  "\<exists>removed sv'. heartbeat_monitor_tick 131 (srv demo_call) = (removed, sv') \<and>
    registry_get (reg sv') ''d1'' = None"
proof -
  obtain removed sv' where e: "heartbeat_monitor_tick 131 (srv demo_call) = (removed, sv')"
    by fastforce
  have "last_heartbeat (heap (reg (srv demo_call)) 0) = 100" by code_simp
  with monitor_tick [OF srv_ok_reg [OF reachable_srv_ok [OF demo_reachable(1)]] e, of "''d1''"] e
  show ?thesis by (simp add: demo_state)
qed

section \<open>Disconnects\<close>

lemma call_send_closed:
  "\<not> receiver_open (req_chans (chans sv) (request_tx (heap (reg sv) a))) \<Longrightarrow>
     call_send m a sv = (Inl ''Daemon channel closed'', sv)"
  by (simp add: call_send_def send_message_def mpsc_send_def)

text \<open>When a socket closes, its task ends and the id it registered last leaves the registry at once,
  whoever holds the entry: also a newer socket's entry under the same id goes. Entries under other
  ids stay, also one the same socket registered earlier. Every call on a connection that used the
  socket then fails to send.\<close>

theorem disconnect:
  assumes "ws_running t" and "daemon_id t = Some i" and "ws_step now WsClose t sv = (t', sv')"
  shows "\<not> ws_running t' \<and>
    registry_get (reg sv') j = (if j = i then None else registry_get (reg sv) j) \<and>
    (request_tx (heap (reg sv') a) = req_chan t \<longrightarrow>
       call_send m a sv' = (Inl ''Daemon channel closed'', sv'))"
proof -
  have "sv' = snd (ws_cleanup t sv)" and "t' = fst (ws_cleanup t sv)"
    using assms by (simp_all add: ws_step_def)
  then show ?thesis
    using assms(2) by (auto simp: ws_cleanup_def Let_def remove_get mpsc_close_def intro!: call_send_closed)
qed

text \<open>The daemon reconnects on a second socket before the first one is seen to close.\<close>

definition demo_reconnect :: system where
  "demo_reconnect = fold perform
     [Accept, Event 1 104 (WsText (Some (Register ''d1'' demo_meta)))] demo_call"

theorem disconnect_witness:
  "registry_get (reg (srv demo_reconnect)) ''d1'' = Some 1 \<and>
   request_tx (heap (reg (srv demo_reconnect)) 1) = 1 \<and>
   registry_get (reg (snd (ws_step 105 WsClose (tasks demo_reconnect 0) (srv demo_reconnect)))) ''d1''
     = None"
proof -
  have st: "ws_running (tasks demo_reconnect 0)" "daemon_id (tasks demo_reconnect 0) = Some ''d1''"
    "registry_get (reg (srv demo_reconnect)) ''d1'' = Some 1"
    "request_tx (heap (reg (srv demo_reconnect)) 1) = 1"
    by code_simp+
  obtain t' sv' where e: "ws_step 105 WsClose (tasks demo_reconnect 0) (srv demo_reconnect) = (t', sv')"
    by fastforce
  from disconnect [OF st(1,2) e, of "''d1''"] st(3,4) e show ?thesis by simp
qed

section \<open>Calls that wait for a response\<close>

lemma request_response_cases:
  assumes "registry_get (reg sv) i = Some a"
  shows "request_response i err msg env rid os sv =
    (let sv1 = call_register rid os a sv
     in if receiver_open (req_chans (chans sv1) (request_tx (heap (reg sv) a)))
        then (let sv2 = env (snd (call_send msg a sv1))
              in (Inr (fst (await_response os (\<lambda>sv. sv) sv2)), sv2))
        else (Inl (PyRuntimeError (err @ ''Daemon channel closed'')), sv1))"
  using assms
  by (auto simp: request_response_def call_send_def call_register_def update_arc_heap send_message_def
      mpsc_send_def await_response_def Let_def split: prod.splits)

text \<open>The rest of the server reads one message on the daemon's task.\<close>

definition answered_by :: "message \<Rightarrow> ws_task \<Rightarrow> server \<Rightarrow> server" where
  "answered_by m t sv = snd (handle_daemon_message 0 m t sv)"

lemma answered_call:
  assumes ok: "srv_ok n q own hom sv" and fresh: "\<forall>p < q. own p \<noteq> rid"
    and a: "registry_get (reg sv) i = Some a" and t: "daemon_id t = Some i"
    and m: "response_id m = Some rid"
  shows "oneshots (chans (answered_by m t (snd (call_send req a (call_register rid q a sv))))) q =
    OsSent m"
proof -
  let ?sv = "snd (call_send req a (call_register rid q a sv))"
  note none = pending_fresh [OF ok fresh, of a]
  have empty: "oneshots (chans sv) q = OsEmpty"
    using ok by (cases "oneshots (chans sv) q") (auto simp: srv_ok_def)
  have sv: "?sv = (call_register rid q a sv)
      \<lparr>chans := snd (send_message req (heap (reg (call_register rid q a sv)) a) (chans (call_register rid q a sv)))\<rparr>"
    by (simp add: call_send_def split: prod.splits)
  have "pending_at ?sv a rid = Some q"
    using call_register_fields(2) [OF none, of q a rid] unfolding sv by (simp add: pending_at_def)
  moreover have "oneshots (chans ?sv) q = OsEmpty"
    using call_register_fields(1) [OF none, of q] empty unfolding sv by simp
  moreover have "registry_get (reg ?sv) i = Some a"
    using a unfolding sv by (simp add: call_register_def)
  ultimately show ?thesis
    using t by (simp add: answered_by_def handle_response_message [OF m] handle_response_def
        with_conn_def oneshots_complete)
qed

text \<open>A command whose daemon answers while the call waits returns that answer: registered under a
  fresh id, with the daemon's queue open, \<open>exec\<close> returns the four fields of the \<open>CommandOutput\<close>
  the daemon's task reads, the error of a \<open>CommandError\<close>, and a timeout when nothing arrives.\<close>

theorem exec_outcome:
  assumes "srv_ok n q own hom sv" and "\<forall>p < q. own p \<noteq> rid"
    and "registry_get (reg sv) i = Some a" and "daemon_id t = Some i"
    and "receiver_open (req_chans (chans sv) (request_tx (heap (reg sv) a)))"
  shows "fst (exec (answered_by (CommandOutput rid out err code ms) t) rid q i cmd timeout envs cwd sv) =
      Inr \<lparr>cr_stdout = out, cr_stderr = err, cr_exit_code = code, cr_duration_ms = ms\<rparr> \<and>
    fst (exec (answered_by (CommandError rid e) t) rid q i cmd timeout envs cwd sv) =
      Inl (PyRuntimeError (''Command error: '' @ e)) \<and>
    fst (exec (\<lambda>sv. sv) rid q i cmd timeout envs cwd sv) =
      Inl (PyTimeoutError ''Command execution timed out'')"
proof -
  note none = pending_fresh [OF assms(1,2), of a]
  note reg = call_register_fields(1) [OF none, of q]
  note ans = answered_call [OF assms(1-4)]
  have empty: "oneshots (chans sv) q = OsEmpty"
    using assms(1) by (cases "oneshots (chans sv) q") (auto simp: srv_ok_def)
  have quiet: "oneshots (chans (snd (call_send req a (call_register rid q a sv)))) q = OsEmpty" for req
    using reg empty by (simp add: call_send_def split: prod.splits)
      (metis send_message_frame(1) snd_conv)
  show ?thesis
    using assms(5)
    by (simp add: exec_def finish_def request_response_cases [OF assms(3)] reg Let_def
        await_response_def ans quiet)
qed

text \<open>A daemon that has registered, and no call made yet.\<close>

definition demo_idle :: system where
  "demo_idle = fold perform [Accept, Event 0 100 (WsText (Some (Register ''d1'' demo_meta)))] system_new"

lemma demo_idle_state:
  "nos demo_idle = 0" "registry_get (reg (srv demo_idle)) ''d1'' = Some 0"
  "daemon_id (tasks demo_idle 0) = Some ''d1''" "request_tx (heap (reg (srv demo_idle)) 0) = 0"
  "receiver_open (req_chans (chans (srv demo_idle)) 0)"
  "queue (req_chans (chans (srv demo_idle)) 0) = []"
  by code_simp+

lemma demo_idle_ok: "srv_ok (ntasks demo_idle) 0 (owner demo_idle) (home demo_idle) (srv demo_idle)"
  using reachable_srv_ok [OF reachable_perform] demo_idle_state(1) unfolding demo_idle_def by metis

theorem exec_outcome_witness:
  "fst (exec (answered_by (CommandOutput ''r1'' ''hi'' [] 0 3) (tasks demo_idle 0)) ''r1'' 0 ''d1''
       ''echo hi'' 300 None None (srv demo_idle)) =
     Inr \<lparr>cr_stdout = ''hi'', cr_stderr = [], cr_exit_code = 0, cr_duration_ms = 3\<rparr>"
  by (rule exec_outcome [OF demo_idle_ok _ demo_idle_state(2,3), THEN conjunct1])
    (simp_all add: demo_idle_state)

text \<open>C35. A command for an id that is not listed fails with a value error and changes nothing. One whose
  daemon's socket task has ended fails to send; the entry registered for it stays behind, so the
  connection counts as busy.\<close>

theorem exec_failures:
  assumes "srv_ok n q own hom sv" and "\<forall>p < q. own p \<noteq> rid"
  shows "(case registry_get (reg sv) i of
      None \<Rightarrow> exec env rid q i cmd timeout envs cwd sv =
        (Inl (PyValueError (''Daemon '' @ i @ '' not found'')), sv)
    | Some a \<Rightarrow>
        receiver_open (req_chans (chans sv) (request_tx (heap (reg sv) a))) \<or>
        fst (exec env rid q i cmd timeout envs cwd sv) =
          Inl (PyRuntimeError ''Failed to send command: Daemon channel closed'') \<and>
        is_busy (heap (reg (snd (exec env rid q i cmd timeout envs cwd sv))) a))"
proof (cases "registry_get (reg sv) i")
  case None
  then show ?thesis by (simp add: exec_def finish_def request_response_def daemon_not_found_def)
next
  case (Some a)
  note none = pending_fresh [OF assms, of a]
  note reg = call_register_fields [OF none, of q]
  have "is_busy (heap (reg (call_register rid q a sv)) a)"
    using reg(2) [of a rid] by (auto simp: is_busy_def hm_nonempty_iff pending_at_def)
  with Some show ?thesis
    by (simp add: exec_def finish_def request_response_cases [OF Some] reg(1) Let_def)
qed

theorem exec_failures_witness:
  "exec (\<lambda>sv. sv) ''r1'' 0 ''nobody'' ''ls'' 300 None None (srv demo_idle) =
     (Inl (PyValueError (''Daemon '' @ ''nobody'' @ '' not found'')), srv demo_idle)"
proof -
  have "registry_get (reg (srv demo_idle)) ''nobody'' = None" by code_simp
  with exec_failures [OF demo_idle_ok, where i = "''nobody''" and rid = "''r1''"] show ?thesis by simp
qed

text \<open>Every snapshot call returns what the daemon's answer carries: the id of a created snapshot,
  the file count of a restore, the list of snapshots, the snapshot found or none, and the error of
  a \<open>SnapshotError\<close> under the call's own prefix.\<close>

theorem snapshot_outcomes:
  assumes "srv_ok n q own hom sv" and "\<forall>p < q. own p \<noteq> rid"
    and "registry_get (reg sv) i = Some a" and "daemon_id t = Some i"
    and "receiver_open (req_chans (chans sv) (request_tx (heap (reg sv) a)))"
  shows "fst (py_create_snapshot (answered_by (SnapshotCreated rid sid k z) t) rid q i ws msg tags sv) =
      Inr sid \<and>
    fst (py_restore_snapshot (answered_by (SnapshotRestored rid k) t) rid q i sid dest sv) = Inr k \<and>
    fst (py_list_snapshots (answered_by (SnapshotList rid infos) t) rid q i ltags sv) = Inr infos \<and>
    fst (py_find_snapshot_by_tag (answered_by (SnapshotDetails rid found) t) rid q i tag sv) = Inr found \<and>
    fst (py_get_snapshot (answered_by (SnapshotDetails rid found) t) rid q i sid sv) = Inr found \<and>
    fst (py_delete_snapshot (answered_by (SnapshotDeleted rid) t) rid q i sid sv) = Inr () \<and>
    fst (py_create_snapshot (answered_by (SnapshotError rid e) t) rid q i ws msg tags sv) =
      Inl (PyRuntimeError (''Snapshot error: '' @ e)) \<and>
    fst (py_restore_snapshot (answered_by (SnapshotError rid e) t) rid q i sid dest sv) =
      Inl (PyRuntimeError (''Restore error: '' @ e))"
proof -
  note none = pending_fresh [OF assms(1,2), of a]
  note call = finish_def request_response_cases [OF assms(3)] call_register_fields(1) [OF none, of q]
    Let_def await_response_def answered_call [OF assms(1-4)]
  show ?thesis
    using assms(5)
    by (cases found)
      (simp_all add: call py_create_snapshot_def py_restore_snapshot_def py_list_snapshots_def
        py_find_snapshot_by_tag_def py_get_snapshot_def py_delete_snapshot_def)
qed

theorem snapshot_outcomes_witness:
  "fst (py_find_snapshot_by_tag (answered_by (SnapshotDetails ''r1'' None) (tasks demo_idle 0)) ''r1'' 0
      ''d1'' ''stable'' (srv demo_idle)) = Inr None"
proof -
  have "\<forall>p < 0. owner demo_idle p \<noteq> ''r1''"
    "receiver_open (req_chans (chans (srv demo_idle)) (request_tx (heap (reg (srv demo_idle)) 0)))"
    by (simp_all add: demo_idle_state)
  from snapshot_outcomes [OF demo_idle_ok this(1) demo_idle_state(2,3) this(2), where found = None and tag = "''stable''"]
  show ?thesis by blast
qed

section \<open>File transfers\<close>

lemma call_send_open:
  assumes "receiver_open (req_chans (chans sv) ch)" and "request_tx (heap (reg sv) a) = ch"
  shows "fst (call_send m a sv) = Inr ()" "reg (snd (call_send m a sv)) = reg sv"
    "queue (req_chans (chans (snd (call_send m a sv))) ch) = queue (req_chans (chans sv) ch) @ [m]"
    "receiver_open (req_chans (chans (snd (call_send m a sv))) ch)"
  using assms by (simp_all add: call_send_def send_message_def mpsc_send_def)

lemma send_chunks_open:
  assumes "receiver_open (req_chans (chans sv) ch)" and "request_tx (heap (reg sv) a) = ch"
  shows "fst (send_chunks rid a ocs sv) = Inr () \<and>
    queue (req_chans (chans (snd (send_chunks rid a ocs sv))) ch) =
      queue (req_chans (chans sv) ch) @
        map (\<lambda>(k, c). FileUploadChunk rid c (of_nat (k * chunk_size))) ocs"
  using assms
proof (induction ocs arbitrary: sv)
  case Nil
  then show ?case by simp
next
  case (Cons oc ocs)
  obtain k c where oc: "oc = (k, c)" by (cases oc)
  note step = call_send_open [OF Cons.prems, of "FileUploadChunk rid c (of_nat (k * chunk_size))"]
  obtain sv1 where sv1: "call_send (FileUploadChunk rid c (of_nat (k * chunk_size))) a sv = (Inr (), sv1)"
    using step(1) by (metis prod.collapse)
  with step Cons.prems(2) have "receiver_open (req_chans (chans sv1) ch)"
    "request_tx (heap (reg sv1) a) = ch" by simp_all
  from Cons.IH [OF this] step(3) sv1 oc show ?case by simp
qed

lemma chunks_as_offsets:
  "enumerate 0 (chunks chunk_size data) =
     map (\<lambda>k. (k, take chunk_size (drop (k * chunk_size) data))) [0..<(length data + 65535) div 65536]"
proof -
  have "length (chunks chunk_size data) = (length data + 65535) div 65536"
    by (simp add: length_chunks chunk_size_def)
  then show ?thesis
    by (intro nth_equalityI) (simp_all add: nth_enumerate_eq nth_chunks chunk_size_def)
qed

text \<open>An upload to a listed daemon whose queue is open queues one \<open>FileUploadStart\<close> with the size of
  the data and then the data in chunks of 64 KiB, in order, each with the offset of its first byte;
  the chunks put together are the data. It then returns success without waiting for any answer.\<close>

theorem upload_queues_file:
  assumes "registry_get (reg sv) i = Some a" and "request_tx (heap (reg sv) a) = ch"
    and "receiver_open (req_chans (chans sv) ch)"
  shows "\<exists>ks. fst (upload_file rid i path data sv) = Inr () \<and>
    queue (req_chans (chans (snd (upload_file rid i path data sv))) ch) =
      queue (req_chans (chans sv) ch) @ FileUploadStart rid path (of_nat (length data)) None #
        map (\<lambda>k. FileUploadChunk rid (take 65536 (drop (k * 65536) data)) (of_nat (k * 65536))) ks \<and>
    ks = [0..<(length data + 65535) div 65536] \<and>
    concat (map (\<lambda>k. take 65536 (drop (k * 65536) data)) ks) = data"
proof -
  let ?ks = "[0..<(length data + 65535) div 65536]"
  note start = call_send_open [OF assms(3,2), of "FileUploadStart rid path (of_nat (length data)) None"]
  obtain sv1 where sv1:
    "call_send (FileUploadStart rid path (of_nat (length data)) None) a sv = (Inr (), sv1)"
    using start(1) by (metis prod.collapse)
  with start assms(2) have "receiver_open (req_chans (chans sv1) ch)"
    "request_tx (heap (reg sv1) a) = ch" by simp_all
  note rest = send_chunks_open [OF this, of rid "enumerate 0 (chunks chunk_size data)",
      unfolded chunks_as_offsets, simplified]
  have "map snd (enumerate 0 (chunks chunk_size data)) = chunks chunk_size data" by simp
  then have "map (\<lambda>k. take 65536 (drop (k * 65536) data)) ?ks = chunks chunk_size data"
    unfolding chunks_as_offsets by (simp add: comp_def chunk_size_def)
  then have "concat (map (\<lambda>k. take 65536 (drop (k * 65536) data)) ?ks) = data"
    by (simp add: concat_chunks chunk_size_def)
  moreover have "upload_file rid i path data sv = send_chunks rid a (enumerate 0 (chunks chunk_size data)) sv1"
    using assms(1) sv1 by (simp add: upload_file_def)
  ultimately show ?thesis
    using rest start(3) sv1 unfolding chunks_as_offsets
    by (intro exI [of _ ?ks]) (simp add: comp_def chunk_size_def)
qed

theorem upload_queues_file_witness:
  "queue (req_chans (chans (snd (upload_file ''u1'' ''d1'' ''/tmp/f'' [1, 2, 3] (srv demo_idle)))) 0) =
     [FileUploadStart ''u1'' ''/tmp/f'' 3 None, FileUploadChunk ''u1'' [1, 2, 3] 0]"
  using upload_queues_file [OF demo_idle_state(2,4,5), of "''u1''" "''/tmp/f''" "[1, 2, 3]"]
    demo_idle_state(6) by simp

text \<open>A download collects the data of the \<open>FileDownloadChunk\<close> messages that the daemon's task reads
  while the call waits, in the order they are read, and takes the transfer out of the connection's
  table. When the daemon answers with \<open>FileDownloadError\<close> instead, which the server does not
  handle, the call returns an empty file as a success.\<close>

theorem download_collects_chunks:
  assumes "registry_get (reg sv) i = Some a" and "daemon_id t = Some i"
    and "receiver_open (req_chans (chans sv) (request_tx (heap (reg sv) a)))"
  shows "fst (download_file
      (\<lambda>sv. fold (\<lambda>(d, off, l). answered_by (FileDownloadChunk rid d off l) t) ds sv)
      rid i path sv) = Inr (concat (map fst ds)) \<and>
    hm_get (file_transfers (heap (reg (snd (download_file
      (\<lambda>sv. fold (\<lambda>(d, off, l). answered_by (FileDownloadChunk rid d off l) t) ds sv)
      rid i path sv))) a)) rid = None \<and>
    fst (download_file (answered_by (FileDownloadError rid e) t) rid i path sv) = Inr []"
proof -
  let ?sv = "arc_op (start_file_transfer rid path 0) a sv"
  have tx: "request_tx (heap (reg ?sv) a) = request_tx (heap (reg sv) a)"
    by (simp add: update_arc_heap start_file_transfer_def)
  note send = call_send_open [where sv = ?sv and a = a and m = "FileDownloadStart rid path", OF _ tx]
  obtain sv1 where sv1: "call_send (FileDownloadStart rid path) a ?sv = (Inr (), sv1)"
    "reg sv1 = reg ?sv" using send assms(3) by (metis arc_op_fields(2) prod.collapse)
  have chunk: "answered_by (FileDownloadChunk rid d off l) t s = arc_op (add_file_chunk rid d) a s"
    if "registry_get (reg s) i = Some a" for d off l s
    using that assms(2) by (simp add: answered_by_def handle_daemon_message_def with_conn_def)
  have run: "heap (reg (fold (\<lambda>(d, off, l). answered_by (FileDownloadChunk rid d off l) t) ds s)) a =
      fold (add_file_chunk rid) (map fst ds) (heap (reg s) a)"
    if "registry_get (reg s) i = Some a" for s
    using that
  proof (induction ds arbitrary: s)
    case (Cons x ds)
    then show ?case by (cases x) (simp add: chunk update_arc_heap)
  qed simp
  have none: "answered_by (FileDownloadError rid e) t s = s" for s
    by (simp add: answered_by_def handle_daemon_message_def)
  have first: "hm_get (file_transfers (heap (reg sv1) a)) rid =
      Some \<lparr>ft_path = path, ft_chunks = [], ft_total_size = 0, ft_received_size = 0\<rparr>"
    using sv1(2) by (simp add: update_arc_heap start_file_transfer_def)
  have "registry_get (reg sv1) i = Some a" using sv1(2) assms(1) by simp
  from run [OF this] show ?thesis
    using assms(1) sv1(1)
    by (auto simp: download_file_def complete_file_transfer_result add_file_chunks_get first none
        Let_def case_prod_unfold update_arc_heap complete_file_transfer_def hm_take_def)
qed

theorem download_collects_chunks_witness:
  "fst (download_file
      (\<lambda>sv. fold (\<lambda>(d, off, l). answered_by (FileDownloadChunk ''f1'' d off l) (tasks demo_idle 0))
        [([1, 2], 0, False), ([3], 2, True)] sv)
      ''f1'' ''d1'' ''/etc/hosts'' (srv demo_idle)) = Inr [1, 2, 3]"
  using download_collects_chunks [OF demo_idle_state(2,3), of "''f1''" "[([1, 2], 0, False), ([3], 2, True)]"]
  by (simp add: demo_idle_state)

end
