(* ===== verification/Listings.thy ===== *)
theory Listings
  imports Calls
begin

text \<open>
  Properties of the passes over the registry: what the label filter selects, what the Python
  listing shows, and what the statistics count, over HTTP and for Python.
\<close>

section \<open>Label filter\<close>

text \<open>A connection carries every one of the given labels.\<close>

definition carries :: "string hmap \<Rightarrow> connection \<Rightarrow> bool" where
  "carries f c \<longleftrightarrow> (\<forall>(k, v) \<in> set f. hm_get (labels (metadata c)) k = Some v)"

lemma label_match_iff: "label_match f c \<longleftrightarrow> (case f of None \<Rightarrow> True | Some f \<Rightarrow> carries f c)"
  by (auto simp: label_match_def carries_def list_all_iff split: option.splits)

lemma list_all_entries:
  "reg_ok rg \<Longrightarrow> i \<in> set (registry_list_all f rg) \<longleftrightarrow>
     (\<exists>a. registry_get rg i = Some a \<and> label_match f (heap rg a))"
  by (force simp: registry_list_all_def registry_get_iff)

lemma list_all_distinct: "reg_ok rg \<Longrightarrow> distinct (registry_list_all f rg)"
  unfolding registry_list_all_def
  by (rule hm_ok_filter [unfolded hm_ok_def]) (simp add: reg_ok_def hm_ok_def)

lemma list_daemons_ids: "reg_ok (reg sv) \<Longrightarrow> map pd_id (list_daemons f sv) = registry_list_all f (reg sv)"
proof -
  assume ok: "reg_ok (reg sv)"
  have "map pd_id (List.map_filter (\<lambda>i. map_option (\<lambda>a. py_daemon_info_of (heap (reg sv) a))
          (registry_get (reg sv) i)) is) = is"
    if "set is \<subseteq> set (registry_list_all f (reg sv))" for "is"
    using that
  proof (induction "is")
    case (Cons i "is")
    then obtain a where "registry_get (reg sv) i = Some a" using list_all_entries [OF ok] by auto
    moreover from this ok have "conn_id (heap (reg sv) a) = i" by (simp add: reg_ok_def)
    ultimately show ?case using Cons
      by (simp add: map_filter_simps py_daemon_info_of_def)
  qed (simp add: map_filter_simps)
  then show ?thesis by (simp add: list_daemons_def)
qed

text \<open>\<open>list_daemons\<close> shows each listed daemon that carries all the given labels exactly once, with the
  id, version, labels and busy flag of its connection, and no other; without a filter, or with an
  empty one, it shows all.\<close>

theorem list_daemons_spec:
  assumes "reg_ok (reg sv)"
  shows "set (list_daemons f sv) =
      {py_daemon_info_of (heap (reg sv) a) | i a. registry_get (reg sv) i = Some a \<and>
         (case f of None \<Rightarrow> True | Some ls \<Rightarrow> carries ls (heap (reg sv) a))} \<and>
    distinct (map pd_id (list_daemons f sv))"
proof
  show "set (list_daemons f sv) = {py_daemon_info_of (heap (reg sv) a) | i a.
      registry_get (reg sv) i = Some a \<and>
      (case f of None \<Rightarrow> True | Some ls \<Rightarrow> carries ls (heap (reg sv) a))}" (is "_ = ?R")
  proof -
    have "set (list_daemons f sv) = {d. \<exists>i \<in> set (registry_list_all f (reg sv)).
        map_option (\<lambda>a. py_daemon_info_of (heap (reg sv) a)) (registry_get (reg sv) i) = Some d}"
      by (force simp: list_daemons_def map_filter_def)
    also have "\<dots> = ?R"
      using list_all_entries [OF assms, of _ f] by (fastforce simp: label_match_iff)
    finally show ?thesis .
  qed
  show "distinct (map pd_id (list_daemons f sv))"
    using list_all_distinct [OF assms] list_daemons_ids [OF assms] by simp
qed

theorem list_daemons_spec_witness:
  "set (list_daemons (Some [(''gpu'', ''a100'')]) (srv demo_call)) =
     {py_daemon_info_of (heap (reg (srv demo_call)) a) | i a.
        registry_get (reg (srv demo_call)) i = Some a \<and>
        (case Some [(''gpu'', ''a100'')] of None \<Rightarrow> True
         | Some ls \<Rightarrow> carries ls (heap (reg (srv demo_call)) a))} \<and>
   list_daemons (Some [(''gpu'', ''a100'')]) (srv demo_call) = [] \<and>
   map pd_id (list_daemons None (srv demo_call)) = [''d1'']"
proof -
  have "list_daemons (Some [(''gpu'', ''a100'')]) (srv demo_call) = []"
    "map pd_id (list_daemons None (srv demo_call)) = [''d1'']" by code_simp+
  with list_daemons_spec [OF srv_ok_reg [OF reachable_srv_ok [OF demo_reachable(1)]]]
  show ?thesis by blast
qed

section \<open>Statistics\<close>

definition platform_count :: "registry \<Rightarrow> string \<Rightarrow> nat" where
  "platform_count rg p =
     card {i. \<exists>a. registry_get rg i = Some a \<and> platform (metadata (heap rg a)) = p}"

lemma registry_count_card: "reg_ok rg \<Longrightarrow> registry_count rg = card {i. registry_get rg i \<noteq> None}"
proof -
  assume ok: "reg_ok rg"
  then have "{i. registry_get rg i \<noteq> None} = set (map fst (connections rg))"
    by (auto simp: registry_get_def domIff image_iff) (force simp: reg_ok_def hm_get_Some_iff)+
  moreover have "distinct (map fst (connections rg))" using ok by (simp add: reg_ok_def hm_ok_def)
  ultimately show ?thesis unfolding registry_count_def
    by (metis distinct_card length_map)
qed

lemma platform_filter:
  assumes ok: "reg_ok rg"
  shows "length (filter (\<lambda>(_, a). platform (metadata (heap rg a)) = p) (connections rg)) =
    platform_count rg p"
proof -
  let ?es = "filter (\<lambda>(_, a). platform (metadata (heap rg a)) = p) (connections rg)"
  have "{i. \<exists>a. registry_get rg i = Some a \<and> platform (metadata (heap rg a)) = p} = set (map fst ?es)"
    using registry_get_iff [OF ok] by (auto simp: image_iff split_beta)
  moreover have "distinct (map fst ?es)"
    using ok hm_ok_filter [of "connections rg"] by (simp add: reg_ok_def hm_ok_def)
  then have "card (set (map fst ?es)) = length ?es" using distinct_card by fastforce
  ultimately show ?thesis unfolding platform_count_def by (simp only:)
qed

lemma fold_insert_get:
  "hm_get (fold (\<lambda>(k, v). hm_insert k v) kvs m) k =
     (case map_of (rev kvs) k of Some v \<Rightarrow> Some v | None \<Rightarrow> hm_get m k)"
  by (induction kvs arbitrary: m) (auto simp: map_add_def split: option.splits)

lemma stats_daemon_get:
  assumes ok: "reg_ok rg"
  shows "hm_get (daemons (get_stats now rg)) i =
    map_option (\<lambda>a. daemon_info_of now (heap rg a)) (registry_get rg i)"
proof -
  let ?kvs = "map (\<lambda>(_, a). (conn_id (heap rg a), daemon_info_of now (heap rg a))) (connections rg)"
  have keyed: "?kvs = map (\<lambda>(i, a). (i, daemon_info_of now (heap rg a))) (connections rg)"
    using connections_keys [OF ok] by (intro map_cong) auto
  have "distinct (map fst ?kvs)"
    using ok unfolding keyed by (simp add: reg_ok_def hm_ok_def comp_def case_prod_unfold)
  then have "map_of (rev ?kvs) = map_of ?kvs"
    by (subst map_of_inject_set) (simp_all add: rev_map [symmetric])
  moreover have "map_of ?kvs i = map_option (\<lambda>a. daemon_info_of now (heap rg a)) (registry_get rg i)"
    unfolding keyed registry_get_def by (induction "connections rg" arbitrary: i) (auto simp: map_of_map)
  ultimately show ?thesis
    by (simp add: get_stats_def stats_daemons fold_insert_get split: option.splits)
qed

text \<open>The statistics count every listed daemon once: the total is the number of listed ids, the
  number for a platform is that of the listed daemons which registered with it, no daemon is older
  than the reported oldest age, which is the age of some daemon unless there is none, and the
  details of an id are those of its connection.\<close>

theorem get_stats_spec:
  assumes "reg_ok rg"
  shows "total_daemons (get_stats now rg) = card {i. registry_get rg i \<noteq> None} \<and>
    count_of (by_platform (get_stats now rg)) p = platform_count rg p \<and>
    (\<forall>i a. registry_get rg i = Some a \<longrightarrow> conn_age now (heap rg a) \<le> oldest_connection_secs (get_stats now rg)) \<and>
    (oldest_connection_secs (get_stats now rg) = 0 \<or>
       (\<exists>i a. registry_get rg i = Some a \<and> oldest_connection_secs (get_stats now rg) = conn_age now (heap rg a))) \<and>
    hm_get (daemons (get_stats now rg)) i =
      map_option (\<lambda>a. daemon_info_of now (heap rg a)) (registry_get rg i)"
proof -
  have bound: "m \<le> fold (\<lambda>(_, a). max (g a)) es m \<and> (\<forall>(i, a) \<in> set es. g a \<le> fold (\<lambda>(_, a). max (g a)) es m)"
    for g :: "nat \<Rightarrow> u64" and es :: "(string \<times> nat) list" and m
  proof (induction es arbitrary: m)
    case (Cons e es)
    from Cons [of "max (g (snd e)) m"] show ?case by (auto simp: split_beta)
  qed simp
  have attained: "fold (\<lambda>(_, a). max (g a)) es m = m \<or> (\<exists>(i, a) \<in> set es. fold (\<lambda>(_, a). max (g a)) es m = g a)"
    for g :: "nat \<Rightarrow> u64" and es :: "(string \<times> nat) list" and m
    by (induction es arbitrary: m) (auto simp: max_def split_beta)
  have oldest: "oldest_connection_secs (get_stats now rg) =
      fold (\<lambda>(_, a). max (conn_age now (heap rg a))) (connections rg) 0"
    by (simp add: get_stats_def stats_oldest)
  have "\<forall>i a. registry_get rg i = Some a \<longrightarrow> conn_age now (heap rg a) \<le> oldest_connection_secs (get_stats now rg)"
    using bound [of 0 "\<lambda>a. conn_age now (heap rg a)" "connections rg"] registry_get_iff [OF assms]
    unfolding oldest by fastforce
  moreover have "oldest_connection_secs (get_stats now rg) = 0 \<or>
       (\<exists>i a. registry_get rg i = Some a \<and> oldest_connection_secs (get_stats now rg) = conn_age now (heap rg a))"
    using attained [of "\<lambda>a. conn_age now (heap rg a)" "connections rg" 0] assms
    unfolding oldest by (auto simp: registry_get_iff)
  moreover have "total_daemons (get_stats now rg) = card {i. registry_get rg i \<noteq> None}"
    using registry_count_card [OF assms] by (simp add: get_stats_def)
  moreover have "count_of (by_platform (get_stats now rg)) p = platform_count rg p"
    using platform_filter [OF assms] by (simp add: get_stats_def stats_by_platform) (simp add: count_of_def)
  ultimately show ?thesis using stats_daemon_get [OF assms] by blast
qed

theorem get_stats_spec_witness:
  "total_daemons (get_stats 130 (reg (srv demo_call))) = card {i. registry_get (reg (srv demo_call)) i \<noteq> None} \<and>
   oldest_connection_secs (get_stats 130 (reg (srv demo_call))) = 30"
proof -
  have "oldest_connection_secs (get_stats 130 (reg (srv demo_call))) = 30" by code_simp
  with get_stats_spec [OF srv_ok_reg [OF reachable_srv_ok [OF demo_reachable(1)]], of 130]
  show ?thesis by blast
qed

text \<open>The body of \<open>/stats\<close> is an object with its four fields whether or not a daemon is connected, so
  a reader need not tell a missing object from an empty one; under \<open>daemons\<close> it has, for each listed
  id and no other, the details of that daemon.\<close>

theorem stats_handler_shape:
  "reg_ok (reg sv) \<Longrightarrow>
   json_get (stats_handler now sv) ''total_daemons'' = Some (JNum (int (card {i. registry_get (reg sv) i \<noteq> None}))) \<and>
   (\<exists>ps. json_get (stats_handler now sv) ''by_platform'' = Some (JObj ps)) \<and>
   (\<exists>n. json_get (stats_handler now sv) ''oldest_connection_secs'' = Some (JNum n)) \<and>
   (\<exists>ds. json_get (stats_handler now sv) ''daemons'' = Some ds \<and>
      (\<forall>i. json_get ds i =
        map_option (\<lambda>a. daemon_json (daemon_info_of now (heap (reg sv) a))) (registry_get (reg sv) i)))"
proof -
  assume ok: "reg_ok (reg sv)"
  have get: "map_of (map (\<lambda>(i, d). (i, daemon_json d)) kvs) i = map_option daemon_json (map_of kvs i)"
    for kvs i by (induction kvs) auto
  show ?thesis
    using registry_count_card [OF ok] stats_daemon_get [OF ok, of now]
    by (simp add: stats_handler_def stats_body_def get option.map_comp comp_def get_stats_def [of now])
qed

theorem stats_handler_shape_witness:
  "json_get (stats_handler 5 server_new) ''total_daemons'' =
     Some (JNum (int (card {i. registry_get (reg server_new) i \<noteq> None}))) \<and>
   json_get (stats_handler 5 server_new) ''daemons'' = Some (JObj [])"
proof -
  have "reg_ok (reg server_new)" by (simp add: server_new_def reg_ok_new)
  moreover have "json_get (stats_handler 5 server_new) ''daemons'' = Some (JObj [])" by code_simp
  ultimately show ?thesis using stats_handler_shape [of server_new 5] by blast
qed

end
