(* ===== verification/Executor.thy ===== *)
theory Executor
  imports Protocol
begin

text \<open>
  What a daemon runs for its callers: one shot commands (\<open>sandd/src/executor.rs\<close>) and interactive
  sessions on a pseudo terminal (\<open>sandd/src/session.rs\<close>).

  The operating system is a parameter: \<open>proc_ops\<close> is the part of it that spawns a process and
  waits for it, \<open>pty_ops\<close> the pseudo terminals of the \<open>portable_pty\<close> crate, both over a state
  \<open>'o\<close>; \<open>utf8_lossy\<close> is the standard library's decoding of a process's output. Time is a number
  of nanoseconds. The builds for Windows are not modelled.
\<close>

section \<open>Commands\<close>

record os_command =
  oc_program :: string
  oc_args :: "string list"
  oc_env :: "string hmap"
  oc_cwd :: "string option"

text \<open>How a spawned process ended for one that waits a limited time for it: not within the limit,
  with an error of the wait, or with its two outputs and its exit code (none when a signal ended it).\<close>

datatype proc_end = StillRunning | WaitError string | Exited bytes bytes "i32 option"

record 'o proc_ops =
  spawn :: "os_command \<Rightarrow> 'o \<Rightarrow> (string + nat) \<times> 'o"
  wait_output :: "nat \<Rightarrow> u64 \<Rightarrow> 'o \<Rightarrow> proc_end \<times> 'o"
  clock :: "'o \<Rightarrow> nat"
  utf8_lossy :: "bytes \<Rightarrow> string"

record command_output =
  co_stdout :: string
  co_stderr :: string
  co_exit_code :: i32
  co_duration_ms :: u64

definition build_command :: "string \<Rightarrow> string hmap \<Rightarrow> string option \<Rightarrow> os_command" where
  "build_command command env cwd =
     \<lparr>oc_program = ''sh'', oc_args = [''-c'', command],
      oc_env = fold (\<lambda>(key, value). hm_insert key value) env [], oc_cwd = cwd\<rparr>"

definition execute ::
  "'o proc_ops \<Rightarrow> string \<Rightarrow> u64 \<Rightarrow> string hmap \<Rightarrow> string option \<Rightarrow> 'o \<Rightarrow> (string + command_output) \<times> 'o" where
  "execute po command timeout_secs env cwd os =
     (let start = clock po os
      in case spawn po (build_command command env cwd) os of
           (Inl _, os1) \<Rightarrow> (Inl ''Failed to spawn command'', os1)
         | (Inr child, os1) \<Rightarrow>
             (case wait_output po child timeout_secs os1 of
                (StillRunning, os2) \<Rightarrow> (Inl ''Command timed out'', os2)
              | (WaitError _, os2) \<Rightarrow> (Inl ''Failed to wait for command'', os2)
              | (Exited out err code, os2) \<Rightarrow>
                  (Inr \<lparr>co_stdout = utf8_lossy po out, co_stderr = utf8_lossy po err,
                        co_exit_code = (case code of Some c \<Rightarrow> c | None \<Rightarrow> - 1),
                        co_duration_ms = of_nat ((clock po os2 - start) div 1000000)\<rparr>,
                   os2)))"

section \<open>Sessions\<close>

text \<open>A terminal is the number of its pair of ends.\<close>

record 'o pty_ops =
  openpty :: "u16 \<Rightarrow> u16 \<Rightarrow> 'o \<Rightarrow> (string + nat) \<times> 'o"
  clone_reader :: "nat \<Rightarrow> 'o \<Rightarrow> (string + unit) \<times> 'o"
  take_writer :: "nat \<Rightarrow> 'o \<Rightarrow> (string + unit) \<times> 'o"
  spawn_command :: "nat \<Rightarrow> string \<Rightarrow> string hmap \<Rightarrow> 'o \<Rightarrow> (string + unit) \<times> 'o"
  write_all :: "nat \<Rightarrow> bytes \<Rightarrow> 'o \<Rightarrow> (string + unit) \<times> 'o"
  flush :: "nat \<Rightarrow> 'o \<Rightarrow> (string + unit) \<times> 'o"
  resize_pty :: "nat \<Rightarrow> u16 \<Rightarrow> u16 \<Rightarrow> 'o \<Rightarrow> (string + unit) \<times> 'o"
  bash_exists :: "'o \<Rightarrow> bool"
  shell_var :: "'o \<Rightarrow> string option"

record session_handle =
  sh_session_id :: string
  sh_pty :: nat

type_synonym session_manager = "session_handle hmap"

text \<open>Run a fallible operation, and go on with its result or return its error under a prefix.\<close>

definition try_os ::
  "string \<Rightarrow> (string + 'a) \<times> 's \<Rightarrow> ('a \<Rightarrow> 's \<Rightarrow> (string + 'b) \<times> 's) \<Rightarrow> (string + 'b) \<times> 's" where
  "try_os prefix r k =
     (case r of (Inl e, s) \<Rightarrow> (Inl (prefix @ e), s) | (Inr x, s) \<Rightarrow> k x s)"

definition session_shell :: "'o pty_ops \<Rightarrow> 'o \<Rightarrow> string" where
  "session_shell ty os =
     (if bash_exists ty os then ''/bin/bash''
      else (case shell_var ty os of Some s \<Rightarrow> s | None \<Rightarrow> ''/bin/sh''))"

definition manager_new_session ::
  "'o pty_ops \<Rightarrow> string \<Rightarrow> u16 \<Rightarrow> u16 \<Rightarrow> string \<Rightarrow> session_manager \<times> 'o \<Rightarrow>
     (string + unit) \<times> session_manager \<times> 'o" where
  "manager_new_session ty sid rows cols term_name = (\<lambda>(sm, os).
     (case try_os ''Failed to open PTY: '' (openpty ty rows cols os) (\<lambda>pair os.
        try_os ''Failed to get PTY reader: '' (clone_reader ty pair os) (\<lambda>_ os.
        try_os ''Failed to get PTY writer: '' (take_writer ty pair os) (\<lambda>_ os.
        try_os ''Failed to spawn session: ''
          (spawn_command ty pair (session_shell ty os) [(''TERM'', term_name)] os) (\<lambda>_ os.
        (Inr pair, os))))) of
        (Inl e, os) \<Rightarrow> (Inl e, sm, os)
      | (Inr pair, os) \<Rightarrow> (Inr (), hm_insert sid \<lparr>sh_session_id = sid, sh_pty = pair\<rparr> sm, os)))"

definition send_input ::
  "'o pty_ops \<Rightarrow> string \<Rightarrow> bytes \<Rightarrow> session_manager \<times> 'o \<Rightarrow> (string + unit) \<times> session_manager \<times> 'o" where
  "send_input ty sid data = (\<lambda>(sm, os).
     (case hm_get sm sid of
        None \<Rightarrow> (Inl (''Session not found: '' @ sid), sm, os)
      | Some h \<Rightarrow>
          (case try_os ''Failed to write to PTY: '' (write_all ty (sh_pty h) data os) (\<lambda>_ os.
             try_os ''Failed to flush PTY writer: '' (flush ty (sh_pty h) os) (\<lambda>_ os. (Inr (), os))) of
             (r, os) \<Rightarrow> (r, sm, os))))"

definition resize ::
  "'o pty_ops \<Rightarrow> string \<Rightarrow> u16 \<Rightarrow> u16 \<Rightarrow> session_manager \<times> 'o \<Rightarrow> (string + unit) \<times> session_manager \<times> 'o" where
  "resize ty sid rows cols = (\<lambda>(sm, os).
     (case hm_get sm sid of
        None \<Rightarrow> (Inl (''Session not found: '' @ sid), sm, os)
      | Some h \<Rightarrow>
          (case try_os ''Failed to resize PTY: '' (resize_pty ty (sh_pty h) rows cols os)
                  (\<lambda>_ os. (Inr (), os)) of
             (r, os) \<Rightarrow> (r, sm, os))))"

definition manager_close_session :: "string \<Rightarrow> session_manager \<times> 'o \<Rightarrow> session_manager \<times> 'o" where
  "manager_close_session sid = (\<lambda>(sm, os). (hm_remove sid sm, os))"

section \<open>The reader of a session\<close>

text \<open>What a read of the terminal gives: end of file, some bytes, or an error. The task ends after the
  first, after the last, and when the socket refuses what it sends; \<open>room\<close> is the number of frames
  the socket still takes.\<close>

datatype pty_read = ReadEof | ReadBytes bytes | ReadError string

fun reader_task :: "string \<Rightarrow> pty_read list \<Rightarrow> nat \<Rightarrow> message list" where
  "reader_task sid [] room = []"
| "reader_task sid (ReadEof # rs) room = (if 0 < room then [SessionExit sid 0] else [])"
| "reader_task sid (ReadBytes d # rs) room =
     (if 0 < room then SessionOutput sid d # reader_task sid rs (room - 1) else [])"
| "reader_task sid (ReadError _ # rs) room = []"

section \<open>Properties\<close>

lemma build_command_env: "hm_get (oc_env (build_command c env cwd)) k = map_of (rev env) k"
proof -
  have "hm_get (fold (\<lambda>(key, value). hm_insert key value) kvs m) k =
      (case map_of (rev kvs) k of Some v \<Rightarrow> Some v | None \<Rightarrow> hm_get m k)" for kvs and m :: "string hmap"
    by (induction kvs arbitrary: m) (auto simp: map_add_def split: option.splits)
  then show ?thesis by (simp add: build_command_def split: option.splits)
qed

lemma build_command_fields:
  "oc_program (build_command c env cwd) = ''sh''" "oc_args (build_command c env cwd) = [''-c'', c]"
  "oc_cwd (build_command c env cwd) = cwd"
  by (simp_all add: build_command_def)

text \<open>A command is handed to \<open>sh -c\<close> as one argument, in the given directory and with the given
  environment variables; its result has the decoded outputs, the exit code, minus one when a
  signal ended it, and the whole milliseconds from before the spawn to after the wait; a command
  that cannot be spawned, or that runs past the timeout, gives the error of that stage.\<close>

theorem execute_outcome:
  assumes "hm_ok env"
  shows "\<exists>cmd. oc_program cmd = ''sh'' \<and> oc_args cmd = [''-c'', command] \<and> oc_cwd cmd = cwd \<and>
    (\<forall>k. hm_get (oc_env cmd) k = hm_get env k) \<and>
    (case spawn po cmd os of
       (Inl e, os1) \<Rightarrow> execute po command t env cwd os = (Inl ''Failed to spawn command'', os1)
     | (Inr child, os1) \<Rightarrow>
         (case wait_output po child t os1 of
            (StillRunning, os2) \<Rightarrow> execute po command t env cwd os = (Inl ''Command timed out'', os2)
          | (WaitError e, os2) \<Rightarrow>
              execute po command t env cwd os = (Inl ''Failed to wait for command'', os2)
          | (Exited out err code, os2) \<Rightarrow>
              (\<exists>r. execute po command t env cwd os = (Inr r, os2) \<and>
                 co_stdout r = utf8_lossy po out \<and> co_stderr r = utf8_lossy po err \<and>
                 co_exit_code r = (case code of None \<Rightarrow> - 1 | Some c \<Rightarrow> c) \<and>
                 co_duration_ms r = of_nat ((clock po os2 - clock po os) div 1000000))))"
proof -
  have "map_of (rev env) = map_of env"
    using assms by (subst map_of_inject_set) (simp_all add: hm_ok_def rev_map [symmetric])
  then show ?thesis
    by (intro exI [of _ "build_command command env cwd"])
      (auto simp: execute_def Let_def build_command_env build_command_fields
        split: prod.splits sum.splits proc_end.splits option.splits)
qed

text \<open>A host on which every process prints \<open>hi\<close> and is killed after 2.5 milliseconds.\<close>

definition echo_host :: "nat proc_ops" where
  "echo_host = \<lparr>spawn = (\<lambda>c os. (Inr 7, os)), wait_output = (\<lambda>_ _ os. (Exited [104, 105] [] None, os + 2500000)),
     clock = (\<lambda>os. os), utf8_lossy = map (\<lambda>b. char_of (unat b))\<rparr>"

theorem execute_outcome_witness:
  "\<exists>r. execute echo_host ''printf hi'' 10 [(''A'', ''1'')] None 0 = (Inr r, 2500000) \<and>
     co_stdout r = ''hi'' \<and> co_exit_code r = - 1 \<and> co_duration_ms r = 2"
proof -
  have "hm_ok [(''A'', ''1'')]" by (simp add: hm_ok_def)
  moreover have "map (\<lambda>b. char_of (unat b)) [104 :: u8, 105] = ''hi''" by code_simp
  ultimately show ?thesis
    using execute_outcome [of "[(''A'', ''1'')]" "''printf hi''" None echo_host 10 0]
    by (auto simp: echo_host_def simp del: list.map)
qed

text \<open>Opening a session either fails and leaves the table of sessions as it was, whatever stage
  failed, or enters a terminal under the session's id and no other; input for an id that is not
  in the table is refused without touching the operating system, and so is input after the
  session was closed.\<close>

theorem session_table:
  assumes "manager_new_session ty sid rows cols tn (sm, os) = (r, sm', os')"
  shows "(case r of
      Inl e \<Rightarrow> sm' = sm
    | Inr _ \<Rightarrow> (\<exists>p. hm_get sm' sid = Some \<lparr>sh_session_id = sid, sh_pty = p\<rparr> \<and>
        fst (openpty ty rows cols os) = Inr p) \<and>
        (\<forall>k. k \<noteq> sid \<longrightarrow> hm_get sm' k = hm_get sm k)) \<and>
    send_input ty k d (manager_close_session k (sm', os')) =
      (Inl (''Session not found: '' @ k), hm_remove k sm', os')"
  using assms
  by (auto simp: manager_new_session_def try_os_def send_input_def manager_close_session_def
      split: prod.splits sum.splits)

text \<open>A terminal system that hands out its next free number, and fails to spawn a command on it for
  a terminal of no rows.\<close>

definition demo_pty :: "nat pty_ops" where
  "demo_pty = \<lparr>openpty = (\<lambda>rows cols os. if rows = 0 then (Inl ''no rows'', os) else (Inr os, os + 1)),
     clone_reader = (\<lambda>_ os. (Inr (), os)), take_writer = (\<lambda>_ os. (Inr (), os)),
     spawn_command = (\<lambda>_ _ _ os. (Inr (), os)), write_all = (\<lambda>_ _ os. (Inr (), os)),
     flush = (\<lambda>_ os. (Inr (), os)), resize_pty = (\<lambda>_ _ _ os. (Inr (), os)),
     bash_exists = (\<lambda>_. True), shell_var = (\<lambda>_. None)\<rparr>"

theorem session_table_witness:
  "\<exists>r sm' os'. manager_new_session demo_pty ''s1'' 24 80 ''xterm'' ([], 5) = (r, sm', os') \<and>
     r = Inr () \<and> hm_get sm' ''s1'' = Some \<lparr>sh_session_id = ''s1'', sh_pty = 5\<rparr>"
proof -
  obtain r sm' os' where e: "manager_new_session demo_pty ''s1'' 24 80 ''xterm'' ([], 5) = (r, sm', os')"
    by (metis prod_cases3)
  moreover have r: "r = Inr ()"
    using e by (simp add: manager_new_session_def demo_pty_def try_os_def)
  moreover have "fst (openpty demo_pty 24 80 5) = Inr 5" by (simp add: demo_pty_def)
  ultimately show ?thesis using session_table [OF e, of "''s1''"] by auto
qed

end
