(* ===== verification/Daemon.thy ===== *)
theory Daemon
  imports Executor
begin

text \<open>
  How a daemon handles the messages of its controller (\<open>handle_message\<close> in \<open>sandd/src/main.rs\<close>).

  The state is the session table, the operating system \<open>'o\<close> and the sending half of the WebSocket.
  The socket is the list of the frames sent and the number it takes in all; a send beyond that
  fails. \<open>host\<close> bundles what the handlers call: processes, terminals, the snapshot manager's
  operations, and reading a file. Text frames are represented by their messages.
\<close>

section \<open>State\<close>

datatype frame = Text message | CloseFrame

record sink =
  sent :: "frame list"
  limit :: nat

definition tx_send :: "frame \<Rightarrow> sink \<Rightarrow> bool \<times> sink" where
  "tx_send f s = (if length (sent s) < limit s then (True, s\<lparr>sent := sent s @ [f]\<rparr>) else (False, s))"

record 'o snap_ops =
  op_create :: "string \<Rightarrow> string option \<Rightarrow> string list option \<Rightarrow> 'o \<Rightarrow> (string + string) \<times> 'o"
  op_restore :: "string \<Rightarrow> string \<Rightarrow> 'o \<Rightarrow> (string + unit) \<times> 'o"
  op_list :: "string list option \<Rightarrow> 'o \<Rightarrow> (string + snapshot_info list) \<times> 'o"
  op_find :: "string \<Rightarrow> 'o \<Rightarrow> (string + snapshot_info option) \<times> 'o"
  op_get :: "string \<Rightarrow> 'o \<Rightarrow> (string + snapshot_info) \<times> 'o"
  op_delete :: "string \<Rightarrow> 'o \<Rightarrow> (string + unit) \<times> 'o"

record 'o host =
  processes :: "'o proc_ops"
  terminals :: "'o pty_ops"
  snapshots :: "'o snap_ops"
  read_file :: "string \<Rightarrow> 'o \<Rightarrow> (string + bytes) \<times> 'o"

record 'o daemon =
  dm_sessions :: session_manager
  dm_os :: 'o
  dm_tx :: sink

text \<open>The result of the function: whether it returned \<open>Ok\<close>.\<close>

definition send_text :: "message \<Rightarrow> 'o daemon \<Rightarrow> bool \<times> 'o daemon" where
  "send_text m d = (case tx_send (Text m) (dm_tx d) of (ok, s) \<Rightarrow> (ok, d\<lparr>dm_tx := s\<rparr>))"

section \<open>Handlers\<close>

definition handle_execute ::
  "'o host \<Rightarrow> string \<Rightarrow> string \<Rightarrow> u64 \<Rightarrow> string hmap \<Rightarrow> string option \<Rightarrow> 'o daemon \<Rightarrow> bool \<times> 'o daemon" where
  "handle_execute h rid command timeout_secs env cwd d =
     (case execute (processes h) command timeout_secs env cwd (dm_os d) of
        (result, os) \<Rightarrow>
          send_text
            (case result of
               Inr output \<Rightarrow>
                 CommandOutput rid (co_stdout output) (co_stderr output) (co_exit_code output)
                   (co_duration_ms output)
             | Inl e \<Rightarrow> CommandError rid e)
            (d\<lparr>dm_os := os\<rparr>))"

definition handle_new_session ::
  "'o host \<Rightarrow> string \<Rightarrow> u16 \<Rightarrow> u16 \<Rightarrow> string \<Rightarrow> 'o daemon \<Rightarrow> bool \<times> 'o daemon" where
  "handle_new_session h sid rows cols term_name d =
     (case manager_new_session (terminals h) sid rows cols term_name (dm_sessions d, dm_os d) of
        (result, sm, os) \<Rightarrow>
          send_text
            (case result of
               Inr _ \<Rightarrow> SessionStarted sid True None
             | Inl e \<Rightarrow> SessionStarted sid False (Some e))
            (d\<lparr>dm_sessions := sm, dm_os := os\<rparr>))"

text \<open>A session operation whose error is only logged.\<close>

definition session_op ::
  "(session_manager \<times> 'o \<Rightarrow> 'r \<times> session_manager \<times> 'o) \<Rightarrow> 'o daemon \<Rightarrow> bool \<times> 'o daemon" where
  "session_op f d =
     (case f (dm_sessions d, dm_os d) of (_, sm, os) \<Rightarrow> (True, d\<lparr>dm_sessions := sm, dm_os := os\<rparr>))"

definition handle_session_close :: "string \<Rightarrow> 'o daemon \<Rightarrow> bool \<times> 'o daemon" where
  "handle_session_close sid = session_op (\<lambda>s. ((), manager_close_session sid s))"

definition download_chunk_size :: nat where
  "download_chunk_size = 64 * 1024"

fun send_download :: "string \<Rightarrow> nat \<Rightarrow> (nat \<times> bytes) list \<Rightarrow> 'o daemon \<Rightarrow> bool \<times> 'o daemon" where
  "send_download rid len [] d = (True, d)"
| "send_download rid len ((i, chunk) # rest) d =
     (case send_text
             (FileDownloadChunk rid chunk (of_nat (i * download_chunk_size))
               (len \<le> (i + 1) * download_chunk_size)) d of
        (True, d) \<Rightarrow> send_download rid len rest d
      | (False, d) \<Rightarrow> (False, d))"

definition handle_download_start :: "'o host \<Rightarrow> string \<Rightarrow> string \<Rightarrow> 'o daemon \<Rightarrow> bool \<times> 'o daemon" where
  "handle_download_start h rid path d =
     (case read_file h path (dm_os d) of
        (Inr data, os) \<Rightarrow>
          send_download rid (length data) (enumerate 0 (chunks download_chunk_size data)) (d\<lparr>dm_os := os\<rparr>)
      | (Inl e, os) \<Rightarrow> send_text (FileDownloadError rid e) (d\<lparr>dm_os := os\<rparr>))"

text \<open>After a success these two read the snapshot's entry back; an error there ends the handler
  without an answer.\<close>

definition handle_create_snapshot ::
  "'o host \<Rightarrow> string \<Rightarrow> string \<Rightarrow> string option \<Rightarrow> string list option \<Rightarrow> 'o daemon \<Rightarrow> bool \<times> 'o daemon" where
  "handle_create_snapshot h rid workspace msg tags d =
     (case op_create (snapshots h) workspace msg tags (dm_os d) of
        (Inr snapshot_id, os) \<Rightarrow>
          (case op_get (snapshots h) snapshot_id os of
             (Inl _, os) \<Rightarrow> (False, d\<lparr>dm_os := os\<rparr>)
           | (Inr s, os) \<Rightarrow>
               send_text (SnapshotCreated rid snapshot_id (si_file_count s) (si_total_size s))
                 (d\<lparr>dm_os := os\<rparr>))
      | (Inl e, os) \<Rightarrow> send_text (SnapshotError rid e) (d\<lparr>dm_os := os\<rparr>))"

definition handle_restore_snapshot ::
  "'o host \<Rightarrow> string \<Rightarrow> string \<Rightarrow> string \<Rightarrow> 'o daemon \<Rightarrow> bool \<times> 'o daemon" where
  "handle_restore_snapshot h rid snapshot_id destination d =
     (case op_restore (snapshots h) snapshot_id destination (dm_os d) of
        (Inr _, os) \<Rightarrow>
          (case op_get (snapshots h) snapshot_id os of
             (Inl _, os) \<Rightarrow> (False, d\<lparr>dm_os := os\<rparr>)
           | (Inr s, os) \<Rightarrow> send_text (SnapshotRestored rid (si_file_count s)) (d\<lparr>dm_os := os\<rparr>))
      | (Inl e, os) \<Rightarrow> send_text (SnapshotError rid e) (d\<lparr>dm_os := os\<rparr>))"

text \<open>An operation whose result or error is sent back.\<close>

definition answer_with ::
  "string \<Rightarrow> ('a \<Rightarrow> message) \<Rightarrow> (string + 'a) \<times> 'o \<Rightarrow> 'o daemon \<Rightarrow> bool \<times> 'o daemon" where
  "answer_with rid reply r d =
     (case r of (result, os) \<Rightarrow>
        send_text (case result of Inr x \<Rightarrow> reply x | Inl e \<Rightarrow> SnapshotError rid e) (d\<lparr>dm_os := os\<rparr>))"

definition handle_message :: "'o host \<Rightarrow> message \<Rightarrow> 'o daemon \<Rightarrow> bool \<times> 'o daemon" where
  "handle_message h msg d =
     (case msg of
        ExecuteCommand rid command timeout_secs env cwd \<Rightarrow>
          handle_execute h rid command timeout_secs env cwd d
      | NewSession sid rows cols term_name \<Rightarrow> handle_new_session h sid rows cols term_name d
      | SessionInput sid data \<Rightarrow> session_op (send_input (terminals h) sid data) d
      | SessionResize sid rows cols \<Rightarrow> session_op (resize (terminals h) sid rows cols) d
      | SessionClose sid \<Rightarrow> handle_session_close sid d
      | FileUploadStart _ _ _ _ \<Rightarrow> (True, d)
      | FileUploadChunk _ _ _ \<Rightarrow> (True, d)
      | FileDownloadStart rid path \<Rightarrow> handle_download_start h rid path d
      | CreateSnapshot rid workspace m tags \<Rightarrow> handle_create_snapshot h rid workspace m tags d
      | RestoreSnapshot rid snapshot_id destination \<Rightarrow>
          handle_restore_snapshot h rid snapshot_id destination d
      | ListSnapshots rid tags \<Rightarrow>
          answer_with rid (SnapshotList rid) (op_list (snapshots h) tags (dm_os d)) d
      | FindSnapshotByTag rid tag \<Rightarrow>
          answer_with rid (SnapshotDetails rid) (op_find (snapshots h) tag (dm_os d)) d
      | GetSnapshot rid snapshot_id \<Rightarrow>
          answer_with rid (\<lambda>s. SnapshotDetails rid (Some s)) (op_get (snapshots h) snapshot_id (dm_os d)) d
      | DeleteSnapshot rid snapshot_id \<Rightarrow>
          answer_with rid (\<lambda>_. SnapshotDeleted rid) (op_delete (snapshots h) snapshot_id (dm_os d)) d
      | _ \<Rightarrow> (True, d))"

section \<open>What a handler sends\<close>

lemma send_text_ok:
  "length (sent (dm_tx d)) < limit (dm_tx d) \<Longrightarrow>
     send_text m d = (True, d\<lparr>dm_tx := (dm_tx d)\<lparr>sent := sent (dm_tx d) @ [Text m]\<rparr>\<rparr>)"
  by (simp add: send_text_def tx_send_def)

lemma send_text_full:
  "\<not> length (sent (dm_tx d)) < limit (dm_tx d) \<Longrightarrow> send_text m d = (False, d)"
  by (simp add: send_text_def tx_send_def)

lemma send_text_sent:
  "sent (dm_tx (snd (send_text m d))) =
     (if length (sent (dm_tx d)) < limit (dm_tx d) then sent (dm_tx d) @ [Text m] else sent (dm_tx d))"
  by (simp add: send_text_def tx_send_def)

text \<open>The entry read back after a snapshot was created or restored is there.\<close>

definition reads_back :: "'o snap_ops \<Rightarrow> message \<Rightarrow> 'o \<Rightarrow> bool" where
  "reads_back so msg os =
     (case msg of
        CreateSnapshot _ ws m tags \<Rightarrow>
          (case op_create so ws m tags os of
             (Inl _, _) \<Rightarrow> True
           | (Inr i, os1) \<Rightarrow> (case op_get so i os1 of (Inl _, _) \<Rightarrow> False | (Inr _, _) \<Rightarrow> True))
      | RestoreSnapshot _ i dest \<Rightarrow>
          (case op_restore so i dest os of
             (Inl _, _) \<Rightarrow> True
           | (Inr _, os1) \<Rightarrow> (case op_get so i os1 of (Inl _, _) \<Rightarrow> False | (Inr _, _) \<Rightarrow> True))
      | _ \<Rightarrow> True)"

lemmas handler_defs = handle_message_def handle_execute_def handle_create_snapshot_def
  handle_restore_snapshot_def answer_with_def reads_back_def

text \<open>A daemon answers every request that a caller waits on with exactly one message, which fits the
  request and carries its id, whether the operation succeeds or fails, as long as the socket takes
  one more frame and the entry of a snapshot just created or restored can be read back.\<close>

theorem request_answered_once:
  assumes "request_id msg \<noteq> None" and "length (sent (dm_tx d)) < limit (dm_tx d)"
    and "reads_back (snapshots h) msg (dm_os d)"
  shows "\<exists>a. answers msg a \<and>
    sent (dm_tx (snd (handle_message h msg d))) = sent (dm_tx d) @ [Text a]"
  using assms
  by (cases msg) (auto simp: handler_defs answers_def send_text_sent split: prod.splits sum.splits)

text \<open>A host whose snapshot store is empty, with one file.\<close>

definition demo_host :: "nat host" where
  "demo_host = \<lparr>processes = echo_host, terminals = demo_pty,
     snapshots = \<lparr>op_create = (\<lambda>_ _ _ os. (Inl ''disk full'', os)), op_restore = (\<lambda>_ _ os. (Inl ''none'', os)),
       op_list = (\<lambda>_ os. (Inr [], os)), op_find = (\<lambda>_ os. (Inr None, os)),
       op_get = (\<lambda>_ os. (Inl ''none'', os)), op_delete = (\<lambda>_ os. (Inl ''none'', os))\<rparr>,
     read_file = (\<lambda>p os. (if p = ''/f'' then Inr [1, 2, 3] else Inl ''not found'', os))\<rparr>"

definition demo_daemon :: "nat daemon" where
  "demo_daemon = \<lparr>dm_sessions = [], dm_os = 0, dm_tx = \<lparr>sent = [], limit = 10\<rparr>\<rparr>"

theorem request_answered_once_witness:
  "\<exists>a. answers (CreateSnapshot ''r1'' ''/w'' None None) a \<and>
     sent (dm_tx (snd (handle_message demo_host (CreateSnapshot ''r1'' ''/w'' None None) demo_daemon))) = [Text a]"
  using request_answered_once [of "CreateSnapshot ''r1'' ''/w'' None None" demo_daemon demo_host]
  by (simp add: demo_daemon_def demo_host_def reads_back_def)

section \<open>Downloads\<close>

lemma send_download_ok:
  "length (sent (dm_tx d)) + length ics \<le> limit (dm_tx d) \<Longrightarrow>
   send_download rid len ics d =
     (True, d\<lparr>dm_tx := (dm_tx d)\<lparr>sent := sent (dm_tx d) @
        map (\<lambda>(i, c). Text (FileDownloadChunk rid c (of_nat (i * download_chunk_size))
          (len \<le> (i + 1) * download_chunk_size))) ics\<rparr>\<rparr>)"
proof (induction ics arbitrary: d)
  case Nil
  then show ?case by simp
next
  case (Cons ic ics)
  obtain i c where ic: "ic = (i, c)" by (cases ic)
  have room: "length (sent (dm_tx d)) < limit (dm_tx d)" using Cons.prems by simp
  show ?case
    using Cons.prems unfolding ic by (simp add: send_text_ok [OF room] Cons.IH)
qed

lemma last_chunk_iff:
  "k < (n + 65535) div 65536 \<Longrightarrow> n \<le> (k + 1) * 65536 \<longleftrightarrow> k + 1 = (n + 65535) div (65536 :: nat)"
proof
  assume k: "k < (n + 65535) div 65536" and "n \<le> (k + 1) * 65536"
  then have "n + 65535 < (k + 2) * 65536" by simp
  then have "(n + 65535) div 65536 < k + 2" by (simp add: div_less_iff_less_mult)
  with k show "k + 1 = (n + 65535) div 65536" by simp
next
  assume "k + 1 = (n + 65535) div 65536"
  then have "(k + 1) * 65536 + (n + 65535) mod 65536 = n + 65535"
    using div_mult_mod_eq [of "n + 65535" 65536] by simp
  moreover have "(n + 65535) mod 65536 \<le> 65535" using mod_less_divisor [of 65536 "n + 65535"] by simp
  ultimately show "n \<le> (k + 1) * 65536" by linarith
qed

text \<open>A daemon sends a readable file in chunks of 64 KiB, in order, each with its offset, and marks
  the last chunk and no other as the last; the chunks put together are the file. An empty file
  gives no chunk at all, so no frame says that it is complete. A file that cannot be read gives
  one error with the request's id.\<close>

theorem download_chunks:
  assumes "(length data + 65535) div 65536 + length (sent (dm_tx d)) \<le> limit (dm_tx d)"
    and "read_file h path (dm_os d) = (Inr data, os)"
  shows "\<exists>ks. ks = [0..<(length data + 65535) div 65536] \<and>
    sent (dm_tx (snd (handle_message h (FileDownloadStart rid path) d))) = sent (dm_tx d) @
      map (\<lambda>k. Text (FileDownloadChunk rid (take 65536 (drop (k * 65536) data)) (of_nat (k * 65536))
        (k + 1 = length ks))) ks \<and>
    concat (map (\<lambda>k. take 65536 (drop (k * 65536) data)) ks) = data"
proof -
  let ?n = "(length data + 65535) div 65536"
  have len: "length (chunks download_chunk_size data) = ?n"
    by (simp add: length_chunks download_chunk_size_def)
  have enum: "enumerate 0 (chunks download_chunk_size data) =
      map (\<lambda>k. (k, take 65536 (drop (k * 65536) data))) [0..<?n]"
    using len by (intro nth_equalityI) (simp_all add: nth_enumerate_eq nth_chunks download_chunk_size_def)
  have "map snd (enumerate 0 (chunks download_chunk_size data)) = chunks download_chunk_size data" by simp
  then have "concat (map (\<lambda>k. take 65536 (drop (k * 65536) data)) [0..<?n]) = data"
    unfolding enum using concat_chunks [of download_chunk_size data]
    by (simp add: comp_def download_chunk_size_def)
  moreover have "sent (dm_tx (snd (handle_message h (FileDownloadStart rid path) d))) = sent (dm_tx d) @
      map (\<lambda>(i, c). Text (FileDownloadChunk rid c (of_nat (i * download_chunk_size))
          (length data \<le> (i + 1) * download_chunk_size))) (enumerate 0 (chunks download_chunk_size data))"
    using assms len
    by (simp add: handle_message_def handle_download_start_def send_download_ok)
  ultimately show ?thesis
    unfolding enum
    by (intro exI [of _ "[0..<?n]"]) (simp add: comp_def download_chunk_size_def last_chunk_iff [simplified])
qed

theorem download_chunks_witness:
  "sent (dm_tx (snd (handle_message demo_host (FileDownloadStart ''r2'' ''/f'') demo_daemon))) =
     [Text (FileDownloadChunk ''r2'' [1, 2, 3] 0 True)]"
  using download_chunks [of "[1, 2, 3]" demo_daemon demo_host "''/f''" 0 "''r2''"]
  by (simp add: demo_daemon_def demo_host_def)

section \<open>Messages a daemon does not act on\<close>

text \<open>A daemon ignores uploads: neither the start of one nor any of its chunks sends an answer,
  touches the file system, or changes any of the daemon's state.\<close>

theorem upload_ignored:
  "fold (\<lambda>m d. snd (handle_message h m d))
     (FileUploadStart rid path total_len mode # map (\<lambda>(c, off). FileUploadChunk rid c off) cs) d = d"
proof -
  have "fold (\<lambda>m d. snd (handle_message h m d)) (map (\<lambda>(c, off). FileUploadChunk rid c off) cs) d = d"
    by (induction cs arbitrary: d) (auto simp: handle_message_def)
  then show ?thesis by (simp add: handle_message_def)
qed

section \<open>What a handler may send\<close>

text \<open>The messages with which a handler answers.\<close>

fun daemon_reply :: "message \<Rightarrow> bool" where
  "daemon_reply (SessionStarted _ _ _) = True"
| "daemon_reply (FileDownloadChunk _ _ _ _) = True"
| "daemon_reply (FileDownloadError _ _) = True"
| "daemon_reply m = (response_id m \<noteq> None)"

definition replies_only :: "'o daemon \<Rightarrow> 'o daemon \<Rightarrow> bool" where
  "replies_only d d' \<longleftrightarrow>
     (\<exists>ms. sent (dm_tx d') = sent (dm_tx d) @ map Text ms \<and> list_all daemon_reply ms) \<and>
     limit (dm_tx d') = limit (dm_tx d)"

lemma replies_only_same: "dm_tx d' = dm_tx d \<Longrightarrow> replies_only d d'"
  by (auto simp: replies_only_def intro: exI [of _ "[]"])

lemma replies_only_trans: "replies_only d d1 \<Longrightarrow> replies_only d1 d2 \<Longrightarrow> replies_only d d2"
  unfolding replies_only_def by clarsimp (metis list_all_append map_append)

lemma replies_only_send:
  assumes "daemon_reply m" and "dm_tx d1 = dm_tx d"
  shows "replies_only d (snd (send_text m d1))"
proof (cases "length (sent (dm_tx d1)) < limit (dm_tx d1)")
  case True
  with assms show ?thesis
    by (auto simp: send_text_ok replies_only_def intro: exI [of _ "[m]"])
next
  case False
  with assms show ?thesis by (simp add: send_text_full replies_only_same)
qed

lemma replies_only_download: "replies_only d (snd (send_download rid len ics d))"
proof (induction ics arbitrary: d)
  case Nil
  then show ?case by (simp add: replies_only_same)
next
  case (Cons ic ics)
  obtain i c where ic: "ic = (i, c)" by (cases ic)
  let ?m = "FileDownloadChunk rid c (of_nat (i * download_chunk_size)) (len \<le> (i + 1) * download_chunk_size)"
  have first: "replies_only d (snd (send_text ?m d))" by (rule replies_only_send) simp_all
  show ?case
  proof (cases "send_text ?m d")
    case (Pair ok d1)
    then show ?thesis
      using first replies_only_trans [OF _ Cons.IH [of d1]] by (cases ok) (simp_all add: ic)
  qed
qed

text \<open>A handler only adds replies to what was sent.\<close>

lemma handle_message_replies: "replies_only d (snd (handle_message h m d))"
proof -
  have dl: "replies_only d (snd (send_download rid len ics (d\<lparr>dm_os := os\<rparr>)))" for rid len ics os
    by (rule replies_only_trans [OF replies_only_same replies_only_download]) simp
  show ?thesis
    by (cases m)
      (auto simp: handler_defs handle_new_session_def session_op_def handle_session_close_def
        handle_download_start_def split: prod.split sum.split
        intro!: replies_only_send dl intro: replies_only_same)
qed

end
