(* ===== verification/Serve.thy ===== *)
theory Serve
  imports Daemon Interfaces
begin

text \<open>
  The daemon's session over an established WebSocket and the loop around it
  (\<open>serve\<close>, \<open>session_outcome\<close>, \<open>connect_and_serve\<close> and \<open>main\<close> in \<open>sandd/src/main.rs\<close>).

  The loop of \<open>serve\<close> is a step function on its state. An event is one tick of the heartbeat task
  or one wake-up of the \<open>select!\<close>, which says which of its branches are ready; the \<open>biased\<close> order
  of the source picks one. Times are nanoseconds of the monotonic clock. A message is handled in
  one step, as the loop awaits its handler; a heartbeat sent meanwhile is a tick before or after.
\<close>

section \<open>Labels\<close>

text \<open>\<open>str::split_once\<close> at a character.\<close>

fun split_once :: "char \<Rightarrow> string \<Rightarrow> (string \<times> string) option" where
  "split_once d [] = None"
| "split_once d (c # cs) =
     (if c = d then Some ([], cs) else map_option (\<lambda>(k, v). (c # k, v)) (split_once d cs))"

definition parse_labels :: "string list \<Rightarrow> string hmap" where
  "parse_labels args =
     fold (\<lambda>label m. (case split_once CHR ''='' label of Some (k, v) \<Rightarrow> hm_insert k v m | None \<Rightarrow> m))
       args []"

section \<open>State of a session\<close>

datatype serve_outcome = Disconnected | Shutdown

text \<open>The heartbeat task beats, or has failed to send and signalled that the connection is dead.\<close>

datatype beat_task = Beating | BeatFailed

record serve_conf =
  sc_daemon_id :: string
  sc_heartbeat_interval :: u64
  sc_metadata :: daemon_metadata

record 'o serve_state =
  sv_daemon :: "'o daemon"
  sv_last_ack :: nat
  sv_beat :: beat_task
  sv_outcome :: "serve_outcome option"

text \<open>What the reading half yields: a text frame (no message if it does not parse), a close frame,
  an error, the end of the stream, or a frame of another kind.\<close>

datatype ws_in = InText "message option" | InClose | InErr | InEnd | InOther

record wake =
  wk_now :: nat
  wk_shutdown :: bool
  wk_tick :: bool
  wk_msg :: "ws_in option"
  wk_done :: nat
    \<comment> \<open>when the handler of the message returns\<close>

datatype serve_event = Beat | Broken | Wake wake

datatype branch = BrShutdown | BrDead | BrTick | BrMsg ws_in | BrNone

definition secs :: "u64 \<Rightarrow> nat" where
  "secs s = unat s * 1000000000"

definition ack_timeout :: "u64 \<Rightarrow> nat" where
  "ack_timeout heartbeat_interval = secs (max (sat_mul heartbeat_interval 6) 30)"

definition put_frame :: "frame \<Rightarrow> 'o serve_state \<Rightarrow> bool \<times> 'o serve_state" where
  "put_frame f st =
     (case tx_send f (dm_tx (sv_daemon st)) of
        (ok, s) \<Rightarrow> (ok, st\<lparr>sv_daemon := (sv_daemon st)\<lparr>dm_tx := s\<rparr>\<rparr>))"

definition register_message :: "serve_conf \<Rightarrow> message" where
  "register_message conf = Register (sc_daemon_id conf) (sc_metadata conf)"

definition finish_serve :: "serve_outcome \<Rightarrow> 'o serve_state \<Rightarrow> 'o serve_state" where
  "finish_serve r st = st\<lparr>sv_outcome := Some r\<rparr>"

section \<open>Registration\<close>

text \<open>The first frame that arrives after \<open>Register\<close> was sent decides; one that is no text frame, and
  the end of the stream, let the session start. An error is that of the function.\<close>

definition serve_start ::
  "serve_conf \<Rightarrow> nat \<Rightarrow> (string + unit) \<Rightarrow> ws_in \<Rightarrow> 'o daemon \<Rightarrow> string + 'o serve_state" where
  "serve_start conf now snapshot_init first d =
     (case send_text (register_message conf) d of
        (False, _) \<Rightarrow> Inl ''send''
      | (True, d) \<Rightarrow>
          (let st = \<lparr>sv_daemon = d, sv_last_ack = now, sv_beat = Beating, sv_outcome = None\<rparr>;
               go = (case snapshot_init of
                       Inl _ \<Rightarrow> Inl ''Failed to initialize snapshot manager''
                     | Inr _ \<Rightarrow> Inr st)
           in case first of
                InText None \<Rightarrow> Inl ''parse''
              | InText (Some (RegisterAck success _)) \<Rightarrow>
                  (if success then go else Inr (finish_serve Disconnected st))
              | _ \<Rightarrow> go))"

section \<open>The loop\<close>

definition serve_frame ::
  "'o host \<Rightarrow> serve_conf \<Rightarrow> nat \<Rightarrow> nat \<Rightarrow> ws_in \<Rightarrow> 'o serve_state \<Rightarrow> 'o serve_state" where
  "serve_frame h conf now done frm st =
     (case frm of
        InText (Some message) \<Rightarrow>
          (case message of
             HeartbeatAck success reason \<Rightarrow>
               (let st = st\<lparr>sv_last_ack := now\<rparr>
                in if success then st
                   else (case put_frame (Text (register_message conf)) st of
                           (True, st) \<Rightarrow> st
                         | (False, st) \<Rightarrow> finish_serve Disconnected st))
           | _ \<Rightarrow>
               st\<lparr>sv_daemon := snd (handle_message h message (sv_daemon st)), sv_last_ack := done\<rparr>)
      | InText None \<Rightarrow> st
      | InClose \<Rightarrow> finish_serve Disconnected st
      | InErr \<Rightarrow> finish_serve Disconnected st
      | InEnd \<Rightarrow> finish_serve Disconnected st
      | InOther \<Rightarrow> st)"

definition poll :: "wake \<Rightarrow> 'o serve_state \<Rightarrow> branch" where
  "poll wk st =
     (if wk_shutdown wk then BrShutdown
      else if sv_beat st = BeatFailed then BrDead
      else if wk_tick wk then BrTick
      else case wk_msg wk of Some m \<Rightarrow> BrMsg m | None \<Rightarrow> BrNone)"

definition serve_wake :: "'o host \<Rightarrow> serve_conf \<Rightarrow> wake \<Rightarrow> 'o serve_state \<Rightarrow> 'o serve_state" where
  "serve_wake h conf wk st =
     (case poll wk st of
        BrShutdown \<Rightarrow> finish_serve Shutdown (snd (put_frame CloseFrame st))
      | BrDead \<Rightarrow> finish_serve Disconnected st
      | BrTick \<Rightarrow>
          (if ack_timeout (sc_heartbeat_interval conf) \<le> wk_now wk - sv_last_ack st
           then finish_serve Disconnected st else st)
      | BrMsg m \<Rightarrow> serve_frame h conf (wk_now wk) (wk_done wk) m st
      | BrNone \<Rightarrow> st)"

text \<open>The timer of the task refuses an interval of zero: the task panics in its first turn and drops its
  sender, which the loop takes as it takes a failed heartbeat.\<close>

definition beat_tick :: "serve_conf \<Rightarrow> 'o serve_state \<Rightarrow> 'o serve_state" where
  "beat_tick conf st =
     (case sv_beat st of
        Beating \<Rightarrow>
          (if sc_heartbeat_interval conf = 0 then st\<lparr>sv_beat := BeatFailed\<rparr>
           else case put_frame (Text Heartbeat) st of
             (True, st) \<Rightarrow> st
           | (False, st) \<Rightarrow> st\<lparr>sv_beat := BeatFailed\<rparr>)
      | BeatFailed \<Rightarrow> st)"

text \<open>\<open>Broken\<close> is not the daemon's: from then on the socket takes no more frames.\<close>

definition break_socket :: "'o serve_state \<Rightarrow> 'o serve_state" where
  "break_socket st =
     st\<lparr>sv_daemon := (sv_daemon st)\<lparr>dm_tx := (dm_tx (sv_daemon st))
       \<lparr>limit := length (sent (dm_tx (sv_daemon st)))\<rparr>\<rparr>\<rparr>"

definition serve_step :: "'o host \<Rightarrow> serve_conf \<Rightarrow> 'o serve_state \<Rightarrow> serve_event \<Rightarrow> 'o serve_state" where
  "serve_step h conf st ev =
     (if sv_outcome st \<noteq> None then st
      else case ev of
        Beat \<Rightarrow> beat_tick conf st
      | Broken \<Rightarrow> break_socket st
      | Wake wk \<Rightarrow> serve_wake h conf wk st)"

text \<open>A whole session: what \<open>serve\<close> returns after the events, if it has returned.\<close>

definition serve ::
  "'o host \<Rightarrow> serve_conf \<Rightarrow> nat \<Rightarrow> (string + unit) \<Rightarrow> ws_in \<Rightarrow> serve_event list \<Rightarrow> 'o daemon \<Rightarrow>
     (string + serve_outcome) option" where
  "serve h conf now snapshot_init first evs d =
     (case serve_start conf now snapshot_init first d of
        Inl e \<Rightarrow> Some (Inl e)
      | Inr st \<Rightarrow> map_option Inr (sv_outcome (foldl (serve_step h conf) st evs)))"

definition session_outcome :: "string + serve_outcome \<Rightarrow> serve_outcome" where
  "session_outcome result = (case result of Inr outcome \<Rightarrow> outcome | Inl e \<Rightarrow> Disconnected)"

section \<open>The loop around the sessions\<close>

text \<open>What one pass finds: whether the mesh can be set up, and whether the controller can be reached,
  with the result of the session if it can. What the pass does is logged.\<close>

datatype connect_result = Unreachable string | Served "string + serve_outcome"

definition connect_and_serve :: "connect_result \<Rightarrow> string + serve_outcome" where
  "connect_and_serve r =
     (case r of Unreachable e \<Rightarrow> Inl e | Served result \<Rightarrow> Inr (session_outcome result))"

datatype main_action = SetupTunnel bool | Connect | Sleep u64 | Exit

fun main_loop :: "bool \<Rightarrow> u64 \<Rightarrow> bool \<Rightarrow> (bool \<times> connect_result) list \<Rightarrow> main_action list" where
  "main_loop tunnel interval stale [] = []"
| "main_loop tunnel interval stale ((tunnel_ok, r) # passes) =
     (let setup = (if tunnel then [SetupTunnel stale] else [])
      in if tunnel \<and> \<not> tunnel_ok then setup @ Sleep interval # main_loop tunnel interval stale passes
         else (case connect_and_serve r of
             Inr Shutdown \<Rightarrow> setup @ [Connect, Exit]
           | Inr Disconnected \<Rightarrow>
               setup @ Connect # Sleep interval # main_loop tunnel interval False passes
           | Inl _ \<Rightarrow> setup @ Connect # Sleep interval # main_loop tunnel interval True passes))"

section \<open>What a session sends\<close>

definition session_message :: "serve_conf \<Rightarrow> message \<Rightarrow> bool" where
  "session_message conf m \<longleftrightarrow> m = Heartbeat \<or> m = register_message conf \<or> daemon_reply m"

text \<open>The first frame is the registration; a close frame is the last one, and only of a shutdown.\<close>

definition serve_ok :: "serve_conf \<Rightarrow> 'o serve_state \<Rightarrow> bool" where
  "serve_ok conf st \<longleftrightarrow>
     (\<exists>ms cs. sent (dm_tx (sv_daemon st)) = map Text (register_message conf # ms) @ cs \<and>
        list_all (session_message conf) ms \<and>
        (cs = [] \<or> cs = [CloseFrame] \<and> sv_outcome st = Some Shutdown))"

lemma serve_ok_same:
  "serve_ok conf st \<Longrightarrow> sent (dm_tx (sv_daemon st')) = sent (dm_tx (sv_daemon st)) \<Longrightarrow>
     sv_outcome st = None \<or> sv_outcome st' = sv_outcome st \<Longrightarrow> serve_ok conf st'"
  unfolding serve_ok_def by (elim exE conjE, intro exI conjI) auto

lemma serve_ok_texts:
  assumes "serve_ok conf st" and "sv_outcome st = None"
    and "sent (dm_tx (sv_daemon st')) = sent (dm_tx (sv_daemon st)) @ map Text ms"
    and "list_all (session_message conf) ms"
  shows "serve_ok conf st'"
proof -
  obtain ms0 where "sent (dm_tx (sv_daemon st)) = map Text (register_message conf # ms0)"
    "list_all (session_message conf) ms0"
    using assms(1,2) by (auto simp: serve_ok_def)
  with assms(3,4) show ?thesis
    unfolding serve_ok_def by (intro exI [of _ "ms0 @ ms"] exI [of _ "[]"]) simp
qed

lemma put_frame_fields [simp]:
  "sv_outcome (snd (put_frame f st)) = sv_outcome st" "sv_last_ack (snd (put_frame f st)) = sv_last_ack st"
  "sv_beat (snd (put_frame f st)) = sv_beat st"
  by (simp_all add: put_frame_def split: prod.splits)

lemma put_frame_sent:
  "sent (dm_tx (sv_daemon (snd (put_frame f st)))) =
     (if fst (put_frame f st) then sent (dm_tx (sv_daemon st)) @ [f] else sent (dm_tx (sv_daemon st)))"
  by (simp add: put_frame_def tx_send_def split: prod.splits)

lemma put_frame_room:
  "fst (put_frame f st) \<longleftrightarrow> length (sent (dm_tx (sv_daemon st))) < limit (dm_tx (sv_daemon st))"
  by (simp add: put_frame_def tx_send_def split: prod.splits)

lemma serve_ok_put:
  "serve_ok conf st \<Longrightarrow> sv_outcome st = None \<Longrightarrow> session_message conf m \<Longrightarrow>
     serve_ok conf (snd (put_frame (Text m) st))"
  by (cases "fst (put_frame (Text m) st)")
    (auto simp: put_frame_sent intro: serve_ok_texts [where ms = "[m]"] serve_ok_same)

lemma serve_ok_finish:
  "serve_ok conf st \<Longrightarrow> sv_outcome st = None \<Longrightarrow> serve_ok conf (finish_serve r st)"
  by (erule serve_ok_same) (simp_all add: finish_serve_def)

lemma serve_ok_shutdown:
  assumes "serve_ok conf st" and "sv_outcome st = None"
  shows "serve_ok conf (finish_serve Shutdown (snd (put_frame CloseFrame st)))"
proof -
  obtain ms where "sent (dm_tx (sv_daemon st)) = map Text (register_message conf # ms)"
    "list_all (session_message conf) ms"
    using assms by (auto simp: serve_ok_def)
  then show ?thesis
    unfolding serve_ok_def
    by (intro exI [of _ ms] exI [of _ "if fst (put_frame CloseFrame st) then [CloseFrame] else []"])
      (simp add: finish_serve_def put_frame_sent)
qed

lemma serve_ok_handled:
  assumes "serve_ok conf st" and "sv_outcome st = None"
  shows "serve_ok conf (st\<lparr>sv_daemon := snd (handle_message h m (sv_daemon st)), sv_last_ack := t\<rparr>)"
proof -
  obtain ms where "sent (dm_tx (snd (handle_message h m (sv_daemon st)))) =
      sent (dm_tx (sv_daemon st)) @ map Text ms" "list_all daemon_reply ms"
    using handle_message_replies [of "sv_daemon st" h m] by (auto simp: replies_only_def)
  then show ?thesis
    by (intro serve_ok_texts [OF assms, where ms = ms]) (auto simp: session_message_def list_all_iff)
qed

lemma serve_ok_frame:
  assumes "serve_ok conf st" and "sv_outcome st = None"
  shows "serve_ok conf (serve_frame h conf now t frm st)"
proof (cases "\<exists>success reason. frm = InText (Some (HeartbeatAck success reason))")
  case True
  then obtain success reason where f: "frm = InText (Some (HeartbeatAck success reason))" by blast
  let ?st = "st\<lparr>sv_last_ack := now\<rparr>"
  have ok: "serve_ok conf ?st" "sv_outcome ?st = None"
    using assms by (auto intro: serve_ok_same)
  have put: "serve_ok conf (snd (put_frame (Text (register_message conf)) ?st))"
    using ok by (rule serve_ok_put) (simp add: session_message_def)
  show ?thesis
  proof (cases "put_frame (Text (register_message conf)) ?st")
    case (Pair sent_ok st1)
    moreover from this have "sv_outcome st1 = None" using ok(2) put_frame_fields(1) by (metis snd_conv)
    ultimately show ?thesis
      using ok put by (cases sent_ok) (simp_all add: f serve_frame_def Let_def serve_ok_finish)
  qed
next
  case False
  with assms show ?thesis
    by (auto simp: serve_frame_def serve_ok_handled serve_ok_finish
        split: ws_in.splits option.splits message.splits)
qed

lemma serve_ok_step: "serve_ok conf st \<Longrightarrow> serve_ok conf (serve_step h conf st ev)"
proof -
  assume ok: "serve_ok conf st"
  have "serve_ok conf (beat_tick conf st)" if "sv_outcome st = None"
    using serve_ok_put [OF ok that, of Heartbeat] that
    by (auto simp: beat_tick_def session_message_def split: beat_task.splits prod.splits bool.splits
        intro: ok serve_ok_same)
  moreover have "serve_ok conf (break_socket st)"
    using ok by (rule serve_ok_same) (simp_all add: break_socket_def)
  moreover have "serve_ok conf (serve_wake h conf wk st)" if "sv_outcome st = None" for wk
    using ok that
    by (auto simp: serve_wake_def serve_ok_frame serve_ok_shutdown serve_ok_finish split: branch.splits)
  ultimately show ?thesis using ok by (auto simp: serve_step_def split: serve_event.splits)
qed

text \<open>The loop as a machine that halts.\<close>

interpretation session_loop: halting_machine "serve_step h conf" "serve_ok conf"
    "\<lambda>st. sv_outcome st \<noteq> None" for h conf
  by unfold_locales (auto simp: serve_ok_step, simp add: serve_step_def)

lemma serve_start_ok:
  "serve_start conf now si first d = Inr st \<Longrightarrow> sent (dm_tx d) = [] \<Longrightarrow> serve_ok conf st"
  by (auto simp: serve_start_def serve_ok_def send_text_def tx_send_def finish_serve_def Let_def
      split: if_splits ws_in.splits option.splits message.splits sum.splits)

section \<open>Properties of a session\<close>

definition demo_conf :: serve_conf where
  "demo_conf = \<lparr>sc_daemon_id = ''d1'', sc_heartbeat_interval = 5,
     sc_metadata = \<lparr>hostname = ''h'', platform = ''linux'', arch = ''x86_64'', version = ''0.1.0'', labels = []\<rparr>\<rparr>"

lemma demo_interval [simp]: "sc_heartbeat_interval demo_conf = 5"
  by (simp add: demo_conf_def)

text \<open>A session that has just been acknowledged.\<close>

definition demo_session :: "nat serve_state" where
  "demo_session = \<lparr>sv_daemon = demo_daemon\<lparr>dm_tx := \<lparr>sent = [Text (register_message demo_conf)], limit = 10\<rparr>\<rparr>,
     sv_last_ack = 0, sv_beat = Beating, sv_outcome = None\<rparr>"

definition at_time :: "nat \<Rightarrow> wake" where
  "at_time t = \<lparr>wk_now = t, wk_shutdown = False, wk_tick = False, wk_msg = None, wk_done = t\<rparr>"

text \<open>Whatever happens in a session, the loop and its heartbeat task send their registration first, then only
  heartbeats, registrations of the same id with the same metadata, and answers of the message
  handlers; a close frame is the last frame, and only of a session that ends as a shutdown. A
  session that has ended sends nothing more.\<close>

theorem session_traffic:
  assumes "serve_start conf now si first d = Inr st" and "sent (dm_tx d) = []"
    and "foldl (serve_step h conf) st evs = st'"
  shows "(\<exists>ms cs. sent (dm_tx (sv_daemon st')) = map Text (register_message conf # ms) @ cs \<and>
      list_all (\<lambda>m. m = Heartbeat \<or> m = register_message conf \<or> daemon_reply m) ms \<and>
      (cs = [] \<or> cs = [CloseFrame] \<and> sv_outcome st' = Some Shutdown)) \<and>
    (sv_outcome st' \<noteq> None \<longrightarrow> foldl (serve_step h conf) st (evs @ evs') = st')"
proof -
  have "serve_ok conf st'"
    using session_loop.inv_run [OF serve_start_ok [OF assms(1,2)]] assms(3) by blast
  moreover have "sv_outcome st' \<noteq> None \<longrightarrow> foldl (serve_step h conf) st (evs @ evs') = st'"
    using session_loop.first_halt assms(3) by blast
  ultimately show ?thesis unfolding serve_ok_def session_message_def by blast
qed

theorem session_traffic_witness:
  "\<exists>st. serve_start demo_conf 0 (Inr ()) (InText (Some (RegisterAck True ''ok''))) demo_daemon = Inr st \<and>
     foldl (serve_step demo_host demo_conf) st
       ([Beat, Wake ((at_time 7)\<lparr>wk_shutdown := True\<rparr>)] @ [Beat, Beat]) =
     foldl (serve_step demo_host demo_conf) st [Beat, Wake ((at_time 7)\<lparr>wk_shutdown := True\<rparr>)] \<and>
     sent (dm_tx (sv_daemon (foldl (serve_step demo_host demo_conf) st
       [Beat, Wake ((at_time 7)\<lparr>wk_shutdown := True\<rparr>)]))) =
       [Text (register_message demo_conf), Text Heartbeat, CloseFrame]"
proof -
  have start: "serve_start demo_conf 0 (Inr ()) (InText (Some (RegisterAck True ''ok''))) demo_daemon =
      Inr demo_session"
    by (simp add: serve_start_def demo_session_def demo_daemon_def send_text_def tx_send_def)
  let ?evs = "[Beat, Wake ((at_time 7)\<lparr>wk_shutdown := True\<rparr>)]"
  have "sv_outcome (foldl (serve_step demo_host demo_conf) demo_session ?evs) = Some Shutdown"
    "sent (dm_tx (sv_daemon (foldl (serve_step demo_host demo_conf) demo_session ?evs))) =
       [Text (register_message demo_conf), Text Heartbeat, CloseFrame]"
    by (simp_all add: demo_session_def serve_step_def beat_tick_def put_frame_def tx_send_def
        serve_wake_def poll_def at_time_def finish_serve_def demo_daemon_def)
  with session_traffic [OF start _ refl, of demo_host ?evs "[Beat, Beat]"] start
  show ?thesis by (simp add: demo_daemon_def)
qed

text \<open>C18. A termination signal ends the session at the next wake-up of the loop, whatever else is ready
  with it (a dead connection, a due liveness check, any message): nothing else is done, the
  outcome is a shutdown, and a close frame is the last frame sent if the socket still takes one.\<close>

theorem shutdown_first:
  assumes "sv_outcome st = None" and "wk_shutdown wk"
  shows "sv_outcome (serve_step h conf st (Wake wk)) = Some Shutdown \<and>
    sent (dm_tx (sv_daemon (serve_step h conf st (Wake wk)))) = sent (dm_tx (sv_daemon st)) @
      (if length (sent (dm_tx (sv_daemon st))) < limit (dm_tx (sv_daemon st)) then [CloseFrame] else []) \<and>
    dm_sessions (sv_daemon (serve_step h conf st (Wake wk))) = dm_sessions (sv_daemon st) \<and>
    dm_os (sv_daemon (serve_step h conf st (Wake wk))) = dm_os (sv_daemon st)"
  using assms
  by (simp add: serve_step_def serve_wake_def poll_def finish_serve_def put_frame_def tx_send_def)

theorem shutdown_first_witness:
  "sv_outcome (serve_step demo_host demo_conf demo_session
      (Wake ((at_time 9)\<lparr>wk_shutdown := True, wk_tick := True, wk_msg := Some InClose\<rparr>))) = Some Shutdown"
  using shutdown_first [of demo_session "(at_time 9)\<lparr>wk_shutdown := True, wk_tick := True, wk_msg := Some InClose\<rparr>"]
  by (simp add: demo_session_def)

text \<open>The deadline for an acknowledgement, in nanoseconds.\<close>

lemma ack_timeout_nat:
  "ack_timeout hb = max (min (6 * unat hb) (2 ^ 64 - 1)) 30 * 1000000000"
proof -
  have "unat (sat_mul hb 6) = min (unat hb * 6) (2 ^ 64 - 1)"
    using unat_sat_mul [of hb 6] by simp
  moreover have "unat (max a 30) = max (unat a) 30" for a :: u64
    by (simp add: max_def word_le_nat_alt)
  ultimately show ?thesis by (simp add: ack_timeout_def secs_def mult.commute)
qed



text \<open>With a heartbeat interval of zero, no session lasts: the heartbeat task ends in its first turn without
  a heartbeat, and the loop ends as disconnected at its next turn, unless that is told to shut down.\<close>

lemma zero_interval_disconnects:
  assumes "sv_outcome st = None" and "sc_heartbeat_interval conf = 0" and "\<not> wk_shutdown wk"
  shows "sent (dm_tx (sv_daemon (serve_step h conf st Beat))) = sent (dm_tx (sv_daemon st)) \<and>
    sv_outcome (serve_step h conf (serve_step h conf st Beat) (Wake wk)) = Some Disconnected"
  using assms
  by (cases "sv_beat st") (simp_all add: serve_step_def beat_tick_def serve_wake_def poll_def finish_serve_def)

text \<open>A rejected heartbeat makes the daemon send the same registration again on the same socket and go
  on serving; only a socket that refuses the frame ends the session. Either answer to a heartbeat
  resets the liveness deadline, and neither touches the sessions or the operating system.\<close>

theorem reregisters_in_place:
  assumes "sv_outcome st = None" and "sv_beat st = Beating" and "\<not> wk_shutdown wk" and "\<not> wk_tick wk"
    and "wk_msg wk = Some (InText (Some (HeartbeatAck success reason)))"
    and "st' = serve_step h conf st (Wake wk)"
  shows "sv_last_ack st' = wk_now wk \<and>
    sent (dm_tx (sv_daemon st')) = sent (dm_tx (sv_daemon st)) @
      (if \<not> success \<and> length (sent (dm_tx (sv_daemon st))) < limit (dm_tx (sv_daemon st))
       then [Text (Register (sc_daemon_id conf) (sc_metadata conf))] else []) \<and>
    sv_outcome st' =
      (if success \<or> length (sent (dm_tx (sv_daemon st))) < limit (dm_tx (sv_daemon st)) then None
       else Some Disconnected) \<and>
    dm_sessions (sv_daemon st') = dm_sessions (sv_daemon st) \<and> dm_os (sv_daemon st') = dm_os (sv_daemon st)"
  using assms
  by (simp add: serve_step_def serve_wake_def poll_def serve_frame_def Let_def put_frame_def tx_send_def
      finish_serve_def register_message_def)

theorem reregisters_in_place_witness:
  "sent (dm_tx (sv_daemon (serve_step demo_host demo_conf demo_session
      (Wake ((at_time 9)\<lparr>wk_msg := Some (InText (Some (HeartbeatAck False ''gone'')))\<rparr>))))) =
     [Text (register_message demo_conf), Text (register_message demo_conf)]"
  using reregisters_in_place [OF _ _ _ _ _ refl, of demo_session
      "(at_time 9)\<lparr>wk_msg := Some (InText (Some (HeartbeatAck False ''gone'')))\<rparr>" False "''gone''" demo_host demo_conf]
  by (simp add: demo_session_def at_time_def register_message_def)

section \<open>Properties of the outer loop\<close>

text \<open>Whether the last pass that dialled could not reach the controller.\<close>

definition dialled_stale :: "bool \<Rightarrow> (bool \<times> connect_result) list \<Rightarrow> bool" where
  "dialled_stale tunnel passes =
     (case List.find (\<lambda>p. \<not> tunnel \<or> fst p) (rev passes) of
        None \<Rightarrow> False
      | Some p \<Rightarrow> (case snd p of Unreachable _ \<Rightarrow> True | Served _ \<Rightarrow> False))"

definition shuts_down :: "bool \<Rightarrow> bool \<times> connect_result \<Rightarrow> bool" where
  "shuts_down tunnel p \<longleftrightarrow> (\<not> tunnel \<or> fst p) \<and> snd p = Served (Inr Shutdown)"

text \<open>The actions of one pass that does not exit.\<close>

definition pass_actions :: "bool \<Rightarrow> u64 \<Rightarrow> bool \<Rightarrow> bool \<times> connect_result \<Rightarrow> main_action list" where
  "pass_actions tunnel interval stale p =
     (if tunnel then [SetupTunnel stale] else []) @ (if tunnel \<and> \<not> fst p then [] else [Connect]) @
     [Sleep interval]"

definition stale_after :: "bool \<Rightarrow> bool \<Rightarrow> bool \<times> connect_result \<Rightarrow> bool" where
  "stale_after tunnel stale p =
     (if tunnel \<and> \<not> fst p then stale else (case snd p of Unreachable _ \<Rightarrow> True | Served _ \<Rightarrow> False))"

lemma served_shutdown: "session_outcome r = Shutdown \<longleftrightarrow> r = Inr Shutdown"
  by (auto simp: session_outcome_def split: sum.splits)

lemma main_loop_pass:
  "main_loop tunnel interval stale (p # ps) =
     (if shuts_down tunnel p then (if tunnel then [SetupTunnel stale] else []) @ [Connect, Exit]
      else pass_actions tunnel interval stale p @ main_loop tunnel interval (stale_after tunnel stale p) ps)"
proof (cases p)
  case (Pair ok r)
  show ?thesis
  proof (cases r)
    case (Unreachable e)
    then show ?thesis
      by (simp add: Pair shuts_down_def pass_actions_def stale_after_def connect_and_serve_def Let_def)
  next
    case (Served res)
    show ?thesis
    proof (cases "session_outcome res")
      case Disconnected
      then have "res \<noteq> Inr Shutdown" by (auto simp: served_shutdown [symmetric])
      with Disconnected Served show ?thesis
        by (simp add: Pair shuts_down_def pass_actions_def stale_after_def connect_and_serve_def Let_def)
    next
      case Shutdown
      then have "res = Inr Shutdown" by (simp add: served_shutdown)
      with Served show ?thesis
        by (simp add: Pair shuts_down_def pass_actions_def stale_after_def connect_and_serve_def
            session_outcome_def Let_def)
    qed
  qed
qed

lemma stale_after_dialled: "foldl (stale_after tunnel) False ps = dialled_stale tunnel ps"
  by (induction ps rule: rev_induct) (auto simp: dialled_stale_def stale_after_def)

lemma dialled_stale_snoc:
  "dialled_stale tunnel (ps @ [p]) = stale_after tunnel (dialled_stale tunnel ps) p"
  by (simp add: stale_after_dialled [symmetric])

lemma main_loop_passes:
  "list_all (\<lambda>p. \<not> shuts_down tunnel p) ps \<Longrightarrow>
   \<exists>acts. Exit \<notin> set acts \<and> length (filter (\<lambda>x. x = Sleep interval) acts) = length ps \<and>
     main_loop tunnel interval stale (ps @ qs) =
       acts @ main_loop tunnel interval (foldl (stale_after tunnel) stale ps) qs"
proof (induction ps arbitrary: stale)
  case Nil
  show ?case by (intro exI [of _ "[]"]) simp
next
  case (Cons p ps)
  then obtain acts where "Exit \<notin> set acts" "length (filter (\<lambda>x. x = Sleep interval) acts) = length ps"
    "main_loop tunnel interval (stale_after tunnel stale p) (ps @ qs) =
       acts @ main_loop tunnel interval (foldl (stale_after tunnel) (stale_after tunnel stale p) ps) qs"
    by fastforce
  with Cons.prems show ?case
    by (intro exI [of _ "pass_actions tunnel interval stale p @ acts"])
      (simp add: main_loop_pass, simp add: pass_actions_def)
qed

text \<open>After the WebSocket is up, the result of a session is a shutdown or a disconnection, never an
  error: an error of the attempt means the controller was not reached. So a pass forces a refresh
  of the mesh's map exactly when the last pass that dialled could not reach the controller; passes
  whose mesh could not be set up do not count, and the first pass forces none. The loop exits when
  a session ends as a shutdown, and otherwise sleeps after every pass.\<close>

theorem stale_map_forces_refresh:
  assumes "list_all (\<lambda>p. \<not> shuts_down tunnel p) ps"
  shows "\<exists>acts. Exit \<notin> set acts \<and> length (filter (\<lambda>x. x = Sleep interval) acts) = length ps \<and>
    main_loop tunnel interval False (ps @ p # qs) = acts @
      (if shuts_down tunnel p
       then (if tunnel then [SetupTunnel (dialled_stale tunnel ps)] else []) @ [Connect, Exit]
       else pass_actions tunnel interval (dialled_stale tunnel ps) p @
         main_loop tunnel interval (dialled_stale tunnel (ps @ [p])) qs)"
  using main_loop_passes [OF assms, of interval False "p # qs"]
  unfolding stale_after_dialled main_loop_pass [of _ _ _ p]
  by (simp only: dialled_stale_snoc)

theorem stale_map_forces_refresh_witness:
  "\<exists>acts. Exit \<notin> set acts \<and> length (filter (\<lambda>x. x = Sleep 5) acts) = 2 \<and>
    main_loop True 5 False ([(True, Unreachable ''dial''), (False, Unreachable [])] @ [(True, Served (Inr Shutdown))]) =
      acts @ [SetupTunnel True, Connect, Exit]"
  using stale_map_forces_refresh [of True "[(True, Unreachable ''dial''), (False, Unreachable [])]" 5
      "(True, Served (Inr Shutdown))" "[]"]
  by (simp add: shuts_down_def dialled_stale_def numeral_2_eq_2)

section \<open>Labels on the command line\<close>

lemma split_once_iff: "split_once d s = Some (k, v) \<longleftrightarrow> s = k @ d # v \<and> d \<notin> set k"
proof (induction s arbitrary: k)
  case (Cons c s)
  show ?case
  proof (cases k)
    case Nil
    then show ?thesis by (auto split: option.splits)
  next
    case (Cons c' k')
    with Cons.IH [of k'] show ?thesis by auto
  qed
qed simp

text \<open>A label argument is split at its first equals sign, so a value may contain more of them; of two
  arguments with the same key the later one wins; an argument with no equals sign is skipped and
  changes nothing.\<close>

theorem labels_parsed:
  assumes "CHR ''='' \<notin> set key"
  shows "hm_get (parse_labels (args @ [key @ CHR ''='' # val])) k =
      (if k = key then Some val else hm_get (parse_labels args) k) \<and>
    parse_labels (args @ [key]) = parse_labels args"
proof -
  have "split_once CHR ''='' (key @ CHR ''='' # val) = Some (key, val)"
    using assms by (simp add: split_once_iff)
  moreover have "split_once CHR ''='' key = None"
  proof (cases "split_once CHR ''='' key")
    case (Some kv)
    with split_once_iff [of "CHR ''=''" key "fst kv" "snd kv"] have "CHR ''='' \<in> set key"
      by (simp add: in_set_conv_decomp)
    with assms show ?thesis ..
  qed
  ultimately show ?thesis by (simp add: parse_labels_def)
qed

theorem labels_parsed_witness:
  "hm_get (parse_labels ([''expr=1''] @ [''expr'' @ CHR ''='' # ''a=b''])) ''expr'' = Some ''a=b'' \<and>
   parse_labels ([''expr=1''] @ [''novalue'']) = [(''expr'', ''1'')]"
proof -
  have "parse_labels [''expr=1''] = [(''expr'', ''1'')]" by code_simp
  then show ?thesis
    using labels_parsed [of "''expr''" "[''expr=1'']" "''a=b''" "''expr''"]
      labels_parsed [of "''novalue''" "[''expr=1'']"] by simp
qed

end
