(* ===== verification/Readers.thy ===== *)
theory Readers
  imports Serve
begin

text \<open>
  The tasks that read the terminals of a daemon's sessions (\<open>SessionManager::new_session\<close> in
  \<open>sandd/src/session.rs\<close>) beside the loop of \<open>serve\<close>: each is spawned when a session is opened,
  shares the sending half of the WebSocket with the loop, and goes on after the session was
  closed and after the loop has returned. A live session is the loop's state and its readers; an
  event is one of the loop or one read of a reader.
\<close>

section \<open>The loop and its readers\<close>

text \<open>The readers in the order they were spawned, with whether they still read.\<close>

record 'o live_session =
  ls_state :: "'o serve_state"
  ls_readers :: "(string \<times> bool) list"

datatype session_event = Loop serve_event | Reader nat pty_read

text \<open>The session that a step of the loop opens, if it opens one.\<close>

definition opened :: "'o host \<Rightarrow> 'o serve_state \<Rightarrow> serve_event \<Rightarrow> string option" where
  "opened h st ev =
     (case ev of
        Wake wk \<Rightarrow>
          (if sv_outcome st \<noteq> None then None
           else case poll wk st of
             BrMsg (InText (Some (NewSession sid rows cols term_name))) \<Rightarrow>
               (case fst (manager_new_session (terminals h) sid rows cols term_name
                            (dm_sessions (sv_daemon st), dm_os (sv_daemon st))) of
                  Inr _ \<Rightarrow> Some sid
                | Inl _ \<Rightarrow> None)
           | _ \<Rightarrow> None)
      | _ \<Rightarrow> None)"

text \<open>The WebSocket refuses every frame after a close frame.\<close>

definition reader_send :: "frame \<Rightarrow> 'o serve_state \<Rightarrow> bool \<times> 'o serve_state" where
  "reader_send f st =
     (if CloseFrame \<in> set (sent (dm_tx (sv_daemon st))) then (False, st) else put_frame f st)"

text \<open>One turn of a reader's loop: whether it goes on, and what it sent.\<close>

fun reader_turn :: "string \<Rightarrow> pty_read \<Rightarrow> 'o serve_state \<Rightarrow> bool \<times> 'o serve_state" where
  "reader_turn sid ReadEof st = (False, snd (reader_send (Text (SessionExit sid 0)) st))"
| "reader_turn sid (ReadBytes data) st = reader_send (Text (SessionOutput sid data)) st"
| "reader_turn sid (ReadError e) st = (False, st)"

definition read_step :: "nat \<Rightarrow> pty_read \<Rightarrow> 'o live_session \<Rightarrow> 'o live_session" where
  "read_step k r ls =
     (if k < length (ls_readers ls) \<and> snd (ls_readers ls ! k)
      then (case reader_turn (fst (ls_readers ls ! k)) r (ls_state ls) of
              (goes_on, st) \<Rightarrow>
                ls\<lparr>ls_state := st,
                   ls_readers := (ls_readers ls)[k := (fst (ls_readers ls ! k), goes_on)]\<rparr>)
      else ls)"

definition session_step ::
  "'o host \<Rightarrow> serve_conf \<Rightarrow> 'o live_session \<Rightarrow> session_event \<Rightarrow> 'o live_session" where
  "session_step h conf ls ev =
     (case ev of
        Loop e \<Rightarrow>
          ls\<lparr>ls_state := serve_step h conf (ls_state ls) e,
             ls_readers := ls_readers ls @
               (case opened h (ls_state ls) e of Some sid \<Rightarrow> [(sid, True)] | None \<Rightarrow> [])\<rparr>
      | Reader k r \<Rightarrow> read_step k r ls)"

definition live :: "'o serve_state \<Rightarrow> 'o live_session" where
  "live st = \<lparr>ls_state = st, ls_readers = []\<rparr>"

abbreviation frames :: "'o live_session \<Rightarrow> frame list" where
  "frames ls \<equiv> sent (dm_tx (sv_daemon (ls_state ls)))"

section \<open>What a live session sends\<close>

definition reader_message :: "string list \<Rightarrow> message \<Rightarrow> bool" where
  "reader_message sids m \<longleftrightarrow>
     (\<exists>sid \<in> set sids. (\<exists>data. m = SessionOutput sid data) \<or> m = SessionExit sid 0)"

definition live_ok :: "serve_conf \<Rightarrow> 'o live_session \<Rightarrow> bool" where
  "live_ok conf ls \<longleftrightarrow>
     (\<exists>ms cs. frames ls = map Text (register_message conf # ms) @ cs \<and>
        list_all (\<lambda>m. session_message conf m \<or> reader_message (map fst (ls_readers ls)) m) ms \<and>
        (cs = [] \<or> cs = [CloseFrame] \<and> sv_outcome (ls_state ls) = Some Shutdown))"

text \<open>What a step of the loop adds to what was sent.\<close>

lemma put_frame_adds:
  "\<exists>ms. sent (dm_tx (sv_daemon (snd (put_frame (Text m) st)))) =
      sent (dm_tx (sv_daemon st)) @ map Text ms \<and> set ms \<subseteq> {m}"
  by (cases "fst (put_frame (Text m) st)")
    (auto simp: put_frame_sent intro: exI [of _ "[]"] exI [of _ "[m]"])

definition adds :: "serve_conf \<Rightarrow> 'o serve_state \<Rightarrow> 'o serve_state \<Rightarrow> bool" where
  "adds conf st st' \<longleftrightarrow>
     (\<exists>ms cs. sent (dm_tx (sv_daemon st')) = sent (dm_tx (sv_daemon st)) @ map Text ms @ cs \<and>
        list_all (session_message conf) ms \<and>
        (cs = [] \<or> cs = [CloseFrame] \<and> sv_outcome st' = Some Shutdown))"

lemma adds_texts:
  "sent (dm_tx (sv_daemon st')) = sent (dm_tx (sv_daemon st)) @ map Text ms \<Longrightarrow>
     list_all (session_message conf) ms \<Longrightarrow> adds conf st st'"
  unfolding adds_def by (intro exI [of _ ms] exI [of _ "[]"]) simp

lemma adds_same: "sent (dm_tx (sv_daemon st')) = sent (dm_tx (sv_daemon st)) \<Longrightarrow> adds conf st st'"
  by (rule adds_texts [of _ _ "[]"]) simp_all

lemma adds_put:
  assumes "session_message conf m" and "dm_tx (sv_daemon st') = dm_tx (sv_daemon (snd (put_frame (Text m) st)))"
  shows "adds conf st st'"
proof -
  obtain ms where "sent (dm_tx (sv_daemon st')) = sent (dm_tx (sv_daemon st)) @ map Text ms" "set ms \<subseteq> {m}"
    using put_frame_adds [of m st] assms(2) by auto
  then show ?thesis using assms(1) by (intro adds_texts) (auto simp: list_all_iff)
qed

lemma adds_handled:
  "dm_tx (sv_daemon st') = dm_tx (snd (handle_message h m (sv_daemon st))) \<Longrightarrow> adds conf st st'"
  using handle_message_replies [of "sv_daemon st" h m]
  by (auto simp: replies_only_def session_message_def list_all_iff intro!: adds_texts)

lemma adds_frame: "adds conf st (serve_frame h conf now t frm st)"
proof (cases "\<exists>success reason. frm = InText (Some (HeartbeatAck success reason))")
  case True
  then obtain success reason where f: "frm = InText (Some (HeartbeatAck success reason))" by blast
  let ?st = "st\<lparr>sv_last_ack := now\<rparr>"
  have "put_frame (Text (register_message conf)) ?st =
      (fst (put_frame (Text (register_message conf)) st),
       (snd (put_frame (Text (register_message conf)) st))\<lparr>sv_last_ack := now\<rparr>)"
    by (simp add: put_frame_def split: prod.splits)
  then have "dm_tx (sv_daemon (serve_frame h conf now t frm st)) =
      dm_tx (sv_daemon (if success then st else snd (put_frame (Text (register_message conf)) st)))"
    by (simp add: f serve_frame_def Let_def finish_serve_def split: bool.splits)
  then show ?thesis
    by (cases success)
      (simp_all add: adds_same adds_put [where m = "register_message conf"] session_message_def)
next
  case False
  then show ?thesis
    by (auto simp: serve_frame_def finish_serve_def split: ws_in.splits option.splits message.splits
        intro: adds_same adds_handled)
qed

lemma adds_step: "sv_outcome st = None \<Longrightarrow> adds conf st (serve_step h conf st ev)"
proof -
  assume run: "sv_outcome st = None"
  have "dm_tx (sv_daemon (beat_tick conf st)) =
      dm_tx (sv_daemon (if sv_beat st = Beating \<and> sc_heartbeat_interval conf \<noteq> 0
        then snd (put_frame (Text Heartbeat) st) else st))"
    by (simp add: beat_tick_def split: beat_task.splits prod.splits bool.splits)
  then have "adds conf st (beat_tick conf st)"
    by (cases "sv_beat st = Beating \<and> sc_heartbeat_interval conf \<noteq> 0")
      (simp_all add: adds_same adds_put [where m = Heartbeat] session_message_def)
  moreover have "adds conf st (serve_wake h conf wk st)" for wk
  proof -
    have "adds conf st (finish_serve Shutdown (snd (put_frame CloseFrame st)))"
      unfolding adds_def
      by (intro exI [of _ "[]"] exI [of _ "if fst (put_frame CloseFrame st) then [CloseFrame] else []"])
        (simp add: finish_serve_def put_frame_sent)
    then show ?thesis
      by (auto simp: serve_wake_def adds_frame finish_serve_def split: branch.splits intro!: adds_same)
  qed
  moreover have "adds conf st (break_socket st)" by (rule adds_same) (simp add: break_socket_def)
  ultimately show ?thesis using run by (auto simp: serve_step_def split: serve_event.splits)
qed

text \<open>A turn of a reader adds at most one message of its session, and none after a close frame.\<close>

lemma reader_send_adds:
  "\<exists>ms. sent (dm_tx (sv_daemon (snd (reader_send (Text m) st)))) =
      sent (dm_tx (sv_daemon st)) @ map Text ms \<and> set ms \<subseteq> {m} \<and>
      (CloseFrame \<in> set (sent (dm_tx (sv_daemon st))) \<longrightarrow> ms = [])"
  using put_frame_adds [of m st] by (auto simp: reader_send_def intro: exI [of _ "[]"])

lemma reader_send_fields [simp]:
  "sv_outcome (snd (reader_send f st)) = sv_outcome st" "sv_last_ack (snd (reader_send f st)) = sv_last_ack st"
  "sv_beat (snd (reader_send f st)) = sv_beat st"
  by (simp_all add: reader_send_def)

lemma reader_turn_fields [simp]:
  "sv_outcome (snd (reader_turn sid r st)) = sv_outcome st"
  "sv_last_ack (snd (reader_turn sid r st)) = sv_last_ack st"
  "sv_beat (snd (reader_turn sid r st)) = sv_beat st"
  by (cases r; simp)+

lemma reader_turn_adds:
  "\<exists>ms. sent (dm_tx (sv_daemon (snd (reader_turn sid r st)))) =
      sent (dm_tx (sv_daemon st)) @ map Text ms \<and> list_all (reader_message [sid]) ms \<and>
      (CloseFrame \<in> set (sent (dm_tx (sv_daemon st))) \<longrightarrow> ms = [])"
proof (cases r)
  case ReadEof
  then show ?thesis
    using reader_send_adds [of "SessionExit sid 0" st]
    by (fastforce simp: reader_message_def list_all_iff)
next
  case (ReadBytes data)
  then show ?thesis
    using reader_send_adds [of "SessionOutput sid data" st]
    by (fastforce simp: reader_message_def list_all_iff)
qed simp

lemma read_step_adds:
  "\<exists>ms. frames (read_step k r ls) = frames ls @ map Text ms \<and>
      list_all (reader_message (map fst (ls_readers ls))) ms \<and> (CloseFrame \<in> set (frames ls) \<longrightarrow> ms = [])"
proof (cases "k < length (ls_readers ls) \<and> snd (ls_readers ls ! k)")
  case True
  then have "fst (ls_readers ls ! k) \<in> set (map fst (ls_readers ls))" by auto
  with True reader_turn_adds [of "fst (ls_readers ls ! k)" r "ls_state ls"] show ?thesis
    by (fastforce simp: read_step_def reader_message_def list_all_iff split: prod.splits)
next
  case False
  then show ?thesis by (auto simp: read_step_def)
qed

lemma read_step_fields [simp]:
  "sv_outcome (ls_state (read_step k r ls)) = sv_outcome (ls_state ls)"
  "map fst (ls_readers (read_step k r ls)) = map fst (ls_readers ls)"
proof -
  show "sv_outcome (ls_state (read_step k r ls)) = sv_outcome (ls_state ls)"
    by (simp add: read_step_def case_prod_unfold)
  show "map fst (ls_readers (read_step k r ls)) = map fst (ls_readers ls)"
    by (auto simp: read_step_def map_update list_update_same_conv split: prod.splits)
qed

lemma reader_message_more:
  "reader_message sids m \<Longrightarrow> reader_message (sids @ sids2) m"
  by (auto simp: reader_message_def)

lemma live_ok_loop:
  assumes "live_ok conf ls"
  shows "live_ok conf (session_step h conf ls (Loop e))"
proof (cases "sv_outcome (ls_state ls)")
  case None
  with assms obtain ms where ms: "frames ls = map Text (register_message conf # ms)"
    "list_all (\<lambda>m. session_message conf m \<or> reader_message (map fst (ls_readers ls)) m) ms"
    by (auto simp: live_ok_def)
  obtain ms' cs where "sent (dm_tx (sv_daemon (serve_step h conf (ls_state ls) e))) =
      frames ls @ map Text ms' @ cs" "list_all (session_message conf) ms'"
    "cs = [] \<or> cs = [CloseFrame] \<and> sv_outcome (serve_step h conf (ls_state ls) e) = Some Shutdown"
    using adds_step [OF None, of conf h e] by (auto simp: adds_def)
  with ms show ?thesis
    unfolding live_ok_def
    by (intro exI [of _ "ms @ ms'"] exI [of _ cs])
      (auto simp: session_step_def list_all_iff intro: reader_message_more)
next
  case (Some r)
  then have "serve_step h conf (ls_state ls) e = ls_state ls" "opened h (ls_state ls) e = None"
    by (simp_all add: serve_step_def opened_def split: serve_event.splits)
  with assms show ?thesis by (simp add: session_step_def)
qed

lemma live_ok_read:
  assumes "live_ok conf ls"
  shows "live_ok conf (read_step k r ls)"
proof -
  from assms obtain ms cs where ms: "frames ls = map Text (register_message conf # ms) @ cs"
    "list_all (\<lambda>m. session_message conf m \<or> reader_message (map fst (ls_readers ls)) m) ms"
    "cs = [] \<or> cs = [CloseFrame] \<and> sv_outcome (ls_state ls) = Some Shutdown"
    by (auto simp: live_ok_def)
  obtain ms' where ms': "frames (read_step k r ls) = frames ls @ map Text ms'"
    "list_all (reader_message (map fst (ls_readers ls))) ms'" "CloseFrame \<in> set (frames ls) \<longrightarrow> ms' = []"
    using read_step_adds [of k r ls] by blast
  show ?thesis
  proof (cases cs)
    case Nil
    with ms ms' show ?thesis
      unfolding live_ok_def by (intro exI [of _ "ms @ ms'"] exI [of _ "[]"]) (auto simp: list_all_iff)
  next
    case (Cons c cs')
    with ms ms' show ?thesis
      unfolding live_ok_def by (intro exI [of _ ms] exI [of _ "[CloseFrame]"]) auto
  qed
qed

interpretation live_machine: event_machine "session_step h conf" "live_ok conf" for h conf
proof
  show "live_ok conf ls \<Longrightarrow> live_ok conf (session_step h conf ls ev)" for ls ev
    using live_ok_loop [of conf ls h] live_ok_read [of conf ls]
    by (cases ev) (simp, simp add: session_step_def)
qed

lemma live_start:
  "serve_start conf now si first d = Inr st \<Longrightarrow> sent (dm_tx d) = [] \<Longrightarrow> live_ok conf (live st)"
  using serve_start_ok [of conf now si first d st]
  by (auto simp: live_ok_def live_def serve_ok_def list_all_iff)

section \<open>The output of one session\<close>

fun of_session :: "string \<Rightarrow> frame \<Rightarrow> bool" where
  "of_session sid (Text (SessionOutput s _)) = (s = sid)"
| "of_session sid (Text (SessionExit s _)) = (s = sid)"
| "of_session sid _ = False"

fun read_of :: "nat \<Rightarrow> session_event \<Rightarrow> pty_read list" where
  "read_of k (Reader j r) = (if j = k then [r] else [])"
| "read_of k (Loop e) = []"

definition reads_of :: "nat \<Rightarrow> session_event list \<Rightarrow> pty_read list" where
  "reads_of k evs = concat (map (read_of k) evs)"

lemma loop_not_of_session: "session_message conf m \<Longrightarrow> \<not> of_session sid (Text m)"
  by (auto simp: session_message_def register_message_def elim!: of_session.elims)

text \<open>What a reader has sent, given its reads, while it goes on and when it has stopped.\<close>

definition relayed :: "string \<Rightarrow> bool \<Rightarrow> pty_read list \<Rightarrow> message list \<Rightarrow> bool" where
  "relayed sid goes_on rs out \<longleftrightarrow>
     (if goes_on then \<exists>ds. rs = map ReadBytes ds \<and> out = map (SessionOutput sid) ds
      else \<exists>room. \<forall>rs'. reader_task sid (rs @ rs') room = out)"

lemma reader_task_bytes:
  "reader_task sid (map ReadBytes ds @ rs) (length ds + n) =
     map (SessionOutput sid) ds @ reader_task sid rs n"
  by (induction ds) simp_all

lemma relayed_task: "relayed sid b rs out \<Longrightarrow> \<exists>room. out = reader_task sid rs room"
proof (cases b)
  case True
  moreover assume "relayed sid b rs out"
  ultimately obtain ds where "rs = map ReadBytes ds" "out = map (SessionOutput sid) ds"
    by (auto simp: relayed_def)
  with reader_task_bytes [of sid ds "[]" 0] show ?thesis by (auto intro!: exI [of _ "length ds"])
next
  case False
  moreover assume "relayed sid b rs out"
  ultimately show ?thesis unfolding relayed_def by (metis append_Nil2)
qed

lemma relayed_stopped: "relayed sid False rs out \<Longrightarrow> relayed sid False (rs @ rs2) out"
  by (auto simp: relayed_def)

lemma reader_send_sent:
  "sent (dm_tx (sv_daemon (snd (reader_send f st)))) =
     sent (dm_tx (sv_daemon st)) @ (if fst (reader_send f st) then [f] else [])"
  by (simp add: reader_send_def put_frame_sent)

lemma relayed_turn:
  assumes "relayed sid True rs out" and "reader_turn sid r st = (goes_on, st')"
  obtains new where "sent (dm_tx (sv_daemon st')) = sent (dm_tx (sv_daemon st)) @ map Text new"
    "list_all (\<lambda>m. of_session sid (Text m)) new" "relayed sid goes_on (rs @ [r]) (out @ new)"
proof -
  from assms(1) obtain ds where ds: "rs = map ReadBytes ds" "out = map (SessionOutput sid) ds"
    by (auto simp: relayed_def)
  have stop: "relayed sid False (rs @ [r]) (map (SessionOutput sid) ds @ new)"
    if "\<And>rs'. reader_task sid (r # rs') n = new" for n new
    using that reader_task_bytes [of sid ds "r # _" n] by (auto simp: relayed_def ds)
  show thesis
  proof (cases r)
    case ReadEof
    show thesis
      by (rule that [of "if fst (reader_send (Text (SessionExit sid 0)) st) then [SessionExit sid 0] else []"])
        (use assms(2) ReadEof ds stop [of 1 "[SessionExit sid 0]"] stop [of 0 "[]"]
          reader_send_sent [of "Text (SessionExit sid 0)" st] in auto)
  next
    case (ReadBytes d)
    have more: "relayed sid True (rs @ [r]) (map (SessionOutput sid) ds @ [SessionOutput sid d])"
      unfolding relayed_def ds ReadBytes by (simp add: exI [of _ "ds @ [d]"])
    show thesis
      by (rule that [of "if goes_on then [SessionOutput sid d] else []"])
        (use assms(2) ReadBytes ds stop [of 0 "[]"] more reader_send_sent [of "Text (SessionOutput sid d)" st] in auto)
  next
    case (ReadError e)
    show thesis
      by (rule that [of "[]"]) (use assms(2) ReadError ds stop [of 0 "[]"] in auto)
  qed
qed

definition reader_ok :: "string \<Rightarrow> nat \<Rightarrow> pty_read list \<Rightarrow> frame list \<Rightarrow> 'o live_session \<Rightarrow> bool" where
  "reader_ok sid k rs fs ls \<longleftrightarrow>
     k < length (ls_readers ls) \<and> fst (ls_readers ls ! k) = sid \<and>
     (\<exists>out. filter (of_session sid) (frames ls) = fs @ map Text out \<and>
        relayed sid (snd (ls_readers ls ! k)) rs out)"

definition sole_reader :: "string \<Rightarrow> nat \<Rightarrow> 'o live_session \<Rightarrow> bool" where
  "sole_reader sid k ls \<longleftrightarrow> (\<forall>j < length (ls_readers ls). fst (ls_readers ls ! j) = sid \<longrightarrow> j = k)"

lemma adds_filter:
  "adds conf st st' \<Longrightarrow> filter (of_session sid) (sent (dm_tx (sv_daemon st'))) =
     filter (of_session sid) (sent (dm_tx (sv_daemon st)))"
  using loop_not_of_session [of conf _ sid]
  unfolding adds_def by (auto simp: filter_empty_conv list_all_iff)

lemma serve_step_filter:
  "filter (of_session sid) (sent (dm_tx (sv_daemon (serve_step h conf st ev)))) =
     filter (of_session sid) (sent (dm_tx (sv_daemon st)))"
proof (cases "sv_outcome st")
  case None
  then show ?thesis by (intro adds_filter [of conf] adds_step)
qed (simp add: serve_step_def)

lemma reader_ok_loop:
  "reader_ok sid k rs fs ls \<Longrightarrow> reader_ok sid k rs fs (session_step h conf ls (Loop e))"
  by (auto simp: reader_ok_def session_step_def serve_step_filter nth_append)

lemma other_turn_filter:
  "sid' \<noteq> sid \<Longrightarrow> filter (of_session sid) (sent (dm_tx (sv_daemon (snd (reader_turn sid' r st))))) =
     filter (of_session sid) (sent (dm_tx (sv_daemon st)))"
  by (cases r) (simp_all add: reader_send_sent)

lemma reader_ok_read:
  assumes ok: "reader_ok sid k rs fs ls" and sole: "sole_reader sid k ls"
  shows "reader_ok sid k (rs @ read_of k (Reader j r)) fs (read_step j r ls)"
proof (cases "j < length (ls_readers ls) \<and> snd (ls_readers ls ! j)")
  case False
  then have "read_step j r ls = ls" by (auto simp: read_step_def)
  moreover have "j = k \<Longrightarrow> relayed sid False rs out \<Longrightarrow> relayed sid False (rs @ [r]) out" for out
    by (rule relayed_stopped)
  ultimately show ?thesis using ok False unfolding reader_ok_def by fastforce
next
  case True
  let ?sid = "fst (ls_readers ls ! j)"
  obtain goes_on st where turn: "reader_turn ?sid r (ls_state ls) = (goes_on, st)" by fastforce
  have step: "read_step j r ls =
      ls\<lparr>ls_state := st, ls_readers := (ls_readers ls)[j := (?sid, goes_on)]\<rparr>"
    using True turn by (simp add: read_step_def)
  from ok obtain out where out: "k < length (ls_readers ls)" "fst (ls_readers ls ! k) = sid"
    "filter (of_session sid) (frames ls) = fs @ map Text out" "relayed sid (snd (ls_readers ls ! k)) rs out"
    by (auto simp: reader_ok_def)
  show ?thesis
  proof (cases "j = k")
    case True
    with \<open>j < _ \<and> _\<close> out have "relayed sid True rs out" by simp
    then obtain new where "sent (dm_tx (sv_daemon st)) = frames ls @ map Text new"
      "list_all (\<lambda>m. of_session sid (Text m)) new" "relayed sid goes_on (rs @ [r]) (out @ new)"
      using relayed_turn turn True out(2) by metis
    with out True show ?thesis
      by (auto simp: reader_ok_def step [unfolded True] list_all_iff filter_map comp_def
          intro!: exI [of _ "out @ new"])
  next
    case False
    with sole True have "?sid \<noteq> sid" by (auto simp: sole_reader_def)
    from other_turn_filter [OF this, of r "ls_state ls"] False out turn show ?thesis
      by (auto simp: reader_ok_def step)
  qed
qed

lemma sole_reader_before:
  "sole_reader sid k (session_step h conf ls ev) \<Longrightarrow> sole_reader sid k ls"
proof -
  assume sole: "sole_reader sid k (session_step h conf ls ev)"
  have "\<exists>more. map fst (ls_readers (session_step h conf ls ev)) = map fst (ls_readers ls) @ more"
    by (cases ev) (auto simp: session_step_def)
  then obtain sids where more: "map fst (ls_readers (session_step h conf ls ev)) = map fst (ls_readers ls) @ sids"
    by blast
  show ?thesis
    unfolding sole_reader_def
  proof (intro allI impI)
    fix j assume j: "j < length (ls_readers ls)" "fst (ls_readers ls ! j) = sid"
    have len: "j < length (ls_readers (session_step h conf ls ev))"
      using arg_cong [OF more, of length] j by simp
    have "fst (ls_readers (session_step h conf ls ev) ! j) = sid"
      using arg_cong [OF more, of "\<lambda>xs. xs ! j"] j len by (simp add: nth_append)
    with sole len show "j = k" by (auto simp: sole_reader_def)
  qed
qed

lemma reader_ok_run:
  "reader_ok sid k rs fs ls \<Longrightarrow> sole_reader sid k (foldl (session_step h conf) ls evs) \<Longrightarrow>
     reader_ok sid k (rs @ reads_of k evs) fs (foldl (session_step h conf) ls evs)"
proof (induction evs rule: rev_induct)
  case Nil
  then show ?case by (simp add: reads_of_def)
next
  case (snoc ev evs)
  let ?ls = "foldl (session_step h conf) ls evs"
  have sole: "sole_reader sid k ?ls" using snoc.prems(2) by (simp add: sole_reader_before)
  with snoc have ok: "reader_ok sid k (rs @ reads_of k evs) fs ?ls" by simp
  show ?case
  proof (cases ev)
    case (Loop e)
    with reader_ok_loop [OF ok, of h conf e] show ?thesis unfolding reads_of_def by simp
  next
    case (Reader j r)
    then have "session_step h conf ?ls ev = read_step j r ?ls" by (simp add: session_step_def)
    with Reader reader_ok_read [OF ok sole, of j r] show ?thesis unfolding reads_of_def by simp
  qed
qed

section \<open>Properties\<close>

text \<open>C6. Whatever happens in a session and in the terminals it opened, the frames a daemon sends are its
  registration first, then only heartbeats, registrations of the same id with the same metadata,
  answers of the message handlers, and output or exits of sessions that were opened; a close frame
  is the last frame, and only of a session that ends as a shutdown. Once the loop has returned, it
  does nothing more; the readers of its terminals go on, and send nothing after a close frame.\<close>

theorem session_frames:
  assumes "serve_start conf now si first d = Inr st" and "sent (dm_tx d) = []"
    and "foldl (session_step h conf) (live st) evs = ls"
  shows "(\<exists>ms cs. frames ls = map Text (register_message conf # ms) @ cs \<and>
      list_all (\<lambda>m. m = Heartbeat \<or> m = register_message conf \<or> daemon_reply m \<or>
        (\<exists>sid \<in> fst ` set (ls_readers ls). (\<exists>data. m = SessionOutput sid data) \<or> m = SessionExit sid 0)) ms \<and>
      (cs = [] \<or> cs = [CloseFrame] \<and> sv_outcome (ls_state ls) = Some Shutdown)) \<and>
    (sv_outcome (ls_state ls) \<noteq> None \<longrightarrow> session_step h conf ls (Loop e) = ls \<and>
      (CloseFrame \<in> set (frames ls) \<longrightarrow> frames (session_step h conf ls ev) = frames ls))"
proof -
  have "live_ok conf ls"
    using live_machine.inv_run [OF live_start [OF assms(1,2)]] assms(3) by blast
  moreover have stop: "session_step h conf ls (Loop e) = ls" if "sv_outcome (ls_state ls) \<noteq> None" for e
    using that by (auto simp: session_step_def serve_step_def opened_def split: serve_event.splits)
  moreover have "frames (session_step h conf ls ev) = frames ls"
    if "sv_outcome (ls_state ls) \<noteq> None" "CloseFrame \<in> set (frames ls)"
  proof (cases ev)
    case (Loop e)
    with stop [OF that(1)] show ?thesis by simp
  next
    case (Reader k r)
    with read_step_adds [of k r ls] that(2) show ?thesis by (auto simp: session_step_def)
  qed
  ultimately show ?thesis
    unfolding live_ok_def session_message_def reader_message_def by (simp add: image_iff)
qed

text \<open>A session in which a terminal is opened and read between other events.\<close>

definition open_terminal :: session_event where
  "open_terminal = Loop (Wake ((at_time 1)\<lparr>wk_msg := Some (InText (Some (NewSession ''s1'' 24 80 ''xterm'')))\<rparr>))"

definition demo_reads :: "session_event list" where
  "demo_reads = [Reader 0 (ReadBytes [104]), Loop Beat, Reader 0 (ReadBytes [105]),
     Loop (Wake ((at_time 7)\<lparr>wk_shutdown := True\<rparr>)), Reader 0 ReadEof]"

definition demo_opened :: "nat live_session" where
  "demo_opened = \<lparr>ls_state = demo_session\<lparr>sv_daemon := demo_daemon\<lparr>dm_sessions := [(''s1'', \<lparr>sh_session_id = ''s1'', sh_pty = 0\<rparr>)],
        dm_os := 1, dm_tx := \<lparr>sent = [Text (register_message demo_conf), Text (SessionStarted ''s1'' True None)], limit = 10\<rparr>\<rparr>,
        sv_last_ack := 1\<rparr>, ls_readers = [(''s1'', True)]\<rparr>"

lemma demo_open:
  "session_step demo_host demo_conf (live demo_session) open_terminal = demo_opened"
  by (simp add: session_step_def open_terminal_def live_def opened_def serve_step_def serve_wake_def poll_def
      at_time_def serve_frame_def handle_message_def handle_new_session_def manager_new_session_def
      demo_session_def demo_daemon_def demo_host_def demo_pty_def try_os_def send_text_def tx_send_def
      demo_opened_def)

lemmas demo_step_defs = session_step_def read_step_def reader_send_def opened_def serve_step_def
  beat_tick_def put_frame_def tx_send_def serve_wake_def poll_def at_time_def finish_serve_def
  demo_opened_def demo_session_def demo_daemon_def

lemma demo_reads_run:
  "ls = foldl (session_step demo_host demo_conf) demo_opened demo_reads \<Longrightarrow>
   frames ls =
     [Text (register_message demo_conf), Text (SessionStarted ''s1'' True None), Text (SessionOutput ''s1'' [104]),
      Text Heartbeat, Text (SessionOutput ''s1'' [105]), CloseFrame] \<and>
   ls_readers ls = [(''s1'', False)] \<and> sv_outcome (ls_state ls) = Some Shutdown"
  by (simp add: demo_reads_def demo_step_defs)
theorem session_frames_witness:
  "\<exists>st. serve_start demo_conf 0 (Inr ()) (InText (Some (RegisterAck True ''ok''))) demo_daemon = Inr st \<and>
     frames (session_step demo_host demo_conf
         (foldl (session_step demo_host demo_conf) (live st) (open_terminal # demo_reads)) (Reader 0 ReadEof)) =
       [Text (register_message demo_conf), Text (SessionStarted ''s1'' True None), Text (SessionOutput ''s1'' [104]),
        Text Heartbeat, Text (SessionOutput ''s1'' [105]), CloseFrame]"
proof -
  have start: "serve_start demo_conf 0 (Inr ()) (InText (Some (RegisterAck True ''ok''))) demo_daemon =
      Inr demo_session"
    by (simp add: serve_start_def demo_session_def demo_daemon_def send_text_def tx_send_def)
  obtain ls where ls: "ls = foldl (session_step demo_host demo_conf) demo_opened demo_reads" by blast
  have all: "foldl (session_step demo_host demo_conf) (live demo_session) (open_terminal # demo_reads) = ls"
    by (simp only: foldl.simps demo_open ls)
  have "sent (dm_tx demo_daemon) = []" by (simp add: demo_daemon_def)
  from session_frames [OF start this all, of undefined "Reader 0 ReadEof"] demo_reads_run [OF ls] all start
  show ?thesis by simp
qed



end
