(* ===== verification/Traffic.thy ===== *)
theory Traffic
  imports Calls Readers "HOL-Library.Sublist"
begin

text \<open>
  What goes over one connection, seen from either end: which messages a WebSocket task sends and
  which queue they come from, which of its messages fill a caller's channel, and which frames a
  daemon sends for a message it is given. The composition is in \<open>Network\<close>.
\<close>

section \<open>What a task sends\<close>

definition controller_ack :: "message \<Rightarrow> bool" where
  "controller_ack m =
     (case m of RegisterAck _ _ \<Rightarrow> True | HeartbeatAck _ _ \<Rightarrow> True | _ \<Rightarrow> False)"

definition requests :: "message list \<Rightarrow> message list" where
  "requests ms = filter (\<lambda>m. \<not> controller_ack m) ms"

lemma requests_simps [simp]:
  "requests [] = []" "requests (xs @ ys) = requests xs @ requests ys"
  "controller_ack m \<Longrightarrow> requests [m] = []" "\<not> controller_ack m \<Longrightarrow> requests [m] = [m]"
  by (simp_all add: requests_def)

lemma requests_acks: "list_all controller_ack ms \<Longrightarrow> requests ms = []"
  by (auto simp: requests_def list_all_iff filter_empty_conv)

lemma controller_ack_simps [simp]:
  "controller_ack (RegisterAck b s)" "controller_ack (HeartbeatAck b s)"
  by (simp_all add: controller_ack_def)

text \<open>A message from a daemon makes a task send acknowledgements at most, and leaves its channel alone.\<close>

lemma daemon_message_sends:
  obtains acks where "ws_sent (fst (handle_daemon_message now m t sv)) = ws_sent t @ acks"
    "list_all controller_ack acks"
    "ws_running (fst (handle_daemon_message now m t sv)) = ws_running t"
    "ws_tx_ok (fst (handle_daemon_message now m t sv)) = ws_tx_ok t"
    "req_chans (chans (snd (handle_daemon_message now m t sv))) = req_chans (chans sv)"
proof (cases "(\<exists>i meta. m = Register i meta) \<or> m = Heartbeat")
  case True
  then show thesis
  proof
    assume "\<exists>i meta. m = Register i meta"
    then obtain i meta where m: "m = Register i meta" by blast
    show thesis
      by (rule that [of "if ws_tx_ok t then [RegisterAck (i \<noteq> [])
            (if i = [] then ''no daemon id'' else ''Successfully registered'')] else []"])
        (auto simp: m handle_daemon_message_def handle_register_def Let_def ws_reply_sent)
  next
    assume m: "m = Heartbeat"
    have "\<exists>acks. ws_sent (fst (handle_heartbeat_message now t sv)) = ws_sent t @ acks \<and> list_all controller_ack acks"
      by (auto simp: handle_heartbeat_message_def ws_reply_sent split: option.splits prod.splits)
    then obtain acks where "ws_sent (fst (handle_heartbeat_message now t sv)) = ws_sent t @ acks"
      "list_all controller_ack acks" by blast
    then show thesis
      by (intro that [of acks])
        (auto simp: m handle_daemon_message_def handle_heartbeat_message_def split: option.splits prod.splits)
  qed
next
  case False
  have req: "req_chans (chans (with_conn t f sv)) = req_chans (chans sv)"
    if "\<And>a. req_chans (chans (f a sv)) = req_chans (chans sv)" for f
    by (rule with_conn_cases [of t f sv]) (auto simp: that)
  have complete: "req_chans (snd (complete_request r w (c, chs))) = req_chans chs" for r w c chs
    by (simp add: complete_request_def split: option.splits)
  show thesis
    by (rule handle_other_message [of m now t sv])
      (use False that [of "[]"] req complete in \<open>auto simp del: with_conn_def\<close>)
qed

text \<open>The requests put on the channel of a task go out in order, without loss, repetition or gap; what
  is queued when the task ends is lost.\<close>

definition chan_ok :: "message list \<Rightarrow> ws_task \<Rightarrow> server \<Rightarrow> bool" where
  "chan_ok ss t sv \<longleftrightarrow>
     (if ws_running t
      then receiver_open (req_chans (chans sv) (req_chan t)) \<and>
        ss = requests (ws_sent t) @ queue (req_chans (chans sv) (req_chan t))
      else \<not> receiver_open (req_chans (chans sv) (req_chan t)) \<and> prefix (requests (ws_sent t)) ss) \<and>
     list_all (\<lambda>m. \<not> controller_ack m) ss"

lemma ws_cleanup_fields [simp]:
  "ws_sent (fst (ws_cleanup t sv)) = ws_sent t" "\<not> ws_running (fst (ws_cleanup t sv))"
  "req_chan (fst (ws_cleanup t sv)) = req_chan t" "ws_tx_ok (fst (ws_cleanup t sv)) = ws_tx_ok t"
  "req_chans (chans (snd (ws_cleanup t sv))) =
     (req_chans (chans sv))(req_chan t := mpsc_close (req_chans (chans sv) (req_chan t)))"
  "oneshots (chans (snd (ws_cleanup t sv))) = oneshots (chans sv)"
  "heap (reg (snd (ws_cleanup t sv))) = heap (reg sv)"
  "next_arc (reg (snd (ws_cleanup t sv))) = next_arc (reg sv)"
  by (simp_all add: ws_cleanup_def Let_def split: option.splits)

lemma chan_ok_cleanup:
  assumes "ss = requests (ws_sent t) @ rest" and "list_all (\<lambda>m. \<not> controller_ack m) ss"
  shows "chan_ok ss (fst (ws_cleanup t sv)) (snd (ws_cleanup t sv))"
  using assms by (auto simp: chan_ok_def mpsc_close_def)

text \<open>The step of a task that has a queued request.\<close>

lemma ws_step_request:
  assumes "ws_running t" and "queue (req_chans (chans sv) (req_chan t)) = m # ms"
  shows "ws_step now ReqReady t sv =
    (let sv1 = sv\<lparr>chans := (chans sv)\<lparr>req_chans := (req_chans (chans sv))
           (req_chan t := (req_chans (chans sv) (req_chan t))\<lparr>queue := ms\<rparr>)\<rparr>\<rparr>
     in if ws_tx_ok t then (t\<lparr>ws_sent := ws_sent t @ [m]\<rparr>, sv1) else ws_cleanup t sv1)"
  using assms by (simp add: ws_step_def mpsc_recv_def ws_send_def Let_def)

lemma ws_step_no_request:
  "queue (req_chans (chans sv) (req_chan t)) = [] \<Longrightarrow> ws_step now ReqReady t sv = (t, sv)"
  by (simp add: ws_step_def mpsc_recv_def)

lemma chan_ok_step:
  assumes ok: "chan_ok ss t sv"
  shows "chan_ok ss (fst (ws_step now ev t sv)) (snd (ws_step now ev t sv))"
proof (cases "ws_running t")
  case False
  with ok show ?thesis by (simp add: ws_step_def)
next
  case True
  with ok have ss: "receiver_open (req_chans (chans sv) (req_chan t))"
    "ss = requests (ws_sent t) @ queue (req_chans (chans sv) (req_chan t))"
    "list_all (\<lambda>m. \<not> controller_ack m) ss"
    by (auto simp: chan_ok_def)
  show ?thesis
  proof (cases ev)
    case (WsText om)
    show ?thesis
    proof (cases om)
      case (Some m)
      obtain acks where "ws_sent (fst (handle_daemon_message now m t sv)) = ws_sent t @ acks"
        "list_all controller_ack acks" "ws_running (fst (handle_daemon_message now m t sv)) = ws_running t"
        "req_chans (chans (snd (handle_daemon_message now m t sv))) = req_chans (chans sv)"
        by (rule daemon_message_sends)
      moreover have "req_chan (fst (handle_daemon_message now m t sv)) = req_chan t"
        using ws_step_req_chan [of now ev t sv] True by (simp add: WsText Some ws_step_def)
      ultimately show ?thesis
        using True ss by (simp add: WsText Some ws_step_def chan_ok_def requests_acks)
    qed (use True ok in \<open>simp add: WsText ws_step_def\<close>)
  next
    case ReqReady
    show ?thesis
    proof (cases "queue (req_chans (chans sv) (req_chan t))")
      case Nil
      with ok show ?thesis by (simp add: ReqReady ws_step_no_request)
    next
      case (Cons m ms)
      with ss have m: "\<not> controller_ack m" by auto
      show ?thesis
        unfolding ReqReady ws_step_request [OF True Cons] Let_def
        using True ss m Cons
        by (cases "ws_tx_ok t") (auto simp: chan_ok_def mpsc_close_def)
    qed
  qed (use True ok ss in \<open>simp_all add: ws_step_def chan_ok_cleanup\<close>)
qed

lemma ws_step_other_chan:
  assumes "j \<noteq> req_chan t"
  shows "req_chans (chans (snd (ws_step now ev t sv))) j = req_chans (chans sv) j"
proof -
  have "req_chans (chans (snd (handle_daemon_message now m t sv))) = req_chans (chans sv)" for m
    by (rule daemon_message_sends)
  with assms show ?thesis
    by (auto simp: ws_step_def Let_def ws_send_def split: ws_event.splits option.splits prod.splits bool.splits
        if_splits)
qed

text \<open>The first message a task sends acknowledges a registration: no request is queued on its channel
  before a daemon has registered.\<close>

definition greeted :: "ws_task \<Rightarrow> bool" where
  "greeted t \<longleftrightarrow> ws_sent t \<noteq> [] \<or> \<not> ws_tx_ok t"

definition greets_first :: "ws_task \<Rightarrow> bool" where
  "greets_first t \<longleftrightarrow> ws_sent t = [] \<or> controller_ack (hd (ws_sent t))"

lemma ws_step_sent:
  "\<exists>ms. ws_sent (fst (ws_step now ev t sv)) = ws_sent t @ ms"
proof -
  have "\<exists>ms. ws_sent (fst (handle_daemon_message now m t sv)) = ws_sent t @ ms" for m
    by (rule daemon_message_sends [of now m t sv]) blast
  then show ?thesis
    by (auto simp: ws_step_def Let_def ws_send_def ws_cleanup_def
        split: ws_event.splits option.splits prod.splits bool.splits if_splits)
qed

lemma ws_step_tx_ok: "ws_tx_ok (fst (ws_step now ev t sv)) = ws_tx_ok t"
proof -
  have "ws_tx_ok (fst (handle_daemon_message now m t sv)) = ws_tx_ok t" for m
    by (rule daemon_message_sends)
  then show ?thesis
    by (auto simp: ws_step_def Let_def ws_send_def ws_cleanup_def
        split: ws_event.splits option.splits prod.splits bool.splits if_splits)
qed

lemma greeted_step: "greeted t \<Longrightarrow> greeted (fst (ws_step now ev t sv))"
  using ws_step_sent [of now ev t sv] by (auto simp: greeted_def ws_step_tx_ok)

lemma greets_first_step:
  assumes "greets_first t" and "ws_running t \<and> queue (req_chans (chans sv) (req_chan t)) \<noteq> [] \<longrightarrow> greeted t"
  shows "greets_first (fst (ws_step now ev t sv))"
proof (cases "ws_sent t")
  case (Cons m ms)
  with assms(1) ws_step_sent [of now ev t sv] show ?thesis by (auto simp: greets_first_def)
next
  case Nil
  show ?thesis
  proof (cases "ws_running t")
    case False
    with assms show ?thesis by (simp add: ws_step_def)
  next
    case True
    have acks: "greets_first (fst (handle_daemon_message now m t sv))" for m
    proof (rule daemon_message_sends [of now m t sv])
      fix acks
      assume "ws_sent (fst (handle_daemon_message now m t sv)) = ws_sent t @ acks" "list_all controller_ack acks"
      with Nil show ?thesis by (cases acks) (auto simp: greets_first_def)
    qed
    have req: "greets_first (fst (ws_step now ReqReady t sv))"
    proof (cases "queue (req_chans (chans sv) (req_chan t))")
      case Nil
      with assms show ?thesis by (simp add: ws_step_no_request)
    next
      case (Cons m ms)
      with assms(2) True Nil have "\<not> ws_tx_ok t" by (auto simp: greeted_def)
      with Nil show ?thesis
        unfolding ws_step_request [OF True Cons] Let_def by (simp add: greets_first_def)
    qed
    show ?thesis
    proof (cases ev)
      case (WsText om)
      with acks assms(1) True show ?thesis by (cases om) (simp_all add: ws_step_def)
    next
      case ReqReady
      with req show ?thesis by simp
    qed (use True assms(1) Nil in \<open>simp_all add: ws_step_def greets_first_def\<close>)
  qed
qed

text \<open>A connection's channel is that of the task it registered through, and that task has answered.\<close>

lemma message_tx:
  assumes "a < next_arc (reg (snd (handle_daemon_message now m t sv)))"
  shows "a < next_arc (reg sv) \<and>
      request_tx (heap (reg (snd (handle_daemon_message now m t sv))) a) = request_tx (heap (reg sv) a) \<or>
    request_tx (heap (reg (snd (handle_daemon_message now m t sv))) a) = req_chan t \<and>
      greeted (fst (handle_daemon_message now m t sv))"
proof (cases "(\<exists>i meta. m = Register i meta) \<or> m = Heartbeat")
  case True
  then show ?thesis
  proof
    assume "\<exists>i meta. m = Register i meta"
    then obtain i meta where m: "m = Register i meta" by blast
    show ?thesis
    proof (cases "i = []")
      case True
      with assms show ?thesis by (simp add: m handle_daemon_message_def handle_register_def)
    next
      case False
      let ?c = "connection_new now i meta (req_chan t)"
      have "request_tx ?c = req_chan t" by (simp add: connection_new_def)
      moreover have "greeted (ws_reply w t')" for w t'
        by (simp add: greeted_def ws_reply_sent)
      ultimately show ?thesis
        using assms False
        by (auto simp: m handle_daemon_message_def handle_register_def Let_def register_next register_heap
            less_Suc_eq)
    qed
  next
    assume "m = Heartbeat"
    with assms show ?thesis
      by (auto simp: handle_daemon_message_def handle_heartbeat_message_def handle_heartbeat_def update_arc_heap
          split: option.splits)
  qed
next
  case False
  have conn: "next_arc (reg (with_conn t f sv)) = next_arc (reg sv) \<and>
      request_tx (heap (reg (with_conn t f sv)) a) = request_tx (heap (reg sv) a)"
    if "\<And>b. next_arc (reg (f b sv)) = next_arc (reg sv) \<and>
          request_tx (heap (reg (f b sv)) a) = request_tx (heap (reg sv) a)" for f
    by (rule with_conn_cases [of t f sv]) (auto simp: that)
  have complete: "request_tx (fst (complete_request r w (c, chs))) = request_tx c" for r w c chs
    by (simp add: complete_request_def split: option.splits)
  show ?thesis
    by (rule handle_other_message [of m now t sv])
      (use False assms conn complete in \<open>auto simp: update_arc_heap\<close>)
qed

lemma ws_step_tx:
  assumes "a < next_arc (reg (snd (ws_step now ev t sv)))"
  shows "a < next_arc (reg sv) \<and>
      request_tx (heap (reg (snd (ws_step now ev t sv))) a) = request_tx (heap (reg sv) a) \<or>
    request_tx (heap (reg (snd (ws_step now ev t sv))) a) = req_chan t \<and> greeted (fst (ws_step now ev t sv))"
proof (cases "ws_running t \<and> (\<exists>m. ev = WsText (Some m))")
  case True
  then obtain m where "ws_step now ev t sv = handle_daemon_message now m t sv" by (auto simp: ws_step_def)
  with message_tx assms show ?thesis by metis
next
  case False
  then have "next_arc (reg (snd (ws_step now ev t sv))) = next_arc (reg sv)"
    "heap (reg (snd (ws_step now ev t sv))) = heap (reg sv)"
    by (auto simp: ws_step_def Let_def ws_send_def split: ws_event.splits option.splits prod.splits bool.splits
        if_splits)
  with assms show ?thesis by simp
qed

text \<open>A caller's channel is filled by the task that received the answer, and by nothing else.\<close>

definition fills_with :: "message option \<Rightarrow> server \<Rightarrow> server \<Rightarrow> bool" where
  "fills_with w sv sv' \<longleftrightarrow>
     (\<forall>q m. oneshots (chans sv') q = OsSent m \<longrightarrow> oneshots (chans sv) q = OsSent m \<or> w = Some m)"

lemma fills_with_same: "oneshots (chans sv') = oneshots (chans sv) \<Longrightarrow> fills_with w sv sv'"
  by (simp add: fills_with_def)

lemma fills_with_conn: "(\<And>a. fills_with w sv (f a sv)) \<Longrightarrow> fills_with w sv (with_conn t f sv)"
  by (rule with_conn_cases [of t f sv]) (auto simp: fills_with_same)

lemma fills_with_complete: "fills_with (Some m) sv (arc_chan_op (complete_request r m) a sv)"
  unfolding fills_with_def
proof (intro allI impI)
  fix q w
  assume "oneshots (chans (arc_chan_op (complete_request r m) a sv)) q = OsSent w"
  then show "oneshots (chans sv) q = OsSent w \<or> Some m = Some w"
    by (cases "oneshots (chans sv) q") (auto simp: oneshots_complete split: if_splits)
qed

lemma fills_with_message: "fills_with (Some m) sv (snd (handle_daemon_message now m t sv))"
proof (cases "(\<exists>i meta. m = Register i meta) \<or> m = Heartbeat")
  case True
  then show ?thesis
    by (auto simp: handle_daemon_message_def handle_register_def handle_heartbeat_message_def Let_def
        split: option.splits prod.splits intro!: fills_with_same)
next
  case False
  show ?thesis
    by (rule handle_other_message [of m now t sv])
      (use False in \<open>auto simp del: arc_chan_op_fields
        intro!: fills_with_conn fills_with_complete intro: fills_with_same\<close>)
qed

lemma ws_step_answer:
  assumes "oneshots (chans (snd (ws_step now ev t sv))) q = OsSent m"
  shows "oneshots (chans sv) q = OsSent m \<or> ev = WsText (Some m)"
proof (cases "ws_running t \<and> (\<exists>w. ev = WsText (Some w))")
  case True
  then obtain w where w: "ev = WsText (Some w)" "ws_step now ev t sv = handle_daemon_message now w t sv"
    by (auto simp: ws_step_def)
  with fills_with_message [of w sv now t] assms show ?thesis by (auto simp: fills_with_def)
next
  case False
  then have "oneshots (chans (snd (ws_step now ev t sv))) = oneshots (chans sv)"
    by (auto simp: ws_step_def Let_def ws_send_def split: ws_event.splits option.splits prod.splits bool.splits
        if_splits)
  with assms show ?thesis by simp
qed

section \<open>What a daemon does with a message\<close>

text \<open>The message that a step of the loop hands to \<open>handle_message\<close>, if it does.\<close>

definition dispatched :: "serve_event \<Rightarrow> 'o serve_state \<Rightarrow> message option" where
  "dispatched ev st =
     (case ev of
        Wake wk \<Rightarrow>
          (if sv_outcome st \<noteq> None then None
           else case poll wk st of
             BrMsg (InText (Some m)) \<Rightarrow> (case m of HeartbeatAck _ _ \<Rightarrow> None | _ \<Rightarrow> Some m)
           | _ \<Rightarrow> None)
      | _ \<Rightarrow> None)"

definition control_frame :: "frame \<Rightarrow> bool" where
  "control_frame f = (case f of CloseFrame \<Rightarrow> True | Text m \<Rightarrow> response_id m = None)"

lemma put_frame_control:
  "control_frame f \<Longrightarrow> \<exists>fs. sent (dm_tx (sv_daemon (snd (put_frame f st)))) = sent (dm_tx (sv_daemon st)) @ fs \<and>
     list_all control_frame fs"
  by (auto simp: put_frame_sent)

lemma put_frame_more:
  "put_frame f st = (b, st') \<Longrightarrow> control_frame f \<Longrightarrow>
     \<exists>fs. sent (dm_tx (sv_daemon st')) = sent (dm_tx (sv_daemon st)) @ fs \<and> list_all control_frame fs"
  using put_frame_control [of f st] by simp

lemma control_frames [simp]:
  "control_frame CloseFrame" "control_frame (Text Heartbeat)" "control_frame (Text (register_message conf))"
  "control_frame (Text (SessionOutput sid d))" "control_frame (Text (SessionExit sid c))"
  by (simp_all add: control_frame_def register_message_def)

definition heartbeat_answer :: "message \<Rightarrow> bool" where
  "heartbeat_answer m = (case m of HeartbeatAck _ _ \<Rightarrow> True | _ \<Rightarrow> False)"

lemma dispatched_iff:
  "dispatched ev st = Some m \<longleftrightarrow> sv_outcome st = None \<and> \<not> heartbeat_answer m \<and>
     (\<exists>wk. ev = Wake wk \<and> poll wk st = BrMsg (InText (Some m)))"
proof -
  have "(case w of HeartbeatAck _ _ \<Rightarrow> None | _ \<Rightarrow> Some w) = Some m \<longleftrightarrow> w = m \<and> \<not> heartbeat_answer m" for w
    by (cases w) (auto simp: heartbeat_answer_def)
  then show ?thesis
    unfolding dispatched_def by (cases ev) (auto split: branch.splits ws_in.splits option.splits)
qed

lemma heartbeat_answer_iff: "heartbeat_answer m \<longleftrightarrow> (\<exists>b s. m = HeartbeatAck b s)"
  by (cases m) (simp_all add: heartbeat_answer_def)

lemma serve_frame_text:
  "\<not> heartbeat_answer m \<Longrightarrow> serve_frame h conf now t (InText (Some m)) st =
     st\<lparr>sv_daemon := snd (handle_message h m (sv_daemon st)), sv_last_ack := t\<rparr>"
  by (cases m) (simp_all add: serve_frame_def heartbeat_answer_def)

lemma step_dispatched:
  "dispatched ev st = Some m \<Longrightarrow>
     sv_daemon (serve_step h conf st ev) = snd (handle_message h m (sv_daemon st))"
  by (auto simp: dispatched_iff serve_step_def serve_wake_def serve_frame_text)

lemma frame_control:
  assumes "\<nexists>m. frm = InText (Some m) \<and> \<not> heartbeat_answer m"
  shows "\<exists>fs. sent (dm_tx (sv_daemon (serve_frame h conf now t frm st))) = sent (dm_tx (sv_daemon st)) @ fs \<and>
    list_all control_frame fs"
proof (cases "\<exists>b s. frm = InText (Some (HeartbeatAck b s))")
  case True
  then obtain b s where f: "frm = InText (Some (HeartbeatAck b s))" by blast
  obtain ok st1 where p: "put_frame (Text (register_message conf)) (st\<lparr>sv_last_ack := now\<rparr>) = (ok, st1)"
    by fastforce
  from put_frame_more [OF p] show ?thesis
    by (cases b; cases ok) (simp_all add: f p serve_frame_def Let_def finish_serve_def)
next
  case False
  with assms have "frm = InText None \<or> (\<forall>om. frm \<noteq> InText om)"
    by (cases frm; auto simp: heartbeat_answer_iff; metis not_None_eq)
  then show ?thesis
    by (cases frm) (simp_all add: serve_frame_def finish_serve_def)
qed

lemma step_control:
  assumes "dispatched ev st = None"
  shows "\<exists>fs. sent (dm_tx (sv_daemon (serve_step h conf st ev))) = sent (dm_tx (sv_daemon st)) @ fs \<and>
    list_all control_frame fs"
proof (cases "sv_outcome st")
  case (Some r)
  then show ?thesis by (simp add: serve_step_def)
next
  case None
  show ?thesis
  proof (cases ev)
    case Beat
    with None show ?thesis
      using put_frame_more [of "Text Heartbeat" st]
      by (auto simp: serve_step_def beat_tick_def split: beat_task.splits prod.splits bool.splits)
  next
    case Broken
    with None show ?thesis by (simp add: serve_step_def break_socket_def)
  next
    case (Wake wk)
    show ?thesis
    proof (cases "poll wk st")
      case BrShutdown
      with None Wake show ?thesis
        using put_frame_control [of CloseFrame st] by (simp add: serve_step_def serve_wake_def finish_serve_def)
    next
      case (BrMsg frm)
      have "\<nexists>m. frm = InText (Some m) \<and> \<not> heartbeat_answer m"
        using assms None dispatched_iff [of ev st] by (auto simp: Wake BrMsg)
      from frame_control [OF this] None Wake BrMsg show ?thesis
        by (simp add: serve_step_def serve_wake_def)
    qed (use None Wake in \<open>simp_all add: serve_step_def serve_wake_def finish_serve_def\<close>)
  qed
qed

lemma read_step_control:
  "\<exists>fs. frames (read_step k r ls) = frames ls @ fs \<and> list_all control_frame fs"
  using read_step_adds [of k r ls] by (fastforce simp: list_all_iff reader_message_def)

text \<open>The answers of a handler carry the id of the request it handled.\<close>

definition answers_to :: "'o host \<Rightarrow> message \<Rightarrow> 'o daemon \<Rightarrow> frame list" where
  "answers_to h m d = drop (length (sent (dm_tx d))) (sent (dm_tx (snd (handle_message h m d))))"

lemma handle_message_sent:
  "sent (dm_tx (snd (handle_message h m d))) = sent (dm_tx d) @ answers_to h m d"
  using handle_message_replies [of d h m] by (auto simp: answers_to_def replies_only_def)

lemma send_text_adds:
  "\<exists>ms. sent (dm_tx (snd (send_text m d))) = sent (dm_tx d) @ map Text ms \<and> set ms \<subseteq> {m}"
  by (auto simp: send_text_sent intro: exI [of _ "[]"] exI [of _ "[m]"])

definition fits :: "message \<Rightarrow> 'o daemon \<Rightarrow> 'o daemon \<Rightarrow> bool" where
  "fits m d d' \<longleftrightarrow>
     (\<exists>ms. sent (dm_tx d') = sent (dm_tx d) @ map Text ms \<and>
        (\<forall>a \<in> set ms. response_id a = None \<or> response_id a = request_id m))"

lemma fits_same: "dm_tx d' = dm_tx d \<Longrightarrow> fits m d d'"
  by (simp add: fits_def)

lemma fits_send:
  "response_id a = None \<or> response_id a = request_id m \<Longrightarrow> dm_tx d1 = dm_tx d \<Longrightarrow> fits m d (snd (send_text a d1))"
  using send_text_adds [of a d1] by (fastforce simp: fits_def)

lemma fits_download: "dm_tx d1 = dm_tx d \<Longrightarrow> fits m d (snd (send_download rid len ics d1))"
proof (induction ics arbitrary: d d1)
  case Nil
  then show ?case by (simp add: fits_same)
next
  case (Cons ic ics)
  obtain i c where ic: "ic = (i, c)" by (cases ic)
  let ?a = "FileDownloadChunk rid c (of_nat (i * download_chunk_size)) (len \<le> (i + 1) * download_chunk_size)"
  obtain ok d2 where s: "send_text ?a d1 = (ok, d2)" by fastforce
  with fits_send [of ?a m d1 d] Cons.prems have first: "fits m d d2" by simp
  show ?case
  proof (cases ok)
    case True
    have "fits m d2 (snd (send_download rid len ics d2))" by (rule Cons.IH) simp
    with first have "fits m d (snd (send_download rid len ics d2))"
      unfolding fits_def by (elim exE conjE) (rule exI [of _ "_ @ _"], auto)
    with s True ic show ?thesis by simp
  next
    case False
    with s first ic show ?thesis by simp
  qed
qed

lemma handle_message_fits: "fits m d (snd (handle_message h m d))"
  by (cases m)
    (auto simp: handler_defs handle_new_session_def session_op_def handle_session_close_def
      handle_download_start_def split: prod.split sum.split
      intro!: fits_send fits_download intro: fits_same)

lemma answers_to_id:
  assumes "Text a \<in> set (answers_to h m d)" and "response_id a = Some rid"
  shows "request_id m = Some rid"
proof -
  obtain ms where "answers_to h m d = map Text ms" "\<forall>a \<in> set ms. response_id a = None \<or> response_id a = request_id m"
    using handle_message_fits [of m d h] handle_message_sent [of h m d] by (auto simp: fits_def)
  with assms show ?thesis by auto
qed

end
