(* ===== verification/Network.thy ===== *)
theory Network
  imports Traffic
begin

text \<open>
  A server and its daemons: every WebSocket task of the server has a daemon at the other end, the
  two are joined by a connection that delivers frames in order, and everything runs interleaved,
  with the Python threads and the heartbeat monitor. The steps are those of \<open>System\<close> and
  \<open>Readers\<close>; what is new is that a task receives what its daemon has sent, and the daemon what
  its task has sent. A daemon that connects again is a new connection. A connection may fail at
  any time on either side; nothing is assumed of when anything happens.
\<close>

section \<open>The requests on their way\<close>

text \<open>\<open>ss k\<close> is what the calls have put on the channel of task \<open>k\<close>, in order.\<close>

definition traffic_ok :: "(nat \<Rightarrow> message list) \<Rightarrow> system \<Rightarrow> bool" where
  "traffic_ok ss s \<longleftrightarrow> sys_ok s \<and>
     (\<forall>k < ntasks s. chan_ok (ss k) (tasks s k) (srv s) \<and> greets_first (tasks s k) \<and>
        (queue (req_chans (chans (srv s)) k) \<noteq> [] \<longrightarrow> greeted (tasks s k))) \<and>
     (\<forall>k \<ge> ntasks s. ss k = [] \<and> req_chans (chans (srv s)) k = mpsc_new) \<and>
     (\<forall>a < next_arc (reg (srv s)). greeted (tasks s (request_tx (heap (reg (srv s)) a))))"

lemma sys_ok_perform: "sys_ok s \<Longrightarrow> sys_ok (perform ac s)"
  using perform_step [of ac s] sys_ok_step by metis

lemma sys_ok_tx:
  assumes "sys_ok s" and "a < next_arc (reg (srv s))"
  shows "request_tx (heap (reg (srv s)) a) < ntasks s"
  using assms by (simp add: sys_ok_def srv_ok_def)

lemma sys_ok_chan: "sys_ok s \<Longrightarrow> k < ntasks s \<Longrightarrow> req_chan (tasks s k) = k"
  by (simp add: sys_ok_def)

lemma traffic_new: "traffic_ok (\<lambda>_. []) system_new"
  using sys_ok_new
  by (simp add: traffic_ok_def system_new_def server_new_def channels_new_def registry_new_def)

lemma traffic_accept:
  assumes ok: "traffic_ok ss s"
  shows "traffic_ok ss (perform Accept s)"
proof -
  let ?n = "ntasks s"
  have "sys_ok (perform Accept s)" using ok sys_ok_perform unfolding traffic_ok_def by blast
  moreover have "chan_ok [] (ws_task_new ?n) (srv s)" "greets_first (ws_task_new ?n)"
    using ok by (simp_all add: traffic_ok_def chan_ok_def ws_task_new_def mpsc_new_def greets_first_def)
  moreover have "request_tx (heap (reg (srv s)) a) \<noteq> ?n" if "a < next_arc (reg (srv s))" for a
    using ok sys_ok_tx [OF _ that] by (auto simp: traffic_ok_def)
  ultimately show ?thesis
    using ok by (auto simp: traffic_ok_def less_Suc_eq mpsc_new_def)
qed

lemma chan_ok_cong:
  "req_chans (chans sv') (req_chan t) = req_chans (chans sv) (req_chan t) \<Longrightarrow> chan_ok ss t sv \<Longrightarrow> chan_ok ss t sv'"
  by (simp add: chan_ok_def)

lemma queue_greeted:
  assumes "ws_running t" and "queue (req_chans (chans sv) (req_chan t)) \<noteq> [] \<longrightarrow> greeted t"
    and "queue (req_chans (chans (snd (ws_step now ev t sv))) (req_chan t)) \<noteq> []"
  shows "greeted (fst (ws_step now ev t sv))"
proof -
  have "req_chans (chans (snd (handle_daemon_message now m t sv))) = req_chans (chans sv)" for m
    by (rule daemon_message_sends)
  then have "queue (req_chans (chans sv) (req_chan t)) \<noteq> []"
    using assms(1,3)
    by (auto simp: ws_step_def Let_def ws_send_def mpsc_recv_def mpsc_close_def
        split: ws_event.splits option.splits prod.splits bool.splits if_splits list.splits)
  with assms(2) show ?thesis by (simp add: greeted_step)
qed

lemma traffic_event:
  assumes ok: "traffic_ok ss s"
  shows "traffic_ok ss (perform (Event k now ev) s)"
proof (cases "k < ntasks s")
  case False
  with ok show ?thesis by simp
next
  case True
  let ?t = "tasks s k" and ?r = "ws_step now ev (tasks s k) (srv s)"
  have s': "perform (Event k now ev) s = s\<lparr>tasks := (tasks s)(k := fst ?r), srv := snd ?r\<rparr>"
    using True by (simp add: case_prod_unfold)
  have sys: "sys_ok s" "sys_ok (perform (Event k now ev) s)"
    using ok sys_ok_perform unfolding traffic_ok_def by blast+
  have k: "req_chan ?t = k" by (rule sys_ok_chan [OF sys(1) True])
  have self: "chan_ok (ss k) (fst ?r) (snd ?r)" "greets_first (fst ?r)"
    "queue (req_chans (chans (snd ?r)) k) \<noteq> [] \<longrightarrow> greeted (fst ?r)"
    using ok True k chan_ok_step [of "ss k" ?t "srv s" now ev] greets_first_step [of ?t "srv s" now ev]
      queue_greeted [of ?t "srv s" now ev]
    by (auto simp: traffic_ok_def ws_step_def)
  have other: "chan_ok (ss j) (tasks s j) (snd ?r)" "greets_first (tasks s j)"
    "queue (req_chans (chans (snd ?r)) j) \<noteq> [] \<longrightarrow> greeted (tasks s j)" if "j < ntasks s" "j \<noteq> k" for j
    using ok that k sys_ok_chan [OF sys(1) that(1)] chan_ok_cong ws_step_other_chan [of j ?t now ev "srv s"]
    by (auto simp: traffic_ok_def)
  have arcs: "greeted (((tasks s)(k := fst ?r)) (request_tx (heap (reg (snd ?r)) a)))"
    if "a < next_arc (reg (snd ?r))" for a
    using ok ws_step_tx [OF that] k greeted_step [of ?t now ev "srv s"]
    by (auto simp: traffic_ok_def)
  show ?thesis
    using ok sys(2) self other arcs True k ws_step_other_chan [of _ ?t now ev "srv s"]
    unfolding traffic_ok_def s' by auto
qed

text \<open>The actions that neither accept a connection, nor are an event of a task, nor put a request on a channel.\<close>

fun local_action :: "action \<Rightarrow> bool" where
  "local_action Accept = False"
| "local_action (Event _ _ _) = False"
| "local_action (Send _ _) = False"
| "local_action _ = True"

lemma register_request_keeps:
  "req_chans (snd (register_request rid p s)) = req_chans (snd s)"
  "request_tx (fst (register_request rid p s)) = request_tx (fst s)"
  by (cases s; simp add: register_request_def split: option.splits)+

lemma register_request_answer:
  "oneshots (snd (register_request rid p s)) q = OsSent m \<Longrightarrow> oneshots (snd s) q = OsSent m"
  by (cases s; cases "oneshots (snd s) q")
    (auto simp: register_request_def split: option.splits if_splits)

lemma local_fields:
  assumes "local_action ac"
  shows "ntasks (perform ac s) = ntasks s" "req_chans (chans (srv (perform ac s))) = req_chans (chans (srv s))"
    "next_arc (reg (srv (perform ac s))) = next_arc (reg (srv s))"
    "request_tx (heap (reg (srv (perform ac s))) a) = request_tx (heap (reg (srv s)) a)"
  using assms
  by (cases ac; simp add: call_register_def update_arc_heap heartbeat_monitor_tick_def case_prod_unfold
        register_session_def start_file_transfer_def complete_file_transfer_def hm_take_def
        register_request_keeps)+

lemma local_answer:
  assumes "local_action ac" and "oneshots (chans (srv (perform ac s))) q = OsSent m"
  shows "oneshots (chans (srv s)) q = OsSent m"
  using assms register_request_answer [of _ _ "(heap (reg (srv s)) _, chans (srv s))" q m]
  by (cases ac) (auto simp: call_register_def heartbeat_monitor_tick_def case_prod_unfold split: if_splits)

lemma local_task:
  assumes "local_action ac"
  obtains b where "tasks (perform ac s) k = (tasks s k)\<lparr>ws_tx_ok := b\<rparr>" "b \<longrightarrow> ws_tx_ok (tasks s k)"
proof (cases "\<exists>j < ntasks s. ac = BreakSink j \<and> j = k")
  case True
  then show thesis by (intro that [of False]) auto
next
  case False
  with assms have "tasks (perform ac s) k = tasks s k" by (cases ac) auto
  then show thesis by (intro that [of "ws_tx_ok (tasks s k)"]) auto
qed

lemma traffic_local:
  assumes ok: "traffic_ok ss s" and ac: "local_action ac"
  shows "traffic_ok ss (perform ac s)"
proof -
  note f = local_fields [OF ac]
  have sys: "sys_ok (perform ac s)" using ok sys_ok_perform unfolding traffic_ok_def by blast
  have task: "chan_ok (ss k) (tasks (perform ac s) k) (srv (perform ac s)) \<and> greets_first (tasks (perform ac s) k)"
    if "chan_ok (ss k) (tasks s k) (srv s)" "greets_first (tasks s k)" for k
    by (rule local_task [OF ac, of s k]) (use that in \<open>simp add: chan_ok_def greets_first_def f\<close>)
  have greeted: "greeted (tasks (perform ac s) k)" if "greeted (tasks s k)" for k
    by (rule local_task [OF ac, of s k]) (use that in \<open>auto simp: greeted_def\<close>)
  show ?thesis
    using ok sys task greeted unfolding traffic_ok_def f by blast
qed

text \<open>A call puts a request on the channel of its connection, if the task still takes requests.\<close>

definition channel_of :: "system \<Rightarrow> nat \<Rightarrow> nat" where
  "channel_of s a = request_tx (heap (reg (srv s)) a)"

definition takes_requests :: "system \<Rightarrow> nat \<Rightarrow> bool" where
  "takes_requests s k = receiver_open (req_chans (chans (srv s)) k)"

lemma send_fields:
  assumes "a < next_arc (reg (srv s))"
  shows "ntasks (perform (Send a m) s) = ntasks s" "tasks (perform (Send a m) s) = tasks s"
    "reg (srv (perform (Send a m) s)) = reg (srv s)"
    "oneshots (chans (srv (perform (Send a m) s))) = oneshots (chans (srv s))"
    "req_chans (chans (srv (perform (Send a m) s))) k =
      (if k = channel_of s a \<and> takes_requests s k
       then (req_chans (chans (srv s)) k)\<lparr>queue := queue (req_chans (chans (srv s)) k) @ [m]\<rparr>
       else req_chans (chans (srv s)) k)"
  using assms
  by (auto simp: call_send_def send_message_def mpsc_send_def channel_of_def takes_requests_def
      split: prod.splits bool.splits)

lemma traffic_send:
  assumes ok: "traffic_ok ss s" and a: "a < next_arc (reg (srv s))" and m: "\<not> controller_ack m"
  shows "traffic_ok (if takes_requests s (channel_of s a)
      then ss(channel_of s a := ss (channel_of s a) @ [m]) else ss) (perform (Send a m) s)"
proof -
  let ?k = "channel_of s a"
  obtain s' where s': "s' = perform (Send a m) s" by blast
  note f = send_fields [OF a, of m, folded s']
  have sys: "sys_ok s" "sys_ok s'"
    using ok sys_ok_perform s' unfolding traffic_ok_def by blast+
  have k: "?k < ntasks s" unfolding channel_of_def by (rule sys_ok_tx [OF sys(1) a])
  have greeted: "greeted (tasks s ?k)" using ok a by (simp add: traffic_ok_def channel_of_def)
  have chan: "chan_ok ((if takes_requests s ?k then ss(?k := ss ?k @ [m]) else ss) j) (tasks s j) (srv s')"
    if "j < ntasks s" for j
  proof -
    have "chan_ok (ss j) (tasks s j) (srv s)" using ok that by (simp add: traffic_ok_def)
    with m sys_ok_chan [OF sys(1) that] show ?thesis
      unfolding chan_ok_def f takes_requests_def by (auto split: if_splits)
  qed
  show ?thesis
    using ok sys(2) k greeted chan unfolding traffic_ok_def s' [symmetric] f by auto
qed

section \<open>Connections and their daemons\<close>

text \<open>A daemon has dialled and sent its registration, or its session is live, or its session could not
  start. \<open>ln_up\<close> and \<open>ln_down\<close> count the frames the server has read of the daemon's and the daemon of
  the server's; \<open>ln_handled\<close> records the messages given to \<open>handle_message\<close>, each with the daemon's
  state before, and no step reads it.\<close>

datatype 'o phase = Greeting "'o daemon" | Live "'o live_session" | Failed "frame list"

record 'o link =
  ln_conf :: serve_conf
  ln_phase :: "'o phase"
  ln_up :: nat
  ln_down :: nat
  ln_handled :: "(message \<times> 'o daemon) list"

definition registration :: "serve_conf \<Rightarrow> 'o daemon \<Rightarrow> frame list" where
  "registration conf d = sent (dm_tx (snd (send_text (register_message conf) d)))"

definition link_frames :: "'o link \<Rightarrow> frame list" where
  "link_frames ln =
     (case ln_phase ln of
        Greeting d \<Rightarrow> registration (ln_conf ln) d
      | Live ls \<Rightarrow> frames ls
      | Failed fs \<Rightarrow> fs)"

text \<open>\<open>nw_sends\<close> records what the calls have put on each channel; no step reads it.\<close>

record 'o network =
  nw_sys :: system
  nw_links :: "nat \<Rightarrow> 'o link"
  nw_sends :: "nat \<Rightarrow> message list"

text \<open>An action: a daemon dials; a task reads the next frame of its daemon; a task has another event; an
  action of the server that is no event of a task; a call sends a request; a daemon that has
  registered goes on with the next message of its task or another frame; a daemon's session has an
  event without a message, or hears the next message of its task.\<close>

datatype 'o net_action =
    Dial serve_conf "'o daemon"
  | Receive nat u64
  | Task nat u64 ws_event
  | Local action
  | Request nat message
  | Greet nat nat "string + unit" "ws_in option"
  | Alone nat session_event
  | Hear nat wake

definition frame_event :: "frame \<Rightarrow> ws_event" where
  "frame_event f = (case f of Text m \<Rightarrow> WsText (Some m) | CloseFrame \<Rightarrow> WsClose)"

fun own_event :: "ws_event \<Rightarrow> bool" where
  "own_event (WsText _) = False"
| "own_event _ = True"

fun textless :: "ws_in \<Rightarrow> bool" where
  "textless (InText _) = False"
| "textless _ = True"

fun wordless :: "session_event \<Rightarrow> bool" where
  "wordless (Loop (Wake wk)) = (case wk_msg wk of None \<Rightarrow> True | Some frm \<Rightarrow> textless frm)"
| "wordless _ = True"

definition start_phase :: "serve_conf \<Rightarrow> nat \<Rightarrow> (string + unit) \<Rightarrow> ws_in \<Rightarrow> 'o daemon \<Rightarrow> 'o phase" where
  "start_phase conf now si first d =
     (case serve_start conf now si first d of
        Inl _ \<Rightarrow> Failed (registration conf d)
      | Inr st \<Rightarrow> Live (live st))"

definition hears :: "wake \<Rightarrow> message \<Rightarrow> wake" where
  "hears wk m = wk\<lparr>wk_msg := Some (InText (Some m))\<rparr>"

definition on_link :: "nat \<Rightarrow> ('o link \<Rightarrow> 'o link) \<Rightarrow> 'o network \<Rightarrow> 'o network" where
  "on_link k f w = w\<lparr>nw_links := (nw_links w)(k := f (nw_links w k))\<rparr>"

definition on_sys :: "action \<Rightarrow> 'o network \<Rightarrow> 'o network" where
  "on_sys ac w = w\<lparr>nw_sys := perform ac (nw_sys w)\<rparr>"

text \<open>What a link does with the next message, and with an event of the daemon's own.\<close>

definition link_greet ::
  "nat \<Rightarrow> (string + unit) \<Rightarrow> ws_in option \<Rightarrow> message list \<Rightarrow> 'o link \<Rightarrow> 'o link" where
  "link_greet now si other ms ln =
     (case ln_phase ln of
        Greeting d \<Rightarrow>
          (case other of
             Some frm \<Rightarrow>
               (if textless frm then ln\<lparr>ln_phase := start_phase (ln_conf ln) now si frm d\<rparr> else ln)
           | None \<Rightarrow>
               (if ln_down ln < length ms
                then ln\<lparr>ln_phase := start_phase (ln_conf ln) now si (InText (Some (ms ! ln_down ln))) d,
                        ln_down := Suc (ln_down ln)\<rparr>
                else ln))
      | _ \<Rightarrow> ln)"

definition link_alone :: "'o host \<Rightarrow> session_event \<Rightarrow> 'o link \<Rightarrow> 'o link" where
  "link_alone h ev ln =
     (case ln_phase ln of
        Live ls \<Rightarrow> (if wordless ev then ln\<lparr>ln_phase := Live (session_step h (ln_conf ln) ls ev)\<rparr> else ln)
      | _ \<Rightarrow> ln)"

definition link_hear :: "'o host \<Rightarrow> wake \<Rightarrow> message list \<Rightarrow> 'o link \<Rightarrow> 'o link" where
  "link_hear h wk ms ln =
     (case ln_phase ln of
        Live ls \<Rightarrow>
          (if ln_down ln < length ms
           then (let m = ms ! ln_down ln; ev = Wake (hears wk m); st = ls_state ls
                 in ln\<lparr>ln_phase := Live (session_step h (ln_conf ln) ls (Loop ev)),
                       ln_down := (if sv_outcome st = None \<and> poll (hears wk m) st = BrMsg (InText (Some m))
                                   then Suc (ln_down ln) else ln_down ln),
                       ln_handled := ln_handled ln @
                         (case dispatched ev st of Some m \<Rightarrow> [(m, sv_daemon st)] | None \<Rightarrow> [])\<rparr>)
           else ln)
      | _ \<Rightarrow> ln)"

text \<open>An action whose guard fails does nothing.\<close>

fun net_act :: "(nat \<Rightarrow> 'o host) \<Rightarrow> 'o network \<Rightarrow> 'o net_action \<Rightarrow> 'o network" where
  "net_act h w (Dial conf d) =
     (if sent (dm_tx d) = []
      then on_sys Accept (on_link (ntasks (nw_sys w))
             (\<lambda>_. \<lparr>ln_conf = conf, ln_phase = Greeting d, ln_up = 0, ln_down = 0, ln_handled = []\<rparr>) w)
      else w)"
| "net_act h w (Receive k now) =
     (let ln = nw_links w k
      in if k < ntasks (nw_sys w) \<and> ln_up ln < length (link_frames ln)
         then on_sys (Event k now (frame_event (link_frames ln ! ln_up ln)))
                (on_link k (\<lambda>ln. ln\<lparr>ln_up := Suc (ln_up ln)\<rparr>) w)
         else w)"
| "net_act h w (Task k now ev) = (if own_event ev then on_sys (Event k now ev) w else w)"
| "net_act h w (Local ac) = (if local_action ac then on_sys ac w else w)"
| "net_act h w (Request a m) =
     (if a < next_arc (reg (srv (nw_sys w))) \<and> \<not> controller_ack m
      then (on_sys (Send a m) w)
        \<lparr>nw_sends := (let k = channel_of (nw_sys w) a
           in if takes_requests (nw_sys w) k then (nw_sends w)(k := nw_sends w k @ [m]) else nw_sends w)\<rparr>
      else w)"
| "net_act h w (Greet k now si other) =
     (if k < ntasks (nw_sys w)
      then on_link k (link_greet now si other (ws_sent (tasks (nw_sys w) k))) w else w)"
| "net_act h w (Alone k ev) =
     (if k < ntasks (nw_sys w) then on_link k (link_alone (h k) ev) w else w)"
| "net_act h w (Hear k wk) =
     (if k < ntasks (nw_sys w)
      then on_link k (link_hear (h k) wk (ws_sent (tasks (nw_sys w) k))) w else w)"

definition no_link :: "'o link" where
  "no_link = \<lparr>ln_conf = \<lparr>sc_daemon_id = [], sc_heartbeat_interval = 0,
       sc_metadata = \<lparr>hostname = [], platform = [], arch = [], version = [], labels = []\<rparr>\<rparr>,
     ln_phase = Failed [], ln_up = 0, ln_down = 0, ln_handled = []\<rparr>"

definition net_new :: "'o network" where
  "net_new = \<lparr>nw_sys = system_new, nw_links = (\<lambda>_. no_link), nw_sends = (\<lambda>_. [])\<rparr>"

section \<open>Invariant\<close>

text \<open>A link: the requests handled are those of the messages heard, and every frame that answers a request
  is an answer to a handled message.\<close>

definition answered_by_handling :: "'o host \<Rightarrow> (message \<times> 'o daemon) list \<Rightarrow> frame \<Rightarrow> bool" where
  "answered_by_handling h handled f \<longleftrightarrow> control_frame f \<or> (\<exists>(m, d) \<in> set handled. f \<in> set (answers_to h m d))"

definition link_ok :: "'o host \<Rightarrow> message list \<Rightarrow> 'o link \<Rightarrow> bool" where
  "link_ok h ms ln \<longleftrightarrow>
     ln_down ln \<le> length ms \<and> ln_up ln \<le> length (link_frames ln) \<and>
     requests (map fst (ln_handled ln)) = requests (take (ln_down ln) ms) \<and>
     (case ln_phase ln of
        Greeting d \<Rightarrow> ln_down ln = 0 \<and> ln_handled ln = [] \<and> sent (dm_tx d) = []
      | _ \<Rightarrow> True) \<and>
     list_all (answered_by_handling h (ln_handled ln)) (link_frames ln)"

definition net_ok :: "(nat \<Rightarrow> 'o host) \<Rightarrow> 'o network \<Rightarrow> bool" where
  "net_ok h w \<longleftrightarrow> traffic_ok (nw_sends w) (nw_sys w) \<and>
     (\<forall>k < ntasks (nw_sys w). link_ok (h k) (ws_sent (tasks (nw_sys w) k)) (nw_links w k)) \<and>
     (\<forall>q m. oneshots (chans (srv (nw_sys w))) q = OsSent m \<longrightarrow>
        (\<exists>k < ntasks (nw_sys w). Text m \<in> set (link_frames (nw_links w k))))"

lemma answered_by_control: "list_all control_frame fs \<Longrightarrow> list_all (answered_by_handling h hs) fs"
  by (auto simp: answered_by_handling_def list_all_iff)

lemma answered_by_more:
  "list_all (answered_by_handling h hs) fs \<Longrightarrow> list_all (answered_by_handling h (hs @ hs2)) fs"
  by (auto simp: answered_by_handling_def list_all_iff)

lemma registration_frames:
  "sent (dm_tx d) = [] \<Longrightarrow> list_all control_frame (registration conf d)"
  by (simp add: registration_def send_text_sent)

lemma serve_start_frames:
  "serve_start conf now si first d = Inr st \<Longrightarrow> sent (dm_tx (sv_daemon st)) = registration conf d"
  by (auto simp: serve_start_def registration_def finish_serve_def Let_def
      split: prod.splits bool.splits ws_in.splits option.splits message.splits sum.splits if_splits)

lemma start_phase_frames:
  "link_frames (ln\<lparr>ln_phase := start_phase (ln_conf ln) now si first d\<rparr>) = registration (ln_conf ln) d"
  by (auto simp: start_phase_def link_frames_def live_def serve_start_frames split: sum.splits)

lemma start_phase_not_greeting [simp]: "start_phase conf now si first d \<noteq> Greeting d'"
  by (simp add: start_phase_def split: sum.splits)

lemma link_frames_fields [simp]:
  "link_frames (ln\<lparr>ln_up := u\<rparr>) = link_frames ln" "link_frames (ln\<lparr>ln_down := n\<rparr>) = link_frames ln"
  "link_frames (ln\<lparr>ln_handled := hs\<rparr>) = link_frames ln"
  by (simp_all add: link_frames_def split: phase.split)

lemma serve_step_answered:
  assumes "list_all (answered_by_handling h hs) (sent (dm_tx (sv_daemon st)))"
  shows "list_all (answered_by_handling h
      (hs @ (case dispatched ev st of Some m \<Rightarrow> [(m, sv_daemon st)] | None \<Rightarrow> [])))
    (sent (dm_tx (sv_daemon (serve_step h conf st ev))))"
proof (cases "dispatched ev st")
  case None
  with step_control [OF None, of h conf] assms show ?thesis
    by (auto simp: answered_by_control)
next
  case (Some m)
  have "list_all (answered_by_handling h (hs @ [(m, sv_daemon st)])) (answers_to h m (sv_daemon st))"
    by (simp add: answered_by_handling_def list_all_iff)
  with step_dispatched [OF Some, of h conf] answered_by_more [OF assms] Some show ?thesis
    by (simp add: handle_message_sent)
qed

lemma serve_step_grows:
  "\<exists>fs. sent (dm_tx (sv_daemon (serve_step h conf st ev))) = sent (dm_tx (sv_daemon st)) @ fs"
proof (cases "dispatched ev st")
  case None
  with step_control [OF None, of h conf] show ?thesis by blast
next
  case (Some m)
  with step_dispatched [OF Some, of h conf] show ?thesis by (simp add: handle_message_sent)
qed

text \<open>Frames are only ever added.\<close>

definition adds_frames :: "'o link \<Rightarrow> 'o link \<Rightarrow> bool" where
  "adds_frames ln ln' \<longleftrightarrow> (\<exists>fs. link_frames ln' = link_frames ln @ fs)"

lemma adds_frames_same: "link_frames ln' = link_frames ln \<Longrightarrow> adds_frames ln ln'"
  by (simp add: adds_frames_def)

lemma session_step_grows: "\<exists>fs. frames (session_step h conf ls ev) = frames ls @ fs"
proof (cases ev)
  case (Loop e)
  with serve_step_grows [of h conf "ls_state ls" e] show ?thesis by (simp add: session_step_def)
next
  case (Reader k r)
  with read_step_control [of k r ls] show ?thesis by (auto simp: session_step_def)
qed

lemma live_grows:
  assumes "ln_phase ln = Live ls" and "ln_phase ln' = Live (session_step h conf ls ev)"
  shows "adds_frames ln ln'"
  using session_step_grows [of h conf ls ev] assms by (simp add: adds_frames_def link_frames_def)

lemma link_greet_grows: "adds_frames ln (link_greet now si other ms ln)"
proof (cases "ln_phase ln")
  case (Greeting d)
  then have "link_frames ln = registration (ln_conf ln) d" by (simp add: link_frames_def)
  then show ?thesis
    using start_phase_frames [of ln now si _ d]
    by (auto simp: link_greet_def Greeting intro!: adds_frames_same split: option.splits)
qed (simp_all add: link_greet_def adds_frames_same)

lemma link_alone_grows: "adds_frames ln (link_alone h ev ln)"
  by (cases "ln_phase ln") (auto simp: link_alone_def adds_frames_same intro: live_grows)

lemma link_hear_grows: "adds_frames ln (link_hear h wk ms ln)"
  by (cases "ln_phase ln") (auto simp: link_hear_def adds_frames_same Let_def intro: live_grows)

text \<open>The invariant of a link over its steps.\<close>

lemma link_ok_more: "link_ok h ms ln \<Longrightarrow> link_ok h (ms @ ms2) ln"
  by (simp add: link_ok_def)

lemma link_ok_up:
  "link_ok h ms ln \<Longrightarrow> ln_up ln < length (link_frames ln) \<Longrightarrow> link_ok h ms (ln\<lparr>ln_up := Suc (ln_up ln)\<rparr>)"
  by (cases "ln_phase ln") (auto simp: link_ok_def)

lemma link_ok_dial: "sent (dm_tx d) = [] \<Longrightarrow>
    link_ok h [] \<lparr>ln_conf = conf, ln_phase = Greeting d, ln_up = 0, ln_down = 0, ln_handled = []\<rparr>"
  using answered_by_control [OF registration_frames [of d conf]]
  by (simp add: link_ok_def link_frames_def)

lemma link_ok_greet:
  assumes ok: "link_ok h ms ln" and first: "ms = [] \<or> controller_ack (hd ms)"
  shows "link_ok h ms (link_greet now si other ms ln)"
proof (cases "ln_phase ln")
  case (Greeting d)
  with ok have g: "ln_down ln = 0" "ln_handled ln = []" "sent (dm_tx d) = []"
    by (simp_all add: link_ok_def)
  have started: "link_ok h ms (ln\<lparr>ln_phase := start_phase (ln_conf ln) now si frm d, ln_down := n\<rparr>)"
    if "n \<le> length ms" "requests (take n ms) = []" for frm n
  proof -
    have "ln_up ln \<le> length (registration (ln_conf ln) d)"
      using ok Greeting by (simp add: link_ok_def link_frames_def)
    with that g start_phase_frames [of ln now si frm d] answered_by_control [OF registration_frames [OF g(3)]]
    show ?thesis
      by (auto simp: link_ok_def split: phase.split)
  qed
  have acked: "requests (take (Suc 0) ms) = []" if "0 < length ms"
    using that first by (cases ms) auto
  have same: "ln\<lparr>ln_phase := p\<rparr> = ln\<lparr>ln_phase := p, ln_down := 0\<rparr>" for p using g(1) by simp
  show ?thesis
  proof (cases other)
    case None
    show ?thesis
    proof (cases "0 < length ms")
      case True
      with started [OF _ acked [OF True], of "InText (Some (ms ! 0))"] show ?thesis
        by (simp add: link_greet_def Greeting None g(1) Suc_le_eq)
    next
      case False
      with ok show ?thesis by (simp add: link_greet_def Greeting None)
    qed
  next
    case (Some frm)
    with ok started [of 0 frm] show ?thesis
      by (simp add: link_greet_def Greeting same [symmetric])
  qed
qed (use ok in \<open>simp_all add: link_greet_def\<close>)

lemma link_ok_alone:
  assumes ok: "link_ok h ms ln"
  shows "link_ok h ms (link_alone h ev ln)"
proof (cases "\<exists>ls. ln_phase ln = Live ls \<and> wordless ev")
  case False
  then have "link_alone h ev ln = ln" by (auto simp: link_alone_def split: phase.split)
  with ok show ?thesis by simp
next
  case True
  then obtain ls where live: "ln_phase ln = Live ls" "wordless ev" by blast
  let ?ls = "session_step h (ln_conf ln) ls ev"
  from ok live have old: "list_all (answered_by_handling h (ln_handled ln)) (frames ls)"
    by (simp add: link_ok_def link_frames_def)
  have "list_all (answered_by_handling h (ln_handled ln)) (frames ?ls)"
  proof (cases ev)
    case (Loop e)
    have "dispatched e (ls_state ls) = None"
    proof (cases "dispatched e (ls_state ls)")
      case (Some m)
      then obtain wk where "e = Wake wk" "wk_msg wk = Some (InText (Some m))"
        by (auto simp: dispatched_iff poll_def split: if_splits option.splits)
      with live(2) Loop show ?thesis by simp
    qed
    with serve_step_answered [OF old, of e "ln_conf ln"] Loop show ?thesis by (simp add: session_step_def)
  next
    case (Reader k r)
    with read_step_control [of k r ls] old show ?thesis
      by (auto simp: session_step_def answered_by_control)
  qed
  moreover have "length (frames ls) \<le> length (frames ?ls)"
    using session_step_grows [of h "ln_conf ln" ls ev] by auto
  ultimately show ?thesis
    using ok live by (simp add: link_ok_def link_alone_def link_frames_def)
qed

lemma link_ok_hear:
  assumes ok: "link_ok h ms ln"
  shows "link_ok h ms (link_hear h wk ms ln)"
proof (cases "\<exists>ls. ln_phase ln = Live ls \<and> ln_down ln < length ms")
  case False
  then have "link_hear h wk ms ln = ln" by (auto simp: link_hear_def split: phase.split)
  with ok show ?thesis by simp
next
  case True
  then obtain ls where live: "ln_phase ln = Live ls" "ln_down ln < length ms" by blast
  let ?m = "ms ! ln_down ln" and ?st = "ls_state ls"
  let ?ev = "Wake (hears wk ?m)"
  let ?ls = "session_step h (ln_conf ln) ls (Loop ?ev)"
  let ?new = "case dispatched ?ev ?st of Some m \<Rightarrow> [(m, sv_daemon ?st)] | None \<Rightarrow> []"
  let ?taken = "sv_outcome ?st = None \<and> poll (hears wk ?m) ?st = BrMsg (InText (Some ?m))"
  from ok live have old: "list_all (answered_by_handling h (ln_handled ln)) (frames ls)"
    by (simp add: link_ok_def link_frames_def)
  have frames: "list_all (answered_by_handling h (ln_handled ln @ ?new)) (frames ?ls)"
    using serve_step_answered [OF old, of ?ev "ln_conf ln"] by (simp add: session_step_def)
  have grows: "length (frames ls) \<le> length (frames ?ls)"
    using session_step_grows [of h "ln_conf ln" ls "Loop ?ev"] by auto
  have disp: "dispatched ?ev ?st = (if ?taken \<and> \<not> heartbeat_answer ?m then Some ?m else None)"
  proof -
    have "poll (hears wk ?m) ?st = BrMsg (InText (Some m)) \<Longrightarrow> m = ?m" for m
      by (auto simp: poll_def hears_def split: if_splits)
    then show ?thesis
      using dispatched_iff [of ?ev ?st] by (cases "dispatched ?ev ?st") auto
  qed
  have "take (if ?taken then Suc (ln_down ln) else ln_down ln) ms =
      take (ln_down ln) ms @ (if ?taken then [?m] else [])"
    using live(2) by (simp add: take_Suc_conv_app_nth)
  moreover have "requests (map fst ?new) = requests (if ?taken then [?m] else [])"
    unfolding disp by (auto simp: requests_def heartbeat_answer_iff)
  ultimately have "requests (map fst (ln_handled ln @ ?new)) =
      requests (take (if ?taken then Suc (ln_down ln) else ln_down ln) ms)"
    using ok by (simp add: link_ok_def)
  with frames grows ok live show ?thesis
    by (simp add: link_ok_def link_hear_def Let_def link_frames_def)
qed

section \<open>The network keeps its invariant\<close>

text \<open>An action of the server: what its tasks have sent only grows, and a caller's channel is filled only
  with the message of the event.\<close>

lemma event_grows:
  "\<exists>ms. ws_sent (tasks (perform (Event k now ev) s) j) = ws_sent (tasks s j) @ ms"
  using ws_step_sent [of now ev "tasks s k" "srv s"] by (simp add: case_prod_unfold)

lemma event_answer:
  assumes "oneshots (chans (srv (perform (Event k now ev) s))) q = OsSent m"
  shows "oneshots (chans (srv s)) q = OsSent m \<or> ev = WsText (Some m)"
  using assms ws_step_answer [of now ev "tasks s k" "srv s" q m]
  by (auto simp: case_prod_unfold split: if_splits)

lemma event_ntasks: "ntasks (perform (Event k now ev) s) = ntasks s"
  by (simp add: case_prod_unfold)

text \<open>A step of the server that keeps its own invariant, sends no answer but one of \<open>fs\<close>, and of which no
  task unsends anything.\<close>

lemma net_ok_sys:
  assumes ok: "net_ok h w" and traffic: "traffic_ok ss s'" and n: "ntasks s' = ntasks (nw_sys w)"
    and grows: "\<And>k. \<exists>ms. ws_sent (tasks s' k) = ws_sent (tasks (nw_sys w) k) @ ms"
    and answers: "\<And>q m. oneshots (chans (srv s')) q = OsSent m \<Longrightarrow> oneshots (chans (srv (nw_sys w))) q = OsSent m \<or>
        (\<exists>k < ntasks (nw_sys w). Text m \<in> set (link_frames (nw_links w k)))"
  shows "net_ok h (w\<lparr>nw_sys := s', nw_sends := ss\<rparr>)"
proof -
  have "link_ok (h k) (ws_sent (tasks s' k)) (nw_links w k)" if "k < ntasks s'" for k
    using ok grows [of k] that n by (auto simp: net_ok_def link_ok_more)
  moreover have "\<exists>k < ntasks s'. Text m \<in> set (link_frames (nw_links w k))"
    if "oneshots (chans (srv s')) q = OsSent m" for q m
    using ok answers [OF that] n by (auto simp: net_ok_def)
  ultimately show ?thesis using traffic by (simp add: net_ok_def)
qed

lemma net_ok_answerD:
  "net_ok h w \<Longrightarrow> oneshots (chans (srv (nw_sys w))) q = OsSent m \<Longrightarrow>
     \<exists>k < ntasks (nw_sys w). Text m \<in> set (link_frames (nw_links w k))"
  unfolding net_ok_def by blast

lemma net_ok_link:
  assumes ok: "net_ok h w" and k: "k < ntasks (nw_sys w)"
    and link: "link_ok (h k) (ws_sent (tasks (nw_sys w) k)) (nw_links w k) \<Longrightarrow>
        link_ok (h k) (ws_sent (tasks (nw_sys w) k)) (f (nw_links w k))"
    and grows: "adds_frames (nw_links w k) (f (nw_links w k))"
  shows "net_ok h (on_link k f w)"
proof -
  let ?links = "(nw_links w)(k := f (nw_links w k))"
  have more: "Text m \<in> set (link_frames (?links j))" if "Text m \<in> set (link_frames (nw_links w j))" for j m
    using that grows by (auto simp: adds_frames_def)
  have "link_ok (h j) (ws_sent (tasks (nw_sys w) j)) (?links j)" if "j < ntasks (nw_sys w)" for j
    using ok that link by (auto simp: net_ok_def)
  moreover have "\<exists>j < ntasks (nw_sys w). Text m \<in> set (link_frames (?links j))"
    if "oneshots (chans (srv (nw_sys w))) q = OsSent m" for q m
    using net_ok_answerD [OF ok that] more by blast
  moreover have "traffic_ok (nw_sends w) (nw_sys w)" using ok by (simp add: net_ok_def)
  moreover have eq: "nw_sys (on_link k f w) = nw_sys w" "nw_sends (on_link k f w) = nw_sends w"
    "nw_links (on_link k f w) = ?links" by (simp_all add: on_link_def)
  ultimately show ?thesis
    unfolding net_ok_def eq by blast
qed

lemma net_ok_dial:
  assumes ok: "net_ok h w" and d: "sent (dm_tx d) = []"
  shows "net_ok h (net_act h w (Dial conf d))"
proof -
  let ?s = "nw_sys w"
  have t: "traffic_ok (nw_sends w) (perform Accept ?s)"
    using ok traffic_accept by (auto simp: net_ok_def)
  have "link_ok (h k) (ws_sent (ws_task_new k)) \<lparr>ln_conf = conf, ln_phase = Greeting d, ln_up = 0,
      ln_down = 0, ln_handled = []\<rparr>" for k
    using link_ok_dial [OF d] by (simp add: ws_task_new_def)
  moreover have "\<exists>k < Suc (ntasks ?s). Text m \<in> set (link_frames (((nw_links w)(ntasks ?s := l)) k))"
    if "oneshots (chans (srv ?s)) q = OsSent m" for q m l
  proof -
    from net_ok_answerD [OF ok that] obtain k
      where "k < ntasks ?s" "Text m \<in> set (link_frames (nw_links w k))" by blast
    then show ?thesis by (intro exI [of _ k]) simp
  qed
  ultimately show ?thesis
    using ok t d by (simp add: net_ok_def on_sys_def on_link_def less_Suc_eq)
qed

lemma net_ok_receive:
  assumes ok: "net_ok h w"
  shows "net_ok h (net_act h w (Receive k now))"
proof (cases "k < ntasks (nw_sys w) \<and> ln_up (nw_links w k) < length (link_frames (nw_links w k))")
  case False
  with ok show ?thesis by (auto simp: Let_def)
next
  case True
  let ?f = "link_frames (nw_links w k) ! ln_up (nw_links w k)"
  let ?w = "on_link k (\<lambda>ln. ln\<lparr>ln_up := Suc (ln_up ln)\<rparr>) w"
  let ?s = "perform (Event k now (frame_event ?f)) (nw_sys w)"
  have w: "net_ok h ?w"
    by (rule net_ok_link [OF ok]) (use True in \<open>auto intro: link_ok_up adds_frames_same\<close>)
  have same: "nw_sys ?w = nw_sys w" "nw_sends ?w = nw_sends w" by (simp_all add: on_link_def)
  have traffic: "traffic_ok (nw_sends w) ?s"
    using ok traffic_event by (auto simp: net_ok_def simp del: perform.simps)
  have f: "?f \<in> set (link_frames (nw_links ?w k))" using True by (simp add: on_link_def)
  have "net_ok h (?w\<lparr>nw_sys := ?s, nw_sends := nw_sends w\<rparr>)"
  proof (rule net_ok_sys [OF w traffic])
    fix q m
    assume "oneshots (chans (srv ?s)) q = OsSent m"
    from event_answer [OF this] f True
    show "oneshots (chans (srv (nw_sys ?w))) q = OsSent m \<or>
        (\<exists>k < ntasks (nw_sys ?w). Text m \<in> set (link_frames (nw_links ?w k)))"
      unfolding same by (auto simp: frame_event_def split: frame.splits)
  qed (simp_all only: same event_ntasks event_grows)
  moreover have "net_act h w (Receive k now) = ?w\<lparr>nw_sys := ?s, nw_sends := nw_sends w\<rparr>"
    using True same by (simp add: Let_def on_sys_def del: perform.simps)
  ultimately show ?thesis by simp
qed

lemma net_ok_on_sys:
  assumes "net_ok h w" and "traffic_ok (nw_sends w) (perform ac (nw_sys w))"
    and "ntasks (perform ac (nw_sys w)) = ntasks (nw_sys w)"
    and "\<And>k. \<exists>ms. ws_sent (tasks (perform ac (nw_sys w)) k) = ws_sent (tasks (nw_sys w) k) @ ms"
    and "\<And>q m. oneshots (chans (srv (perform ac (nw_sys w)))) q = OsSent m \<Longrightarrow>
        oneshots (chans (srv (nw_sys w))) q = OsSent m"
  shows "net_ok h (on_sys ac w)"
proof -
  have "net_ok h (w\<lparr>nw_sys := perform ac (nw_sys w), nw_sends := nw_sends w\<rparr>)"
    using assms by (intro net_ok_sys) auto
  then show ?thesis by (simp add: on_sys_def)
qed

lemma net_ok_task:
  assumes ok: "net_ok h w" and own: "own_event ev"
  shows "net_ok h (on_sys (Event k now ev) w)"
proof (rule net_ok_on_sys [OF ok _ event_ntasks event_grows])
  show "traffic_ok (nw_sends w) (perform (Event k now ev) (nw_sys w))"
    using ok by (intro traffic_event) (simp add: net_ok_def)
  show "oneshots (chans (srv (nw_sys w))) q = OsSent m"
    if "oneshots (chans (srv (perform (Event k now ev) (nw_sys w)))) q = OsSent m" for q m
    using event_answer [OF that] own by (cases ev) auto
qed

lemma net_ok_local:
  assumes ok: "net_ok h w" and lc: "local_action lc"
  shows "net_ok h (on_sys lc w)"
proof (rule net_ok_on_sys [OF ok _ local_fields(1) [OF lc] _ local_answer [OF lc]])
  show "traffic_ok (nw_sends w) (perform lc (nw_sys w))"
    using ok lc by (intro traffic_local) (simp_all add: net_ok_def)
  show "\<exists>ms. ws_sent (tasks (perform lc (nw_sys w)) k) = ws_sent (tasks (nw_sys w) k) @ ms" for k
    by (rule local_task [OF lc, of "nw_sys w" k]) simp
qed

lemma net_ok_request:
  assumes ok: "net_ok h w"
  shows "net_ok h (net_act h w (Request a m))"
proof (cases "a < next_arc (reg (srv (nw_sys w))) \<and> \<not> controller_ack m")
  case True
  let ?s = "nw_sys w" and ?k = "channel_of (nw_sys w) a"
  let ?ss = "if takes_requests ?s ?k then (nw_sends w)(?k := nw_sends w ?k @ [m]) else nw_sends w"
  obtain s' where s': "s' = perform (Send a m) ?s" by blast
  have a: "a < next_arc (reg (srv ?s))" using True by blast
  note f = send_fields [OF a, of m, folded s']
  have "traffic_ok ?ss s'"
    unfolding s' using ok True by (intro traffic_send) (auto simp: net_ok_def)
  then have "net_ok h (w\<lparr>nw_sys := s', nw_sends := ?ss\<rparr>)"
    by (rule net_ok_sys [OF ok]) (simp_all add: f)
  moreover have "net_act h w (Request a m) = w\<lparr>nw_sys := s', nw_sends := ?ss\<rparr>"
    using True by (simp add: on_sys_def Let_def s' del: perform.simps)
  ultimately show ?thesis by simp
next
  case False
  then have "net_act h w (Request a m) = w" by auto
  with ok show ?thesis by simp
qed

lemma net_ok_greet:
  assumes ok: "net_ok h w" and k: "k < ntasks (nw_sys w)"
  shows "net_ok h (on_link k (link_greet now si other (ws_sent (tasks (nw_sys w) k))) w)"
proof -
  have "ws_sent (tasks (nw_sys w) k) = [] \<or> controller_ack (hd (ws_sent (tasks (nw_sys w) k)))"
    using ok k by (auto simp: net_ok_def traffic_ok_def greets_first_def)
  then show ?thesis
    by (intro net_ok_link [OF ok k] link_ok_greet link_greet_grows)
qed

lemma net_ok_act:
  assumes ok: "net_ok h w"
  shows "net_ok h (net_act h w ac)"
proof (cases ac)
  case (Dial conf d)
  with ok net_ok_dial [of h w d conf] show ?thesis by (cases "sent (dm_tx d) = []") simp_all
next
  case (Receive k now)
  with net_ok_receive [OF ok] show ?thesis by simp
next
  case (Task k now ev)
  with ok net_ok_task [OF ok] show ?thesis by simp
next
  case (Local lc)
  with ok net_ok_local [OF ok] show ?thesis by simp
next
  case (Request a m)
  with net_ok_request [OF ok] show ?thesis by simp
next
  case (Greet k now si other)
  with ok net_ok_greet [OF ok] show ?thesis by simp
next
  case (Alone k ev)
  with ok show ?thesis by (simp add: net_ok_link link_ok_alone link_alone_grows)
next
  case (Hear k wk)
  with ok show ?thesis by (simp add: net_ok_link link_ok_hear link_hear_grows)
qed

lemma net_ok_new: "net_ok h net_new"
  using traffic_new
  by (simp add: net_ok_def net_new_def system_new_def server_new_def channels_new_def)

text \<open>The network is a machine that keeps its invariant.\<close>

interpretation net_machine: event_machine "net_act h" "net_ok h" for h
  by unfold_locales (rule net_ok_act)

section \<open>Properties\<close>

text \<open>How often the calls asked for a message to be sent.\<close>

definition asks_for :: "message \<Rightarrow> 'o net_action \<Rightarrow> bool" where
  "asks_for m ac = (case ac of Request _ m' \<Rightarrow> m' = m | _ \<Rightarrow> False)"

lemma sends_step:
  "(\<Sum>k<n. count_list (nw_sends (net_act h w ac) k) m) \<le>
     (\<Sum>k<n. count_list (nw_sends w k) m) + (if asks_for m ac then 1 else 0)"
proof (cases "\<exists>a m'. ac = Request a m'")
  case False
  then have "nw_sends (net_act h w ac) = nw_sends w"
    by (cases ac) (auto simp: on_sys_def on_link_def Let_def)
  then show ?thesis by simp
next
  case True
  then obtain a m' where ac: "ac = Request a m'" by blast
  let ?k = "channel_of (nw_sys w) a"
  let ?ss = "(nw_sends w)(?k := nw_sends w ?k @ [m'])"
  have "nw_sends (net_act h w ac) = nw_sends w \<or> nw_sends (net_act h w ac) = ?ss"
    by (auto simp: ac Let_def on_sys_def)
  moreover have "(\<Sum>k<n. count_list (?ss k) m) \<le> (\<Sum>k<n. count_list (nw_sends w k) m) + (if m' = m then 1 else 0)"
  proof (cases "?k < n")
    case True
    then have "(\<Sum>k<n. count_list (?ss k) m) = count_list (?ss ?k) m + (\<Sum>k\<in>{..<n} - {?k}. count_list (?ss k) m)"
      by (intro sum.remove) auto
    moreover have "(\<Sum>k<n. count_list (nw_sends w k) m) =
        count_list (nw_sends w ?k) m + (\<Sum>k\<in>{..<n} - {?k}. count_list (nw_sends w k) m)"
      using True by (intro sum.remove) auto
    ultimately show ?thesis by simp
  next
    case False
    then have "(\<Sum>k<n. count_list (?ss k) m) = (\<Sum>k<n. count_list (nw_sends w k) m)"
      by (intro sum.cong) auto
    then show ?thesis by simp
  qed
  ultimately show ?thesis by (auto simp: ac asks_for_def)
qed

lemma sends_bounded:
  "(\<Sum>k<n. count_list (nw_sends (foldl (net_act h) net_new acs) k) m) \<le> length (filter (asks_for m) acs)"
proof (induction acs rule: rev_induct)
  case Nil
  then show ?case by (simp add: net_new_def)
next
  case (snoc ac acs)
  from sends_step [of h "foldl (net_act h) net_new acs" ac m n] snoc show ?case
    by (simp split: if_splits)
qed

lemma net_reachable_ok: "net_ok h (foldl (net_act h) net_new acs)"
  by (rule net_machine.inv_run [OF net_ok_new])

definition handled :: "'o network \<Rightarrow> nat \<Rightarrow> message list" where
  "handled w k = map fst (ln_handled (nw_links w k))"

lemma handled_prefix:
  assumes "net_ok h w" and "k < ntasks (nw_sys w)"
  shows "prefix (requests (handled w k)) (nw_sends w k)"
proof -
  let ?t = "tasks (nw_sys w) k" and ?n = "ln_down (nw_links w k)"
  from assms have "requests (handled w k) = requests (take ?n (ws_sent ?t))"
    by (simp add: net_ok_def link_ok_def handled_def)
  moreover have "requests (ws_sent ?t) = requests (take ?n (ws_sent ?t)) @ requests (drop ?n (ws_sent ?t))"
    by (metis append_take_drop_id requests_simps(2))
  moreover have "prefix (requests (ws_sent ?t)) (nw_sends w k)"
    using assms by (auto simp: net_ok_def traffic_ok_def chan_ok_def split: if_splits)
  ultimately show ?thesis by (metis prefixI prefix_order.trans)
qed

text \<open>C8. Whatever happens to the server, the daemons and the connections, in any order: a daemon handles
  exactly the first requests the calls have put on its connection, each once and in their order,
  with none left out between them; so no request is handled more often, by all daemons together
  and over all reconnections, than calls asked for it.\<close>

theorem handled_at_most_once:
  assumes "foldl (net_act h) net_new acs = w" and "\<not> controller_ack m"
  shows "(\<forall>k < ntasks (nw_sys w). \<exists>rest. nw_sends w k = requests (handled w k) @ rest) \<and>
    (\<Sum>k < ntasks (nw_sys w). count_list (handled w k) m) \<le> length (filter (asks_for m) acs)"
proof
  have ok: "net_ok h w" using net_reachable_ok assms(1) by blast
  show "\<forall>k < ntasks (nw_sys w). \<exists>rest. nw_sends w k = requests (handled w k) @ rest"
    using handled_prefix [OF ok] by (auto elim: prefixE)
  have "count_list (handled w k) m \<le> count_list (nw_sends w k) m" if "k < ntasks (nw_sys w)" for k
  proof -
    have "count_list (requests (handled w k)) m \<le> count_list (nw_sends w k) m"
      using handled_prefix [OF ok that] by (auto elim: prefixE)
    moreover have "count_list (requests ms) m = count_list ms m" for ms
      using assms(2) by (induction ms) (auto simp: requests_def)
    ultimately show ?thesis by simp
  qed
  then have "(\<Sum>k < ntasks (nw_sys w). count_list (handled w k) m) \<le>
      (\<Sum>k < ntasks (nw_sys w). count_list (nw_sends w k) m)"
    by (intro sum_mono) simp
  also have "\<dots> \<le> length (filter (asks_for m) acs)"
    using sends_bounded [of h acs m] assms(1) by blast
  finally show "(\<Sum>k < ntasks (nw_sys w). count_list (handled w k) m) \<le> length (filter (asks_for m) acs)" .
qed

text \<open>C7. An answer a call receives is authentic: it is one that a daemon's handler sent for a request
  with the call's own id, which a call had put on that daemon's connection and the daemon has
  handled; no other run of the server and the daemons can fill the call's channel.\<close>

theorem answers_are_authentic:
  assumes "foldl (net_act h) net_new acs = w" and "oneshots (chans (srv (nw_sys w))) q = OsSent a"
  shows "\<exists>k < ntasks (nw_sys w). \<exists>(m, d) \<in> set (ln_handled (nw_links w k)).
    request_id m = Some (owner (nw_sys w) q) \<and> m \<in> set (nw_sends w k) \<and>
    Text a \<in> set (answers_to (h k) m d)"
proof -
  have ok: "net_ok h w" using net_reachable_ok assms(1) by blast
  then have "response_id a = Some (owner (nw_sys w) q)"
    using assms(2) by (simp add: net_ok_def traffic_ok_def sys_ok_def srv_ok_def)
  moreover obtain k where k: "k < ntasks (nw_sys w)" "Text a \<in> set (link_frames (nw_links w k))"
    using net_ok_answerD [OF ok assms(2)] by blast
  moreover from k ok have "answered_by_handling (h k) (ln_handled (nw_links w k)) (Text a)"
    by (auto simp: net_ok_def link_ok_def list_all_iff)
  ultimately obtain m d where m: "(m, d) \<in> set (ln_handled (nw_links w k))" "Text a \<in> set (answers_to (h k) m d)"
    by (auto simp: answered_by_handling_def control_frame_def)
  with answers_to_id [OF m(2)] \<open>response_id a = _\<close> have id: "request_id m = Some (owner (nw_sys w) q)" by blast
  then have "\<not> controller_ack m" by (cases m) (simp_all add: controller_ack_def)
  with m(1) have "m \<in> set (requests (handled w k))"
    by (auto simp: requests_def handled_def image_iff intro: bexI [of _ "(m, d)"])
  with handled_prefix [OF ok k(1)] have "m \<in> set (nw_sends w k)" by (auto elim: prefixE)
  with k(1) m id show ?thesis by blast
qed

text \<open>A run in which a daemon dials and registers, a call asks for its snapshots, and the answer arrives.\<close>

definition demo_run :: "nat net_action list" where
  "demo_run = [Dial demo_conf demo_daemon, Receive 0 1, Greet 0 1 (Inr ()) None, Local (Begin 0 ''r1''),
     Request 0 (ListSnapshots ''r1'' None), Task 0 2 ReqReady, Hear 0 (at_time 3), Receive 0 4]"

definition demo_actions :: "action list" where
  "demo_actions = [Accept, Event 0 1 (WsText (Some (register_message demo_conf))), Begin 0 ''r1'',
     Send 0 (ListSnapshots ''r1'' None), Event 0 2 ReqReady, Event 0 4 (WsText (Some (SnapshotList ''r1'' [])))]"

definition demo_sys :: "nat \<Rightarrow> system" where
  "demo_sys n = fold perform (take n demo_actions) system_new"

lemma demo_sys_steps:
  "perform Accept system_new = demo_sys 1"
  "perform (Event 0 1 (WsText (Some (register_message demo_conf)))) (demo_sys 1) = demo_sys 2"
  "perform (Begin 0 ''r1'') (demo_sys 2) = demo_sys 3"
  "perform (Send 0 (ListSnapshots ''r1'' None)) (demo_sys 3) = demo_sys 4"
  "perform (Event 0 2 ReqReady) (demo_sys 4) = demo_sys 5"
  "perform (Event 0 4 (WsText (Some (SnapshotList ''r1'' [])))) (demo_sys 5) = demo_sys 6"
  unfolding demo_sys_def demo_actions_def by (simp_all add: eval_nat_numeral del: perform.simps)

lemma demo_sys_facts:
  "ntasks (demo_sys 1) = 1" "ntasks (demo_sys 2) = 1" "ntasks (demo_sys 5) = 1" "ntasks (demo_sys 6) = 1"
  "ws_sent (tasks (demo_sys 2) 0) = [RegisterAck True ''Successfully registered'']"
  "ws_sent (tasks (demo_sys 5) 0) = [RegisterAck True ''Successfully registered'', ListSnapshots ''r1'' None]"
  "next_arc (reg (srv (demo_sys 3))) = 1" "channel_of (demo_sys 3) 0 = 0" "takes_requests (demo_sys 3) 0"
  "oneshots (chans (srv (demo_sys 6))) 0 = OsSent (SnapshotList ''r1'' [])" "owner (demo_sys 6) 0 = ''r1''"
  by code_simp+

definition demo_link :: "nat phase \<Rightarrow> nat \<Rightarrow> nat \<Rightarrow> (message \<times> nat daemon) list \<Rightarrow> nat link" where
  "demo_link p up down hs = \<lparr>ln_conf = demo_conf, ln_phase = p, ln_up = up, ln_down = down, ln_handled = hs\<rparr>"

definition demo_net :: "nat \<Rightarrow> nat link \<Rightarrow> message list \<Rightarrow> nat network" where
  "demo_net n ln ss = \<lparr>nw_sys = demo_sys n, nw_links = (\<lambda>_. no_link)(0 := ln), nw_sends = (\<lambda>_. [])(0 := ss)\<rparr>"

abbreviation "demo_act \<equiv> net_act (\<lambda>_. demo_host)"

lemma demo_dial: "demo_act net_new (Dial demo_conf demo_daemon) = demo_net 1 (demo_link (Greeting demo_daemon) 0 0 []) []"
proof -
  have "sent (dm_tx demo_daemon) = []" "ntasks system_new = 0" by (simp_all add: demo_daemon_def system_new_def)
  then show ?thesis
    by (simp add: net_new_def on_sys_def on_link_def demo_sys_steps(1) demo_net_def demo_link_def fun_upd_idem
        del: perform.simps)
qed

lemma demo_receive:
  assumes "ntasks (demo_sys n) = 1" and "up < length (link_frames (demo_link p up down hs))"
    and "perform (Event 0 now (frame_event (link_frames (demo_link p up down hs) ! up))) (demo_sys n) = demo_sys n'"
  shows "demo_act (demo_net n (demo_link p up down hs) ss) (Receive 0 now) = demo_net n' (demo_link p (Suc up) down hs) ss"
  using assms by (simp add: demo_net_def on_sys_def on_link_def demo_link_def Let_def del: perform.simps)

lemma demo_greet:
  "demo_act (demo_net 2 (demo_link (Greeting demo_daemon) 1 0 []) []) (Greet 0 1 (Inr ()) None) =
     demo_net 2 (demo_link (Live (live (demo_session\<lparr>sv_last_ack := 1\<rparr>))) 1 1 []) []"
proof -
  have "serve_start demo_conf 1 (Inr ()) (InText (Some (RegisterAck True ''Successfully registered''))) demo_daemon =
      Inr (demo_session\<lparr>sv_last_ack := 1\<rparr>)"
    by (simp add: serve_start_def demo_session_def demo_daemon_def send_text_def tx_send_def)
  then show ?thesis
    by (simp add: demo_net_def on_link_def demo_link_def link_greet_def demo_sys_facts start_phase_def)
qed

text \<open>The daemon answers the request.\<close>

definition demo_listed :: "nat serve_state" where
  "demo_listed = demo_session\<lparr>sv_daemon := (sv_daemon demo_session)
       \<lparr>dm_tx := \<lparr>sent = [Text (register_message demo_conf), Text (SnapshotList ''r1'' [])], limit = 10\<rparr>\<rparr>,
     sv_last_ack := 3\<rparr>"

lemma demo_hear:
  "demo_act (demo_net 5 (demo_link (Live (live (demo_session\<lparr>sv_last_ack := 1\<rparr>))) 1 1 []) ss) (Hear 0 (at_time 3)) =
     demo_net 5 (demo_link (Live (live demo_listed)) 1 2 [(ListSnapshots ''r1'' None, sv_daemon demo_session)]) ss"
proof -
  let ?m = "ListSnapshots ''r1'' None" and ?st = "demo_session\<lparr>sv_last_ack := 1\<rparr>"
  let ?ev = "Wake (hears (at_time 3) ?m)"
  have p: "poll (hears (at_time 3) ?m) ?st = BrMsg (InText (Some ?m))" "sv_outcome ?st = None"
    by (simp_all add: poll_def hears_def at_time_def demo_session_def)
  have d: "dispatched ?ev ?st = Some ?m"
    unfolding dispatched_iff using p by (simp add: heartbeat_answer_def)
  have "wk_done (hears (at_time 3) ?m) = 3" by (simp add: hears_def at_time_def)
  then have "serve_step demo_host demo_conf ?st ?ev = demo_listed"
    using p by (simp add: serve_step_def serve_wake_def serve_frame_text heartbeat_answer_def handle_message_def
        answer_with_def demo_host_def send_text_def tx_send_def demo_session_def demo_listed_def demo_daemon_def)
  moreover have "opened demo_host ?st ?ev = None" using p by (simp add: opened_def)
  ultimately have "session_step demo_host demo_conf (live ?st) (Loop ?ev) = live demo_listed"
    by (simp add: session_step_def live_def)
  with p d show ?thesis
    by (simp add: demo_net_def on_link_def demo_link_def link_hear_def demo_sys_facts live_def Let_def
        numeral_2_eq_2)
qed

lemma demo_run_net:
  "foldl demo_act net_new demo_run =
     demo_net 6 (demo_link (Live (live demo_listed)) 2 2 [(ListSnapshots ''r1'' None, sv_daemon demo_session)])
       [ListSnapshots ''r1'' None]"
proof -
  have begin1: "demo_act (demo_net 2 ln ss) (Local (Begin 0 ''r1'')) = demo_net 3 ln ss" for ln ss
    by (simp add: on_sys_def demo_net_def demo_sys_steps del: perform.simps)
  have request: "demo_act (demo_net 3 ln []) (Request 0 (ListSnapshots ''r1'' None)) =
      demo_net 4 ln [ListSnapshots ''r1'' None]" for ln
    by (simp add: on_sys_def demo_net_def demo_sys_steps demo_sys_facts controller_ack_def del: perform.simps)
  have task: "demo_act (demo_net 4 ln ss) (Task 0 2 ReqReady) = demo_net 5 ln ss" for ln ss
    by (simp add: on_sys_def demo_net_def demo_sys_steps del: perform.simps)
  have up1: "demo_act (demo_net 1 (demo_link (Greeting demo_daemon) 0 0 []) ss) (Receive 0 1) =
      demo_net 2 (demo_link (Greeting demo_daemon) 1 0 []) ss" for ss
    unfolding One_nat_def
    by (rule demo_receive) (simp_all add: demo_sys_facts [unfolded One_nat_def] link_frames_def demo_link_def registration_def
      send_text_sent demo_daemon_def frame_event_def demo_sys_steps [unfolded One_nat_def] del: perform.simps)
  show ?thesis
    unfolding demo_run_def foldl.simps demo_dial up1 demo_greet begin1 request task demo_hear
    unfolding numeral_2_eq_2 One_nat_def
    by (rule demo_receive) (simp_all add: demo_sys_facts [unfolded One_nat_def] link_frames_def demo_link_def live_def
      demo_listed_def frame_event_def demo_sys_steps [unfolded One_nat_def] del: perform.simps)
qed

theorem handled_at_most_once_witness:
  "(\<exists>rest. nw_sends (foldl demo_act net_new demo_run) 0 = requests (handled (foldl demo_act net_new demo_run) 0) @ rest) \<and>
   handled (foldl demo_act net_new demo_run) 0 = [ListSnapshots ''r1'' None] \<and>
   length (filter (asks_for (ListSnapshots ''r1'' None)) demo_run) = 1"
proof -
  have n: "ntasks (nw_sys (foldl demo_act net_new demo_run)) = 1"
    unfolding demo_run_net by (simp add: demo_net_def demo_sys_facts)
  have "handled (foldl demo_act net_new demo_run) 0 = [ListSnapshots ''r1'' None]"
    unfolding demo_run_net by (simp add: handled_def demo_net_def demo_link_def)
  moreover have "length (filter (asks_for (ListSnapshots ''r1'' None)) demo_run) = 1"
    by (simp add: demo_run_def asks_for_def)
  ultimately show ?thesis
    using handled_at_most_once [OF refl, of "ListSnapshots ''r1'' None" "\<lambda>_. demo_host" demo_run] n
    by (simp add: controller_ack_def)
qed

theorem answers_are_authentic_witness:
  "(\<exists>(m, d) \<in> set (ln_handled (nw_links (foldl demo_act net_new demo_run) 0)).
      request_id m = Some ''r1'' \<and> Text (SnapshotList ''r1'' []) \<in> set (answers_to demo_host m d))"
proof -
  have w: "oneshots (chans (srv (nw_sys (foldl demo_act net_new demo_run)))) 0 = OsSent (SnapshotList ''r1'' [])"
    "ntasks (nw_sys (foldl demo_act net_new demo_run)) = 1"
    "owner (nw_sys (foldl demo_act net_new demo_run)) 0 = ''r1''"
    unfolding demo_run_net by (simp_all add: demo_net_def demo_sys_facts)
  from answers_are_authentic [OF refl w(1)] show ?thesis
    unfolding w(2,3) by auto
qed

end
