(* ===== verification/Tunnel.thy ===== *)
theory Tunnel
  imports Serve PyApi
begin

text \<open>
  Mesh mode: how a daemon (\<open>setup_tunnel\<close> in \<open>sandd/src/main.rs\<close>) and the controller
  (\<open>setup_tunnel_controller\<close> in \<open>server/src/python.rs\<close>) join the mesh by running the \<open>tailscale\<close>
  programs, how a daemon dials its controller, and the constructor of \<open>Server\<close>.

  The programs, the port of the proxy and the clock are parameters over a state \<open>'o\<close>. What is run, in
  which order, is written to a log that no step reads.
\<close>

section \<open>Running programs\<close>

record run_output =
  ro_success :: bool
  ro_stdout :: bytes
  ro_stderr :: bytes

text \<open>\<open>Command::output\<close> (nothing when the program cannot be started), \<open>Command::spawn\<close>,
  \<open>TcpStream::connect\<close>, and a sleep in milliseconds.\<close>

record 'o tools =
  ts_output :: "string \<Rightarrow> string list \<Rightarrow> 'o \<Rightarrow> (string + run_output) \<times> 'o"
  ts_spawn :: "string \<Rightarrow> string list \<Rightarrow> 'o \<Rightarrow> bool \<times> 'o"
  ts_connect :: "string \<Rightarrow> 'o \<Rightarrow> bool \<times> 'o"
  ts_sleep :: "nat \<Rightarrow> 'o \<Rightarrow> 'o"
  ts_lossy :: "bytes \<Rightarrow> string"

text \<open>An entry of the log holds what was called and what came back.\<close>

datatype tool_call =
    Ran string "string list" "string + run_output"
  | Started string "string list" bool
  | Probed string bool
  | Slept nat

record 'o mesh =
  mesh_os :: 'o
  mesh_log :: "tool_call list"

definition output_of :: "'o tools \<Rightarrow> string \<Rightarrow> string list \<Rightarrow> 'o mesh \<Rightarrow> (string + run_output) \<times> 'o mesh" where
  "output_of ts program args m =
     (case ts_output ts program args (mesh_os m) of
        (r, os) \<Rightarrow> (r, \<lparr>mesh_os = os, mesh_log = mesh_log m @ [Ran program args r]\<rparr>))"

definition spawn_tool :: "'o tools \<Rightarrow> string \<Rightarrow> string list \<Rightarrow> 'o mesh \<Rightarrow> bool \<times> 'o mesh" where
  "spawn_tool ts program args m =
     (case ts_spawn ts program args (mesh_os m) of
        (r, os) \<Rightarrow> (r, \<lparr>mesh_os = os, mesh_log = mesh_log m @ [Started program args r]\<rparr>))"

definition probe :: "'o tools \<Rightarrow> string \<Rightarrow> 'o mesh \<Rightarrow> bool \<times> 'o mesh" where
  "probe ts address m =
     (case ts_connect ts address (mesh_os m) of
        (r, os) \<Rightarrow> (r, \<lparr>mesh_os = os, mesh_log = mesh_log m @ [Probed address r]\<rparr>))"

definition sleep_ms :: "'o tools \<Rightarrow> nat \<Rightarrow> 'o mesh \<Rightarrow> 'o mesh" where
  "sleep_ms ts ms m = \<lparr>mesh_os = ts_sleep ts ms (mesh_os m), mesh_log = mesh_log m @ [Slept ms]\<rparr>"

definition succeeded :: "string + run_output \<Rightarrow> bool" where
  "succeeded r = (case r of Inr out \<Rightarrow> ro_success out | Inl _ \<Rightarrow> False)"

section \<open>Joining\<close>

definition tunnel_socks_proxy :: string where
  "tunnel_socks_proxy = ''127.0.0.1:1055''"

text \<open>The polls of the proxy's port and of the node's address: a limited number of attempts, with a
  sleep after each that fails.\<close>

fun wait_socks :: "'o tools \<Rightarrow> nat \<Rightarrow> 'o mesh \<Rightarrow> bool \<times> 'o mesh" where
  "wait_socks ts 0 m = (False, m)"
| "wait_socks ts (Suc n) m =
     (case probe ts tunnel_socks_proxy m of
        (True, m) \<Rightarrow> (True, m)
      | (False, m) \<Rightarrow> wait_socks ts n (sleep_ms ts 500 m))"

definition prints_ip :: "'o tools \<Rightarrow> string + run_output \<Rightarrow> bool" where
  "prints_ip ts r =
     (case r of Inr out \<Rightarrow> ro_success out \<and> trim (ts_lossy ts (ro_stdout out)) \<noteq> [] | Inl _ \<Rightarrow> False)"

fun wait_ip :: "'o tools \<Rightarrow> nat \<Rightarrow> 'o mesh \<Rightarrow> bool \<times> 'o mesh" where
  "wait_ip ts 0 m = (False, m)"
| "wait_ip ts (Suc n) m =
     (case output_of ts ''tailscale'' [''ip'', ''-4''] m of
        (r, m) \<Rightarrow>
          (if prints_ip ts r then (True, m)
           else wait_ip ts n (sleep_ms ts 1000 m)))"

definition up_args :: "string \<Rightarrow> string \<Rightarrow> string list" where
  "up_args authkey server =
     [''up'', ''--authkey='' @ authkey, ''--login-server='' @ server, ''--accept-routes'']"

text \<open>\<open>tailscale up\<close>, and the wait for an address. The daemon gives the error of a program that cannot be
  started a text of its own.\<close>

definition join_mesh ::
  "'o tools \<Rightarrow> (string \<Rightarrow> string) \<Rightarrow> string \<Rightarrow> string \<Rightarrow> 'o mesh \<Rightarrow> (string + unit) \<times> 'o mesh" where
  "join_mesh ts start_error authkey server m =
     (case output_of ts ''tailscale'' (up_args authkey server) m of
        (Inl e, m) \<Rightarrow> (Inl (start_error e), m)
      | (Inr out, m) \<Rightarrow>
          (if \<not> ro_success out then (Inl (''Failed to join mesh: '' @ ts_lossy ts (ro_stderr out)), m)
           else (case wait_ip ts 30 m of
                   (True, m) \<Rightarrow> (Inr (), m)
                 | (False, m) \<Rightarrow> (Inl ''Timeout waiting for mesh IP assignment'', m))))"

section \<open>The daemon\<close>

definition tailscaled_args :: "string list" where
  "tailscaled_args = [''--tun=userspace-networking'', ''--socks5-server='' @ tunnel_socks_proxy,
     ''--state=/var/lib/tailscale/tailscaled.state'']"

text \<open>Whether the proxy is there and a live \<open>tailscaled\<close> answers.\<close>

definition tailscaled_healthy :: "'o tools \<Rightarrow> 'o mesh \<Rightarrow> bool \<times> 'o mesh" where
  "tailscaled_healthy ts m =
     (case probe ts tunnel_socks_proxy m of
        (False, m) \<Rightarrow> (False, m)
      | (True, m) \<Rightarrow>
          (case output_of ts ''tailscale'' [''status''] m of
             (r, m) \<Rightarrow> (succeeded r, m)))"

definition start_tailscaled :: "'o tools \<Rightarrow> 'o mesh \<Rightarrow> (string + unit) \<times> 'o mesh" where
  "start_tailscaled ts m =
     (case spawn_tool ts ''tailscaled'' tailscaled_args m of
        (False, m) \<Rightarrow> (Inl ''Failed to start tailscaled'', m)
      | (True, m) \<Rightarrow>
          (case wait_socks ts 20 m of
             (True, m) \<Rightarrow> (Inr (), m)
           | (False, m) \<Rightarrow>
               (Inl (''tailscaled SOCKS5 proxy never came up on '' @ tunnel_socks_proxy @
                     '' after starting tailscaled (is another tailscaled holding '' @
                     ''/var/lib/tailscale/tailscaled.state, or is the port in use?)''), m)))"

definition not_found :: "string \<Rightarrow> string" where
  "not_found command = ''Tailscale not found. Install it first:'' @ [CHR 0x0A] @ ''  '' @ command"

definition setup_tunnel ::
  "'o tools \<Rightarrow> string option \<Rightarrow> string option \<Rightarrow> bool \<Rightarrow> 'o mesh \<Rightarrow> (string + unit) \<times> 'o mesh" where
  "setup_tunnel ts authkey server force_refresh m =
     (case authkey of
        None \<Rightarrow> (Inl ''--tunnel requires --tunnel-authkey'', m)
      | Some authkey \<Rightarrow>
          (case server of
             None \<Rightarrow> (Inl ''--tunnel requires --tunnel-server'', m)
           | Some server \<Rightarrow>
               (case output_of ts ''tailscale'' [''version''] m of
                  (Inl _, m) \<Rightarrow>
                    (Inl (not_found (''curl -fsSL https://raw.githubusercontent.com/InftyAI/SandD/main/'' @
                       ''hack/scripts/install.sh | sudo bash -s -- --tunnel'')), m)
                | (Inr _, m) \<Rightarrow>
                    (case (case tailscaled_healthy ts m of
                             (True, m) \<Rightarrow> (Inr (), m)
                           | (False, m) \<Rightarrow> start_tailscaled ts m) of
                       (Inl e, m) \<Rightarrow> (Inl e, m)
                     | (Inr _, m) \<Rightarrow>
                         join_mesh ts (\<lambda>_. ''Failed to join mesh network'') authkey server
                           (if force_refresh then snd (output_of ts ''tailscale'' [''down''] m) else m)))))"

section \<open>Dialling the controller\<close>

text \<open>The parts of the URL of a request, and how the transports answer: the request is built, the proxy
  connects to a host and a port, the WebSocket handshake succeeds over it, or directly.\<close>

record uri =
  uri_scheme :: "string option"
  uri_host :: "string option"
  uri_port :: "u16 option"

record transports =
  client_request :: "string \<Rightarrow> string + uri"
  socks_connect :: "string \<Rightarrow> string \<Rightarrow> u16 \<Rightarrow> string + unit"
  handshake :: "string + unit"
  connect_async :: "uri \<Rightarrow> string + unit"

definition dial_port :: "uri \<Rightarrow> u16" where
  "dial_port u =
     (case uri_port u of
        Some p \<Rightarrow> p
      | None \<Rightarrow> (if uri_scheme u = Some ''wss'' then 443 else 80))"

text \<open>A session that is served ends with \<open>result\<close>.\<close>

definition dial_controller ::
  "transports \<Rightarrow> string \<Rightarrow> bool \<Rightarrow> string + serve_outcome \<Rightarrow> connect_result" where
  "dial_controller tr server_url tunnel result =
     (case client_request tr server_url of
        Inl e \<Rightarrow> Unreachable e
      | Inr u \<Rightarrow>
          (if tunnel then
             (case uri_host u of
                None \<Rightarrow> Unreachable (''tunnel: server URL has no host: '' @ server_url)
              | Some host \<Rightarrow>
                  (case socks_connect tr tunnel_socks_proxy host (dial_port u) of
                     Inl _ \<Rightarrow>
                       Unreachable (''tunnel: failed to reach '' @ host @ '':'' @ digits (unat (dial_port u)) @
                         '' through SOCKS5 proxy '' @ tunnel_socks_proxy @ '' (is tailscaled up and joined?)'')
                   | Inr _ \<Rightarrow>
                       (case handshake tr of
                          Inl _ \<Rightarrow> Unreachable ''tunnel: WebSocket handshake over SOCKS5 failed''
                        | Inr _ \<Rightarrow> Served result)))
           else
             (case connect_async tr u of
                Inl e \<Rightarrow> Unreachable (''Failed to connect to server: '' @ e)
              | Inr _ \<Rightarrow> Served result)))"

section \<open>The controller\<close>

record tunnel_config =
  tc_authkey :: string
  tc_server :: string

definition controller_args :: "bool \<Rightarrow> string list" where
  "controller_args verbose =
     [''--tun=userspace-networking'', ''--state=/var/lib/tailscale/tailscaled.state''] @
     (if verbose then [] else [''--verbose=-1''])"

definition setup_tunnel_controller ::
  "'o tools \<Rightarrow> tunnel_config \<Rightarrow> bool \<Rightarrow> 'o mesh \<Rightarrow> (string + unit) \<times> 'o mesh" where
  "setup_tunnel_controller ts config verbose m =
     (case output_of ts ''tailscale'' [''version''] m of
        (Inl _, m) \<Rightarrow> (Inl (not_found ''curl -fsSL https://tailscale.com/install.sh | sh''), m)
      | (Inr _, m) \<Rightarrow>
          (case spawn_tool ts ''tailscaled'' (controller_args verbose) m of
             (False, m) \<Rightarrow> (Inl ''Failed to start tailscaled'', m)
           | (True, m) \<Rightarrow>
               join_mesh ts (\<lambda>e. e) (tc_authkey config) (tc_server config) (sleep_ms ts 2000 m)))"

definition get_mesh_ip :: "'o tools \<Rightarrow> 'o mesh \<Rightarrow> (string + string) \<times> 'o mesh" where
  "get_mesh_ip ts m =
     (case output_of ts ''tailscale'' [''ip'', ''-4''] m of
        (Inl e, m) \<Rightarrow> (Inl e, m)
      | (Inr out, m) \<Rightarrow>
          (if \<not> ro_success out then (Inl ''Failed to get mesh IP'', m)
           else (let ip = trim (ts_lossy ts (ro_stdout out))
                 in if ip = [] then (Inl ''No mesh IP assigned'', m) else (Inr ip, m))))"

text \<open>The constructor gives the address that the server will listen on. \<open>runtime\<close> is the outcome of
  creating the runtime.\<close>

definition py_server_new ::
  "'o tools \<Rightarrow> string + unit \<Rightarrow> string \<Rightarrow> u16 \<Rightarrow> bool \<Rightarrow> string \<Rightarrow> tunnel_config option \<Rightarrow> 'o mesh \<Rightarrow>
     (py_error + string \<times> server) \<times> 'o mesh" where
  "py_server_new ts runtime host port verbose connect config m =
     (if connect \<noteq> ''direct'' \<and> connect \<noteq> ''tunnel''
      then (Inl (PyValueError (''connect must be '' @ quoted ''direct'' @ '' or '' @ quoted ''tunnel'' @ '', got '' @
              quoted connect)), m)
      else if connect = ''tunnel'' \<and> config = None
      then (Inl (PyValueError ''tunnel mode requires tunnel_config parameter''), m)
      else (case runtime of
              Inl e \<Rightarrow> (Inl (PyRuntimeError (''Failed to create runtime: '' @ e)), m)
            | Inr _ \<Rightarrow>
                (case (if connect = ''tunnel'' then config else None) of
                   None \<Rightarrow> (Inr (host @ '':'' @ digits (unat port), server_new), m)
                 | Some config \<Rightarrow>
                     (case setup_tunnel_controller ts config verbose m of
                        (Inl e, m) \<Rightarrow> (Inl (PyRuntimeError (''Tunnel setup failed: '' @ e)), m)
                      | (Inr _, m) \<Rightarrow>
                          (case get_mesh_ip ts m of
                             (Inl e, m) \<Rightarrow> (Inl (PyRuntimeError (''Failed to get mesh IP: '' @ e)), m)
                           | (Inr _, m) \<Rightarrow> (Inr (''0.0.0.0:'' @ digits (unat port), server_new), m))))))"

section \<open>How long joining takes\<close>

definition calls_in :: "tool_call list \<Rightarrow> nat" where
  "calls_in l = length (filter (\<lambda>c. case c of Slept _ \<Rightarrow> False | _ \<Rightarrow> True) l)"

definition slept :: "tool_call list \<Rightarrow> nat" where
  "slept l = sum_list (map (\<lambda>c. case c of Slept ms \<Rightarrow> ms | _ \<Rightarrow> 0) l)"

text \<open>From \<open>m\<close> to \<open>m'\<close> at most \<open>n\<close> calls were made and at most \<open>t\<close> milliseconds slept.\<close>

definition effort :: "nat \<Rightarrow> nat \<Rightarrow> 'o mesh \<Rightarrow> 'o mesh \<Rightarrow> bool" where
  "effort n t m m' \<longleftrightarrow> (\<exists>l. mesh_log m' = mesh_log m @ l \<and> calls_in l \<le> n \<and> slept l \<le> t)"

lemma effort_none: "effort n t m m"
  by (simp add: effort_def calls_in_def slept_def)

lemma effort_trans:
  assumes "effort n t m1 m2" and "effort n' t' m2 m3" and "n + n' \<le> k" and "t + t' \<le> u"
  shows "effort k u m1 m3"
proof -
  obtain l l' where "mesh_log m2 = mesh_log m1 @ l" "mesh_log m3 = mesh_log m2 @ l'"
    "calls_in l \<le> n" "slept l \<le> t" "calls_in l' \<le> n'" "slept l' \<le> t'"
    using assms(1,2) unfolding effort_def by blast
  with assms(3,4) show ?thesis
    unfolding effort_def by (intro exI [of _ "l @ l'"]) (auto simp: calls_in_def slept_def)
qed

lemma effort_calls:
  "effort 1 0 m (snd (output_of ts p args m))" "effort 1 0 m (snd (spawn_tool ts p args m))"
  "effort 1 0 m (snd (probe ts a m))" "effort 0 ms m (sleep_ms ts ms m)"
  by (auto simp: effort_def output_of_def spawn_tool_def probe_def sleep_ms_def calls_in_def slept_def
      split: prod.splits)

lemma effort_wait_socks: "effort n (n * 500) m (snd (wait_socks ts n m))"
proof (induction n arbitrary: m)
  case (Suc n)
  obtain r m1 where e: "probe ts tunnel_socks_proxy m = (r, m1)" by fastforce
  then have one: "effort 1 0 m m1" using effort_calls(3) [of m ts tunnel_socks_proxy] by simp
  show ?case
  proof (cases "r")
    case True
    have "effort (Suc n) (Suc n * 500) m m1" by (rule effort_trans [OF one effort_none [of 0 0]]) simp_all
    with e True show ?thesis by simp
  next
    case False
    have "effort 1 500 m (sleep_ms ts 500 m1)" by (rule effort_trans [OF one effort_calls(4)]) simp_all
    from effort_trans [OF this Suc] have
      "effort (Suc n) (Suc n * 500) m (snd (wait_socks ts n (sleep_ms ts 500 m1)))" by simp
    with e False show ?thesis by simp
  qed
qed (simp add: effort_none)

lemma effort_wait_ip: "effort n (n * 1000) m (snd (wait_ip ts n m))"
proof (induction n arbitrary: m)
  case (Suc n)
  obtain r m1 where e: "output_of ts ''tailscale'' [''ip'', ''-4''] m = (r, m1)" by fastforce
  then have one: "effort 1 0 m m1" using effort_calls(1) [of m ts "''tailscale''" "[''ip'', ''-4'']"] by simp
  show ?case
  proof (cases "prints_ip ts r")
    case True
    have "effort (Suc n) (Suc n * 1000) m m1" by (rule effort_trans [OF one effort_none [of 0 0]]) simp_all
    with e True show ?thesis by simp
  next
    case False
    have "effort 1 1000 m (sleep_ms ts 1000 m1)" by (rule effort_trans [OF one effort_calls(4)]) simp_all
    from effort_trans [OF this Suc] have
      "effort (Suc n) (Suc n * 1000) m (snd (wait_ip ts n (sleep_ms ts 1000 m1)))" by simp
    with e False show ?thesis by simp
  qed
qed (simp add: effort_none)

lemma effort_more: "effort n t m m' \<Longrightarrow> n \<le> n' \<Longrightarrow> t \<le> t' \<Longrightarrow> effort n' t' m m'"
  by (rule effort_trans [OF _ effort_none [of 0 0]]) simp_all

lemma effort_join: "effort 31 30000 m (snd (join_mesh ts err k s m))"
proof -
  obtain r m1 where e: "output_of ts ''tailscale'' (up_args k s) m = (r, m1)" by fastforce
  then have one: "effort 1 0 m m1" using effort_calls(1) [of m ts "''tailscale''" "up_args k s"] by simp
  obtain b m2 where w: "wait_ip ts 30 m1 = (b, m2)" by fastforce
  have "effort 30 (30 * 1000) m1 m2" using effort_wait_ip [of 30 m1 ts] unfolding w by simp
  from effort_trans [OF one this] have "effort 31 30000 m m2" by simp
  moreover have "effort 31 30000 m m1" by (rule effort_more [OF one]) simp_all
  ultimately show ?thesis by (cases r; cases b) (simp_all add: join_mesh_def e w)
qed

lemma effort_start: "effort 21 10000 m (snd (start_tailscaled ts m))"
proof -
  obtain r m1 where e: "spawn_tool ts ''tailscaled'' tailscaled_args m = (r, m1)" by fastforce
  then have one: "effort 1 0 m m1" using effort_calls(2) [of m ts "''tailscaled''" tailscaled_args] by simp
  obtain b m2 where w: "wait_socks ts 20 m1 = (b, m2)" by fastforce
  have "effort 20 (20 * 500) m1 m2" using effort_wait_socks [of 20 m1 ts] unfolding w by simp
  from effort_trans [OF one this] have "effort 21 10000 m m2" by simp
  moreover have "effort 21 10000 m m1" by (rule effort_more [OF one]) simp_all
  ultimately show ?thesis by (cases r; cases b) (simp_all add: start_tailscaled_def e w)
qed

lemma effort_healthy: "effort 2 0 m (snd (tailscaled_healthy ts m))"
proof -
  obtain r m1 where e: "probe ts tunnel_socks_proxy m = (r, m1)" by fastforce
  then have one: "effort 1 0 m m1" using effort_calls(3) [of m ts tunnel_socks_proxy] by simp
  obtain b m2 where o: "output_of ts ''tailscale'' [''status''] m1 = (b, m2)" by fastforce
  have "effort 1 0 m1 m2" using effort_calls(1) [of m1 ts "''tailscale''" "[''status'']"] unfolding o by simp
  from effort_trans [OF one this] have "effort 2 0 m m2" by simp
  moreover have "effort 2 0 m m1" by (rule effort_more [OF one]) simp_all
  ultimately show ?thesis by (cases r) (simp_all add: tailscaled_healthy_def e o)
qed


section \<open>What is run\<close>

text \<open>The entries of a daemon's log that leave the proxy served by a \<open>tailscaled\<close> that was healthy or has
  just been started: only then, and only when the port or the status says no.\<close>

definition gate_log :: "tool_call list \<Rightarrow> bool" where
  "gate_log g \<longleftrightarrow>
     (\<exists>r. succeeded r \<and> g = [Probed tunnel_socks_proxy True, Ran ''tailscale'' [''status''] r]) \<or>
     (\<exists>no w. (no = [Probed tunnel_socks_proxy False] \<or>
          (\<exists>r. \<not> succeeded r \<and> no = [Probed tunnel_socks_proxy True, Ran ''tailscale'' [''status''] r])) \<and>
        set w \<subseteq> {Probed tunnel_socks_proxy False, Slept 500} \<and>
        g = no @ Started ''tailscaled'' tailscaled_args True # w @ [Probed tunnel_socks_proxy True])"

lemma wait_socks_log:
  "wait_socks ts n m = (r, m') \<Longrightarrow> \<exists>w. set w \<subseteq> {Probed tunnel_socks_proxy False, Slept 500} \<and>
     mesh_log m' = mesh_log m @ w @ (if r then [Probed tunnel_socks_proxy True] else [])"
proof (induction n arbitrary: m)
  case (Suc n)
  obtain b m1 where e: "probe ts tunnel_socks_proxy m = (b, m1)" by fastforce
  then have log: "mesh_log m1 = mesh_log m @ [Probed tunnel_socks_proxy b]"
    by (auto simp: probe_def split: prod.splits)
  show ?case
  proof (cases b)
    case True
    with Suc.prems e log show ?thesis by (intro exI [of _ "[]"]) simp
  next
    case False
    with Suc.prems e have "wait_socks ts n (sleep_ms ts 500 m1) = (r, m')" by simp
    from Suc.IH [OF this] obtain w where "set w \<subseteq> {Probed tunnel_socks_proxy False, Slept 500}"
      "mesh_log m' = mesh_log (sleep_ms ts 500 m1) @ w @ (if r then [Probed tunnel_socks_proxy True] else [])" by blast
    with log False show ?thesis
      by (intro exI [of _ "Probed tunnel_socks_proxy False # Slept 500 # w"]) (simp add: sleep_ms_def)
  qed
qed simp

lemma wait_ip_log:
  "wait_ip ts n m = (True, m') \<Longrightarrow> \<exists>w ip. prints_ip ts ip \<and>
     (\<forall>c \<in> set w. c = Slept 1000 \<or> (\<exists>r. \<not> prints_ip ts r \<and> c = Ran ''tailscale'' [''ip'', ''-4''] r)) \<and>
     mesh_log m' = mesh_log m @ w @ [Ran ''tailscale'' [''ip'', ''-4''] ip]"
proof (induction n arbitrary: m)
  case (Suc n)
  obtain r m1 where e: "output_of ts ''tailscale'' [''ip'', ''-4''] m = (r, m1)" by fastforce
  then have log: "mesh_log m1 = mesh_log m @ [Ran ''tailscale'' [''ip'', ''-4''] r]"
    by (auto simp: output_of_def split: prod.splits)
  show ?case
  proof (cases "prints_ip ts r")
    case True
    with Suc.prems e log show ?thesis by (intro exI [of _ "[]"] exI [of _ r]) simp
  next
    case False
    with Suc.prems e have "wait_ip ts n (sleep_ms ts 1000 m1) = (True, m')" by simp
    from Suc.IH [OF this] obtain w ip where "prints_ip ts ip"
      "\<forall>c \<in> set w. c = Slept 1000 \<or> (\<exists>r. \<not> prints_ip ts r \<and> c = Ran ''tailscale'' [''ip'', ''-4''] r)"
      "mesh_log m' = mesh_log (sleep_ms ts 1000 m1) @ w @ [Ran ''tailscale'' [''ip'', ''-4''] ip]" by blast
    with log False show ?thesis
      by (intro exI [of _ "Ran ''tailscale'' [''ip'', ''-4''] r # Slept 1000 # w"] exI [of _ ip])
        (auto simp: sleep_ms_def)
  qed
qed simp

lemma join_log:
  assumes "join_mesh ts err k s m = (Inr u, m')"
  shows "\<exists>up w ip. succeeded up \<and> prints_ip ts ip \<and>
     (\<forall>c \<in> set w. c = Slept 1000 \<or> (\<exists>r. \<not> prints_ip ts r \<and> c = Ran ''tailscale'' [''ip'', ''-4''] r)) \<and>
     mesh_log m' = mesh_log m @ Ran ''tailscale'' (up_args k s) up # w @ [Ran ''tailscale'' [''ip'', ''-4''] ip]"
proof -
  obtain up m1 where e: "output_of ts ''tailscale'' (up_args k s) m = (up, m1)" by fastforce
  then have log: "mesh_log m1 = mesh_log m @ [Ran ''tailscale'' (up_args k s) up]"
    by (auto simp: output_of_def split: prod.splits)
  from assms e have "succeeded up" "wait_ip ts 30 m1 = (True, m')"
    by (auto simp: join_mesh_def succeeded_def split: sum.splits prod.splits bool.splits if_splits)
  with wait_ip_log [OF this(2)] log show ?thesis by auto
qed

lemma healthy_log:
  assumes "tailscaled_healthy ts m = (b, m')"
  shows "\<exists>l. mesh_log m' = mesh_log m @ l \<and>
    (if b then \<exists>r. succeeded r \<and> l = [Probed tunnel_socks_proxy True, Ran ''tailscale'' [''status''] r]
     else l = [Probed tunnel_socks_proxy False] \<or>
       (\<exists>r. \<not> succeeded r \<and> l = [Probed tunnel_socks_proxy True, Ran ''tailscale'' [''status''] r]))"
  using assms
  by (auto simp: tailscaled_healthy_def probe_def output_of_def split: prod.splits bool.splits)

lemma start_log:
  assumes "start_tailscaled ts m = (Inr u, m')"
  shows "\<exists>w. set w \<subseteq> {Probed tunnel_socks_proxy False, Slept 500} \<and>
    mesh_log m' = mesh_log m @ Started ''tailscaled'' tailscaled_args True # w @ [Probed tunnel_socks_proxy True]"
proof -
  obtain b m1 where e: "spawn_tool ts ''tailscaled'' tailscaled_args m = (b, m1)" by fastforce
  then have log: "mesh_log m1 = mesh_log m @ [Started ''tailscaled'' tailscaled_args b]"
    by (auto simp: spawn_tool_def split: prod.splits)
  from assms e have b: "b" and w: "wait_socks ts 20 m1 = (True, m')"
    by (auto simp: start_tailscaled_def split: bool.splits prod.splits)
  from wait_socks_log [OF w] b log show ?thesis by auto
qed

text \<open>C16. When a daemon reports that it has joined the mesh, the proxy's port was open and its \<open>tailscaled\<close>
  healthy, or one was started and the port came up; exactly one \<open>tailscale up\<close> with the given key and
  server followed and succeeded, directly after a \<open>tailscale down\<close> exactly when a refresh was asked
  for; and the last program run printed an address.\<close>

theorem tunnel_joined:
  assumes "setup_tunnel ts authkey server force m = (Inr (), m')"
  shows "\<exists>key srvr v gate down up waits ip. authkey = Some key \<and> server = Some srvr \<and>
    mesh_log m' = mesh_log m @ Ran ''tailscale'' [''version''] (Inr v) # gate @
      (if force then [Ran ''tailscale'' [''down''] down] else []) @
      Ran ''tailscale'' (up_args key srvr) up # waits @ [Ran ''tailscale'' [''ip'', ''-4''] ip] \<and>
    gate_log gate \<and> succeeded up \<and> prints_ip ts ip \<and>
    (\<forall>c \<in> set waits. c = Slept 1000 \<or> (\<exists>r. \<not> prints_ip ts r \<and> c = Ran ''tailscale'' [''ip'', ''-4''] r))"
proof -
  obtain key srvr where ks: "authkey = Some key" "server = Some srvr"
    using assms by (auto simp: setup_tunnel_def split: option.splits)
  obtain r m1 where r: "output_of ts ''tailscale'' [''version''] m = (r, m1)" by fastforce
  then obtain v where v: "r = Inr v" using assms ks by (cases r) (auto simp: setup_tunnel_def)
  have log1: "mesh_log m1 = mesh_log m @ [Ran ''tailscale'' [''version''] (Inr v)]"
    using r v by (auto simp: output_of_def split: prod.splits)
  obtain b m2 where b: "tailscaled_healthy ts m1 = (b, m2)" by fastforce
  obtain g m3 where g: "(if b then (Inr (), m2) else start_tailscaled ts m2) = (g, m3)" by fastforce
  have "\<exists>u. g = Inr u"
    using assms ks r v b g by (cases b; cases g) (auto simp: setup_tunnel_def)
  then obtain u where u: "g = Inr u" ..
  let ?m4 = "if force then snd (output_of ts ''tailscale'' [''down''] m3) else m3"
  have join: "join_mesh ts (\<lambda>_. ''Failed to join mesh network'') key srvr ?m4 = (Inr (), m')"
    using assms ks r v b g u by (cases b) (auto simp: setup_tunnel_def)
  obtain gate where gate: "gate_log gate" "mesh_log m3 = mesh_log m1 @ gate"
  proof (cases b)
    case True
    with healthy_log [OF b] g that show ?thesis by (auto simp: gate_log_def)
  next
    case False
    with g u have "start_tailscaled ts m2 = (Inr u, m3)" by simp
    from start_log [OF this] obtain w where w: "set w \<subseteq> {Probed tunnel_socks_proxy False, Slept 500}"
      "mesh_log m3 = mesh_log m2 @ Started ''tailscaled'' tailscaled_args True # w @ [Probed tunnel_socks_proxy True]"
      by blast
    from healthy_log [OF b] False obtain l where l: "mesh_log m2 = mesh_log m1 @ l"
      "l = [Probed tunnel_socks_proxy False] \<or>
       (\<exists>r. \<not> succeeded r \<and> l = [Probed tunnel_socks_proxy True, Ran ''tailscale'' [''status''] r])" by auto
    show ?thesis
      by (rule that [of "l @ Started ''tailscaled'' tailscaled_args True # w @ [Probed tunnel_socks_proxy True]"])
        (use w l in \<open>auto simp: gate_log_def\<close>)
  qed
  obtain d md where d: "output_of ts ''tailscale'' [''down''] m3 = (d, md)" by fastforce
  then have "mesh_log ?m4 = mesh_log m3 @ (if force then [Ran ''tailscale'' [''down''] d] else [])"
    by (auto simp: output_of_def split: prod.splits)
  moreover obtain up w ip where "succeeded up" "prints_ip ts ip"
    "\<forall>c \<in> set w. c = Slept 1000 \<or> (\<exists>r. \<not> prints_ip ts r \<and> c = Ran ''tailscale'' [''ip'', ''-4''] r)"
    "mesh_log m' = mesh_log ?m4 @ Ran ''tailscale'' (up_args key srvr) up # w @ [Ran ''tailscale'' [''ip'', ''-4''] ip]"
    using join_log [OF join] by blast
  ultimately show ?thesis
    using gate log1 ks
    by (intro exI [of _ key] exI [of _ srvr] exI [of _ v] exI [of _ gate] exI [of _ d] exI [of _ up] exI [of _ w]
        exI [of _ ip]) simp
qed

text \<open>A live \<open>tailscaled\<close> whose node is logged out, as after a \<open>tailscale up\<close> that failed, is started a
  second time: the port is open, the status says no, and the next attempt starts another one.\<close>

theorem logged_out_restarts:
  assumes "\<And>os. fst (ts_connect ts tunnel_socks_proxy os)"
    and "\<And>os. \<not> succeeded (fst (ts_output ts ''tailscale'' [''status''] os))"
    and "fst (ts_output ts ''tailscale'' [''version''] (mesh_os m)) = Inr v"
  shows "\<exists>b. Started ''tailscaled'' tailscaled_args b \<in>
    set (drop (length (mesh_log m)) (mesh_log (snd (setup_tunnel ts (Some key) (Some server) force m))))"
proof -
  obtain r m1 where r: "output_of ts ''tailscale'' [''version''] m = (r, m1)" by fastforce
  with assms(3) have log1: "r = Inr v" "\<exists>e. mesh_log m1 = mesh_log m @ [e]"
    by (auto simp: output_of_def split: prod.splits)
  obtain b m2 where b: "tailscaled_healthy ts m1 = (b, m2)" by fastforce
  have nb: "\<not> b" using b assms(1) [of "mesh_os m1"] assms(2)
    by (auto simp: tailscaled_healthy_def probe_def output_of_def split: prod.splits bool.splits) (metis fst_conv)
  obtain l2 where l2: "mesh_log m2 = mesh_log m1 @ l2"
    using healthy_log [OF b] by blast
  obtain s m3 where s: "spawn_tool ts ''tailscaled'' tailscaled_args m2 = (s, m3)" by fastforce
  then have l3: "mesh_log m3 = mesh_log m2 @ [Started ''tailscaled'' tailscaled_args s]"
    by (auto simp: spawn_tool_def split: prod.splits)
  have ext: "\<exists>l. mesh_log y = mesh_log x @ l" if "effort n t x y" for n t and x y :: "'a mesh"
    using that by (auto simp: effort_def)
  obtain g m4 where g: "start_tailscaled ts m2 = (g, m4)" by fastforce
  have "\<exists>l. mesh_log m4 = mesh_log m3 @ l"
    using ext [OF effort_wait_socks [of 20 m3 ts]] g s
    by (cases s) (auto simp: start_tailscaled_def split: prod.splits bool.splits)
  then obtain l4 where l4: "mesh_log m4 = mesh_log m3 @ l4" ..
  have down: "effort 1 0 m4 (if force then snd (output_of ts ''tailscale'' [''down''] m4) else m4)"
    using effort_calls(1) effort_none by (cases force) auto
  have "\<exists>l5. mesh_log (snd (setup_tunnel ts (Some key) (Some server) force m)) = mesh_log m4 @ l5"
    using ext [OF effort_trans [OF down effort_join order_refl order_refl]] r log1(1) b nb g
    by (cases g) (auto simp: setup_tunnel_def)
  with log1(2) l2 l3 l4 show ?thesis by auto
qed


section \<open>A concrete node\<close>

text \<open>Whether the proxy is there, and whether the node has joined, which takes the key \<open>k\<close>.\<close>

definition demo_tools :: "(bool \<times> bool) tools" where
  "demo_tools =
     \<lparr>ts_output = (\<lambda>p args (proxy, joined).
        (case args of
           a # rest \<Rightarrow>
             (if a = ''version'' then (Inr \<lparr>ro_success = True, ro_stdout = [], ro_stderr = []\<rparr>, (proxy, joined))
              else if a = ''up'' then
                (let ok = (rest \<noteq> [] \<and> hd rest = ''--authkey=k'')
                 in (Inr \<lparr>ro_success = ok, ro_stdout = [], ro_stderr = [110, 111]\<rparr>, (proxy, ok \<or> joined)))
              else if a = ''down'' then (Inr \<lparr>ro_success = True, ro_stdout = [], ro_stderr = []\<rparr>, (proxy, False))
              else if a = ''ip'' then
                (Inr \<lparr>ro_success = joined, ro_stdout = (if joined then [49, 10] else []), ro_stderr = []\<rparr>, (proxy, joined))
              else (Inr \<lparr>ro_success = joined, ro_stdout = [], ro_stderr = []\<rparr>, (proxy, joined)))
         | [] \<Rightarrow> (Inl ''usage'', (proxy, joined)))),
      ts_spawn = (\<lambda>p args (proxy, joined). (True, (True, joined))),
      ts_connect = (\<lambda>a (proxy, joined). (proxy, (proxy, joined))),
      ts_sleep = (\<lambda>_ os. os),
      ts_lossy = map (\<lambda>b. char_of (unat b))\<rparr>"

definition demo_node :: "(bool \<times> bool) mesh" where
  "demo_node = \<lparr>mesh_os = (False, False), mesh_log = []\<rparr>"

theorem tunnel_joined_witness:
  "\<exists>v up ip. mesh_log (snd (setup_tunnel demo_tools (Some ''k'') (Some ''s'') False demo_node)) =
     [Ran ''tailscale'' [''version''] v, Probed tunnel_socks_proxy False,
      Started ''tailscaled'' tailscaled_args True, Probed tunnel_socks_proxy True,
      Ran ''tailscale'' (up_args ''k'' ''s'') up, Ran ''tailscale'' [''ip'', ''-4''] ip] \<and> succeeded up \<and>
      (\<exists>gate. gate_log gate)"
proof -
  let ?m = "snd (setup_tunnel demo_tools (Some ''k'') (Some ''s'') False demo_node)"
  have r: "setup_tunnel demo_tools (Some ''k'') (Some ''s'') False demo_node = (Inr (), ?m)"
  proof -
    have "fst (setup_tunnel demo_tools (Some ''k'') (Some ''s'') False demo_node) = Inr ()" by code_simp
    then show ?thesis by (metis prod.collapse)
  qed
  from tunnel_joined [OF r] have "\<exists>gate. gate_log gate" by blast
  moreover have "\<exists>v up ip. mesh_log ?m =
     [Ran ''tailscale'' [''version''] v, Probed tunnel_socks_proxy False,
      Started ''tailscaled'' tailscaled_args True, Probed tunnel_socks_proxy True,
      Ran ''tailscale'' (up_args ''k'' ''s'') up, Ran ''tailscale'' [''ip'', ''-4''] ip] \<and> succeeded up"
    by (intro exI [of _ "Inr \<lparr>ro_success = True, ro_stdout = [], ro_stderr = []\<rparr>"]
        exI [of _ "Inr \<lparr>ro_success = True, ro_stdout = [], ro_stderr = [110, 111]\<rparr>"]
        exI [of _ "Inr \<lparr>ro_success = True, ro_stdout = [49, 10], ro_stderr = []\<rparr>"]) code_simp
  ultimately show ?thesis by blast
qed

text \<open>A node whose join was refused, on the attempt after it.\<close>

theorem logged_out_restarts_witness:
  "\<exists>b. Started ''tailscaled'' tailscaled_args b \<in>
     set (mesh_log (snd (setup_tunnel (demo_tools
         \<lparr>ts_connect := \<lambda>_ os. (True, os), ts_output := \<lambda>p args os. (if args = [''status''] then Inl [] else
            fst (ts_output demo_tools p args os), os)\<rparr>) (Some ''x'') (Some ''s'') False demo_node)))"
  using logged_out_restarts [of "demo_tools
      \<lparr>ts_connect := \<lambda>_ os. (True, os), ts_output := \<lambda>p args os. (if args = [''status''] then Inl [] else
         fst (ts_output demo_tools p args os), os)\<rparr>" demo_node
    "\<lparr>ro_success = True, ro_stdout = [], ro_stderr = []\<rparr>" "''x''" "''s''" False]
  by (simp add: succeeded_def demo_tools_def demo_node_def)


end
