(* ===== verification/Startup.thy ===== *)
theory Startup
  imports Tunnel
begin

text \<open>
  The two programs as they start: the daemon's command line and \<open>main\<close> (\<open>sandd/src/main.rs\<close>),
  which runs \<open>setup_tunnel\<close>, dials and serves in a loop, and the controller's \<open>start\<close> with the
  routes of its web server (\<open>server/src/server.rs\<close>).

  \<open>main_loop\<close> of \<open>Serve\<close> is the loop over given results of its passes; here the passes are run: the
  loop's log is that of \<open>main_loop\<close> for the results the passes really have. What the outside does in
  a pass (the transports, the frames and signals of its session) is the pass's argument.
\<close>

section \<open>The command line\<close>

text \<open>The options as given, \<open>None\<close> where an option is missing; numbers are those \<open>clap\<close> has parsed.\<close>

record options =
  opt_server_url :: "string option"
  opt_daemon_id :: "string option"
  opt_reconnect_interval :: "u64 option"
  opt_heartbeat_interval :: "u64 option"
  opt_labels :: "string list"
  opt_tunnel :: bool
  opt_tunnel_authkey :: "string option"
  opt_tunnel_server :: "string option"

record args =
  server_url :: string
  arg_daemon_id :: "string option"
  reconnect_interval :: u64
  heartbeat_interval :: u64
  arg_labels :: "string list"
  tunnel :: bool
  tunnel_authkey :: "string option"
  tunnel_server :: "string option"

definition or_else :: "'a option \<Rightarrow> 'a option \<Rightarrow> 'a option" where
  "or_else a b = (case a of Some x \<Rightarrow> Some x | None \<Rightarrow> b)"

text \<open>An option wins over its environment variable, and that over the default; the server's URL has no
  default and is required.\<close>

definition parse_args :: "(string \<Rightarrow> string option) \<Rightarrow> options \<Rightarrow> args option" where
  "parse_args env opts =
     (case or_else (opt_server_url opts) (env ''SANDD_CONTROLLER_URL'') of
        None \<Rightarrow> None
      | Some url \<Rightarrow>
          Some \<lparr>server_url = url,
                arg_daemon_id = or_else (opt_daemon_id opts) (env ''SANDD_DAEMON_ID''),
                reconnect_interval = (case opt_reconnect_interval opts of Some n \<Rightarrow> n | None \<Rightarrow> 5),
                heartbeat_interval = (case opt_heartbeat_interval opts of Some n \<Rightarrow> n | None \<Rightarrow> 5),
                arg_labels = opt_labels opts,
                tunnel = opt_tunnel opts,
                tunnel_authkey = opt_tunnel_authkey opts,
                tunnel_server = opt_tunnel_server opts\<rparr>)"

text \<open>The id of the daemon; \<open>uuid\<close> is the fresh one.\<close>

definition daemon_id_of :: "string \<Rightarrow> args \<Rightarrow> string" where
  "daemon_id_of uuid a = (case arg_daemon_id a of Some i \<Rightarrow> i | None \<Rightarrow> uuid)"

text \<open>What a session says about the machine.\<close>

record platform_info =
  pi_host_name :: "string option"
  pi_os :: string
  pi_arch :: string
  pi_version :: string

definition metadata_of :: "platform_info \<Rightarrow> string hmap \<Rightarrow> daemon_metadata" where
  "metadata_of info lbls =
     \<lparr>hostname = (case pi_host_name info of Some n \<Rightarrow> n | None \<Rightarrow> ''unknown''),
      platform = pi_os info, arch = pi_arch info, version = pi_version info, labels = lbls\<rparr>"

definition conf_of :: "platform_info \<Rightarrow> string \<Rightarrow> args \<Rightarrow> serve_conf" where
  "conf_of info uuid a =
     \<lparr>sc_daemon_id = daemon_id_of uuid a, sc_heartbeat_interval = heartbeat_interval a,
      sc_metadata = metadata_of info (parse_labels (arg_labels a))\<rparr>"

section \<open>The signals that end the daemon\<close>

text \<open>\<open>shutdown_signal\<close> resolves on either signal; when no handler for \<open>SIGTERM\<close> can be installed, only on
  an interrupt.\<close>

definition shutdown_signal :: "bool \<Rightarrow> bool \<Rightarrow> bool \<Rightarrow> bool" where
  "shutdown_signal handler_installed sigterm ctrl_c =
     (if handler_installed then sigterm \<or> ctrl_c else ctrl_c)"

section \<open>The daemon's main loop\<close>

text \<open>The outside in one pass. The session begins with an empty session table and a new socket.\<close>

record 'o pass =
  ps_transports :: transports
  ps_now :: nat
  ps_snapshot_init :: "string + unit"
  ps_first :: ws_in
  ps_events :: "serve_event list"
  ps_os :: 'o
  ps_room :: nat

definition fresh_daemon :: "'o pass \<Rightarrow> 'o daemon" where
  "fresh_daemon p = \<lparr>dm_sessions = [], dm_os = ps_os p, dm_tx = \<lparr>sent = [], limit = ps_room p\<rparr>\<rparr>"

text \<open>What dialling and serving come to; nothing while the session goes on.\<close>

definition attempt :: "'o host \<Rightarrow> args \<Rightarrow> serve_conf \<Rightarrow> 'o pass \<Rightarrow> connect_result option" where
  "attempt h a conf p =
     (case dial_controller (ps_transports p) (server_url a) (tunnel a) (Inr Disconnected) of
        Unreachable e \<Rightarrow> Some (Unreachable e)
      | Served _ \<Rightarrow>
          map_option (dial_controller (ps_transports p) (server_url a) (tunnel a))
            (serve h conf (ps_now p) (ps_snapshot_init p) (ps_first p) (ps_events p) (fresh_daemon p)))"

fun daemon_main ::
  "'m tools \<Rightarrow> 'o host \<Rightarrow> args \<Rightarrow> serve_conf \<Rightarrow> bool \<Rightarrow> 'o pass list \<Rightarrow> 'm mesh \<Rightarrow> main_action list \<times> 'm mesh" where
  "daemon_main ts h a conf stale [] m = ([], m)"
| "daemon_main ts h a conf stale (p # ps) m =
     (case (if tunnel a then setup_tunnel ts (tunnel_authkey a) (tunnel_server a) stale m else (Inr (), m)) of
        (ready, m) \<Rightarrow>
          (let setup = (if tunnel a then [SetupTunnel stale] else [])
           in case ready of
             Inl _ \<Rightarrow>
               (case daemon_main ts h a conf stale ps m of
                  (acts, m) \<Rightarrow> (setup @ Sleep (reconnect_interval a) # acts, m))
           | Inr _ \<Rightarrow>
               (case attempt h a conf p of
                  None \<Rightarrow> (setup @ [Connect], m)
                | Some r \<Rightarrow>
                    (case connect_and_serve r of
                       Inr Shutdown \<Rightarrow> (setup @ [Connect, Exit], m)
                     | Inr Disconnected \<Rightarrow>
                         (case daemon_main ts h a conf False ps m of
                            (acts, m) \<Rightarrow> (setup @ Connect # Sleep (reconnect_interval a) # acts, m))
                     | Inl _ \<Rightarrow>
                         (case daemon_main ts h a conf True ps m of
                            (acts, m) \<Rightarrow> (setup @ Connect # Sleep (reconnect_interval a) # acts, m))))))"

section \<open>The controller's web server\<close>

definition health_handler :: string where
  "health_handler = ''OK''"

datatype route_reply = WsReply upgrade | StatsReply json | HealthReply string | NoRoute

definition route :: "string \<Rightarrow> string option \<Rightarrow> u64 \<Rightarrow> server \<Rightarrow> route_reply" where
  "route path header now srv =
     (if path = ''/ws'' then WsReply (websocket_handler header)
      else if path = ''/stats'' then StatsReply (stats_handler now srv)
      else if path = ''/health'' then HealthReply health_handler
      else NoRoute)"

text \<open>What \<open>start\<close> does, in order. The monitor is spawned before the address is bound; \<open>served\<close> is how
  the serving of requests ends.\<close>

datatype start_action = SpawnMonitor | Bind string | Serve

definition server_start :: "string \<Rightarrow> bool \<Rightarrow> string + unit \<Rightarrow> (string + unit) \<times> start_action list" where
  "server_start bind_addr bound served =
     (if \<not> bound then (Inl ''Failed to bind server'', [SpawnMonitor, Bind bind_addr])
      else (case served of
              Inl _ \<Rightarrow> (Inl ''Server error'', [SpawnMonitor, Bind bind_addr, Serve])
            | Inr _ \<Rightarrow> (Inr (), [SpawnMonitor, Bind bind_addr, Serve])))"

section \<open>The results of the passes\<close>

text \<open>Whether the mesh was set up in each pass, and what the attempt came to, as the loop runs them.\<close>

fun pass_results ::
  "'m tools \<Rightarrow> 'o host \<Rightarrow> args \<Rightarrow> serve_conf \<Rightarrow> bool \<Rightarrow> 'o pass list \<Rightarrow> 'm mesh \<Rightarrow> (bool \<times> connect_result) list" where
  "pass_results ts h a conf stale [] m = []"
| "pass_results ts h a conf stale (p # ps) m =
     (case (if tunnel a then setup_tunnel ts (tunnel_authkey a) (tunnel_server a) stale m else (Inr (), m)) of
        (ready, m) \<Rightarrow>
          (let r = (case attempt h a conf p of Some r \<Rightarrow> r | None \<Rightarrow> Unreachable []);
               ok = (\<exists>u. ready = Inr u)
           in (ok, r) # pass_results ts h a conf (stale_after (tunnel a) stale (ok, r)) ps m))"

lemma attempt_served:
  "attempt h a conf p = Some r \<Longrightarrow> (\<exists>e. r = Unreachable e) \<or> (\<exists>res. r = Served res)"
  by (cases r) auto


text \<open>Two passes: the controller is not there, then a session that is told to shut down.\<close>

definition demo_args :: args where
  "demo_args = \<lparr>server_url = ''ws://c/ws'', arg_daemon_id = None, reconnect_interval = 5, heartbeat_interval = 5,
     arg_labels = [''env=prod''], tunnel = False, tunnel_authkey = None, tunnel_server = None\<rparr>"

definition demo_transports :: "string + unit \<Rightarrow> transports" where
  "demo_transports r =
     \<lparr>client_request = (\<lambda>_. Inr \<lparr>uri_scheme = Some ''ws'', uri_host = Some ''c'', uri_port = None\<rparr>),
      socks_connect = (\<lambda>_ _ _. Inr ()), handshake = Inr (), connect_async = (\<lambda>_. r)\<rparr>"

definition demo_pass :: "string + unit \<Rightarrow> nat pass" where
  "demo_pass r = \<lparr>ps_transports = demo_transports r, ps_now = 0, ps_snapshot_init = Inr (),
     ps_first = InText (Some (RegisterAck True ''ok'')),
     ps_events = [Beat, Wake ((at_time 7)\<lparr>wk_shutdown := True\<rparr>)], ps_os = 0, ps_room = 10\<rparr>"

lemma demo_attempts:
  "attempt demo_host demo_args demo_conf (demo_pass (Inl ''refused'')) =
     Some (Unreachable (''Failed to connect to server: '' @ ''refused''))"
  "attempt demo_host demo_args demo_conf (demo_pass (Inr ())) = Some (Served (Inr Shutdown))"
proof -
  show "attempt demo_host demo_args demo_conf (demo_pass (Inl ''refused'')) =
     Some (Unreachable (''Failed to connect to server: '' @ ''refused''))"
    by (simp add: attempt_def dial_controller_def demo_pass_def demo_transports_def demo_args_def)
  have "serve demo_host demo_conf 0 (Inr ()) (InText (Some (RegisterAck True ''ok'')))
      [Beat, Wake ((at_time 7)\<lparr>wk_shutdown := True\<rparr>)] \<lparr>dm_sessions = [], dm_os = 0, dm_tx = \<lparr>sent = [], limit = 10\<rparr>\<rparr> =
    Some (Inr Shutdown)"
    by (simp add: serve_def serve_start_def send_text_def tx_send_def serve_step_def beat_tick_def put_frame_def
        serve_wake_def poll_def at_time_def finish_serve_def)
  then show "attempt demo_host demo_args demo_conf (demo_pass (Inr ())) = Some (Served (Inr Shutdown))"
    by (simp add: attempt_def dial_controller_def demo_pass_def demo_transports_def demo_args_def fresh_daemon_def)
qed


text \<open>In tunnel mode without a key or without a mesh server the daemon never starts: it runs no program
  and never dials, but it does not exit either: it fails and sleeps in every pass, for ever.\<close>

theorem tunnel_without_key:
  assumes "tunnel a" and "tunnel_authkey a = None \<or> tunnel_server a = None"
  shows "daemon_main ts h a conf stale ps m =
    (concat (replicate (length ps) [SetupTunnel stale, Sleep (reconnect_interval a)]), m)"
proof -
  have "\<exists>e. setup_tunnel ts (tunnel_authkey a) (tunnel_server a) stale m = (Inl e, m)"
    using assms(2) by (auto simp: setup_tunnel_def split: option.splits)
  then obtain e where e: "setup_tunnel ts (tunnel_authkey a) (tunnel_server a) stale m = (Inl e, m)" ..
  show ?thesis by (induction ps) (simp_all add: assms(1) e Let_def)
qed

theorem tunnel_without_key_witness:
  "daemon_main demo_tools demo_host (demo_args\<lparr>tunnel := True, tunnel_server := Some ''s''\<rparr>) demo_conf False
     [demo_pass (Inr ()), demo_pass (Inr ())] demo_node =
   ([SetupTunnel False, Sleep 5, SetupTunnel False, Sleep 5], demo_node)"
  using tunnel_without_key [of "demo_args\<lparr>tunnel := True, tunnel_server := Some ''s''\<rparr>" demo_tools demo_host demo_conf
      False "[demo_pass (Inr ()), demo_pass (Inr ())]" demo_node]
  by (simp add: demo_args_def)

section \<open>What the command line gives\<close>

text \<open>The controller's URL and the daemon's id come from the command line, or else from the environment; a
  command line without an id in an environment without one gives a fresh id, and one without a URL
  is refused.\<close>

lemma command_line:
  assumes "parse_args env opts = Some a"
  shows "opt_server_url opts = Some (server_url a) \<or>
      opt_server_url opts = None \<and> env ''SANDD_CONTROLLER_URL'' = Some (server_url a)"
    and "sc_daemon_id (conf_of info uuid a) =
      (case opt_daemon_id opts of
         Some i \<Rightarrow> i
       | None \<Rightarrow> (case env ''SANDD_DAEMON_ID'' of Some i \<Rightarrow> i | None \<Rightarrow> uuid))"
  using assms
  by (auto simp: parse_args_def or_else_def conf_of_def daemon_id_of_def split: option.splits)

text \<open>A heartbeat interval that is not given is five seconds, so the liveness deadline is thirty.\<close>

lemma default_deadline:
  assumes "parse_args env opts = Some a" and "opt_heartbeat_interval opts = None"
  shows "ack_timeout (sc_heartbeat_interval (conf_of info uuid a)) = 30 * 1000000000"
proof -
  have "sc_heartbeat_interval (conf_of info uuid a) = 5"
    using assms by (auto simp: parse_args_def conf_of_def split: option.splits)
  then show ?thesis by (simp add: ack_timeout_nat)
qed

text \<open>The web server of a controller whose address is taken serves nothing, but its monitor runs.\<close>

lemma bind_error: "server_start addr False served = (Inl ''Failed to bind server'', [SpawnMonitor, Bind addr])"
  by (simp add: server_start_def)

end
