(* ===== verification/EndToEnd.thy ===== *)
theory EndToEnd
  imports Handlers Serve
begin

text \<open>
  Server and daemon together: a call of the Python API whose request travels over the WebSocket
  task to a daemon, is handled there, and whose answers travel back, and the output of a session
  from the terminal to the reader. The composition uses the server's own step function for the
  forwarding, the daemon's \<open>handle_message\<close>, and the server's message handler.
\<close>

section \<open>One round trip\<close>

definition deliver :: "ws_task \<Rightarrow> frame \<Rightarrow> server \<Rightarrow> server" where
  "deliver t f sv = (case f of Text m \<Rightarrow> answered_by m t sv | CloseFrame \<Rightarrow> sv)"

text \<open>The task forwards the oldest queued request, the daemon handles it, and the server reads all the
  frames the daemon sent for it.\<close>

definition round_trip :: "'o host \<Rightarrow> 'o daemon \<Rightarrow> ws_task \<Rightarrow> server \<Rightarrow> server" where
  "round_trip h d t sv =
     (case ws_step 0 ReqReady t sv of
        (t1, sv1) \<Rightarrow>
          fold (deliver t1)
            (drop (length (sent (dm_tx d)))
              (sent (dm_tx (snd (handle_message h (last (ws_sent t1)) d))))) sv1)"

lemma answered_state:
  assumes "pending_at sv a rid = Some q" and "oneshots (chans sv) q = OsEmpty"
    and "registry_get (reg sv) i = Some a" and "daemon_id t = Some i" and "response_id m = Some rid"
  shows "oneshots (chans (answered_by m t sv)) q = OsSent m"
  using assms
  by (simp add: answered_by_def handle_response_message [OF assms(5)] handle_response_def
      with_conn_def oneshots_complete)

text \<open>The state after a request was queued on an empty queue and forwarded.\<close>

lemma forwarded:
  assumes "ws_running t" and "ws_tx_ok t" and "request_tx (heap (reg sv) a) = req_chan t"
    and "receiver_open (req_chans (chans sv) (req_chan t))"
    and "queue (req_chans (chans sv) (req_chan t)) = []"
  obtains t1 sv1 where "ws_step 0 ReqReady t (snd (call_send m a sv)) = (t1, sv1)"
    "last (ws_sent t1) = m" "daemon_id t1 = daemon_id t" "reg sv1 = reg sv"
    "oneshots (chans sv1) = oneshots (chans sv)" "out_chans (chans sv1) = out_chans (chans sv)"
proof -
  let ?sv = "snd (call_send m a sv)"
  have q: "queue (req_chans (chans ?sv) (req_chan t)) = m # []"
    using call_send_open(3) [OF assms(4,3), of m] assms(5) by simp
  have same: "reg ?sv = reg sv" "oneshots (chans ?sv) = oneshots (chans sv)"
    "out_chans (chans ?sv) = out_chans (chans sv)"
    by (simp_all add: call_send_def send_message_def split: prod.splits bool.splits)
  show thesis
    by (rule that [OF forward_one [OF assms(1,2) q, of 0, unfolded forward_def prod.case]])
      (simp_all add: same)
qed

section \<open>Commands\<close>


lemma demo_idle_task:
  "ws_running (tasks demo_idle 0)" "ws_tx_ok (tasks demo_idle 0)" "req_chan (tasks demo_idle 0) = 0"
  by code_simp+


section \<open>Downloads\<close>

lemma deliver_texts: "fold (deliver t) (map Text ms) sv = fold (\<lambda>m. answered_by m t) ms sv"
  by (induction ms arbitrary: sv) (simp_all add: deliver_def)

lemma answered_chunks:
  assumes "daemon_id t = Some i" and "registry_get (reg s) i = Some a"
  shows "heap (reg (fold (\<lambda>m. answered_by m t) (map (\<lambda>(k, c). FileDownloadChunk rid c (g k) (l k)) kcs) s)) a =
    fold (add_file_chunk rid) (map snd kcs) (heap (reg s) a)"
  using assms(2)
proof (induction kcs arbitrary: s)
  case (Cons kc kcs)
  have "answered_by (FileDownloadChunk rid c off l) t s = arc_op (add_file_chunk rid c) a s" for c off l
    using Cons.prems assms(1) by (simp add: answered_by_def handle_daemon_message_def with_conn_def)
  with Cons show ?case by (cases kc) (simp add: update_arc_heap)
qed simp

text \<open>The frames a daemon sends for a download, and what the server makes of them.\<close>

lemma download_frames:
  assumes "(length data + 65535) div 65536 + length (sent (dm_tx d)) < limit (dm_tx d)"
    and "read_file h path (dm_os d) = (r, os)" and "r = Inr data \<or> r = Inl e \<and> data = []"
    and "daemon_id t = Some i"
  obtains ms where "drop (length (sent (dm_tx d)))
      (sent (dm_tx (snd (handle_message h (FileDownloadStart rid path) d)))) = map Text ms"
    "\<And>s. registry_get (reg s) i = Some a \<Longrightarrow> heap (reg (fold (\<lambda>m. answered_by m t) ms s)) a =
       fold (add_file_chunk rid) (chunks download_chunk_size data) (heap (reg s) a)"
proof (cases r)
  case (Inr x)
  with assms(3) have r: "r = Inr data" by simp
  let ?kcs = "enumerate 0 (chunks download_chunk_size data)"
  let ?g = "\<lambda>k. of_nat (k * download_chunk_size) :: u64"
  let ?l = "\<lambda>k. length data \<le> (k + 1) * download_chunk_size"
  show thesis
  proof (rule that)
    show "drop (length (sent (dm_tx d))) (sent (dm_tx (snd (handle_message h (FileDownloadStart rid path) d)))) =
        map Text (map (\<lambda>(k, c). FileDownloadChunk rid c (?g k) (?l k)) ?kcs)"
      using assms(1,2) r
      by (simp add: handle_message_def handle_download_start_def send_download_ok length_chunks
          download_chunk_size_def case_prod_unfold)
    show "heap (reg (fold (\<lambda>m. answered_by m t) (map (\<lambda>(k, c). FileDownloadChunk rid c (?g k) (?l k)) ?kcs) s)) a =
        fold (add_file_chunk rid) (chunks download_chunk_size data) (heap (reg s) a)"
      if "registry_get (reg s) i = Some a" for s
      using answered_chunks [OF assms(4) that, of rid ?g ?l ?kcs] by simp
  qed
next
  case (Inl x)
  with assms(3) have r: "r = Inl e" "data = []" by simp_all
  show thesis
    by (rule that [of "[FileDownloadError rid e]"])
      (use assms(1,2) r in \<open>simp_all add: handle_message_def handle_download_start_def send_text_sent
        answered_by_def handle_daemon_message_def\<close>)
qed

text \<open>C38. A file downloaded from Python is the file the daemon reads, byte for byte, when the whole round
  trip happens while the call waits; when the daemon cannot read it, the call returns an empty
  file and no error.\<close>

theorem download_end_to_end:
  assumes "registry_get (reg sv) i = Some a" and "daemon_id t = Some i" and "ws_running t" and "ws_tx_ok t"
    and "request_tx (heap (reg sv) a) = req_chan t"
    and "receiver_open (req_chans (chans sv) (req_chan t))"
    and "queue (req_chans (chans sv) (req_chan t)) = []"
    and "(length data + 65535) div 65536 + length (sent (dm_tx d)) < limit (dm_tx d)"
    and "read_file h path (dm_os d) = (r, os)" and "r = Inr data \<or> r = Inl e \<and> data = []"
  shows "fst (download_file (round_trip h d t) rid i path sv) = Inr data"
proof -
  let ?m = "FileDownloadStart rid path"
  let ?sv = "arc_op (start_file_transfer rid path 0) a sv"
  have tx: "request_tx (heap (reg ?sv) a) = req_chan t"
    using assms(5) by (simp add: update_arc_heap start_file_transfer_def)
  obtain t1 sv1 where f: "ws_step 0 ReqReady t (snd (call_send ?m a ?sv)) = (t1, sv1)"
    "last (ws_sent t1) = ?m" "daemon_id t1 = daemon_id t" "reg sv1 = reg ?sv"
    by (rule forwarded [OF assms(3,4) tx, of ?m]) (use assms(6,7) in auto)
  obtain ms where ms: "drop (length (sent (dm_tx d))) (sent (dm_tx (snd (handle_message h ?m d)))) = map Text ms"
    "\<And>s. registry_get (reg s) i = Some a \<Longrightarrow> heap (reg (fold (\<lambda>m. answered_by m t1) ms s)) a =
       fold (add_file_chunk rid) (chunks download_chunk_size data) (heap (reg s) a)"
    by (rule download_frames [OF assms(8-10), of t1 i rid a]) (use f(3) assms(2) in auto)
  have sent: "\<exists>sv2. call_send ?m a ?sv = (Inr (), sv2)"
    using call_send_open(1) [of ?sv "req_chan t" a ?m] tx assms(6) by (metis arc_op_fields(2) prod.collapse)
  have rt: "round_trip h d t (snd (call_send ?m a ?sv)) = fold (\<lambda>m. answered_by m t1) ms sv1"
    using f ms(1) by (simp add: round_trip_def deliver_texts)
  have "hm_get (file_transfers (heap (reg (fold (\<lambda>m. answered_by m t1) ms sv1)) a)) rid =
      Some \<lparr>ft_path = path, ft_chunks = chunks download_chunk_size data, ft_total_size = 0,
            ft_received_size = of_nat (length data)\<rparr>"
    using ms(2) [of sv1] f(4) assms(1)
    by (simp add: add_file_chunks_get update_arc_heap start_file_transfer_def concat_chunks
        download_chunk_size_def)
  with sent rt assms(1) show ?thesis
    by (auto simp: download_file_def Let_def complete_file_transfer_result case_prod_unfold
        concat_chunks download_chunk_size_def)
qed

theorem download_end_to_end_witness:
  "fst (download_file (round_trip demo_host demo_daemon (tasks demo_idle 0)) ''f1'' ''d1'' ''/f'' (srv demo_idle)) =
     Inr [1, 2, 3] \<and>
   fst (download_file (round_trip demo_host demo_daemon (tasks demo_idle 0)) ''f1'' ''d1'' ''/none'' (srv demo_idle)) =
     Inr []"
proof -
  have h: "request_tx (heap (reg (srv demo_idle)) 0) = req_chan (tasks demo_idle 0)"
    "receiver_open (req_chans (chans (srv demo_idle)) (req_chan (tasks demo_idle 0)))"
    "queue (req_chans (chans (srv demo_idle)) (req_chan (tasks demo_idle 0))) = []"
    by (simp_all add: demo_idle_state demo_idle_task)
  note end_to_end = download_end_to_end [OF demo_idle_state(2,3) demo_idle_task(1,2) h]
  have "fst (download_file (round_trip demo_host demo_daemon (tasks demo_idle 0)) ''f1'' ''d1'' ''/f'' (srv demo_idle)) =
      Inr [1, 2, 3]"
    by (rule end_to_end [where r = "Inr [1, 2, 3]" and os = 0 and e = "[]"])
      (simp_all add: demo_daemon_def demo_host_def)
  moreover have "fst (download_file (round_trip demo_host demo_daemon (tasks demo_idle 0)) ''f1'' ''d1'' ''/none'' (srv demo_idle)) =
      Inr []"
    by (rule end_to_end [where r = "Inl ''not found''" and os = 0 and e = "''not found''"])
      (simp_all add: demo_daemon_def demo_host_def)
  ultimately show ?thesis by blast
qed

section \<open>Session output\<close>

text \<open>C37. The output of a session reaches its reader whole and in order: when the terminal yields the
  pieces \<open>ds\<close> and then ends, the reader's queue grows by exactly these pieces, in this order, and
  the server then forgets the session, so nothing can follow them.\<close>

theorem session_output_end_to_end:
  assumes "reg_ok (reg sv)" and "registry_get (reg sv) i = Some a" and "daemon_id t = Some i"
    and "session_get (heap (reg sv) a) sid = Some ch" and "receiver_open (out_chans (chans sv) ch)"
    and "length ds < room"
    and "sv' = fold (\<lambda>m. answered_by m t) (reader_task sid (map ReadBytes ds @ [ReadEof]) room) sv"
  shows "queue (out_chans (chans sv') ch) = queue (out_chans (chans sv) ch) @ ds \<and>
    session_get (heap (reg sv') a) sid = None"
  using assms
proof (induction ds arbitrary: sv room)
  case Nil
  then have "sv' = arc_op (close_session sid) a sv"
    by (simp add: answered_by_def handle_daemon_message_def with_conn_def)
  then show ?case by (simp add: session_get_def close_session_def update_arc_heap)
next
  case (Cons b ds)
  let ?sv = "answered_by (SessionOutput sid b) t sv"
  have sv: "?sv = sv\<lparr>chans := send_session_output sid b (heap (reg sv) a) (chans sv)\<rparr>"
    using Cons.prems by (simp add: answered_by_def handle_daemon_message_def with_conn_def)
  have out: "out_chans (chans ?sv) ch = (out_chans (chans sv) ch)\<lparr>queue := queue (out_chans (chans sv) ch) @ [b]\<rparr>"
    using Cons.prems(4,5) unfolding sv by (simp add: session_get_def send_session_output_def mpsc_send_def)
  have "sv' = fold (\<lambda>m. answered_by m t) (reader_task sid (map ReadBytes ds @ [ReadEof]) (room - 1)) ?sv"
    using Cons.prems(6,7) by simp
  from Cons.IH [OF _ _ _ _ _ _ this] Cons.prems out show ?case
    unfolding sv by simp
qed

definition demo_shell :: system where
  "demo_shell = perform (OpenSession 0 ''s1'' 3) demo_idle"

lemma demo_shell_state:
  "reg_ok (reg (srv demo_shell))" "registry_get (reg (srv demo_shell)) ''d1'' = Some 0"
  "daemon_id (tasks demo_shell 0) = Some ''d1''"
  "session_get (heap (reg (srv demo_shell)) 0) ''s1'' = Some 3"
  "receiver_open (out_chans (chans (srv demo_shell)) 3)" "queue (out_chans (chans (srv demo_shell)) 3) = []"
proof -
  have "sys_step\<^sup>*\<^sup>* demo_idle demo_shell"
    using steps_perform [of demo_idle "[OpenSession 0 ''s1'' 3]"] unfolding demo_shell_def by simp
  moreover have "reachable demo_idle" unfolding demo_idle_def by (rule reachable_perform)
  ultimately show "reg_ok (reg (srv demo_shell))"
    by (blast intro: reachable_steps reachable_srv_ok srv_ok_reg)
qed code_simp+

theorem session_output_end_to_end_witness:
  "queue (out_chans (chans (fold (\<lambda>m. answered_by m (tasks demo_shell 0))
      (reader_task ''s1'' (map ReadBytes [[36, 32], [108, 115]] @ [ReadEof]) 9) (srv demo_shell))) 3) =
     [[36, 32], [108, 115]]"
  using session_output_end_to_end [OF demo_shell_state(1-5) _ refl, of "[[36, 32], [108, 115]]" 9]
    demo_shell_state(6) by simp

end
