(* ===== verification/FileSystem.thy ===== *)
theory FileSystem
  imports Prelude
begin

text \<open>
  What the snapshot store uses of the file system: paths, nodes, the resolution of a path with
  symbolic links, and the operations of \<open>tokio::fs\<close> and \<open>std::path\<close> that the source calls. Not
  every operation succeeds: the permissions and the space of the disk are the predicate
  \<open>writable\<close> on paths. An operation that fails gives no result.

  A path that has been resolved is the list of its components from the root of the file system.
\<close>

section \<open>Nodes and paths\<close>

type_synonym path = "string list"

text \<open>A regular file has its bytes, its mode (with the bits of its type, as \<open>Permissions::mode\<close> gives
  it) and its modification time in nanoseconds, a directory the
  last two, a symbolic link its target and its time; the last kind stands for pipes, sockets and devices.\<close>

datatype node = File bytes u32 nat | Dir u32 nat | Link string nat | Special

record fsys =
  nodes :: "(path \<times> node) list"
  writable :: "path \<Rightarrow> bool"
  other_len :: "path \<Rightarrow> u64"
    \<comment> \<open>the length reported for what is no regular file\<close>

definition lstat :: "fsys \<Rightarrow> path \<Rightarrow> node option" where
  "lstat fs p = (if p = [] then Some (Dir 16877 0) else map_of (nodes fs) p)"

fun is_dir_node :: "node option \<Rightarrow> bool" where
  "is_dir_node (Some (Dir _ _)) = True"
| "is_dir_node _ = False"

definition is_absolute :: "string \<Rightarrow> bool" where
  "is_absolute s = starts_with ''/'' s"

text \<open>Walk the components \<open>cs\<close> from the directory \<open>cur\<close>. Links on the way are followed, a link at the
  end only if \<open>follow\<close>; \<open>n\<close> bounds the number of links (the kernel gives up after forty).\<close>

function walk :: "nat \<Rightarrow> bool \<Rightarrow> fsys \<Rightarrow> path \<Rightarrow> string list \<Rightarrow> path option" where
  "walk n follow fs cur [] = Some cur"
| "walk n follow fs cur (c # cs) =
     (if c = [] \<or> c = ''.'' then walk n follow fs cur cs
      else if c = ''..'' then walk n follow fs (butlast cur) cs
      else
        (case lstat fs (cur @ [c]) of
           Some (Dir _ _) \<Rightarrow> walk n follow fs (cur @ [c]) cs
         | Some (Link target _) \<Rightarrow>
             (if cs = [] \<and> \<not> follow then Some (cur @ [c])
              else if n = 0 then None
              else walk (n - 1) follow fs (if is_absolute target then [] else cur)
                     (split_on CHR ''/'' target @ cs))
         | _ \<Rightarrow> (if cs = [] then Some (cur @ [c]) else None)))"
  by pat_completeness auto
termination
  by (relation "measures [\<lambda>(n, _). n, \<lambda>(_, _, _, _, cs). length cs]") auto

definition max_links :: nat where
  "max_links = 40"

text \<open>The place that the path \<open>base.join(s)\<close> names, with a link at its end followed or not.\<close>

definition locate :: "bool \<Rightarrow> fsys \<Rightarrow> path \<Rightarrow> string \<Rightarrow> path option" where
  "locate follow fs base s =
     walk max_links follow fs (if is_absolute s then [] else base) (split_on CHR ''/'' s)"

section \<open>Operations\<close>

text \<open>\<open>Path::exists\<close>.\<close>

definition fs_exists :: "fsys \<Rightarrow> path \<Rightarrow> string \<Rightarrow> bool" where
  "fs_exists fs base s =
     (case locate True fs base s of None \<Rightarrow> False | Some p \<Rightarrow> lstat fs p \<noteq> None)"

text \<open>\<open>fs::read\<close>.\<close>

definition fs_read :: "fsys \<Rightarrow> path \<Rightarrow> string \<Rightarrow> bytes option" where
  "fs_read fs base s =
     (case locate True fs base s of
        None \<Rightarrow> None
      | Some p \<Rightarrow> (case lstat fs p of Some (File d _ _) \<Rightarrow> Some d | _ \<Rightarrow> None))"

definition put_node :: "path \<Rightarrow> node \<Rightarrow> fsys \<Rightarrow> fsys" where
  "put_node p x fs = fs\<lparr>nodes := AList.update p x (nodes fs)\<rparr>"

definition drop_node :: "path \<Rightarrow> fsys \<Rightarrow> fsys" where
  "drop_node p fs = fs\<lparr>nodes := AList.delete p (nodes fs)\<rparr>"

text \<open>\<open>fs::write\<close>: a new file, or new contents for an old one, whose mode stays.\<close>

definition fs_write :: "nat \<Rightarrow> path \<Rightarrow> string \<Rightarrow> bytes \<Rightarrow> fsys \<Rightarrow> fsys option" where
  "fs_write now base s d fs =
     (case locate True fs base s of
        None \<Rightarrow> None
      | Some p \<Rightarrow>
          (if \<not> writable fs p then None
           else (case lstat fs p of
               None \<Rightarrow> if is_dir_node (lstat fs (butlast p)) then Some (put_node p (File d 33188 now) fs) else None
             | Some (File _ m _) \<Rightarrow> Some (put_node p (File d m now) fs)
             | _ \<Rightarrow> None)))"

text \<open>\<open>fs::rename\<close> of something that is no directory.\<close>

definition fs_rename :: "path \<Rightarrow> string \<Rightarrow> string \<Rightarrow> fsys \<Rightarrow> fsys option" where
  "fs_rename base s s' fs =
     (case (locate False fs base s, locate False fs base s') of
        (Some p, Some p') \<Rightarrow>
          (case lstat fs p of
             None \<Rightarrow> None
           | Some x \<Rightarrow>
               (if is_dir_node (Some x) \<or> is_dir_node (lstat fs p') \<or> \<not> writable fs p' \<or>
                   \<not> is_dir_node (lstat fs (butlast p')) then None
                else if p = p' then Some fs
                else Some (put_node p' x (drop_node p fs))))
      | _ \<Rightarrow> None)"

text \<open>\<open>fs::remove_file\<close>.\<close>

definition fs_remove_file :: "path \<Rightarrow> string \<Rightarrow> fsys \<Rightarrow> fsys option" where
  "fs_remove_file base s fs =
     (case locate False fs base s of
        None \<Rightarrow> None
      | Some p \<Rightarrow>
          (case lstat fs p of
             None \<Rightarrow> None
           | Some x \<Rightarrow> if is_dir_node (Some x) \<or> \<not> writable fs p then None else Some (drop_node p fs)))"

text \<open>\<open>fs::copy\<close>: the contents and the mode of a file.\<close>

definition fs_copy :: "nat \<Rightarrow> path \<Rightarrow> string \<Rightarrow> path \<Rightarrow> string \<Rightarrow> fsys \<Rightarrow> fsys option" where
  "fs_copy now base s base' s' fs =
     (case locate True fs base s of
        None \<Rightarrow> None
      | Some p \<Rightarrow>
          (case lstat fs p of
             Some (File d m _) \<Rightarrow>
               (case fs_write now base' s' d fs of
                  None \<Rightarrow> None
                | Some fs1 \<Rightarrow>
                    map_option (\<lambda>p'. put_node p' (File d m now) fs1) (locate True fs1 base' s'))
           | _ \<Rightarrow> None))"

text \<open>\<open>fs::create_dir_all\<close>, component by component.\<close>

fun make_dirs :: "fsys \<Rightarrow> path \<Rightarrow> string list \<Rightarrow> fsys option" where
  "make_dirs fs cur [] = Some fs"
| "make_dirs fs cur (c # cs) =
     (case locate True fs cur c of
        None \<Rightarrow> None
      | Some p \<Rightarrow>
          (case lstat fs p of
             None \<Rightarrow>
               if writable fs p \<and> is_dir_node (lstat fs (butlast p))
               then make_dirs (put_node p (Dir 16877 0) fs) p cs else None
           | Some x \<Rightarrow> if is_dir_node (Some x) then make_dirs fs p cs else None))"

definition fs_create_dir_all :: "path \<Rightarrow> string \<Rightarrow> fsys \<Rightarrow> fsys option" where
  "fs_create_dir_all base s fs =
     make_dirs fs (if is_absolute s then [] else base) (split_on CHR ''/'' s)"

text \<open>The names in a directory, in the order in which it is read.\<close>

definition fs_read_dir :: "fsys \<Rightarrow> path \<Rightarrow> string list" where
  "fs_read_dir fs d =
     remdups (map (last \<circ> fst) (filter (\<lambda>(p, _). p \<noteq> [] \<and> butlast p = d) (nodes fs)))"

text \<open>\<open>fs::metadata\<close>: the length and the modification time, links followed.\<close>

definition fs_metadata :: "fsys \<Rightarrow> path \<Rightarrow> string \<Rightarrow> (u64 \<times> nat) option" where
  "fs_metadata fs base s =
     (case locate True fs base s of
        None \<Rightarrow> None
      | Some p \<Rightarrow>
          (case lstat fs p of
             None \<Rightarrow> None
           | Some (File d _ t) \<Rightarrow> Some (of_nat (length d), t)
           | Some (Dir _ t) \<Rightarrow> Some (other_len fs p, t)
           | Some _ \<Rightarrow> Some (other_len fs p, 0)))"

text \<open>\<open>Path::is_symlink\<close>.\<close>

definition fs_is_symlink :: "fsys \<Rightarrow> path \<Rightarrow> string \<Rightarrow> bool" where
  "fs_is_symlink fs base s =
     (case locate False fs base s of
        None \<Rightarrow> False
      | Some p \<Rightarrow> (case lstat fs p of Some (Link _ _) \<Rightarrow> True | _ \<Rightarrow> False))"

text \<open>Change the node that a path names, links followed.\<close>

definition fs_change :: "(node \<Rightarrow> node) \<Rightarrow> path \<Rightarrow> string \<Rightarrow> fsys \<Rightarrow> fsys option" where
  "fs_change f base s fs =
     (case locate True fs base s of
        None \<Rightarrow> None
      | Some p \<Rightarrow>
          (case lstat fs p of
             None \<Rightarrow> None
           | Some x \<Rightarrow> if writable fs p \<and> p \<noteq> [] then Some (put_node p (f x) fs) else None))"

text \<open>\<open>set_permissions\<close> keeps the bits of the type, and takes the others.\<close>

fun chmod_node :: "u32 \<Rightarrow> node \<Rightarrow> node" where
  "chmod_node m (File d m0 t) = File d (or (and m0 61440) (and m 4095)) t"
| "chmod_node m (Dir m0 t) = Dir (or (and m0 61440) (and m 4095)) t"
| "chmod_node m x = x"

fun touch_node :: "nat \<Rightarrow> node \<Rightarrow> node" where
  "touch_node t (File d m _) = File d m t"
| "touch_node t (Dir m _) = Dir m t"
| "touch_node t x = x"

text \<open>\<open>fs::symlink\<close>.\<close>

definition fs_symlink :: "nat \<Rightarrow> string \<Rightarrow> path \<Rightarrow> string \<Rightarrow> fsys \<Rightarrow> fsys option" where
  "fs_symlink now target base s fs =
     (case locate False fs base s of
        None \<Rightarrow> None
      | Some p \<Rightarrow>
          (if lstat fs p = None \<and> writable fs p \<and> is_dir_node (lstat fs (butlast p))
           then Some (put_node p (Link target now) fs) else None))"

text \<open>\<open>fs::remove_dir_all\<close> of a directory that is named without its links followed; nothing is removed
  unless all of it can be.\<close>

definition fs_remove_dir_all :: "path \<Rightarrow> string \<Rightarrow> fsys \<Rightarrow> fsys option" where
  "fs_remove_dir_all base s fs =
     (case locate False fs base s of
        None \<Rightarrow> None
      | Some p \<Rightarrow>
          (if is_dir_node (lstat fs p) \<and> p \<noteq> [] \<and>
              list_all (\<lambda>(q, _). take (length p) q = p \<longrightarrow> writable fs q) (nodes fs)
           then Some (fs\<lparr>nodes := filter (\<lambda>(q, _). take (length p) q \<noteq> p) (nodes fs)\<rparr>) else None))"

section \<open>Names\<close>

text \<open>\<open>rsplit_file_at_dot\<close> of the standard library: the stem and the extension of a file name. A dot at
  the start begins no extension.\<close>

definition split_dot :: "string \<Rightarrow> string \<times> string option" where
  "split_dot name =
     (let r = rev name; ext = rev (takeWhile (\<lambda>c. c \<noteq> CHR ''.'') r);
          stem = rev (drop 1 (dropWhile (\<lambda>c. c \<noteq> CHR ''.'') r))
      in if CHR ''.'' \<notin> set name \<or> stem = [] then (name, None) else (stem, Some ext))"

definition with_extension :: "string \<Rightarrow> string \<Rightarrow> string" where
  "with_extension ext name = fst (split_dot name) @ ''.'' @ ext"

text \<open>\<open>str::from_utf8\<close> accepts exactly these byte sequences; \<open>read_to_string\<close> fails on others. A string
  is its bytes.\<close>

definition is_cont :: "u8 \<Rightarrow> bool" where
  "is_cont b \<longleftrightarrow> 128 \<le> b \<and> b \<le> 191"

fun utf8_ok :: "bytes \<Rightarrow> bool" where
  "utf8_ok [] = True"
| "utf8_ok [a] = (a < 128)"
| "utf8_ok [a, b] = (if a < 128 then utf8_ok [b] else 194 \<le> a \<and> a \<le> 223 \<and> is_cont b)"
| "utf8_ok [a, b, c] =
     (if a < 128 then utf8_ok [b, c]
      else if a \<le> 223 then 194 \<le> a \<and> is_cont b \<and> utf8_ok [c]
      else a \<le> 239 \<and> is_cont b \<and> is_cont c \<and> (a = 224 \<longrightarrow> 160 \<le> b) \<and> (a = 237 \<longrightarrow> b \<le> 159))"
| "utf8_ok (a # b # c # d # r) =
     (if a < 128 then utf8_ok (b # c # d # r)
      else if a \<le> 223 then 194 \<le> a \<and> is_cont b \<and> utf8_ok (c # d # r)
      else if a \<le> 239
      then is_cont b \<and> is_cont c \<and> (a = 224 \<longrightarrow> 160 \<le> b) \<and> (a = 237 \<longrightarrow> b \<le> 159) \<and> utf8_ok (d # r)
      else a \<le> 244 \<and> is_cont b \<and> is_cont c \<and> is_cont d \<and> (a = 240 \<longrightarrow> 144 \<le> b) \<and>
        (a = 244 \<longrightarrow> b \<le> 143) \<and> utf8_ok r)"

definition bytes_of :: "string \<Rightarrow> bytes" where
  "bytes_of s = map of_char s"

definition string_of :: "bytes \<Rightarrow> string" where
  "string_of d = map (\<lambda>b. char_of (unat b)) d"

definition fs_read_to_string :: "fsys \<Rightarrow> path \<Rightarrow> string \<Rightarrow> string option" where
  "fs_read_to_string fs base s =
     (case fs_read fs base s of
        None \<Rightarrow> None
      | Some d \<Rightarrow> if utf8_ok d then Some (string_of d) else None)"

lemma string_of_bytes: "string_of (bytes_of s) = s"
proof -
  have "char_of (unat (of_char c :: u8)) = c" for c
  proof -
    have "(of_char c :: u8) = of_nat (of_char c)" by (simp only: of_nat_of_char)
    then have "unat (of_char c :: u8) = (of_char c :: nat) mod 256"
      by (simp add: unat_of_nat)
    then show ?thesis by (simp add: nat_of_char_less_256)
  qed
  then show ?thesis by (simp add: string_of_def bytes_of_def comp_def)
qed

lemma utf8_ok_ascii: "\<forall>b \<in> set d. b < 128 \<Longrightarrow> utf8_ok d"
  by (induction d rule: utf8_ok.induct) auto

section \<open>Files of a plain directory\<close>

text \<open>A name that is one ordinary component, and a directory in which it is no link.\<close>

definition plain_name :: "string \<Rightarrow> bool" where
  "plain_name s \<longleftrightarrow> s \<noteq> [] \<and> s \<noteq> ''.'' \<and> s \<noteq> ''..'' \<and> CHR ''/'' \<notin> set s"

fun is_link_node :: "node option \<Rightarrow> bool" where
  "is_link_node (Some (Link _ _)) = True"
| "is_link_node _ = False"

lemma locate_plain:
  assumes "plain_name s" and "\<not> is_link_node (lstat fs (base @ [s]))"
  shows "locate follow fs base s = Some (base @ [s])"
proof -
  have "\<not> is_absolute s" using assms(1)
    by (cases s) (auto simp: is_absolute_def plain_name_def)
  moreover have "split_on CHR ''/'' s = [s]" using assms(1) by (simp add: split_on_none plain_name_def)
  moreover have "walk n follow fs base [s] = Some (base @ [s])" for n
  proof (cases "lstat fs (base @ [s])")
    case (Some x)
    with assms show ?thesis by (cases x) (auto simp: plain_name_def)
  qed (use assms in \<open>auto simp: plain_name_def\<close>)
  ultimately show ?thesis by (simp add: locate_def)
qed

lemma locate_plain_nofollow:
  assumes "plain_name s" shows "locate False fs base s = Some (base @ [s])"
proof -
  have "\<not> is_absolute s" using assms(1)
    by (cases s) (auto simp: is_absolute_def plain_name_def)
  moreover have "split_on CHR ''/'' s = [s]" using assms(1) by (simp add: split_on_none plain_name_def)
  moreover have "walk n False fs base [s] = Some (base @ [s])" for n
    using assms by (simp add: plain_name_def split: option.splits node.splits)
  ultimately show ?thesis by (simp add: locate_def)
qed

lemma lstat_put: "p \<noteq> [] \<Longrightarrow> lstat (put_node p x fs) q = (if q = p then Some x else lstat fs q)"
  by (simp add: lstat_def put_node_def update_conv')

lemma lstat_drop: "p \<noteq> [] \<Longrightarrow> lstat (drop_node p fs) q = (if q = p then None else lstat fs q)"
  by (simp add: lstat_def drop_node_def delete_conv')

lemma put_node_frame [simp]: "writable (put_node p x fs) = writable fs" "writable (drop_node p fs) = writable fs"
  by (simp_all add: put_node_def drop_node_def)

end
