(* ===== verification/ObjectStore.thy ===== *)
theory ObjectStore
  imports FileSystem
begin

text \<open>
  The content-addressed store of blobs (\<open>sandd/src/snapshot/object_store.rs\<close>): an object is kept
  in a file whose name is the hash of its bytes, under \<open>objects\<close> in the root directory of the
  store, and is written to a temporary file first. The hash (\<open>blake3\<close>, as hexadecimal text) is
  the parameter \<open>H\<close>. Errors carry the texts of the source; those of the operating system and of
  the decoder are constructors without a text.
  The root of the store is taken to be there, as \<open>SnapshotManager::new\<close> has made it; that an object
  would bring back a root which was removed later is not modelled.
\<close>

section \<open>Errors\<close>

datatype store_error = Msg string | IoError | DecodeError

section \<open>Paths of objects\<close>

definition is_hex :: "char \<Rightarrow> bool" where
  "is_hex c \<longleftrightarrow>
     (let n = of_char c :: nat
      in (48 \<le> n \<and> n \<le> 57) \<or> (97 \<le> n \<and> n \<le> 102) \<or> (65 \<le> n \<and> n \<le> 70))"

text \<open>The path is relative to the root of the store.\<close>

definition hash_to_path :: "string \<Rightarrow> store_error + string" where
  "hash_to_path hash =
     (if length hash < 3 then Inl (Msg ''Invalid hash: too short (need at least 3 chars)'')
      else if \<not> list_all is_hex hash
      then Inl (Msg ''Invalid hash: must contain only hex characters (0-9, a-f)'')
      else Inr (''objects'' @ ''/'' @ take 2 hash @ ''/'' @ drop 2 hash))"

definition object_dir :: "string \<Rightarrow> string" where
  "object_dir hash = ''objects'' @ ''/'' @ take 2 hash"

definition temp_path :: "string \<Rightarrow> string" where
  "temp_path hash = object_dir hash @ ''/'' @ with_extension ''tmp'' (drop 2 hash)"

section \<open>Operations\<close>

text \<open>The second half of both puts: enter what \<open>write_temp\<close> puts into the temporary file.\<close>

definition store_object ::
  "path \<Rightarrow> string \<Rightarrow> (fsys \<Rightarrow> (store_error + fsys) \<times> fsys) \<Rightarrow> fsys \<Rightarrow> (store_error + string) \<times> fsys" where
  "store_object root hash write_temp fs =
     (case hash_to_path hash of
        Inl e \<Rightarrow> (Inl e, fs)
      | Inr object_path \<Rightarrow>
          (if fs_exists fs root object_path then (Inr hash, fs)
           else
             (case fs_create_dir_all root (object_dir hash) fs of
                None \<Rightarrow> (Inl IoError, fs)
              | Some fs1 \<Rightarrow>
                  (case write_temp fs1 of
                     (Inl e, fs2) \<Rightarrow> (Inl e, fs2)
                   | (Inr fs2, _) \<Rightarrow>
                       (case fs_rename root (temp_path hash) object_path fs2 of
                          None \<Rightarrow> (Inl IoError, fs2)
                        | Some fs3 \<Rightarrow> (Inr hash, fs3))))))"

definition put_blob ::
  "(bytes \<Rightarrow> string) \<Rightarrow> nat \<Rightarrow> path \<Rightarrow> bytes \<Rightarrow> fsys \<Rightarrow> (store_error + string) \<times> fsys" where
  "put_blob H now root content fs =
     store_object root (H content)
       (\<lambda>fs1. case fs_write now root (temp_path (H content)) content fs1 of
          None \<Rightarrow> (Inl IoError, fs1) | Some fs2 \<Rightarrow> (Inr fs2, fs2)) fs"

text \<open>The file is hashed piece by piece, which gives the hash of the whole, and copied.\<close>

definition buffer_size :: nat where
  "buffer_size = 4 * 1024 * 1024"

definition hash_file :: "(bytes \<Rightarrow> string) \<Rightarrow> bytes \<Rightarrow> string" where
  "hash_file H content = H (foldl (\<lambda>fed piece. fed @ piece) [] (chunks buffer_size content))"

text \<open>A directory opens, and fails when it is read.\<close>

definition open_error :: "fsys \<Rightarrow> path \<Rightarrow> string \<Rightarrow> store_error" where
  "open_error fs base s =
     (case locate True fs base s of
        None \<Rightarrow> Msg ''Failed to open file''
      | Some p \<Rightarrow> if is_dir_node (lstat fs p) then IoError else Msg ''Failed to open file'')"

definition put_file ::
  "(bytes \<Rightarrow> string) \<Rightarrow> nat \<Rightarrow> path \<Rightarrow> path \<Rightarrow> string \<Rightarrow> fsys \<Rightarrow> (store_error + string) \<times> fsys" where
  "put_file H now root base s fs =
     (case fs_read fs base s of
        None \<Rightarrow> (Inl (open_error fs base s), fs)
      | Some content \<Rightarrow>
          (let hash = hash_file H content
           in store_object root hash
                (\<lambda>fs1. case fs_copy now base s root (temp_path hash) fs1 of
                   None \<Rightarrow> (Inl (Msg ''Failed to copy file to object store''), fs1)
                 | Some fs2 \<Rightarrow> (Inr fs2, fs2)) fs))"

definition get_blob :: "path \<Rightarrow> string \<Rightarrow> fsys \<Rightarrow> store_error + bytes" where
  "get_blob root hash fs =
     (case hash_to_path hash of
        Inl e \<Rightarrow> Inl e
      | Inr object_path \<Rightarrow>
          (case fs_read fs root object_path of
             None \<Rightarrow> Inl (Msg (''Object '' @ hash @ '' not found''))
           | Some d \<Rightarrow> Inr d))"

definition copy_file ::
  "nat \<Rightarrow> path \<Rightarrow> string \<Rightarrow> path \<Rightarrow> string \<Rightarrow> fsys \<Rightarrow> (store_error + unit) \<times> fsys" where
  "copy_file now root hash dest_dir dest fs =
     (case hash_to_path hash of
        Inl e \<Rightarrow> (Inl e, fs)
      | Inr object_path \<Rightarrow>
          (case fs_create_dir_all dest_dir [] fs of
             None \<Rightarrow> (Inl IoError, fs)
           | Some fs1 \<Rightarrow>
               (case fs_copy now root object_path dest_dir dest fs1 of
                  None \<Rightarrow> (Inl (Msg (''Failed to copy object '' @ hash)), fs1)
                | Some fs2 \<Rightarrow> (Inr (), fs2))))"

definition object_exists :: "path \<Rightarrow> string \<Rightarrow> fsys \<Rightarrow> bool" where
  "object_exists root hash fs =
     (case hash_to_path hash of Inl _ \<Rightarrow> False | Inr p \<Rightarrow> fs_exists fs root p)"

section \<open>Where objects are\<close>

definition object_path :: "path \<Rightarrow> string \<Rightarrow> path" where
  "object_path root hash = root @ [''objects'', take 2 hash, drop 2 hash]"

definition valid_hash :: "string \<Rightarrow> bool" where
  "valid_hash h \<longleftrightarrow> 3 \<le> length h \<and> list_all is_hex h"

text \<open>The relative path of the object, as the lemmas name it.\<close>

definition object_file :: "string \<Rightarrow> string" where
  "object_file hash = object_dir hash @ ''/'' @ drop 2 hash"

text \<open>The hash function gives hexadecimal text of at least three characters.\<close>

definition hash_fn :: "(bytes \<Rightarrow> string) \<Rightarrow> bool" where
  "hash_fn H \<longleftrightarrow> (\<forall>d. valid_hash (H d))"

definition no_links :: "path \<Rightarrow> fsys \<Rightarrow> bool" where
  "no_links root fs \<longleftrightarrow> (\<forall>p. \<not> is_link_node (lstat fs (root @ p)))"

lemma is_hex_plain: "is_hex c \<Longrightarrow> c \<noteq> CHR ''/'' \<and> c \<noteq> CHR ''.''"
  by (auto simp: is_hex_def Let_def)

lemma hex_chars: "list_all is_hex s \<Longrightarrow> CHR ''/'' \<notin> set s \<and> CHR ''.'' \<notin> set s"
  unfolding list_all_iff using is_hex_plain by blast

lemma hex_plain: "list_all is_hex s \<Longrightarrow> s \<noteq> [] \<Longrightarrow> plain_name s"
  by (drule hex_chars) (auto simp: plain_name_def)

lemma hex_parts:
  assumes "valid_hash h"
  shows "plain_name (take 2 h)" "plain_name (drop 2 h)" "CHR ''/'' \<notin> set h" "CHR ''.'' \<notin> set h"
proof -
  have "list_all is_hex (take 2 h)" "list_all is_hex (drop 2 h)"
    using assms by (simp_all add: valid_hash_def list_all_iff) (blast dest: in_set_takeD in_set_dropD)+
  then show "plain_name (take 2 h)" "plain_name (drop 2 h)"
    using assms by (auto simp: valid_hash_def intro!: hex_plain)
  show "CHR ''/'' \<notin> set h" "CHR ''.'' \<notin> set h"
    using assms hex_chars by (simp_all add: valid_hash_def)
qed

lemma split_on_parts:
  "CHR ''/'' \<notin> set a \<Longrightarrow> split_on CHR ''/'' (a @ CHR ''/'' # r) = a # split_on CHR ''/'' r"
  by (induction a) auto

lemma hash_to_path_split:
  assumes "valid_hash h"
  shows "hash_to_path h = Inr (object_file h)"
    "split_on CHR ''/'' (object_dir h @ ''/'' @ s) = ''objects'' # take 2 h # split_on CHR ''/'' s"
    "split_on CHR ''/'' (object_dir h) = [''objects'', take 2 h]"
proof -
  have "CHR ''/'' \<notin> set (take 2 h)" using hex_parts(3) [OF assms] by (auto dest: in_set_takeD)
  moreover have "CHR ''/'' \<notin> set ''objects''" by simp
  ultimately show "split_on CHR ''/'' (object_dir h @ ''/'' @ s) = ''objects'' # take 2 h # split_on CHR ''/'' s"
    "split_on CHR ''/'' (object_dir h) = [''objects'', take 2 h]"
    using split_on_parts [of "''objects''"] split_on_parts [of "take 2 h"] split_on_none [of _ "take 2 h"]
    by (simp_all add: object_dir_def del: split_on.simps)
  show "hash_to_path h = Inr (object_file h)"
    using assms by (simp add: hash_to_path_def valid_hash_def object_dir_def object_file_def)
qed

text \<open>C25. A hash names an object only if it is hexadecimal and at least three characters long; its file is
  then two levels below \<open>objects\<close>, in components that are ordinary names and spell the hash: no
  hash reaches outside the store, and two hashes share a file only if they are equal.\<close>

theorem hash_stays_inside:
  "(\<exists>p. hash_to_path h = Inr p) = (3 \<le> length h \<and> list_all is_hex h) \<and>
   (\<forall>p. hash_to_path h = Inr p \<longrightarrow>
      (\<exists>a b. split_on CHR ''/'' p = [''objects'', a, b] \<and> plain_name a \<and> plain_name b \<and> a @ b = h \<and>
        \<not> is_absolute p))"
proof (intro conjI allI impI)
  show "(\<exists>p. hash_to_path h = Inr p) = (3 \<le> length h \<and> list_all is_hex h)"
    by (auto simp: hash_to_path_def)
  fix p
  assume p: "hash_to_path h = Inr p"
  then have ok: "valid_hash h" by (auto simp: hash_to_path_def valid_hash_def split: if_splits)
  have "split_on CHR ''/'' p = [''objects'', take 2 h, drop 2 h]"
    using p hash_to_path_split [OF ok, unfolded object_file_def] hex_parts(2) [OF ok] split_on_none [of "CHR ''/''" "drop 2 h"]
    by (auto simp: plain_name_def)
  moreover have "\<not> is_absolute p"
    using p by (auto simp: hash_to_path_def is_absolute_def split: if_splits)
  ultimately show "\<exists>a b. split_on CHR ''/'' p = [''objects'', a, b] \<and> plain_name a \<and> plain_name b \<and> a @ b = h \<and>
      \<not> is_absolute p"
    using hex_parts [OF ok] by (metis append_take_drop_id)
qed

theorem hash_stays_inside_witness:
  "\<exists>a b. split_on CHR ''/'' ''objects/ab/c123'' = [''objects'', a, b] \<and> plain_name a \<and> plain_name b \<and>
     a @ b = ''abc123'' \<and> \<not> is_absolute ''objects/ab/c123''"
proof -
  have "hash_to_path ''abc123'' = Inr ''objects/ab/c123''" by code_simp
  with hash_stays_inside [of "''abc123''", THEN conjunct2] show ?thesis by blast
qed

section \<open>Resolving the path of an object\<close>

lemma walk_dir:
  "plain_name c \<Longrightarrow> is_dir_node (lstat fs (cur @ [c])) \<Longrightarrow>
     walk n f fs cur (c # cs) = walk n f fs (cur @ [c]) cs"
  by (cases "lstat fs (cur @ [c])" rule: is_dir_node.cases) (auto simp: plain_name_def)

lemma walk_stuck:
  "plain_name c \<Longrightarrow> \<not> is_dir_node (lstat fs (cur @ [c])) \<Longrightarrow> \<not> is_link_node (lstat fs (cur @ [c])) \<Longrightarrow>
     cs \<noteq> [] \<Longrightarrow> walk n f fs cur (c # cs) = None"
  by (cases "lstat fs (cur @ [c])" rule: is_dir_node.cases) (auto simp: plain_name_def)

lemma walk_last:
  assumes "plain_name c" and "\<not> is_link_node (lstat fs (cur @ [c]))"
  shows "walk n f fs cur [c] = Some (cur @ [c])"
proof (cases "lstat fs (cur @ [c])")
  case None
  then show ?thesis using assms by (simp add: plain_name_def)
next
  case (Some x)
  then show ?thesis using assms by (cases x) (auto simp: plain_name_def)
qed

lemma no_links_node: "no_links root fs \<Longrightarrow> \<not> is_link_node (lstat fs (root @ p))"
  by (simp add: no_links_def)

lemma plain_objects: "plain_name ''objects''"
  by (simp add: plain_name_def)

definition dirs_there :: "path \<Rightarrow> string \<Rightarrow> fsys \<Rightarrow> bool" where
  "dirs_there root h fs \<longleftrightarrow> is_dir_node (lstat fs (root @ [''objects''])) \<and>
     is_dir_node (lstat fs (root @ [''objects'', take 2 h]))"

lemma not_absolute_object: "\<not> is_absolute (object_dir h @ s)"
  by (simp add: object_dir_def is_absolute_def)

lemma locate_object:
  assumes "no_links root fs" and "valid_hash h" and "plain_name s"
  shows "locate f fs root (object_dir h @ ''/'' @ s) =
    (if dirs_there root h fs then Some (root @ [''objects'', take 2 h, s]) else None)"
proof -
  have split: "split_on CHR ''/'' (object_dir h @ ''/'' @ s) = [''objects'', take 2 h, s]"
    using hash_to_path_split(2) [OF assms(2)] assms(3) by (simp add: split_on_none plain_name_def)
  note plain = plain_objects hex_parts(1) [OF assms(2)] assms(3)
  have link: "\<not> is_link_node (lstat fs (root @ p))" for p
    using assms(1) by (rule no_links_node)
  show ?thesis
  proof (cases "is_dir_node (lstat fs (root @ [''objects'']))")
    case o: True
    show ?thesis
    proof (cases "is_dir_node (lstat fs (root @ [''objects'', take 2 h]))")
      case True
      with o split show ?thesis
        using walk_dir [OF plain(1) o] walk_dir [OF plain(2), of fs "root @ [''objects'']"]
          walk_last [OF plain(3), of fs "root @ [''objects'', take 2 h]"] link
        by (simp add: locate_def not_absolute_object dirs_there_def del: walk.simps)
    next
      case False
      with o split show ?thesis
        using walk_dir [OF plain(1) o] walk_stuck [OF plain(2), of fs "root @ [''objects'']"] link
        by (simp add: locate_def not_absolute_object dirs_there_def del: walk.simps)
    qed
  next
    case False
    with split show ?thesis
      using walk_stuck [OF plain(1) False] link
      by (simp add: locate_def not_absolute_object dirs_there_def del: walk.simps)
  qed
qed

lemma temp_name: "valid_hash h \<Longrightarrow> with_extension ''tmp'' (drop 2 h) = drop 2 h @ ''.tmp''"
  using hex_parts(4) [of h] by (auto simp: with_extension_def split_dot_def Let_def dest: in_set_dropD)

lemma temp_plain: "valid_hash h \<Longrightarrow> plain_name (drop 2 h @ ''.tmp'')"
  using hex_parts(2) [of h] by (auto simp: plain_name_def)

text \<open>The two directories above an object, once made.\<close>

lemma make_object_dirs:
  assumes "no_links root fs" and "valid_hash h"
    and "fs_create_dir_all root (object_dir h) fs = Some fs1"
  shows "dirs_there root h fs1" "no_links root fs1" "writable fs1 = writable fs"
    "q \<noteq> root @ [''objects''] \<Longrightarrow> q \<noteq> root @ [''objects'', take 2 h] \<Longrightarrow> lstat fs1 q = lstat fs q"
    "lstat fs q = Some x \<Longrightarrow> lstat fs1 q = Some x"
proof -
  have loc: "locate True g cur c = Some (cur @ [c])"
    if "no_links root g" "plain_name c" "cur = root @ p" for g cur c p
    using that locate_plain [of c g cur] no_links_node [of root g "p @ [c]"] by simp
  have step: "\<exists>g'. make_dirs g cur (c # cs) = make_dirs g' (cur @ [c]) cs \<and> is_dir_node (lstat g' (cur @ [c])) \<and>
      no_links root g' \<and> writable g' = writable g \<and> (\<forall>q. q \<noteq> cur @ [c] \<longrightarrow> lstat g' q = lstat g q) \<and>
      (\<forall>q x. lstat g q = Some x \<longrightarrow> lstat g' q = Some x)"
    if "no_links root g" "plain_name c" "cur = root @ p" "make_dirs g cur (c # cs) \<noteq> None" for g cur c p cs
  proof (cases "lstat g (cur @ [c])")
    case None
    with that loc [OF that(1-3)] have "make_dirs g cur (c # cs) = make_dirs (put_node (cur @ [c]) (Dir 16877 0) g) (cur @ [c]) cs"
      by (auto split: if_splits)
    then show ?thesis using that(1) None
      by (intro exI [of _ "put_node (cur @ [c]) (Dir 16877 0) g"]) (auto simp: lstat_put no_links_def)
  next
    case (Some x)
    with that loc [OF that(1-3)] show ?thesis by (intro exI [of _ g]) (auto split: if_splits)
  qed
  have made: "make_dirs fs root [''objects'', take 2 h] = Some fs1"
    using assms(3) hash_to_path_split(3) [OF assms(2)] not_absolute_object [of h "[]"]
    by (simp add: fs_create_dir_all_def del: make_dirs.simps)
  obtain g1 where g1: "make_dirs g1 (root @ [''objects'']) [take 2 h] = Some fs1"
    "is_dir_node (lstat g1 (root @ [''objects'']))" "no_links root g1" "writable g1 = writable fs"
    "\<forall>q. q \<noteq> root @ [''objects''] \<longrightarrow> lstat g1 q = lstat fs q"
    "\<forall>q x. lstat fs q = Some x \<longrightarrow> lstat g1 q = Some x"
    using step [OF assms(1) plain_objects, of root "[]" "[take 2 h]"] made by (auto simp del: make_dirs.simps)
  obtain g2 where g2: "make_dirs g2 (root @ [''objects'', take 2 h]) [] = Some fs1"
    "is_dir_node (lstat g2 (root @ [''objects'', take 2 h]))" "no_links root g2" "writable g2 = writable g1"
    "\<forall>q. q \<noteq> root @ [''objects'', take 2 h] \<longrightarrow> lstat g2 q = lstat g1 q"
    "\<forall>q x. lstat g1 q = Some x \<longrightarrow> lstat g2 q = Some x"
    using step [OF g1(3) hex_parts(1) [OF assms(2)], of "root @ [''objects'']" "[''objects'']" "[]"] g1(1)
    by (auto simp del: make_dirs.simps)
  from g2(1) have "g2 = fs1" by simp
  with g1 g2 show "dirs_there root h fs1" "no_links root fs1" "writable fs1 = writable fs"
    "q \<noteq> root @ [''objects''] \<Longrightarrow> q \<noteq> root @ [''objects'', take 2 h] \<Longrightarrow> lstat fs1 q = lstat fs q"
    "lstat fs q = Some x \<Longrightarrow> lstat fs1 q = Some x"
    by (auto simp: dirs_there_def)
qed

section \<open>Puts and gets\<close>

definition temp_file :: "path \<Rightarrow> string \<Rightarrow> path" where
  "temp_file root h = root @ [''objects'', take 2 h, drop 2 h @ ''.tmp'']"

lemma locate_object_path:
  "no_links root fs \<Longrightarrow> valid_hash h \<Longrightarrow> locate f fs root (object_file h) =
     (if dirs_there root h fs then Some (object_path root h) else None)"
  using locate_object [of root fs h "drop 2 h" f] hex_parts(2) by (simp add: object_path_def object_file_def)

lemma locate_temp_path:
  "no_links root fs \<Longrightarrow> valid_hash h \<Longrightarrow> locate f fs root (temp_path h) =
     (if dirs_there root h fs then Some (temp_file root h) else None)"
  using locate_object [of root fs h "drop 2 h @ ''.tmp''" f] temp_plain
  by (simp add: temp_file_def temp_path_def temp_name)

lemma object_path_temp:
  assumes "valid_hash h'"
  shows "object_path root h' \<noteq> temp_file root h"
proof -
  have "CHR ''.'' \<notin> set (drop 2 h')" using hex_parts(4) [OF assms] by (auto dest: in_set_dropD)
  then have "drop 2 h' \<noteq> drop 2 h @ ''.tmp''" by auto
  then show ?thesis by (simp add: object_path_def temp_file_def)
qed

lemma object_paths_distinct [simp]:
  "object_path root h' \<noteq> root @ [''objects'']" "object_path root h' \<noteq> root @ [''objects'', take 2 h]"
  "temp_file root h \<noteq> root @ [''objects'']" "temp_file root h \<noteq> root @ [''objects'', take 2 h']"
  "object_path root h' \<noteq> []" "temp_file root h \<noteq> []"
  by (simp_all add: object_path_def temp_file_def)

lemma object_paths_distinct_sym [simp]:
  "root @ [''objects''] \<noteq> object_path root h'" "root @ [''objects'', take 2 h] \<noteq> object_path root h'"
  "root @ [''objects''] \<noteq> temp_file root h" "root @ [''objects'', take 2 h'] \<noteq> temp_file root h"
  by (simp_all add: object_path_def temp_file_def)

lemma object_path_eq:
  "object_path root h' = object_path root h \<longleftrightarrow> h' = h"
  by (simp add: object_path_def) (metis append_take_drop_id)

lemma butlast_object: "butlast (object_path root h) = root @ [''objects'', take 2 h]"
  "butlast (temp_file root h) = root @ [''objects'', take 2 h]"
  by (simp_all add: object_path_def temp_file_def butlast_append)

lemma exists_object:
  assumes "no_links root fs" and "valid_hash h"
  shows "fs_exists fs root (object_file h) \<longleftrightarrow>
    dirs_there root h fs \<and> lstat fs (object_path root h) \<noteq> None"
  using locate_object_path [OF assms, of True] by (simp add: fs_exists_def)

text \<open>Nothing but the file \<open>p\<close> differs.\<close>

definition only_at :: "path \<Rightarrow> fsys \<Rightarrow> fsys \<Rightarrow> bool" where
  "only_at p fs fs' \<longleftrightarrow> (\<forall>q. q \<noteq> p \<longrightarrow> lstat fs' q = lstat fs q) \<and> writable fs' = writable fs"

lemma only_at_dirs:
  "only_at p fs fs' \<Longrightarrow> p \<noteq> root @ [''objects''] \<Longrightarrow> p \<noteq> root @ [''objects'', take 2 h] \<Longrightarrow>
     dirs_there root h fs' = dirs_there root h fs"
  by (simp add: only_at_def dirs_there_def)

lemma only_at_links:
  "only_at p fs fs' \<Longrightarrow> no_links root fs \<Longrightarrow> \<not> is_link_node (lstat fs' p) \<Longrightarrow> no_links root fs'"
  unfolding only_at_def no_links_def by metis

text \<open>What a write of the temporary file may do, for either kind of put.\<close>

definition writes_temp ::
  "path \<Rightarrow> string \<Rightarrow> bytes \<Rightarrow> fsys \<Rightarrow> (store_error + fsys) \<times> fsys \<Rightarrow> bool" where
  "writes_temp root h d fs1 r \<longleftrightarrow>
     (case r of
        (Inl _, fs2) \<Rightarrow> fs2 = fs1
      | (Inr fs2, _) \<Rightarrow> only_at (temp_file root h) fs1 fs2 \<and>
          (\<exists>m t. lstat fs2 (temp_file root h) = Some (File d m t)))"

text \<open>Moving the temporary file into place: not at all, or whole.\<close>

lemma rename_into_place:
  assumes "no_links root fs" and "valid_hash h" and "dirs_there root h fs"
    and "lstat fs (temp_file root h) = Some (File d m t)"
  shows "fs_rename root (temp_path h) (object_file h) fs \<in>
    {None, Some (put_node (object_path root h) (File d m t) (drop_node (temp_file root h) fs))}"
  using assms object_path_temp [OF assms(2), of root h]
  by (auto simp: fs_rename_def locate_temp_path locate_object_path)

text \<open>The store's own place: \<open>objects\<close> and all below it.\<close>

definition in_objects :: "path \<Rightarrow> path \<Rightarrow> bool" where
  "in_objects root q \<longleftrightarrow> (\<exists>p. q = root @ ''objects'' # p)"

definition put_effect :: "path \<Rightarrow> string \<Rightarrow> bytes \<Rightarrow> fsys \<Rightarrow> (store_error + string) \<times> fsys \<Rightarrow> bool" where
  "put_effect root h d fs res \<longleftrightarrow> (case res of (r, fs') \<Rightarrow>
     no_links root fs' \<and> writable fs' = writable fs \<and>
     (\<forall>h'. dirs_there root h' fs \<longrightarrow> dirs_there root h' fs') \<and>
     (\<forall>q. \<not> in_objects root q \<longrightarrow> lstat fs' q = lstat fs q) \<and>
     (\<forall>q. is_dir_node (lstat fs' q) \<longrightarrow> is_dir_node (lstat fs q) \<or> length q \<le> length root + 2) \<and>
     (\<forall>k. r = Inr k \<longrightarrow> k = h \<and>
        (if fs_exists fs root (object_file h) then fs' = fs
         else dirs_there root h fs' \<and> (\<exists>m t. lstat fs' (object_path root h) = Some (File d m t)))) \<and>
     (\<forall>h'. valid_hash h' \<longrightarrow> (\<exists>e. r = Inl e) \<or> h' \<noteq> h \<longrightarrow>
        lstat fs' (object_path root h') = lstat fs (object_path root h')))"

lemma in_objects_temp: "in_objects root (temp_file root h)" "in_objects root (object_path root h)"
  "in_objects root (root @ [''objects''])" "in_objects root (root @ [''objects'', take 2 h])"
  by (auto simp: in_objects_def temp_file_def object_path_def)

text \<open>One put, whatever comes of it: no object but the new one changes, and the new one appears whole.\<close>

lemma store_object_effect:
  assumes "no_links root fs" and "valid_hash h"
    and "\<And>fs1. fs_create_dir_all root (object_dir h) fs = Some fs1 \<Longrightarrow> writes_temp root h d fs1 (write_temp fs1)"
  shows "put_effect root h d fs (store_object root h write_temp fs)"
proof -
  note path = hash_to_path_split(1) [OF assms(2)]
  show ?thesis
  proof (cases "fs_exists fs root (object_file h)")
    case True
    then show ?thesis using assms(1) by (simp add: store_object_def path put_effect_def)
  next
    case new: False
    show ?thesis
    proof (cases "fs_create_dir_all root (object_dir h) fs")
      case None
      with new assms(1) show ?thesis by (simp add: store_object_def path put_effect_def)
    next
      case (Some fs1)
      note dirs = make_object_dirs [OF assms(1,2) Some]
      have frame: "lstat fs1 (object_path root h') = lstat fs (object_path root h')"
        "\<not> in_objects root q \<Longrightarrow> lstat fs1 q = lstat fs q" for h' q
        using dirs(4) in_objects_temp(3,4) [of root] by (simp, metis)
      have made: "is_dir_node (lstat fs1 q) \<longrightarrow> is_dir_node (lstat fs q) \<or> length q \<le> length root + 2" for q
        using dirs(4) [of q] by (cases "q = root @ [''objects'']"; cases "q = root @ [''objects'', take 2 h]") auto
      note apart = object_path_temp
      have kept: "dirs_there root h' fs \<Longrightarrow> dirs_there root h' fs1" for h'
        using dirs(5) by (fastforce simp: dirs_there_def elim: is_dir_node.elims)
      note w = assms(3) [OF Some]
      obtain wr fs2' where wr: "write_temp fs1 = (wr, fs2')" by fastforce
      have away: "\<not> in_objects root q \<Longrightarrow> q \<noteq> temp_file root h \<and> q \<noteq> object_path root h" for q
        using in_objects_temp(1,2) by metis
      show ?thesis
      proof (cases wr)
        case (Inl e)
        with new Some wr have "store_object root h write_temp fs = (Inl e, fs2')"
          by (simp add: store_object_def path)
        moreover have "fs2' = fs1" using w wr Inl by (simp add: writes_temp_def)
        ultimately show ?thesis using dirs(2,3) made kept by (auto simp: put_effect_def frame)
      next
        case (Inr fs2)
        from w wr Inr obtain m t where fs2: "only_at (temp_file root h) fs1 fs2"
          "lstat fs2 (temp_file root h) = Some (File d m t)"
          by (auto simp: writes_temp_def)
        have ok2: "no_links root fs2" "dirs_there root h fs2"
          using dirs(1,2) fs2 by (auto simp: only_at_dirs intro: only_at_links)
        note ren = rename_into_place [OF ok2(1) assms(2) ok2(2) fs2(2)]
        let ?fs3 = "put_node (object_path root h) (File d m t) (drop_node (temp_file root h) fs2)"
        have kept2: "dirs_there root h' fs \<Longrightarrow> dirs_there root h' fs2" for h'
          using kept [of h'] only_at_dirs [OF fs2(1), of root h'] by simp
        have kept3: "dirs_there root h' fs \<Longrightarrow> dirs_there root h' ?fs3" for h'
          using kept2 [of h'] by (simp add: dirs_there_def lstat_put lstat_drop)
        have ok3: "no_links root ?fs3" "dirs_there root h ?fs3"
          using ok2 by (auto simp: no_links_def dirs_there_def lstat_put lstat_drop)
        have obj: "lstat ?fs3 (object_path root h') =
            (if h' = h then Some (File d m t) else lstat fs (object_path root h'))"
          "lstat fs2 (object_path root h') = lstat fs (object_path root h')" if "valid_hash h'" for h'
          using that apart [OF that] fs2(1) frame(1)
          by (simp_all add: only_at_def lstat_put lstat_drop object_path_eq)
        have out: "lstat ?fs3 q = lstat fs q" "lstat fs2 q = lstat fs q" if "\<not> in_objects root q" for q
          using away [OF that] frame(2) [OF that] fs2(1) by (simp_all add: only_at_def lstat_put lstat_drop)
        have dir: "is_dir_node (lstat ?fs3 q) \<longrightarrow> is_dir_node (lstat fs1 q)"
          "is_dir_node (lstat fs2 q) \<longrightarrow> is_dir_node (lstat fs1 q)" for q
          using fs2 by (cases "q = temp_file root h"; simp add: only_at_def lstat_put lstat_drop)+
        have dir: "is_dir_node (lstat ?fs3 q) \<Longrightarrow> is_dir_node (lstat fs q) \<or> length q \<le> length root + 2"
          "is_dir_node (lstat fs2 q) \<Longrightarrow> is_dir_node (lstat fs q) \<or> length q \<le> length root + 2" for q
          using dir [of q] made [of q] by blast+
        have wri: "writable fs2 = writable fs" using fs2(1) dirs(3) by (simp add: only_at_def)
        from ren show ?thesis
        proof (elim insertE emptyE)
          assume "fs_rename root (temp_path h) (object_file h) fs2 = None"
          with new Some wr Inr have "store_object root h write_temp fs = (Inl IoError, fs2)"
            by (simp add: store_object_def path)
          then show ?thesis using ok2(1) obj(2) out(2) wri dir(2) kept2 by (simp add: put_effect_def)
        next
          assume "fs_rename root (temp_path h) (object_file h) fs2 = Some ?fs3"
          with new Some wr Inr have "store_object root h write_temp fs = (Inr h, ?fs3)"
            by (simp add: store_object_def path)
          then show ?thesis using ok3 obj(1) out(1) wri dir(1) kept3 new assms(2) by (simp add: put_effect_def)
        qed
      qed
    qed
  qed
qed

lemma only_at_put: "p \<noteq> [] \<Longrightarrow> only_at p fs (put_node p x fs)"
  by (simp add: only_at_def lstat_put)

lemma write_temp_file:
  assumes "no_links root fs1" and "dirs_there root h fs1" and "valid_hash h"
  shows "case fs_write now root (temp_path h) c fs1 of
      None \<Rightarrow> True
    | Some fs2 \<Rightarrow> \<exists>m. fs2 = put_node (temp_file root h) (File c m now) fs1"
  using locate_temp_path [OF assms(1,3)] assms(2)
  by (auto simp: fs_write_def split: option.splits node.splits)

lemma put_blob_effect:
  assumes "no_links root fs" and "hash_fn H"
  shows "put_effect root (H c) c fs (put_blob H now root c fs)"
proof -
  have ok: "valid_hash (H c)" using assms(2) by (simp add: hash_fn_def)
  have "writes_temp root (H c) c fs1 (case fs_write now root (temp_path (H c)) c fs1 of
      None \<Rightarrow> (Inl IoError, fs1) | Some fs2 \<Rightarrow> (Inr fs2, fs2))"
    if "fs_create_dir_all root (object_dir (H c)) fs = Some fs1" for fs1
  proof -
    note dirs = make_object_dirs [OF assms(1) ok that]
    have "\<not> is_link_node (lstat fs1 (temp_file root (H c)))"
      using dirs(2) by (simp add: temp_file_def no_links_def)
    with write_temp_file [OF dirs(2,1) ok, of c now] show ?thesis
      by (auto simp: writes_temp_def only_at_put lstat_put split: option.splits)
  qed
  from store_object_effect [OF assms(1) ok this] show ?thesis by (simp add: put_blob_def)
qed

text \<open>A file of a plain directory, named by its directory and its name.\<close>

lemma hash_file_whole: "hash_file H c = H c"
proof -
  have "foldl (\<lambda>fed piece. fed @ piece) a ps = a @ concat ps" for a :: bytes and ps
    by (induction ps arbitrary: a) simp_all
  then show ?thesis by (simp add: hash_file_def concat_chunks buffer_size_def)
qed

lemma put_file_effect:
  assumes "no_links root fs" and "hash_fn H" and "plain_name s" and "lstat fs (base @ [s]) = Some (File c m t)"
  shows "put_effect root (H c) c fs (put_file H now root base s fs)"
proof -
  have ok: "valid_hash (H c)" using assms(2) by (simp add: hash_fn_def)
  have read: "fs_read g base s = Some c" "locate True g base s = Some (base @ [s])"
    if "lstat g (base @ [s]) = Some (File c m t)" for g
    using that assms(3) by (simp_all add: fs_read_def locate_plain)
  have "writes_temp root (H c) c fs1 (case fs_copy now base s root (temp_path (H c)) fs1 of
      None \<Rightarrow> (Inl (Msg ''Failed to copy file to object store''), fs1) | Some fs2 \<Rightarrow> (Inr fs2, fs2))"
    if "fs_create_dir_all root (object_dir (H c)) fs = Some fs1" for fs1
  proof -
    note dirs = make_object_dirs [OF assms(1) ok that]
    have link: "\<not> is_link_node (lstat fs1 (temp_file root (H c)))"
      using dirs(2) by (simp add: temp_file_def no_links_def)
    note src = read(2) [OF dirs(5) [OF assms(4)]] dirs(5) [OF assms(4)]
    show ?thesis
    proof (cases "fs_write now root (temp_path (H c)) c fs1")
      case None
      with src link show ?thesis by (simp add: fs_copy_def writes_temp_def only_at_def)
    next
      case (Some fs2)
      then obtain m0 where fs2: "fs2 = put_node (temp_file root (H c)) (File c m0 now) fs1"
        using write_temp_file [OF dirs(2,1) ok, of c now] by auto
      have "no_links root fs2" "dirs_there root (H c) fs2"
        using dirs(1,2) by (auto simp: fs2 no_links_def dirs_there_def lstat_put)
      then have "locate True fs2 root (temp_path (H c)) = Some (temp_file root (H c))"
        using locate_temp_path [OF _ ok] by simp
      then have "fs_copy now base s root (temp_path (H c)) fs1 =
          Some (put_node (temp_file root (H c)) (File c m now) fs2)"
        using src Some by (simp add: fs_copy_def)
      then show ?thesis by (simp add: writes_temp_def only_at_def fs2 lstat_put)
    qed
  qed
  from store_object_effect [OF assms(1) ok this] show ?thesis
    by (simp add: put_file_def read [OF assms(4)] hash_file_whole Let_def)
qed

text \<open>The part of it that says what a put leaves alone, for a file at any path.\<close>

definition objects_only :: "path \<Rightarrow> fsys \<Rightarrow> fsys \<Rightarrow> bool" where
  "objects_only root fs fs' \<longleftrightarrow>
     (no_links root fs \<longrightarrow> no_links root fs') \<and> writable fs' = writable fs \<and>
     (\<forall>q. \<not> in_objects root q \<longrightarrow> lstat fs' q = lstat fs q) \<and>
     (\<forall>q. is_dir_node (lstat fs' q) \<longrightarrow> is_dir_node (lstat fs q) \<or> length q \<le> length root + 2)"

lemma objects_only_refl: "objects_only root fs fs"
  by (simp add: objects_only_def)

lemma objects_only_trans: "objects_only root fs fs1 \<Longrightarrow> objects_only root fs1 fs2 \<Longrightarrow> objects_only root fs fs2"
  unfolding objects_only_def by metis

lemma put_effect_frame: "put_effect root h d fs res \<Longrightarrow> objects_only root fs (snd res)"
  by (auto simp: put_effect_def objects_only_def split: prod.splits)

lemma put_blob_frame: "no_links root fs \<Longrightarrow> hash_fn H \<Longrightarrow> objects_only root fs (snd (put_blob H now root c fs))"
  by (rule put_effect_frame [OF put_blob_effect])

lemma copy_to_temp:
  assumes "no_links root fs1" and "dirs_there root h fs1" and "valid_hash h"
    and "fs_copy now base s root (temp_path h) fs1 = Some fs2"
  shows "\<exists>d m. only_at (temp_file root h) fs1 fs2 \<and> lstat fs2 (temp_file root h) = Some (File d m now)"
proof -
  obtain p d m t fs3 p' where c: "locate True fs1 base s = Some p" "lstat fs1 p = Some (File d m t)"
    "fs_write now root (temp_path h) d fs1 = Some fs3" "locate True fs3 root (temp_path h) = Some p'"
    "fs2 = put_node p' (File d m now) fs3"
    using assms(4) by (auto simp: fs_copy_def split: option.splits node.splits)
  obtain m0 where fs3: "fs3 = put_node (temp_file root h) (File d m0 now) fs1"
    using write_temp_file [OF assms(1-3), of d now] c(3) by auto
  have "no_links root fs3" "dirs_there root h fs3"
    using assms(1,2) by (auto simp: fs3 no_links_def dirs_there_def lstat_put)
  then have "p' = temp_file root h" using locate_temp_path [OF _ assms(3)] c(4) by simp
  with c(5) show ?thesis by (auto simp: only_at_def fs3 lstat_put)
qed

lemma put_file_frame:
  assumes "no_links root fs" and "hash_fn H"
  shows "objects_only root fs (snd (put_file H now root base s fs))"
proof (cases "fs_read fs base s")
  case None
  then show ?thesis by (simp add: put_file_def objects_only_refl)
next
  case (Some c)
  have ok: "valid_hash (H c)" using assms(2) by (simp add: hash_fn_def)
  let ?w = "\<lambda>fs1. case fs_copy now base s root (temp_path (H c)) fs1 of
      None \<Rightarrow> (Inl (Msg ''Failed to copy file to object store''), fs1) | Some fs2 \<Rightarrow> (Inr fs2, fs2)"
  have "\<exists>d. \<forall>fs1. fs_create_dir_all root (object_dir (H c)) fs = Some fs1 \<longrightarrow> writes_temp root (H c) d fs1 (?w fs1)"
  proof (cases "fs_create_dir_all root (object_dir (H c)) fs")
    case (Some fs1)
    note dirs = make_object_dirs [OF assms(1) ok Some]
    show ?thesis
      using copy_to_temp [OF dirs(2,1) ok, of now base s] Some
      by (cases "fs_copy now base s root (temp_path (H c)) fs1") (auto simp: writes_temp_def)
  qed simp
  then obtain d where "\<And>fs1. fs_create_dir_all root (object_dir (H c)) fs = Some fs1 \<Longrightarrow>
      writes_temp root (H c) d fs1 (?w fs1)" by blast
  from put_effect_frame [OF store_object_effect [OF assms(1) ok this]] Some show ?thesis
    by (simp add: put_file_def hash_file_whole Let_def)
qed

lemma get_object:
  assumes "no_links root fs" and "valid_hash h" and "dirs_there root h fs"
    and "lstat fs (object_path root h) = Some (File d m t)"
  shows "get_blob root h fs = Inr d"
  using assms hash_to_path_split(1) [OF assms(2)]
  by (simp add: get_blob_def fs_read_def locate_object_path)

text \<open>C24. What was put can be got: after a successful put of some bytes, a get of the hash that the put
  returned gives these bytes. The hash function's documented form is assumed, that no link lies
  inside the store, and that what is already stored under this hash are the same bytes. If the
  object was there before, the put changes nothing.\<close>

theorem put_then_get:
  assumes "hash_fn H" and "no_links root fs"
    and "\<forall>x. lstat fs (object_path root (H content)) = Some x \<longrightarrow> (\<exists>m t. x = File content m t)"
    and "put_blob H now root content fs = (Inr h, fs')"
  shows "h = H content \<and> get_blob root h fs' = Inr content \<and>
    (object_exists root (H content) fs \<longrightarrow> fs' = fs)"
proof -
  have ok: "valid_hash (H content)" using assms(1) by (simp add: hash_fn_def)
  note path = hash_to_path_split(1) [OF ok]
  have "put_effect root (H content) content fs (Inr h, fs')"
    using put_blob_effect [OF assms(2,1), of content now] assms(4) by simp
  then have eff: "no_links root fs'" "h = H content"
    "if fs_exists fs root (object_file h) then fs' = fs
     else dirs_there root h fs' \<and> (\<exists>m t. lstat fs' (object_path root h) = Some (File content m t))"
    unfolding put_effect_def prod.case by blast+
  have "dirs_there root h fs' \<and> (\<exists>m t. lstat fs' (object_path root h) = Some (File content m t))"
    using eff assms(3) exists_object [OF assms(2) ok] by (cases "lstat fs (object_path root (H content))") auto
  then have "get_blob root h fs' = Inr content"
    using get_object [OF eff(1)] ok eff(2) by blast
  with eff show ?thesis by (simp add: object_exists_def path)
qed

text \<open>An empty disk, the store at its root, and a hash that tells one content from all others.\<close>

definition demo_fs :: fsys where
  "demo_fs = \<lparr>nodes = [], writable = (\<lambda>_. True), other_len = (\<lambda>_. 4096)\<rparr>"

definition demo_hash :: "bytes \<Rightarrow> string" where
  "demo_hash d = (if d = [1] then ''aa10f'' else ''bb20f'')"

lemma demo_hash_fn: "hash_fn demo_hash"
  by (simp add: hash_fn_def demo_hash_def valid_hash_def is_hex_def Let_def)

lemma demo_no_links: "no_links [] demo_fs"
  by (simp add: no_links_def lstat_def demo_fs_def)

lemma demo_put: "fst (put_blob demo_hash 0 [] [1] demo_fs) = Inr ''aa10f''"
  by code_simp

theorem put_then_get_witness:
  "get_blob [] ''aa10f'' (snd (put_blob demo_hash 0 [] [1] demo_fs)) = Inr [1]"
proof -
  have "put_blob demo_hash 0 [] [1] demo_fs = (Inr ''aa10f'', snd (put_blob demo_hash 0 [] [1] demo_fs))"
    using demo_put by (simp add: prod_eq_iff)
  moreover have "\<forall>x. lstat demo_fs (object_path [] (demo_hash [1])) = Some x \<longrightarrow> (\<exists>m t. x = File [1] m t)"
    by (simp add: lstat_def demo_fs_def object_path_def)
  ultimately show ?thesis using put_then_get [OF demo_hash_fn demo_no_links] by metis
qed

text \<open>A put touches no other object: whatever becomes of it, every other object has the bytes it had,
  and a put that fails leaves the object it was to write as it was too. So an object's file never
  holds a part of its bytes.\<close>

theorem put_keeps_objects:
  assumes "hash_fn H" and "no_links root fs" and "valid_hash h"
    and "put_blob H now root content fs = (r, fs')" and "h \<noteq> H content \<or> r = Inl e"
  shows "lstat fs' (object_path root h) = lstat fs (object_path root h)"
proof -
  have "put_effect root (H content) content fs (r, fs')"
    using put_blob_effect [OF assms(2,1), of content now] assms(4) by simp
  then show ?thesis using assms(3,5) unfolding put_effect_def prod.case by blast
qed

theorem put_keeps_objects_witness:
  "lstat (snd (put_blob demo_hash 0 [] [1] demo_fs)) (object_path [] ''cc30f'') =
     lstat demo_fs (object_path [] ''cc30f'')"
proof -
  have "put_blob demo_hash 0 [] [1] demo_fs = (Inr ''aa10f'', snd (put_blob demo_hash 0 [] [1] demo_fs))"
    using demo_put by (simp add: prod_eq_iff)
  moreover have "valid_hash ''cc30f''" "''cc30f'' \<noteq> demo_hash [1]"
    by (simp_all add: valid_hash_def is_hex_def demo_hash_def)
  ultimately show ?thesis using put_keeps_objects [OF demo_hash_fn demo_no_links] by metis
qed

end
