(* ===== verification/Snapshot.thy ===== *)
theory Snapshot
  imports ObjectStore Protocol
begin

text \<open>
  The snapshot manager (\<open>sandd/src/snapshot/manager.rs\<close>, with the types of \<open>types.rs\<close> and
  \<open>tree.rs\<close>): building the tree of a workspace, creating, listing, finding, reading and deleting
  snapshots, and their tags. Restoring is in \<open>Restore\<close>.

  The manager is the directory it keeps its files in, with the hash function and the JSON text of
  trees and snapshots, which are third-party code: two encoders with their decoders. The clock
  and the fresh id of a new snapshot are arguments.
\<close>

section \<open>Data\<close>

datatype entry_type = Blob | Tree | Symlink | SymlinkDir

record tree_entry =
  te_name :: string
  te_mode :: u32
  te_type :: entry_type
  te_hash :: string
  te_size :: u64
  te_modified :: u64

record snapshot =
  sn_id :: string
  sn_created_at :: u64
  sn_tree :: string
  sn_message :: string
  sn_tags :: "string list"
  sn_workspace :: string
  sn_file_count :: nat
  sn_total_size :: u64

definition snapshot_info_of :: "snapshot \<Rightarrow> snapshot_info" where
  "snapshot_info_of s =
     \<lparr>si_id = sn_id s, si_created_at = sn_created_at s, si_message = sn_message s, si_tags = sn_tags s,
      si_file_count = sn_file_count s, si_total_size = sn_total_size s\<rparr>"

record manager =
  mg_root :: path
  mg_hash :: "bytes \<Rightarrow> string"
  mg_enc_tree :: "tree_entry list \<Rightarrow> bytes"
  mg_dec_tree :: "bytes \<Rightarrow> tree_entry list option"
  mg_enc :: "snapshot \<Rightarrow> bytes"
  mg_dec :: "bytes \<Rightarrow> snapshot option"

definition snapshots_dir :: "manager \<Rightarrow> path" where
  "snapshots_dir mg = mg_root mg @ [''snapshots'']"

definition tags_dir :: "manager \<Rightarrow> path" where
  "tags_dir mg = mg_root mg @ [''refs'', ''tags'']"

text \<open>The directories above the root are made too, if they are missing.\<close>

definition manager_new :: "path \<Rightarrow> fsys \<Rightarrow> (store_error + unit) \<times> fsys" where
  "manager_new root fs =
     (case make_dirs fs [] (root @ [''snapshots'']) of
        None \<Rightarrow> (Inl (Msg ''Failed to create snapshots directory''), fs)
      | Some fs1 \<Rightarrow>
          (case make_dirs fs1 [] (root @ [''refs'', ''tags'']) of
             None \<Rightarrow> (Inl (Msg ''Failed to create tags directory''), fs1)
           | Some fs2 \<Rightarrow> (Inr (), fs2)))"

section \<open>Trees\<close>

text \<open>A time is stored in whole seconds.\<close>

definition as_secs :: "nat \<Rightarrow> u64" where
  "as_secs t = of_nat (t div 1000000000)"

definition entry_of :: "string \<Rightarrow> u32 \<Rightarrow> entry_type \<Rightarrow> string \<Rightarrow> u64 \<Rightarrow> nat \<Rightarrow> tree_entry" where
  "entry_of name mode ty hash len modified =
     \<lparr>te_name = name, te_mode = mode, te_type = ty, te_hash = hash, te_size = len,
      te_modified = as_secs modified\<rparr>"

definition symlink_type :: "fsys \<Rightarrow> path \<Rightarrow> string \<Rightarrow> entry_type" where
  "symlink_type fs dir target =
     (case locate True fs dir target of
        None \<Rightarrow> Symlink
      | Some p \<Rightarrow> if is_dir_node (lstat fs p) then SymlinkDir else Symlink)"

definition symlink_mode :: u32 where
  "symlink_mode = 41471"

type_synonym tally = "tree_entry list \<times> nat \<times> u64"

text \<open>The entries of one directory; \<open>sub\<close> builds a subdirectory. No result means out of fuel.\<close>

fun build_entries ::
  "(path \<Rightarrow> fsys \<Rightarrow> ((store_error + string \<times> nat \<times> u64) \<times> fsys) option) \<Rightarrow> manager \<Rightarrow> nat \<Rightarrow> path \<Rightarrow>
     string list \<Rightarrow> tally \<Rightarrow> fsys \<Rightarrow> ((store_error + tally) \<times> fsys) option" where
  "build_entries sub mg now dir [] acc fs = Some (Inr acc, fs)"
| "build_entries sub mg now dir (name # names) (entries, file_count, total_size) fs =
     (case lstat fs (dir @ [name]) of
        None \<Rightarrow> Some (Inl IoError, fs)
      | Some (Link target t) \<Rightarrow>
          (case put_blob (mg_hash mg) now (mg_root mg) (bytes_of target) fs of
             (Inl e, fs1) \<Rightarrow> Some (Inl e, fs1)
           | (Inr hash, fs1) \<Rightarrow>
               build_entries sub mg now dir names
                 (entries @ [entry_of name symlink_mode (symlink_type fs1 dir target) hash 0 t],
                  file_count + 1, total_size) fs1)
      | Some (File content m t) \<Rightarrow>
          (case put_file (mg_hash mg) now (mg_root mg) dir name fs of
             (Inl e, fs1) \<Rightarrow> Some (Inl e, fs1)
           | (Inr hash, fs1) \<Rightarrow>
               build_entries sub mg now dir names
                 (entries @ [entry_of name m Blob hash (of_nat (length content)) t],
                  file_count + 1, total_size + of_nat (length content)) fs1)
      | Some (Dir m t) \<Rightarrow>
          (case sub (dir @ [name]) fs of
             None \<Rightarrow> None
           | Some (Inl e, fs1) \<Rightarrow> Some (Inl e, fs1)
           | Some (Inr (hash, sub_count, sub_size), fs1) \<Rightarrow>
               build_entries sub mg now dir names
                 (entries @ [entry_of name m Tree hash 0 t], file_count + sub_count, total_size + sub_size)
                 fs1)
      | Some Special \<Rightarrow> build_entries sub mg now dir names (entries, file_count, total_size) fs)"

primrec build_tree ::
  "manager \<Rightarrow> nat \<Rightarrow> nat \<Rightarrow> path \<Rightarrow> fsys \<Rightarrow> ((store_error + string \<times> nat \<times> u64) \<times> fsys) option" where
  "build_tree mg now 0 = (\<lambda>dir fs. None)"
| "build_tree mg now (Suc n) =
     (\<lambda>dir fs.
        if \<not> is_dir_node (lstat fs dir) then Some (Inl IoError, fs)
        else
          (case build_entries (build_tree mg now n) mg now dir (fs_read_dir fs dir) ([], 0, 0) fs of
             None \<Rightarrow> None
           | Some (Inl e, fs1) \<Rightarrow> Some (Inl e, fs1)
           | Some (Inr (entries, file_count, total_size), fs1) \<Rightarrow>
               (case put_blob (mg_hash mg) now (mg_root mg) (mg_enc_tree mg entries) fs1 of
                  (Inl e, fs2) \<Rightarrow> Some (Inl e, fs2)
                | (Inr tree_hash, fs2) \<Rightarrow> Some (Inr (tree_hash, file_count, total_size), fs2))))"

text \<open>Enough fuel for any directory: no path is longer than this.\<close>

definition depth_bound :: "manager \<Rightarrow> fsys \<Rightarrow> nat" where
  "depth_bound mg fs = fold max (map (\<lambda>(p, _). length p) (nodes fs)) (length (mg_root mg) + 2)"

section \<open>Tags\<close>

text \<open>A control character of Unicode, in the bytes of the string.\<close>

fun has_control :: "bytes \<Rightarrow> bool" where
  "has_control [] = False"
| "has_control [a] = (a < 32 \<or> a = 127)"
| "has_control (a # b # r) = (a < 32 \<or> a = 127 \<or> (a = 194 \<and> 128 \<le> b \<and> b \<le> 159) \<or> has_control (b # r))"

definition validate_tag_name :: "string \<Rightarrow> store_error + unit" where
  "validate_tag_name tag =
     (if tag = [] then Inl (Msg ''Tag name cannot be empty'')
      else if is_absolute tag then Inl (Msg (''Tag '' @ quoted tag @ '' is an absolute path''))
      else if contains ''..'' tag then Inl (Msg (''Tag '' @ quoted tag @ '' contains path traversal sequence''))
      else if contains ''/'' tag \<or> contains [CHR 0x5C] tag
      then Inl (Msg (''Tag '' @ quoted tag @ '' contains path separators''))
      else if tag = ''.'' \<or> tag = ''..'' then Inl (Msg (''Tag '' @ quoted tag @ '' is a reserved name''))
      else if has_control (bytes_of tag) then Inl (Msg (''Tag '' @ quoted tag @ '' contains invalid characters''))
      else Inr ())"

definition tag_temp :: "string \<Rightarrow> string" where
  "tag_temp tag = with_extension ''tmp'' tag"

definition add_tag :: "manager \<Rightarrow> nat \<Rightarrow> string \<Rightarrow> string \<Rightarrow> fsys \<Rightarrow> (store_error + unit) \<times> fsys" where
  "add_tag mg now snapshot_id tag fs =
     (case fs_write now (tags_dir mg) (tag_temp tag) (bytes_of snapshot_id) fs of
        None \<Rightarrow> (Inl IoError, fs)
      | Some fs1 \<Rightarrow>
          (case fs_rename (tags_dir mg) (tag_temp tag) tag fs1 of
             None \<Rightarrow> (Inl IoError, fs1)
           | Some fs2 \<Rightarrow> (Inr (), fs2)))"

definition remove_tag :: "manager \<Rightarrow> string \<Rightarrow> fsys \<Rightarrow> (store_error + unit) \<times> fsys" where
  "remove_tag mg tag fs =
     (if fs_exists fs (tags_dir mg) tag
      then (case fs_remove_file (tags_dir mg) tag fs of
              None \<Rightarrow> (Inl IoError, fs) | Some fs1 \<Rightarrow> (Inr (), fs1))
      else (Inr (), fs))"

definition get_snapshot_by_tag :: "manager \<Rightarrow> string \<Rightarrow> fsys \<Rightarrow> store_error + string option" where
  "get_snapshot_by_tag mg tag fs =
     (if \<not> fs_exists fs (tags_dir mg) tag then Inr None
      else (case fs_read_to_string fs (tags_dir mg) tag of
              None \<Rightarrow> Inl IoError | Some content \<Rightarrow> Inr (Some (trim content))))"

section \<open>Snapshots\<close>

text \<open>\<open>Path::with_extension\<close> of the file of a snapshot, whose name is \<open>id.json\<close>.\<close>

definition snapshot_file :: "string \<Rightarrow> string" where
  "snapshot_file i = i @ ''.json''"

definition read_snapshot :: "manager \<Rightarrow> string \<Rightarrow> fsys \<Rightarrow> store_error + snapshot" where
  "read_snapshot mg i fs =
     (case fs_read_to_string fs (snapshots_dir mg) (snapshot_file i) of
        None \<Rightarrow> Inl (Msg (''Snapshot '' @ i @ '' not found''))
      | Some json \<Rightarrow>
          (case mg_dec mg (bytes_of json) of None \<Rightarrow> Inl DecodeError | Some s \<Rightarrow> Inr s))"

definition get_snapshot :: "manager \<Rightarrow> string \<Rightarrow> fsys \<Rightarrow> store_error + snapshot_info" where
  "get_snapshot mg i fs =
     (case read_snapshot mg i fs of Inl e \<Rightarrow> Inl e | Inr s \<Rightarrow> Inr (snapshot_info_of s))"

text \<open>The first error of a list of checks.\<close>

fun check_all :: "('a \<Rightarrow> 'e + unit) \<Rightarrow> 'a list \<Rightarrow> 'e + unit" where
  "check_all f [] = Inr ()"
| "check_all f (x # xs) = (case f x of Inl e \<Rightarrow> Inl e | Inr _ \<Rightarrow> check_all f xs)"

definition tag_is_free :: "manager \<Rightarrow> fsys \<Rightarrow> string \<Rightarrow> store_error + unit" where
  "tag_is_free mg fs tag =
     (if fs_exists fs (tags_dir mg) tag then Inl (Msg (''Tag '' @ quoted tag @ '' already exists''))
      else Inr ())"

fun add_tags :: "manager \<Rightarrow> nat \<Rightarrow> string \<Rightarrow> string list \<Rightarrow> fsys \<Rightarrow> (store_error + unit) \<times> fsys" where
  "add_tags mg now snapshot_id [] fs = (Inr (), fs)"
| "add_tags mg now snapshot_id (tag # tags) fs =
     (case add_tag mg now snapshot_id tag fs of
        (Inl e, fs1) \<Rightarrow> (Inl e, fs1)
      | (Inr _, fs1) \<Rightarrow> add_tags mg now snapshot_id tags fs1)"

definition write_snapshot :: "manager \<Rightarrow> nat \<Rightarrow> snapshot \<Rightarrow> fsys \<Rightarrow> (store_error + unit) \<times> fsys" where
  "write_snapshot mg now s fs =
     (case fs_write now (snapshots_dir mg) (with_extension ''tmp'' (snapshot_file (sn_id s))) (mg_enc mg s) fs of
        None \<Rightarrow> (Inl IoError, fs)
      | Some fs1 \<Rightarrow>
          (case fs_rename (snapshots_dir mg) (with_extension ''tmp'' (snapshot_file (sn_id s)))
                  (snapshot_file (sn_id s)) fs1 of
             None \<Rightarrow> (Inl IoError, fs1)
           | Some fs2 \<Rightarrow> (Inr (), fs2)))"

definition input_tags :: "string list option \<Rightarrow> string list" where
  "input_tags tags = remdups_adj (sort (case tags of None \<Rightarrow> [] | Some ts \<Rightarrow> ts))"

text \<open>The clock in nanoseconds, the fresh id, and the fuel of the walk are arguments; \<open>cwd\<close> is where a
  relative workspace path starts.\<close>

definition create_snapshot ::
  "manager \<Rightarrow> nat \<Rightarrow> string \<Rightarrow> nat \<Rightarrow> path \<Rightarrow> string \<Rightarrow> string option \<Rightarrow> string list option \<Rightarrow> fsys \<Rightarrow>
     ((store_error + string) \<times> fsys) option" where
  "create_snapshot mg now uuid fuel cwd workspace msg tags fs =
     (let tags = input_tags tags
      in case check_all validate_tag_name tags of
           Inl e \<Rightarrow> Some (Inl e, fs)
         | Inr _ \<Rightarrow>
             (case check_all (tag_is_free mg fs) tags of
                Inl e \<Rightarrow> Some (Inl e, fs)
              | Inr _ \<Rightarrow>
                  (case locate True fs cwd workspace of
                     None \<Rightarrow> Some (Inl IoError, fs)
                   | Some dir \<Rightarrow>
                       (case build_tree mg now fuel dir fs of
                          None \<Rightarrow> None
                        | Some (Inl e, fs1) \<Rightarrow> Some (Inl e, fs1)
                        | Some (Inr (tree_hash, file_count, total_size), fs1) \<Rightarrow>
                            (let s = \<lparr>sn_id = uuid, sn_created_at = as_secs now,
                                      sn_tree = tree_hash,
                                      sn_message = (case msg of None \<Rightarrow> ''Snapshot '' @ uuid | Some m \<Rightarrow> m),
                                      sn_tags = tags, sn_workspace = workspace, sn_file_count = file_count,
                                      sn_total_size = total_size\<rparr>
                             in case write_snapshot mg now s fs1 of
                                  (Inl e, fs2) \<Rightarrow> Some (Inl e, fs2)
                                | (Inr _, fs2) \<Rightarrow>
                                    (case add_tags mg now uuid tags fs2 of
                                       (Inl e, fs3) \<Rightarrow> Some (Inl e, fs3)
                                     | (Inr _, fs3) \<Rightarrow> Some (Inr uuid, fs3)))))))"

section \<open>Listing\<close>

text \<open>The order of the list: newest first, then by id.\<close>

datatype age_key = AgeKey u64 string

fun age_less_eq :: "age_key \<Rightarrow> age_key \<Rightarrow> bool" where
  "age_less_eq (AgeKey t i) (AgeKey t' i') = (t' < t \<or> t = t' \<and> i \<le> i')"

instantiation age_key :: linorder
begin

definition "a \<le> b = age_less_eq a b"
definition "(a :: age_key) < b = (age_less_eq a b \<and> \<not> age_less_eq b a)"

instance
proof
  fix a b c :: age_key
  show "a \<le> a" by (cases a) (simp add: less_eq_age_key_def)
  show "a \<le> b \<or> b \<le> a" by (cases a; cases b) (auto simp: less_eq_age_key_def)
  show "(a < b) = (a \<le> b \<and> \<not> b \<le> a)" by (simp add: less_eq_age_key_def less_age_key_def)
  show "a \<le> b \<Longrightarrow> b \<le> a \<Longrightarrow> a = b" by (cases a; cases b) (auto simp: less_eq_age_key_def)
  show "a \<le> b \<Longrightarrow> b \<le> c \<Longrightarrow> a \<le> c" by (cases a; cases b; cases c) (auto simp: less_eq_age_key_def)
qed

end

definition age_key :: "snapshot_info \<Rightarrow> age_key" where
  "age_key s = AgeKey (si_created_at s) (si_id s)"

text \<open>\<open>dedup_by\<close>: drop an element whose id is that of the one kept before it.\<close>

fun dedup_ids :: "snapshot_info list \<Rightarrow> snapshot_info list" where
  "dedup_ids [] = []"
| "dedup_ids [s] = [s]"
| "dedup_ids (s # s' # ss) = (if si_id s' = si_id s then dedup_ids (s # ss) else s # dedup_ids (s' # ss))"

text \<open>Map with a fallible function, up to the first error.\<close>

fun map_result :: "('a \<Rightarrow> 'e + 'b) \<Rightarrow> 'a list \<Rightarrow> 'e + 'b list" where
  "map_result f [] = Inr []"
| "map_result f (x # xs) =
     (case f x of
        Inl e \<Rightarrow> Inl e
      | Inr y \<Rightarrow> (case map_result f xs of Inl e \<Rightarrow> Inl e | Inr ys \<Rightarrow> Inr (y # ys)))"

definition tag_target :: "manager \<Rightarrow> fsys \<Rightarrow> string \<Rightarrow> store_error + string" where
  "tag_target mg fs tag =
     (case get_snapshot_by_tag mg tag fs of
        Inl e \<Rightarrow> Inl e
      | Inr (Some i) \<Rightarrow> Inr i
      | Inr None \<Rightarrow> Inl (Msg (''Tag '' @ quoted tag @ '' does not exist'')))"

definition snapshot_ids :: "manager \<Rightarrow> fsys \<Rightarrow> string list" where
  "snapshot_ids mg fs =
     map (\<lambda>n. fst (split_dot n))
       (filter (\<lambda>n. snd (split_dot n) = Some ''json'') (fs_read_dir fs (snapshots_dir mg)))"

definition listed_ids :: "manager \<Rightarrow> string list option \<Rightarrow> fsys \<Rightarrow> store_error + string list" where
  "listed_ids mg tags fs =
     (case tags of
        Some ts \<Rightarrow>
          (case check_all validate_tag_name ts of
             Inl e \<Rightarrow> Inl e
           | Inr _ \<Rightarrow> map_result (tag_target mg fs) ts)
      | None \<Rightarrow>
          if is_dir_node (lstat fs (snapshots_dir mg)) then Inr (snapshot_ids mg fs) else Inl IoError)"

definition list_snapshots ::
  "manager \<Rightarrow> string list option \<Rightarrow> fsys \<Rightarrow> store_error + snapshot_info list" where
  "list_snapshots mg tags fs =
     (case listed_ids mg tags fs of
        Inl e \<Rightarrow> Inl e
      | Inr ids \<Rightarrow>
          (case map_result (\<lambda>i. get_snapshot mg i fs) ids of
             Inl e \<Rightarrow> Inl e
           | Inr infos \<Rightarrow> Inr (dedup_ids (sort_key age_key infos))))"

definition find_snapshot_by_tag ::
  "manager \<Rightarrow> string \<Rightarrow> fsys \<Rightarrow> store_error + snapshot_info option" where
  "find_snapshot_by_tag mg tag fs =
     (case validate_tag_name tag of
        Inl e \<Rightarrow> Inl e
      | Inr _ \<Rightarrow>
          (case get_snapshot_by_tag mg tag fs of
             Inl e \<Rightarrow> Inl e
           | Inr None \<Rightarrow> Inr None
           | Inr (Some i) \<Rightarrow>
               (case get_snapshot mg i fs of Inl e \<Rightarrow> Inl e | Inr s \<Rightarrow> Inr (Some s))))"

section \<open>Deleting\<close>

fun remove_tags :: "manager \<Rightarrow> string list \<Rightarrow> fsys \<Rightarrow> (store_error + unit) \<times> fsys" where
  "remove_tags mg [] fs = (Inr (), fs)"
| "remove_tags mg (tag # tags) fs =
     (case remove_tag mg tag fs of
        (Inl _, fs1) \<Rightarrow> (Inl (Msg (''Failed to remove tag ref '' @ quoted tag)), fs1)
      | (Inr _, fs1) \<Rightarrow> remove_tags mg tags fs1)"

definition delete_snapshot :: "manager \<Rightarrow> string \<Rightarrow> fsys \<Rightarrow> (store_error + unit) \<times> fsys" where
  "delete_snapshot mg i fs =
     (case get_snapshot mg i fs of
        Inl e \<Rightarrow> (Inl e, fs)
      | Inr s \<Rightarrow>
          (case remove_tags mg (si_tags s) fs of
             (Inl e, fs1) \<Rightarrow> (Inl e, fs1)
           | (Inr _, fs1) \<Rightarrow>
               (case fs_remove_file (snapshots_dir mg) (snapshot_file i) fs1 of
                  None \<Rightarrow> (Inl (Msg (''Failed to delete snapshot '' @ i)), fs1)
                | Some fs2 \<Rightarrow> (Inr (), fs2))))"

end
