(* ===== verification/SnapshotFacts.thy ===== *)
theory SnapshotFacts
  imports Snapshot
begin

text \<open>
  What the snapshot manager promises: which tags it accepts, that creating a snapshot returns, that a
  created snapshot is read back by its id and its tags, that others stay as they were, and what the
  list holds. \<open>demo_manager\<close> and \<open>demo_store\<close> are a manager with a JSON stand-in
  and a disk to evaluate the operations on.
\<close>

section \<open>Tag names\<close>

lemma contains_char: "contains [c] s \<longleftrightarrow> c \<in> set s"
  by (auto simp: contains_iff in_set_conv_decomp)

lemma valid_tag_parts:
  "validate_tag_name tag = Inr u \<longleftrightarrow>
     plain_name tag \<and> \<not> contains ''..'' tag \<and> CHR 0x5C \<notin> set tag \<and> \<not> has_control (bytes_of tag)"
proof -
  have abs: "is_absolute tag \<Longrightarrow> CHR ''/'' \<in> set tag"
    by (auto simp: is_absolute_def starts_with_iff)
  have dots: "contains ''..'' ''..''" by simp
  show ?thesis
    using abs dots unfolding validate_tag_name_def contains_char plain_name_def by auto
qed

lemma split_dot_stem: "set (fst (split_dot s)) \<subseteq> set s" "s \<noteq> [] \<Longrightarrow> fst (split_dot s) \<noteq> []"
  by (auto simp: split_dot_def Let_def) (metis One_nat_def in_set_dropD set_dropWhileD set_rev)

lemma temp_of_plain: "plain_name s \<Longrightarrow> plain_name (with_extension ''tmp'' s)"
  using split_dot_stem [of s] by (auto simp: plain_name_def with_extension_def)

text \<open>C32. A tag is accepted exactly when it is a name of one ordinary path component without two dots in a
  row, a backslash or a control character. The file of an accepted tag lies directly in the
  directory of the tags, and so does the temporary file it is written through.\<close>

theorem valid_tag_iff:
  "(validate_tag_name tag = Inr ()) =
     (plain_name tag \<and> \<not> contains ''..'' tag \<and> CHR 0x5C \<notin> set tag \<and> \<not> has_control (bytes_of tag)) \<and>
   (validate_tag_name tag = Inr () \<longrightarrow>
     locate False fs (tags_dir mg) tag = Some (tags_dir mg @ [tag]) \<and>
     locate False fs (tags_dir mg) (tag_temp tag) = Some (tags_dir mg @ [tag_temp tag]))"
  using temp_of_plain [of tag] by (auto simp: valid_tag_parts locate_plain_nofollow tag_temp_def)

lemma valid_tag_plain: "validate_tag_name tag = Inr u \<Longrightarrow> plain_name tag"
  by (simp add: valid_tag_parts)

section \<open>A store to work on\<close>

text \<open>What \<open>manager_new\<close> sets up and every operation keeps: the directories are there, and no link lies
  in the store.\<close>

definition store_ok :: "manager \<Rightarrow> fsys \<Rightarrow> bool" where
  "store_ok mg fs \<longleftrightarrow> no_links (mg_root mg) fs \<and> is_dir_node (lstat fs (snapshots_dir mg)) \<and>
     is_dir_node (lstat fs (tags_dir mg))"

text \<open>The decoders read what the encoders write, which is UTF-8; the hash function has its form.\<close>

definition codec_ok :: "manager \<Rightarrow> bool" where
  "codec_ok mg \<longleftrightarrow> hash_fn (mg_hash mg) \<and>
     (\<forall>s. mg_dec mg (mg_enc mg s) = Some s \<and> utf8_ok (mg_enc mg s))"

text \<open>A \<open>Uuid\<close> as text: hexadecimal digits and dashes.\<close>

definition uuid_ok :: "string \<Rightarrow> bool" where
  "uuid_ok i \<longleftrightarrow> i \<noteq> [] \<and> (\<forall>c \<in> set i. is_hex c \<or> c = CHR ''-'')"

section \<open>A manager and a disk to try\<close>

text \<open>A text of fields with a comma between them: a number is a run of letters, a string two letters for
  each of its characters.\<close>

definition demo_join :: "string list \<Rightarrow> bytes" where
  "demo_join ps = bytes_of (concat (map (\<lambda>p. p @ '','') (butlast ps)) @ last ps)"

definition demo_fields :: "bytes \<Rightarrow> string list" where
  "demo_fields d = split_on CHR '','' (string_of d)"

definition demo_num :: "nat \<Rightarrow> string" where
  "demo_num n = replicate n CHR ''A''"

definition demo_letter :: "nat \<Rightarrow> char" where
  "demo_letter n = char_of (65 + n)"

fun demo_str :: "string \<Rightarrow> string" where
  "demo_str [] = []"
| "demo_str (c # s) = demo_letter (of_char c div 16) # demo_letter (of_char c mod 16) # demo_str s"

fun demo_unstr :: "string \<Rightarrow> string" where
  "demo_unstr (a # b # r) = char_of ((of_char a - 65) * 16 + (of_char b - (65 :: nat))) # demo_unstr r"
| "demo_unstr _ = []"

definition demo_text :: "string \<Rightarrow> bool" where
  "demo_text p \<longleftrightarrow> (\<forall>c \<in> set p. 65 \<le> (of_char c :: nat) \<and> (of_char c :: nat) < 128)"

lemma demo_letter: "n < 16 \<Longrightarrow> (of_char (demo_letter n) :: nat) = 65 + n"
  by (simp add: demo_letter_def)

lemma demo_num_text: "demo_text (demo_num n)"
  by (simp add: demo_num_def demo_text_def)

lemma nibble: "(of_char c :: nat) div 16 < 16"
proof -
  have "(of_char c :: nat) < 16 * 16" using nat_of_char_less_256 [of c] by simp
  then show ?thesis by (rule less_mult_imp_div_less)
qed

lemma demo_str_text: "demo_text (demo_str s)"
proof -
  have one: "demo_text (demo_letter n # p) \<longleftrightarrow> demo_text p" if "n < 16" for n p
    using that by (simp add: demo_text_def demo_letter)
  show ?thesis using nibble by (induction s) (simp_all add: one, simp add: demo_text_def)
qed

lemma demo_unstr: "demo_unstr (demo_str s) = s"
  using nibble by (induction s) (simp_all add: demo_letter)

lemma demo_text_comma: "demo_text p \<Longrightarrow> CHR '','' \<notin> set p"
  by (auto simp: demo_text_def)

lemma demo_fields_join: "list_all demo_text ps \<Longrightarrow> ps \<noteq> [] \<Longrightarrow> demo_fields (demo_join ps) = ps"
  using split_on_join [of ps "CHR '',''"] demo_text_comma
  by (auto simp: demo_fields_def demo_join_def string_of_bytes list_all_iff)

lemma utf8_text: "\<forall>c \<in> set s. (of_char c :: nat) < 128 \<Longrightarrow> utf8_ok (bytes_of s)"
proof -
  assume s: "\<forall>c \<in> set s. (of_char c :: nat) < 128"
  have "(of_char c :: u8) < 128" if "c \<in> set s" for c
  proof -
    have "(of_char c :: nat) < 128" using s that by simp
    moreover have "(of_char c :: u8) = of_nat (of_char c)" by (simp only: of_nat_of_char)
    ultimately show ?thesis by (simp add: word_less_nat_alt unat_of_nat)
  qed
  then show ?thesis by (intro utf8_ok_ascii) (auto simp: bytes_of_def)
qed

lemma demo_join_utf8: "list_all demo_text ps \<Longrightarrow> ps \<noteq> [] \<Longrightarrow> utf8_ok (demo_join ps)"
  unfolding demo_join_def
  by (rule utf8_text) (auto simp: list_all_iff demo_text_def dest!: in_set_butlastD)

definition demo_enc :: "snapshot \<Rightarrow> bytes" where
  "demo_enc s = demo_join
     ([demo_str (sn_id s), demo_num (unat (sn_created_at s)), demo_str (sn_tree s), demo_str (sn_message s),
       demo_str (sn_workspace s), demo_num (sn_file_count s), demo_num (unat (sn_total_size s))] @
      map demo_str (sn_tags s))"

definition demo_dec :: "bytes \<Rightarrow> snapshot option" where
  "demo_dec d =
     (case demo_fields d of
        i # t # h # m # w # n # z # tags \<Rightarrow>
          Some \<lparr>sn_id = demo_unstr i, sn_created_at = of_nat (length t), sn_tree = demo_unstr h,
                sn_message = demo_unstr m, sn_tags = map demo_unstr tags, sn_workspace = demo_unstr w,
                sn_file_count = length n, sn_total_size = of_nat (length z)\<rparr>
      | _ \<Rightarrow> None)"

lemma demo_codec: "demo_dec (demo_enc s) = Some s" "utf8_ok (demo_enc s)"
proof -
  have texts: "list_all demo_text (map demo_str ts)" for ts
    by (simp add: list_all_iff demo_str_text)
  show "utf8_ok (demo_enc s)"
    unfolding demo_enc_def by (rule demo_join_utf8) (simp_all add: demo_str_text demo_num_text texts)
  have "demo_fields (demo_enc s) =
      [demo_str (sn_id s), demo_num (unat (sn_created_at s)), demo_str (sn_tree s), demo_str (sn_message s),
       demo_str (sn_workspace s), demo_num (sn_file_count s), demo_num (unat (sn_total_size s))] @
      map demo_str (sn_tags s)"
    unfolding demo_enc_def by (rule demo_fields_join) (simp_all add: demo_str_text demo_num_text texts)
  then show "demo_dec (demo_enc s) = Some s"
    by (simp add: demo_dec_def demo_unstr demo_num_def map_idI)
qed

text \<open>Equations to evaluate with.\<close>

lemma as_secs_zero [code]: "as_secs t = (if t = 0 then 0 else of_nat (t div 1000000000))"
  by (simp add: as_secs_def)

declare hash_file_whole [code]

definition demo_with :: "(snapshot \<Rightarrow> bytes) \<Rightarrow> (bytes \<Rightarrow> snapshot option) \<Rightarrow> manager" where
  "demo_with enc dec =
     \<lparr>mg_root = [''s''], mg_hash = demo_hash, mg_enc_tree = (\<lambda>_. [1]), mg_dec_tree = (\<lambda>_. Some []),
      mg_enc = enc, mg_dec = dec\<rparr>"

definition demo_manager :: manager where
  "demo_manager = demo_with demo_enc demo_dec"

lemma demo_codec_ok: "codec_ok demo_manager"
  by (simp add: codec_ok_def demo_manager_def demo_with_def demo_codec demo_hash_fn)

text \<open>A disk with a store and a workspace; the tag \<open>x.tmp\<close> names a snapshot.\<close>

definition demo_store :: fsys where
  "demo_store =
     \<lparr>nodes = [([''s''], Dir 16877 0), ([''s'', ''snapshots''], Dir 16877 0), ([''s'', ''refs''], Dir 16877 0),
        ([''s'', ''refs'', ''tags''], Dir 16877 0), ([''s'', ''refs'', ''tags'', ''x.tmp''], File [98] 33188 0),
        ([''w''], Dir 16877 0), ([''w'', ''f''], File [2, 3] 33188 0)],
      writable = (\<lambda>_. True), other_len = (\<lambda>_. 4096)\<rparr>"

lemma demo_store_ok: "store_ok demo_manager demo_store"
  by (auto simp: store_ok_def no_links_def lstat_def demo_store_def demo_manager_def demo_with_def snapshots_dir_def
    tags_dir_def)

definition demo_created :: fsys where
  "demo_created =
     snd (the (create_snapshot demo_manager 0 ''a'' 9 [] ''/w'' (Some ''m'') (Some [''v'']) demo_store))"

lemma demo_create:
  "create_snapshot demo_manager 0 ''a'' 9 [] ''/w'' (Some ''m'') (Some [''v'']) demo_store =
     Some (Inr ''a'', demo_created)"
proof -
  have "map_option fst (create_snapshot (demo_with enc dec) 0 ''a'' 9 [] ''/w'' (Some ''m'') (Some [''v'']) demo_store) =
      Some (Inr ''a'')" for enc dec
    by code_simp
  from this [of demo_enc demo_dec] show ?thesis unfolding demo_created_def demo_manager_def by auto
qed

theorem valid_tag_iff_witness:
  "locate False demo_fs (tags_dir demo_manager) (tag_temp ''v1.0'') = Some (tags_dir demo_manager @ [''v1.tmp'']) \<and>
   validate_tag_name ''../x'' \<noteq> Inr ()"
proof -
  have "validate_tag_name ''v1.0'' = Inr ()" "tag_temp ''v1.0'' = ''v1.tmp''" "validate_tag_name ''../x'' \<noteq> Inr ()"
    by code_simp+
  with valid_tag_iff [of "''v1.0''" demo_fs demo_manager] show ?thesis by simp
qed


section \<open>Files written through a temporary one\<close>

text \<open>A directory of the store.\<close>

definition plain_dir :: "path \<Rightarrow> fsys \<Rightarrow> bool" where
  "plain_dir d fs \<longleftrightarrow> d \<noteq> [] \<and> is_dir_node (lstat fs d) \<and> (\<forall>s. \<not> is_link_node (lstat fs (d @ [s])))"

lemma read_plain:
  "plain_dir d fs \<Longrightarrow> plain_name s \<Longrightarrow>
     fs_read fs d s = (case lstat fs (d @ [s]) of Some (File c _ _) \<Rightarrow> Some c | _ \<Rightarrow> None)"
  "plain_dir d fs \<Longrightarrow> plain_name s \<Longrightarrow> fs_exists fs d s \<longleftrightarrow> lstat fs (d @ [s]) \<noteq> None"
  by (simp_all add: fs_read_def fs_exists_def plain_dir_def locate_plain)

lemma write_plain:
  assumes "plain_dir d fs" and "plain_name s" and "fs_write now d s c fs = Some fs1"
  shows "\<exists>m. fs1 = put_node (d @ [s]) (File c m now) fs"
  using assms by (auto simp: fs_write_def plain_dir_def locate_plain split: option.splits node.splits if_splits)

lemma plain_dir_put:
  "plain_dir d fs \<Longrightarrow> \<not> is_link_node (Some x) \<Longrightarrow> plain_dir d (put_node (d @ [s]) x fs)"
  "plain_dir d fs \<Longrightarrow> plain_dir d (drop_node (d @ [s]) fs)"
  by (auto simp: plain_dir_def lstat_put lstat_drop)

text \<open>Both operations together: the file is there whole, the temporary one is gone.\<close>

lemma write_through:
  assumes "plain_dir d fs" and "plain_name s" and "plain_name t"
    and "fs_write now d t c fs = Some fs1" and "fs_rename d t s fs1 = Some fs2"
  shows "plain_dir d fs2"
    "\<exists>m. lstat fs2 (d @ [s]) = Some (File c m now)"
    "q \<noteq> d @ [s] \<Longrightarrow> lstat fs2 q = (if q = d @ [t] then None else lstat fs q)"
proof -
  obtain m where fs1: "fs1 = put_node (d @ [t]) (File c m now) fs"
    using write_plain [OF assms(1,3,4)] by blast
  have d1: "plain_dir d fs1" using assms(1) by (simp add: fs1 plain_dir_put)
  have "fs2 = (if s = t then fs1 else put_node (d @ [s]) (File c m now) (drop_node (d @ [t]) fs1))"
    using assms(2,3,5) by (auto simp: fs_rename_def locate_plain_nofollow fs1 lstat_put split: if_splits)
  then show "plain_dir d fs2" "\<exists>m. lstat fs2 (d @ [s]) = Some (File c m now)"
    "q \<noteq> d @ [s] \<Longrightarrow> lstat fs2 q = (if q = d @ [t] then None else lstat fs q)"
    using d1 by (auto simp: plain_dir_put fs1 lstat_put lstat_drop)
qed

lemma bytes_of_string: "bytes_of (string_of d) = d"
proof -
  have "(of_char (char_of (unat b)) :: u8) = b" for b :: u8
  proof -
    have "(of_char (char_of (unat b)) :: u8) = of_nat (of_char (char_of (unat b)))"
      by (simp only: of_nat_of_char)
    also have "of_char (char_of (unat b)) = unat b"
    proof -
      have "unat b < 2 ^ LENGTH(8)" by (rule unsigned_less)
      then show ?thesis by simp
    qed
    finally show ?thesis by simp
  qed
  then show ?thesis by (simp add: string_of_def bytes_of_def comp_def)
qed

section \<open>Building a tree\<close>

lemma build_entries_frame:
  assumes "\<And>d fs r fs'. no_links (mg_root mg) fs \<Longrightarrow> sub d fs = Some (r, fs') \<Longrightarrow> objects_only (mg_root mg) fs fs'"
    and "hash_fn (mg_hash mg)"
  shows "no_links (mg_root mg) fs \<Longrightarrow> build_entries sub mg now dir names acc fs = Some (r, fs') \<Longrightarrow>
    objects_only (mg_root mg) fs fs'"
proof (induction names arbitrary: acc fs)
  case Nil
  then show ?case by (simp add: objects_only_refl)
next
  case (Cons name names)
  obtain es n z where acc: "acc = (es, n, z)" by (cases acc)
  have go: "objects_only (mg_root mg) fs fs'"
    if "objects_only (mg_root mg) fs fs1" "build_entries sub mg now dir names acc1 fs1 = Some (r, fs')" for fs1 acc1
  proof -
    have "no_links (mg_root mg) fs1" using that(1) Cons.prems(1) by (simp add: objects_only_def)
    from objects_only_trans [OF that(1) Cons.IH [OF this that(2)]] show ?thesis .
  qed
  show ?case
  proof (cases "lstat fs (dir @ [name])")
    case None
    with Cons.prems acc show ?thesis by (simp add: objects_only_refl)
  next
    case (Some x)
    show ?thesis
    proof (cases x)
      case (File c m t)
      note fr = put_file_frame [OF Cons.prems(1) assms(2), of now dir name]
      show ?thesis
        using Cons.prems(2) fr Some File acc
        by (auto split: prod.splits sum.splits intro: go)
    next
      case (Dir m t)
      show ?thesis
        using Cons.prems(2) Some Dir acc assms(1) [OF Cons.prems(1)]
        by (auto split: prod.splits sum.splits option.splits intro: go)
    next
      case (Link target t)
      note fr = put_blob_frame [OF Cons.prems(1) assms(2), of now "bytes_of target"]
      show ?thesis
        using Cons.prems(2) fr Some Link acc
        by (auto split: prod.splits sum.splits intro: go)
    next
      case Special
      with Cons.prems(2) Some acc show ?thesis by (auto intro: go objects_only_refl)
    qed
  qed
qed

text \<open>Building a tree changes nothing but the objects, and always ends with enough fuel.\<close>

lemma build_tree_frame:
  "hash_fn (mg_hash mg) \<Longrightarrow> no_links (mg_root mg) fs \<Longrightarrow> build_tree mg now n dir fs = Some (r, fs') \<Longrightarrow>
     objects_only (mg_root mg) fs fs'"
proof (induction n arbitrary: dir fs r fs')
  case 0
  then show ?case by simp
next
  case (Suc n)
  show ?case
  proof (cases "build_entries (build_tree mg now n) mg now dir (fs_read_dir fs dir) ([], 0, 0) fs")
    case None
    with Suc.prems show ?thesis by (auto simp: objects_only_refl split: if_splits)
  next
    case (Some p)
    obtain r1 fs1 where p: "p = (r1, fs1)" by (cases p)
    have one: "objects_only (mg_root mg) fs fs1"
      using build_entries_frame [OF _ Suc.prems(1,2), of "build_tree mg now n"] Suc.IH [OF Suc.prems(1)] Some p
      by blast
    then have "no_links (mg_root mg) fs1" using Suc.prems(2) by (simp add: objects_only_def)
    note two = objects_only_trans [OF one put_blob_frame [OF this Suc.prems(1), of now]]
    show ?thesis
    proof (cases "is_dir_node (lstat fs dir)")
      case True
      show ?thesis
      proof (cases r1)
        case (Inl e)
        with Suc.prems(3) Some p True one show ?thesis by simp
      next
        case (Inr a)
        obtain es n z where a: "a = (es, n, z)" by (cases a)
        from Suc.prems(3) Some p True Inr a two [of "mg_enc_tree mg es"] show ?thesis
          by (auto split: prod.splits sum.splits)
      qed
    next
      case False
      with Suc.prems show ?thesis by (simp add: objects_only_refl)
    qed
  qed
qed

definition dirs_within :: "nat \<Rightarrow> fsys \<Rightarrow> bool" where
  "dirs_within k fs \<longleftrightarrow> (\<forall>q. is_dir_node (lstat fs q) \<longrightarrow> length q \<le> k)"

lemma dirs_within_frame:
  "dirs_within k fs \<Longrightarrow> length root + 2 \<le> k \<Longrightarrow> objects_only root fs fs' \<Longrightarrow> dirs_within k fs'"
  unfolding dirs_within_def objects_only_def by (meson le_trans)

lemma build_entries_returns:
  assumes "hash_fn (mg_hash mg)" and "length (mg_root mg) + 2 \<le> k"
    and "\<And>d fs r fs'. no_links (mg_root mg) fs \<Longrightarrow> sub d fs = Some (r, fs') \<Longrightarrow> objects_only (mg_root mg) fs fs'"
    and "\<And>name fs. no_links (mg_root mg) fs \<Longrightarrow> dirs_within k fs \<Longrightarrow>
      is_dir_node (lstat fs (dir @ [name])) \<Longrightarrow> sub (dir @ [name]) fs \<noteq> None"
  shows "no_links (mg_root mg) fs \<Longrightarrow> dirs_within k fs \<Longrightarrow> build_entries sub mg now dir names acc fs \<noteq> None"
proof (induction names arbitrary: acc fs)
  case Nil
  then show ?case by simp
next
  case (Cons name names)
  obtain es n z where acc: "acc = (es, n, z)" by (cases acc)
  have go: "build_entries sub mg now dir names acc1 fs1 \<noteq> None" if "objects_only (mg_root mg) fs fs1" for fs1 acc1
    using that Cons dirs_within_frame [OF Cons.prems(2) assms(2) that] by (simp add: objects_only_def)
  show ?case
  proof (cases "lstat fs (dir @ [name])")
    case None
    with acc show ?thesis by simp
  next
    case (Some x)
    show ?thesis
    proof (cases x)
      case (File c m t)
      then show ?thesis
        using Some acc go put_file_frame [OF Cons.prems(1) assms(1), of now dir name]
        by (auto split: prod.splits sum.splits)
    next
      case (Dir m t)
      obtain r fs1 where "sub (dir @ [name]) fs = Some (r, fs1)"
        using assms(4) [OF Cons.prems, of name] Some Dir by fastforce
      then show ?thesis
        using Some Dir acc go assms(3) [OF Cons.prems(1)] by (auto split: prod.splits sum.splits)
    next
      case (Link target t)
      then show ?thesis
        using Some acc go put_blob_frame [OF Cons.prems(1) assms(1), of now "bytes_of target"]
        by (auto split: prod.splits sum.splits)
    next
      case Special
      then show ?thesis using Some acc go [OF objects_only_refl] by simp
    qed
  qed
qed

lemma build_tree_returns:
  assumes "hash_fn (mg_hash mg)" and "length (mg_root mg) + 2 \<le> k"
  shows "no_links (mg_root mg) fs \<Longrightarrow> dirs_within k fs \<Longrightarrow> k < n + length dir \<Longrightarrow>
    n = 0 \<longrightarrow> is_dir_node (lstat fs dir) \<Longrightarrow> build_tree mg now n dir fs \<noteq> None"
proof (induction n arbitrary: dir fs)
  case 0
  then show ?case by (auto simp: dirs_within_def)
next
  case (Suc n)
  have "build_entries (build_tree mg now n) mg now dir (fs_read_dir fs dir) ([], 0, 0) fs \<noteq> None"
    using build_entries_returns [OF assms, of "build_tree mg now n" dir fs now]
      Suc build_tree_frame [OF assms(1)] by simp
  then show ?case by (auto split: prod.splits sum.splits)
qed

lemma dirs_within_bound: "dirs_within (depth_bound mg fs) fs"
proof -
  have "m \<le> fold max xs m \<and> (\<forall>x \<in> set xs. x \<le> fold max xs m)" for m and xs :: "nat list"
  proof (induction xs arbitrary: m)
    case (Cons x xs)
    from Cons [of "max x m"] show ?case by auto
  qed simp
  then have "length q \<le> depth_bound mg fs" if "(q, x) \<in> set (nodes fs)" for q x
    using that unfolding depth_bound_def by force
  then show ?thesis
    by (auto simp: dirs_within_def lstat_def dest!: map_of_SomeD split: if_splits
        elim!: is_dir_node.elims)
qed

lemma depth_bound_root: "length (mg_root mg) + 2 \<le> depth_bound mg fs"
proof -
  have "m \<le> fold max xs m" for m and xs :: "nat list"
  proof (induction xs arbitrary: m)
    case (Cons x xs)
    from Cons [of "max x m"] show ?case by simp
  qed simp
  then show ?thesis by (simp add: depth_bound_def)
qed



section \<open>What the operations do to the store\<close>

lemma store_dirs:
  assumes "store_ok mg fs"
  shows "plain_dir (snapshots_dir mg) fs" "plain_dir (tags_dir mg) fs"
  using assms by (auto simp: store_ok_def plain_dir_def snapshots_dir_def tags_dir_def no_links_def)

lemma store_ok_objects: "store_ok mg fs \<Longrightarrow> objects_only (mg_root mg) fs fs' \<Longrightarrow> store_ok mg fs'"
  by (auto simp: store_ok_def objects_only_def in_objects_def snapshots_dir_def tags_dir_def)

lemma store_ok_write:
  assumes "store_ok mg fs" and "d = snapshots_dir mg \<or> d = tags_dir mg"
    and "\<And>q. q \<noteq> d @ [s] \<Longrightarrow> lstat fs' q = (if q = d @ [t] then None else lstat fs q)"
    and "\<not> is_link_node (lstat fs' (d @ [s]))"
  shows "store_ok mg fs'"
proof -
  have apart: "snapshots_dir mg \<noteq> d @ [x]" "tags_dir mg \<noteq> d @ [x]" for x
    using assms(2) by (auto simp: snapshots_dir_def tags_dir_def)
  have "\<not> is_link_node (lstat fs' (mg_root mg @ p))" for p
    using assms(1,3,4) by (cases "mg_root mg @ p = d @ [s]") (auto simp: store_ok_def no_links_def)
  then show ?thesis using assms(1,3) apart by (auto simp: store_ok_def no_links_def)
qed

lemma uuid_chars: "uuid_ok i \<Longrightarrow> c \<in> set i \<Longrightarrow> (of_char c :: nat) < 128 \<and> \<not> is_space c \<and> c \<noteq> CHR ''/'' \<and> c \<noteq> CHR ''.''"
  by (auto simp: uuid_ok_def is_hex_def is_space_def Let_def)

lemma uuid_plain: "uuid_ok i \<Longrightarrow> plain_name (snapshot_file i)"
  using uuid_chars [of i] by (auto simp: plain_name_def snapshot_file_def)

lemma uuid_text: "uuid_ok i \<Longrightarrow> utf8_ok (bytes_of i)" "uuid_ok i \<Longrightarrow> trim i = i"
proof -
  assume i: "uuid_ok i"
  have "(of_char c :: u8) < 128" if "c \<in> set i" for c
  proof -
    have "(of_char c :: nat) < 128" using uuid_chars [OF i that] by simp
    moreover have "(of_char c :: u8) = of_nat (of_char c)" by (simp only: of_nat_of_char)
    ultimately show ?thesis
      by (simp add: word_less_nat_alt unat_of_nat)
  qed
  then show "utf8_ok (bytes_of i)" by (intro utf8_ok_ascii) (auto simp: bytes_of_def)
  show "trim i = i" using uuid_chars [OF i] by (intro trim_id) blast
qed

lemma uuid_temp: "uuid_ok i \<Longrightarrow> with_extension ''tmp'' (snapshot_file i) = i @ ''.tmp''"
proof -
  assume i: "uuid_ok i"
  then have "CHR ''.'' \<notin> set i" "i \<noteq> []" using uuid_chars [OF i] by (auto simp: uuid_ok_def)
  then show ?thesis
    by (simp add: with_extension_def split_dot_def snapshot_file_def Let_def)
qed

section \<open>Creating and reading back\<close>

definition temp_like :: "string \<Rightarrow> bool" where
  "temp_like t = starts_with (rev ''.tmp'') (rev t)"

lemma temp_like_iff: "temp_like t \<longleftrightarrow> (\<exists>s. t = s @ ''.tmp'')"
proof
  assume "temp_like t"
  then obtain u where "rev t = rev ''.tmp'' @ u" unfolding temp_like_def starts_with_iff by blast
  then have "t = rev u @ ''.tmp''" by (metis rev_append rev_rev_ident)
  then show "\<exists>s. t = s @ ''.tmp''" ..
next
  assume "\<exists>s. t = s @ ''.tmp''"
  then show "temp_like t" by (auto simp: temp_like_def)
qed

lemma tag_temp_like: "temp_like (tag_temp t)"
  by (auto simp: temp_like_iff tag_temp_def with_extension_def)

lemma add_tag_effect:
  assumes "store_ok mg fs" and "plain_name tag" and "add_tag mg now i tag fs = (Inr u, fs')"
  shows "store_ok mg fs'" "\<exists>m. lstat fs' (tags_dir mg @ [tag]) = Some (File (bytes_of i) m now)"
    "q \<noteq> tags_dir mg @ [tag] \<Longrightarrow> q \<noteq> tags_dir mg @ [tag_temp tag] \<Longrightarrow> lstat fs' q = lstat fs q"
proof -
  obtain fs1 where w: "fs_write now (tags_dir mg) (tag_temp tag) (bytes_of i) fs = Some fs1"
    "fs_rename (tags_dir mg) (tag_temp tag) tag fs1 = Some fs'"
    using assms(3) by (auto simp: add_tag_def split: option.splits)
  have temp: "plain_name (tag_temp tag)" using assms(2) by (simp add: tag_temp_def temp_of_plain)
  note eff = write_through [OF store_dirs(2) [OF assms(1)] assms(2) temp w]
  show "\<exists>m. lstat fs' (tags_dir mg @ [tag]) = Some (File (bytes_of i) m now)" by (rule eff(2))
  then have "\<not> is_link_node (lstat fs' (tags_dir mg @ [tag]))" by auto
  then show "store_ok mg fs'" using store_ok_write [OF assms(1) _ eff(3)] by blast
  show "q \<noteq> tags_dir mg @ [tag] \<Longrightarrow> q \<noteq> tags_dir mg @ [tag_temp tag] \<Longrightarrow> lstat fs' q = lstat fs q"
    using eff(3) by simp
qed

lemma add_tags_effect:
  assumes "store_ok mg fs" and "list_all plain_name tags" and "distinct tags"
    and "\<not> list_ex temp_like tags" and "add_tags mg now i tags fs = (Inr u, fs')"
  shows "store_ok mg fs' \<and>
    (\<forall>t \<in> set tags. \<exists>m. lstat fs' (tags_dir mg @ [t]) = Some (File (bytes_of i) m now)) \<and>
    (\<forall>q. (\<forall>t \<in> set tags. q \<noteq> tags_dir mg @ [t] \<and> q \<noteq> tags_dir mg @ [tag_temp t]) \<longrightarrow>
      lstat fs' q = lstat fs q)"
  using assms
proof (induction tags arbitrary: fs)
  case Nil
  then show ?case by simp
next
  case (Cons tag tags)
  obtain v fs1 where one: "add_tag mg now i tag fs = (Inr v, fs1)"
    "add_tags mg now i tags fs1 = (Inr u, fs')"
    using Cons.prems(5) by (auto split: prod.splits sum.splits)
  have plain: "plain_name tag" using Cons.prems(2) by simp
  note eff = add_tag_effect [OF Cons.prems(1) plain one(1)]
  from Cons.IH [OF eff(1) _ _ _ one(2)] Cons.prems
  have rest: "store_ok mg fs'"
    "\<forall>t \<in> set tags. \<exists>m. lstat fs' (tags_dir mg @ [t]) = Some (File (bytes_of i) m now)"
    "\<forall>q. (\<forall>t \<in> set tags. q \<noteq> tags_dir mg @ [t] \<and> q \<noteq> tags_dir mg @ [tag_temp t]) \<longrightarrow>
      lstat fs' q = lstat fs1 q" by auto
  have "tag \<noteq> t \<and> tag \<noteq> tag_temp t" if "t \<in> set tags" for t
    using that Cons.prems(3,4) tag_temp_like [of t] by auto
  then have "lstat fs' (tags_dir mg @ [tag]) = lstat fs1 (tags_dir mg @ [tag])"
    using rest(3) by simp
  with rest eff show ?case by simp
qed

lemma check_all_iff: "check_all f xs = Inr u \<longleftrightarrow> (\<forall>x \<in> set xs. f x = Inr ())"
  by (induction xs) (auto split: sum.splits)

lemma read_back:
  assumes "plain_dir d fs" and "plain_name s" and "lstat fs (d @ [s]) = Some (File c m t)" and "utf8_ok c"
  shows "fs_read_to_string fs d s = Some (string_of c)" "fs_exists fs d s"
  using assms by (simp_all add: fs_read_to_string_def read_plain)

lemma write_snapshot_effect:
  assumes "store_ok mg fs" and "uuid_ok (sn_id s)" and "write_snapshot mg now s fs = (Inr u, fs')"
  shows "store_ok mg fs'"
    "\<exists>m. lstat fs' (snapshots_dir mg @ [snapshot_file (sn_id s)]) = Some (File (mg_enc mg s) m now)"
    "q \<noteq> snapshots_dir mg @ [snapshot_file (sn_id s)] \<Longrightarrow> q \<noteq> snapshots_dir mg @ [sn_id s @ ''.tmp''] \<Longrightarrow>
      lstat fs' q = lstat fs q"
proof -
  let ?f = "snapshot_file (sn_id s)"
  obtain fs1 where w: "fs_write now (snapshots_dir mg) (sn_id s @ ''.tmp'') (mg_enc mg s) fs = Some fs1"
    "fs_rename (snapshots_dir mg) (sn_id s @ ''.tmp'') ?f fs1 = Some fs'"
    using assms(3) by (auto simp: write_snapshot_def uuid_temp [OF assms(2)] split: option.splits)
  have temp: "plain_name (sn_id s @ ''.tmp'')"
    using temp_of_plain [OF uuid_plain [OF assms(2)]] by (simp add: uuid_temp [OF assms(2)])
  note eff = write_through [OF store_dirs(1) [OF assms(1)] uuid_plain [OF assms(2)] temp w]
  show "\<exists>m. lstat fs' (snapshots_dir mg @ [?f]) = Some (File (mg_enc mg s) m now)" by (rule eff(2))
  then have "\<not> is_link_node (lstat fs' (snapshots_dir mg @ [?f]))" by auto
  then show "store_ok mg fs'" using store_ok_write [OF assms(1) _ eff(3)] by blast
  show "q \<noteq> snapshots_dir mg @ [?f] \<Longrightarrow> q \<noteq> snapshots_dir mg @ [sn_id s @ ''.tmp''] \<Longrightarrow> lstat fs' q = lstat fs q"
    using eff(3) by simp
qed

lemma input_tags_distinct: "distinct (input_tags tags)"
proof -
  have "sorted xs \<Longrightarrow> distinct (remdups_adj xs)" for xs :: "string list"
    by (induction xs rule: remdups_adj.induct) auto
  then show ?thesis by (simp add: input_tags_def)
qed

lemma input_tags_set: "set (input_tags tags) = (case tags of None \<Rightarrow> {} | Some ts \<Rightarrow> set ts)"
  by (simp add: input_tags_def split: option.splits)

lemma snapshot_reads_back:
  assumes "store_ok mg fs" and "codec_ok mg" and "uuid_ok (sn_id s)"
    and "lstat fs (snapshots_dir mg @ [snapshot_file (sn_id s)]) = Some (File (mg_enc mg s) m t)"
  shows "read_snapshot mg (sn_id s) fs = Inr s"
proof -
  have "utf8_ok (mg_enc mg s)" "mg_dec mg (mg_enc mg s) = Some s" using assms(2) by (simp_all add: codec_ok_def)
  with read_back(1) [OF store_dirs(1) [OF assms(1)] uuid_plain [OF assms(3)] assms(4)] show ?thesis
    by (simp add: read_snapshot_def bytes_of_string)
qed

lemma tag_reads_back:
  assumes "store_ok mg fs" and "plain_name tag" and "uuid_ok i"
    and "lstat fs (tags_dir mg @ [tag]) = Some (File (bytes_of i) m t)"
  shows "get_snapshot_by_tag mg tag fs = Inr (Some i)"
  using read_back [OF store_dirs(2) [OF assms(1)] assms(2,4)] uuid_text [OF assms(3)]
  by (simp add: get_snapshot_by_tag_def string_of_bytes)

text \<open>The parts of a successful creation.\<close>

lemma create_snapshot_parts:
  assumes "create_snapshot mg now uuid fuel cwd workspace msg tags fs = Some (Inr i, fs')"
  obtains dir s fs1 fs2 u where "i = uuid" "sn_id s = uuid" "sn_tags s = input_tags tags"
    "sn_created_at s = as_secs now" "sn_workspace s = workspace"
    "sn_message s = (case msg of None \<Rightarrow> ''Snapshot '' @ uuid | Some m \<Rightarrow> m)"
    "check_all validate_tag_name (input_tags tags) = Inr ()" "check_all (tag_is_free mg fs) (input_tags tags) = Inr ()"
    "locate True fs cwd workspace = Some dir"
    "build_tree mg now fuel dir fs = Some (Inr (sn_tree s, sn_file_count s, sn_total_size s), fs1)"
    "write_snapshot mg now s fs1 = (Inr u, fs2)" "add_tags mg now uuid (input_tags tags) fs2 = (Inr (), fs')"
proof -
  let ?tags = "input_tags tags"
  obtain u0 u1 dir h n z fs1 where steps: "check_all validate_tag_name ?tags = Inr u0"
    "check_all (tag_is_free mg fs) ?tags = Inr u1" "locate True fs cwd workspace = Some dir"
    "build_tree mg now fuel dir fs = Some (Inr (h, n, z), fs1)"
    using assms by (auto simp: create_snapshot_def Let_def split: sum.splits option.splits prod.splits)
  define s where "s = \<lparr>sn_id = uuid, sn_created_at = as_secs now, sn_tree = h,
      sn_message = (case msg of None \<Rightarrow> ''Snapshot '' @ uuid | Some m \<Rightarrow> m), sn_tags = ?tags,
      sn_workspace = workspace, sn_file_count = n, sn_total_size = z\<rparr>"
  obtain u2 u3 fs2 where more: "write_snapshot mg now s fs1 = (Inr u2, fs2)"
    "add_tags mg now uuid ?tags fs2 = (Inr u3, fs')" "i = uuid"
    using assms steps unfolding s_def
    by (auto simp: create_snapshot_def Let_def split: sum.splits option.splits prod.splits)
  show thesis
    by (rule that [of s dir fs1 u2 fs2]) (use steps more in \<open>simp_all add: s_def\<close>)
qed

text \<open>What it leaves on the disk.\<close>

lemma create_snapshot_effect:
  assumes "store_ok mg fs" and "codec_ok mg" and "uuid_ok uuid"
    and "\<not> list_ex temp_like (input_tags tags)"
    and "create_snapshot mg now uuid fuel cwd workspace msg tags fs = Some (Inr i, fs')"
  obtains s dir fs1 where "i = uuid" "sn_id s = uuid" "sn_tags s = input_tags tags"
    "sn_created_at s = as_secs now"
    "sn_message s = (case msg of None \<Rightarrow> ''Snapshot '' @ uuid | Some m \<Rightarrow> m)" "sn_workspace s = workspace"
    "store_ok mg fs'" "read_snapshot mg uuid fs' = Inr s"
    "\<forall>t \<in> set (input_tags tags). validate_tag_name t = Inr () \<and> get_snapshot_by_tag mg t fs' = Inr (Some uuid) \<and>
       get_snapshot_by_tag mg t fs = Inr None"
    "locate True fs cwd workspace = Some dir"
    "build_tree mg now fuel dir fs = Some (Inr (sn_tree s, sn_file_count s, sn_total_size s), fs1)"
    "objects_only (mg_root mg) fs fs1"
    "\<And>q. q \<noteq> snapshots_dir mg @ [snapshot_file uuid] \<Longrightarrow>
       q \<noteq> snapshots_dir mg @ [uuid @ ''.tmp''] \<Longrightarrow>
       \<forall>t \<in> set (input_tags tags). q \<noteq> tags_dir mg @ [t] \<and> q \<noteq> tags_dir mg @ [tag_temp t] \<Longrightarrow>
       lstat fs' q = lstat fs1 q"
proof (rule create_snapshot_parts [OF assms(5)])
  let ?tags = "input_tags tags"
  fix dir s fs1 fs2 u
  assume s: "i = uuid" "sn_id s = uuid" "sn_tags s = ?tags"
    "sn_created_at s = as_secs now" "sn_workspace s = workspace"
    "sn_message s = (case msg of None \<Rightarrow> ''Snapshot '' @ uuid | Some m \<Rightarrow> m)"
    and checks: "check_all validate_tag_name ?tags = Inr ()" "check_all (tag_is_free mg fs) ?tags = Inr ()"
    and dir: "locate True fs cwd workspace = Some dir"
    and build: "build_tree mg now fuel dir fs = Some (Inr (sn_tree s, sn_file_count s, sn_total_size s), fs1)"
    and more: "write_snapshot mg now s fs1 = (Inr u, fs2)" "add_tags mg now uuid ?tags fs2 = (Inr (), fs')"
  have frame: "objects_only (mg_root mg) fs fs1"
    using build_tree_frame [OF _ _ build] assms(1,2) by (simp add: codec_ok_def store_ok_def)
  have ok1: "store_ok mg fs1" using assms(1) frame by (rule store_ok_objects)
  note w = write_snapshot_effect [OF ok1 _ more(1), unfolded s(2), OF assms(3)]
  have valid: "\<forall>t \<in> set ?tags. validate_tag_name t = Inr ()" using checks(1) by (simp add: check_all_iff)
  have plain: "list_all plain_name ?tags" using valid valid_tag_plain by (auto simp: list_all_iff)
  from add_tags_effect [OF w(1) plain input_tags_distinct assms(4) more(2)]
  have t: "store_ok mg fs'"
    "\<forall>t \<in> set ?tags. \<exists>m. lstat fs' (tags_dir mg @ [t]) = Some (File (bytes_of uuid) m now)"
    "\<And>q. \<forall>t \<in> set ?tags. q \<noteq> tags_dir mg @ [t] \<and> q \<noteq> tags_dir mg @ [tag_temp t] \<Longrightarrow>
      lstat fs' q = lstat fs2 q" by auto
  have apart: "snapshots_dir mg @ [a] \<noteq> tags_dir mg @ [b]" for a b
    by (simp add: snapshots_dir_def tags_dir_def)
  obtain m where stored: "lstat fs' (snapshots_dir mg @ [snapshot_file uuid]) = Some (File (mg_enc mg s) m now)"
    using w(2) t(3) apart by auto
  show thesis
  proof (rule that [of s dir fs1])
    show "read_snapshot mg uuid fs' = Inr s"
      using snapshot_reads_back [OF t(1) assms(2), of s] stored assms(3) by (simp add: s(2))
    show "\<forall>t \<in> set ?tags. validate_tag_name t = Inr () \<and> get_snapshot_by_tag mg t fs' = Inr (Some uuid) \<and>
        get_snapshot_by_tag mg t fs = Inr None"
    proof
      fix x
      assume x: "x \<in> set ?tags"
      then have p: "plain_name x" using plain by (simp add: list_all_iff)
      have "get_snapshot_by_tag mg x fs = Inr None"
        using checks(2) x by (auto simp: check_all_iff tag_is_free_def get_snapshot_by_tag_def split: if_splits)
      moreover have "get_snapshot_by_tag mg x fs' = Inr (Some uuid)"
        using t(2) x tag_reads_back [OF t(1) p assms(3)] by blast
      ultimately show "validate_tag_name x = Inr () \<and> get_snapshot_by_tag mg x fs' = Inr (Some uuid) \<and>
          get_snapshot_by_tag mg x fs = Inr None" using valid x by simp
    qed
    show "lstat fs' q = lstat fs1 q"
      if "q \<noteq> snapshots_dir mg @ [snapshot_file uuid]" "q \<noteq> snapshots_dir mg @ [uuid @ ''.tmp'']"
        "\<forall>t \<in> set ?tags. q \<noteq> tags_dir mg @ [t] \<and> q \<noteq> tags_dir mg @ [tag_temp t]" for q
      using that t(3) w(3) by simp
  qed (use s t(1) dir build frame in simp_all)
qed

lemma get_snapshot_read: "read_snapshot mg i fs = Inr s \<Longrightarrow> get_snapshot mg i fs = Inr (snapshot_info_of s)"
  by (simp add: get_snapshot_def)

text \<open>C15. A snapshot that was created can be read: by its id, by each of its tags, and in the list for a
  tag, each time with the given message (or the default one), the time in seconds, and the given
  tags sorted and without duplicates. This needs tags none of which looks like a temporary file.\<close>

theorem create_then_read:
  assumes "store_ok mg fs" and "codec_ok mg" and "uuid_ok uuid"
    and "\<not> list_ex temp_like (input_tags tags)"
    and "create_snapshot mg now uuid fuel cwd workspace msg tags fs = Some (Inr i, fs')"
  shows "i = uuid \<and> (\<exists>info. get_snapshot mg uuid fs' = Inr info \<and> si_id info = uuid \<and>
    si_created_at info = as_secs now \<and>
    si_message info = (case msg of None \<Rightarrow> ''Snapshot '' @ uuid | Some m \<Rightarrow> m) \<and>
    sorted (si_tags info) \<and> distinct (si_tags info) \<and>
    set (si_tags info) = (case tags of None \<Rightarrow> {} | Some ts \<Rightarrow> set ts) \<and>
    list_all (\<lambda>t. find_snapshot_by_tag mg t fs' = Inr (Some info) \<and>
      list_snapshots mg (Some [t]) fs' = Inr [info]) (si_tags info))"
proof (rule create_snapshot_effect [OF assms])
  fix s
  assume s: "i = uuid" "sn_id s = uuid" "sn_tags s = input_tags tags"
    "sn_created_at s = as_secs now"
    "sn_message s = (case msg of None \<Rightarrow> ''Snapshot '' @ uuid | Some m \<Rightarrow> m)"
    "read_snapshot mg uuid fs' = Inr s"
    "\<forall>t \<in> set (input_tags tags). validate_tag_name t = Inr () \<and> get_snapshot_by_tag mg t fs' = Inr (Some uuid) \<and>
       get_snapshot_by_tag mg t fs = Inr None"
  have "sorted (input_tags tags)" by (simp add: input_tags_def)
  with s show ?thesis
    by (intro conjI exI [of _ "snapshot_info_of s"])
      (auto simp: get_snapshot_read snapshot_info_of_def input_tags_distinct input_tags_set
        list_all_iff find_snapshot_by_tag_def list_snapshots_def listed_ids_def tag_target_def)
qed

theorem create_then_read_witness:
  "\<exists>info. get_snapshot demo_manager ''a'' demo_created = Inr info \<and> si_message info = ''m'' \<and>
     set (si_tags info) = {''v''}"
proof -
  have "uuid_ok ''a''" "\<not> list_ex temp_like (input_tags (Some [''v'']))" by code_simp+
  from create_then_read [OF demo_store_ok demo_codec_ok this demo_create] show ?thesis by auto
qed

text \<open>C30. A tag is taken once: creating a snapshot with a tag that exists already, or with one that is not
  a valid name, fails before anything is written, and leaves the disk as it was.\<close>

theorem taken_tag_refused:
  assumes "t \<in> set ts" and "fs_exists fs (tags_dir mg) t \<or> validate_tag_name t \<noteq> Inr ()"
  shows "\<exists>e. create_snapshot mg now uuid fuel cwd workspace msg (Some ts) fs = Some (Inl e, fs)"
proof -
  have t: "t \<in> set (input_tags (Some ts))" using assms(1) by (simp add: input_tags_set)
  show ?thesis
  proof (cases "check_all validate_tag_name (input_tags (Some ts))")
    case (Inl e)
    then show ?thesis by (simp add: create_snapshot_def Let_def)
  next
    case (Inr u)
    then have "validate_tag_name t = Inr ()" using t by (simp add: check_all_iff)
    with assms(2) have "tag_is_free mg fs t \<noteq> Inr ()" by (simp add: tag_is_free_def)
    then have "check_all (tag_is_free mg fs) (input_tags (Some ts)) \<noteq> Inr v" for v
      using t by (auto simp: check_all_iff)
    then obtain e where "check_all (tag_is_free mg fs) (input_tags (Some ts)) = Inl e"
      by (cases "check_all (tag_is_free mg fs) (input_tags (Some ts))") auto
    with Inr show ?thesis by (simp add: create_snapshot_def Let_def)
  qed
qed

theorem taken_tag_refused_witness:
  "\<exists>e. create_snapshot demo_manager 0 ''a'' 9 [] ''/w'' None (Some [''v'', ''x.tmp'']) demo_store =
     Some (Inl e, demo_store)"
proof -
  have "fs_exists demo_store (tags_dir demo_manager) ''x.tmp''" by code_simp
  then show ?thesis by (intro taken_tag_refused [of "''x.tmp''"] disjI1) simp_all
qed

text \<open>Creating a snapshot leaves the others alone: every other snapshot reads as before, and every
  other tag names the snapshot it named, unless the tag is the name of the temporary file of a new
  tag; such a tag is lost.\<close>

theorem create_keeps_others:
  assumes "store_ok mg fs" and "codec_ok mg" and "uuid_ok uuid" and "uuid_ok j" and "j \<noteq> uuid"
    and "plain_name t" and "t \<notin> set (input_tags tags)" and "\<not> list_ex temp_like (input_tags tags)"
    and "create_snapshot mg now uuid fuel cwd workspace msg tags fs = Some (Inr i, fs')"
  shows "get_snapshot mg j fs' = get_snapshot mg j fs \<and>
    (if t \<in> set (map tag_temp (input_tags tags)) then True
     else get_snapshot_by_tag mg t fs' = get_snapshot_by_tag mg t fs)"
proof (rule create_snapshot_effect [OF assms(1-3,8,9)])
  fix fs1
  assume late: "\<And>q. q \<noteq> snapshots_dir mg @ [snapshot_file uuid] \<Longrightarrow>
       q \<noteq> snapshots_dir mg @ [uuid @ ''.tmp''] \<Longrightarrow>
       \<forall>t \<in> set (input_tags tags). q \<noteq> tags_dir mg @ [t] \<and> q \<noteq> tags_dir mg @ [tag_temp t] \<Longrightarrow>
       lstat fs' q = lstat fs1 q" and early: "objects_only (mg_root mg) fs fs1" and ok: "store_ok mg fs'"
  have frame: "lstat fs' q = lstat fs q" if "\<not> in_objects (mg_root mg) q" "q \<noteq> snapshots_dir mg @ [snapshot_file uuid]"
    "q \<noteq> snapshots_dir mg @ [uuid @ ''.tmp'']"
    "\<forall>t \<in> set (input_tags tags). q \<noteq> tags_dir mg @ [t] \<and> q \<noteq> tags_dir mg @ [tag_temp t]" for q
    using late [OF that(2-4)] early that(1) by (simp add: objects_only_def)
  have j: "snapshot_file j \<noteq> snapshot_file uuid" "snapshot_file j \<noteq> uuid @ ''.tmp''"
    using assms(5) by (auto simp: snapshot_file_def dest: arg_cong [of _ _ rev])
  have "lstat fs' (snapshots_dir mg @ [snapshot_file j]) = lstat fs (snapshots_dir mg @ [snapshot_file j])"
    using j by (intro frame) (auto simp: in_objects_def snapshots_dir_def tags_dir_def)
  then have one: "get_snapshot mg j fs' = get_snapshot mg j fs"
    using store_dirs(1) [OF ok] store_dirs(1) [OF assms(1)] uuid_plain [OF assms(4)]
    by (simp add: get_snapshot_def read_snapshot_def fs_read_to_string_def read_plain)
  have "get_snapshot_by_tag mg t fs' = get_snapshot_by_tag mg t fs"
    if "t \<notin> set (map tag_temp (input_tags tags))"
  proof -
    have "lstat fs' (tags_dir mg @ [t]) = lstat fs (tags_dir mg @ [t])"
      using that assms(7) by (intro frame) (auto simp: in_objects_def snapshots_dir_def tags_dir_def)
    then show ?thesis
      using store_dirs(2) [OF ok] store_dirs(2) [OF assms(1)] assms(6)
      by (simp add: get_snapshot_by_tag_def fs_read_to_string_def read_plain)
  qed
  with one show ?thesis by simp
qed

theorem create_keeps_others_witness:
  "get_snapshot_by_tag demo_manager ''x.tmp'' demo_created = Inr (Some ''b'') \<and>
   get_snapshot demo_manager ''b'' demo_created = get_snapshot demo_manager ''b'' demo_store"
proof -
  have "uuid_ok ''a''" "uuid_ok ''b''" "''b'' \<noteq> ''a''" "plain_name ''x.tmp''" "''x.tmp'' \<notin> set (input_tags (Some [''v'']))"
    "\<not> list_ex temp_like (input_tags (Some [''v'']))"
    and apart: "''x.tmp'' \<notin> set (map tag_temp (input_tags (Some [''v''])))"
    and old: "get_snapshot_by_tag demo_manager ''x.tmp'' demo_store = Inr (Some ''b'')"
    by code_simp+
  from create_keeps_others [OF demo_store_ok demo_codec_ok this(1-6) demo_create] apart old
  show ?thesis by simp
qed

text \<open>The temporary file of a tag can be the file of another tag: creating a snapshot with the tag
  \<open>x.y\<close> destroys an existing tag \<open>x.tmp\<close>, which then names no snapshot, although tags are meant to
  be immutable and the snapshot it was given to still lists it.\<close>

theorem tag_lost_to_temp_file:
  assumes "store_ok mg fs" and "plain_name tag" and "tag_temp tag \<noteq> tag"
    and "add_tag mg now i tag fs = (Inr u, fs')"
  shows "get_snapshot_by_tag mg (tag_temp tag) fs' = Inr None"
proof -
  have temp: "plain_name (tag_temp tag)" using assms(2) by (simp add: tag_temp_def temp_of_plain)
  obtain fs1 where w: "fs_write now (tags_dir mg) (tag_temp tag) (bytes_of i) fs = Some fs1"
    "fs_rename (tags_dir mg) (tag_temp tag) tag fs1 = Some fs'"
    using assms(4) by (auto simp: add_tag_def split: option.splits)
  note eff = write_through [OF store_dirs(2) [OF assms(1)] assms(2) temp w]
  have "lstat fs' (tags_dir mg @ [tag_temp tag]) = None" using eff(3) assms(3) by simp
  then show ?thesis using eff(1) temp by (simp add: get_snapshot_by_tag_def read_plain)
qed

theorem tag_lost_to_temp_file_witness:
  "get_snapshot_by_tag demo_manager ''x.tmp'' demo_store = Inr (Some ''b'') \<and>
   (case add_tag demo_manager 0 ''a'' ''x.y'' demo_store of
      (Inr _, fs') \<Rightarrow> get_snapshot_by_tag demo_manager ''x.tmp'' fs' = Inr None
    | (Inl _, _) \<Rightarrow> False)"
proof -
  have "plain_name ''x.y''" "tag_temp ''x.y'' \<noteq> ''x.y''" and temp: "tag_temp ''x.y'' = ''x.tmp''"
    and old: "get_snapshot_by_tag demo_manager ''x.tmp'' demo_store = Inr (Some ''b'')"
    and new: "fst (add_tag demo_manager 0 ''a'' ''x.y'' demo_store) = Inr ()"
    by code_simp+
  from tag_lost_to_temp_file [OF demo_store_ok this(1,2), of 0 "''a''" "()"] temp old new
  show ?thesis by (auto split: prod.splits sum.splits)
qed

section \<open>The list\<close>

lemma dedup_ids_sorted:
  "sorted (map age_key xs) \<Longrightarrow> inj_on si_id (set xs) \<Longrightarrow>
     set (dedup_ids xs) = set xs \<and> sorted_wrt (\<lambda>a b. age_key a < age_key b) (dedup_ids xs)"
proof (induction xs rule: dedup_ids.induct)
  case (3 s s' ss)
  have inj: "inj_on si_id (set (s # ss)) \<and> inj_on si_id (set (s' # ss))"
    by (intro conjI inj_on_subset [OF "3.prems"(2)] subsetI) auto
  show ?case
  proof (cases "si_id s' = si_id s")
    case True
    have eq: "s' = s" by (rule inj_onD [OF "3.prems"(2) True]) simp_all
    have "sorted (map age_key (s # ss))" using "3.prems"(1) by simp
    from "3.IH"(1) [OF True this conjunct1 [OF inj]] True eq show ?thesis by simp
  next
    case False
    have "sorted (map age_key (s' # ss))" using "3.prems"(1) by simp
    note IH = "3.IH"(2) [OF False this conjunct2 [OF inj]]
    have "age_key s < age_key x" if "x \<in> set (s' # ss)" for x
    proof -
      have le: "age_key s \<le> age_key s'" "age_key s' \<le> age_key x" using that "3.prems"(1) by auto
      have "age_key s \<noteq> age_key s'" using False by (simp add: age_key_def)
      with le show ?thesis by simp
    qed
    with IH False show ?thesis by simp
  qed
qed simp_all

lemma map_result_map: "map_result f xs = Inr ys \<Longrightarrow> map f xs = map Inr ys"
proof (induction xs arbitrary: ys)
  case (Cons x xs)
  then show ?case by (cases "f x"; cases "map_result f xs") auto
qed simp

lemma map_result_error: "map_result f xs = Inl e \<Longrightarrow> Inl e \<in> f ` set xs"
  by (induction xs) (force split: sum.splits)+

text \<open>C31. A list of snapshots is sorted by creation time, newest first, and by id among those of the same
  second, and no snapshot occurs twice, also when several of the given tags name the same one; it
  has exactly the snapshots that the directory, or the given tags, name. An error of one of them is
  the error of the whole. Each listed snapshot's file is assumed to hold the id that it is named by.\<close>

theorem list_sorted_unique:
  assumes "listed_ids mg tags fs = Inr ids"
    and "list_all (\<lambda>i. case get_snapshot mg i fs of Inr s \<Rightarrow> si_id s = i | Inl e \<Rightarrow> True) ids"
  shows "case list_snapshots mg tags fs of
       Inr infos \<Rightarrow>
         sorted_wrt (\<lambda>a b. si_created_at b < si_created_at a \<or> si_created_at a = si_created_at b \<and> si_id a < si_id b)
           infos \<and> distinct (map si_id infos) \<and>
         Inr ` set infos = (\<lambda>i. get_snapshot mg i fs) ` set ids
     | Inl e \<Rightarrow> Inl e \<in> (\<lambda>i. get_snapshot mg i fs) ` set ids"
proof (cases "map_result (\<lambda>i. get_snapshot mg i fs) ids")
  case (Inl e)
  then show ?thesis using assms(1) map_result_error [OF Inl] by (simp add: list_snapshots_def)
next
  case (Inr raw)
  define infos where "infos = dedup_ids (sort_key age_key raw)"
  have img: "Inr ` set raw = (\<lambda>i. get_snapshot mg i fs) ` set ids"
    using map_result_map [OF Inr] by (metis list.set_map)
  have same: "inj_on si_id (set raw)"
  proof (rule inj_onI)
    fix a b
    assume that: "a \<in> set raw" "b \<in> set raw" "si_id a = si_id b"
    have "get_snapshot mg (si_id x) fs = Inr x" if "x \<in> set raw" for x
    proof -
      from that have "Inr x \<in> (\<lambda>i. get_snapshot mg i fs) ` set ids" by (simp flip: img)
      then obtain i where "i \<in> set ids" "get_snapshot mg i fs = Inr x" by force
      with assms(2) show ?thesis by (auto simp: list_all_iff)
    qed
    with that show "a = b" by (metis sum.inject(2))
  qed
  have d: "set infos = set raw" "sorted_wrt (\<lambda>a b. age_key a < age_key b) infos"
    using dedup_ids_sorted [of "sort_key age_key raw"] same unfolding infos_def by auto
  have "sorted_wrt (\<lambda>a b. age_key a < age_key b) xs \<Longrightarrow> distinct xs" for xs
    by (induction xs) auto
  then have "distinct (map si_id infos)"
    using same d by (simp add: distinct_map)
  moreover have "sorted_wrt (\<lambda>a b. si_created_at b < si_created_at a \<or>
      si_created_at a = si_created_at b \<and> si_id a < si_id b) infos"
    using d(2) by (rule sorted_wrt_mono_rel [rotated])
      (auto simp: age_key_def less_age_key_def)
  moreover have "list_snapshots mg tags fs = Inr infos"
    using assms(1) Inr by (simp add: list_snapshots_def infos_def)
  ultimately show ?thesis using img d(1) by simp
qed

text \<open>Two snapshots of different age, listed by three tags.\<close>

definition demo_dated :: "string \<Rightarrow> u64 \<Rightarrow> snapshot" where
  "demo_dated i t =
     \<lparr>sn_id = i, sn_created_at = t, sn_tree = [], sn_message = [], sn_tags = [], sn_workspace = [],
      sn_file_count = 0, sn_total_size = 0\<rparr>"

definition demo_listing :: fsys where
  "demo_listing = demo_store\<lparr>nodes :=
     [([''s'', ''snapshots'', ''b.json''], File (demo_enc (demo_dated ''b'' 1)) 33188 0),
      ([''s'', ''snapshots'', ''c.json''], File (demo_enc (demo_dated ''c'' 2)) 33188 0),
      ([''s'', ''refs'', ''tags'', ''y''], File [99] 33188 0),
      ([''s'', ''refs'', ''tags'', ''z''], File [98] 33188 0)] @ nodes demo_store\<rparr>"

theorem list_sorted_unique_witness:
  "(case list_snapshots demo_manager (Some [''z'', ''x.tmp'', ''y'']) demo_listing of
      Inr infos \<Rightarrow> Inr ` set infos = (\<lambda>i. get_snapshot demo_manager i demo_listing) ` {''b'', ''c''}
    | Inl e \<Rightarrow> False) \<and>
   map_sum id (map si_id) (list_snapshots demo_manager (Some [''z'', ''x.tmp'', ''y'']) demo_listing) =
     Inr [''c'', ''b'']"
proof -
  let ?ts = "Some [''z'', ''x.tmp'', ''y'']" and ?ids = "[''b'', ''b'', ''c'']"
  have "listed_ids demo_manager ?ts demo_listing = Inr ?ids"
    and "list_all (\<lambda>i. case get_snapshot demo_manager i demo_listing of Inr s \<Rightarrow> si_id s = i | Inl e \<Rightarrow> True) ?ids"
    and two: "map_sum id (map si_id) (list_snapshots demo_manager ?ts demo_listing) = Inr [''c'', ''b'']"
    by code_simp+
  from list_sorted_unique [OF this(1,2)] two show ?thesis by (auto split: sum.splits)
qed

end
