(* ===== verification/Restore.thy ===== *)
theory Restore
  imports Snapshot
begin

text \<open>
  Restoring a snapshot (\<open>restore_snapshot\<close> and \<open>restore_tree\<close> in \<open>sandd/src/snapshot/manager.rs\<close>).

  A destination is the path \<open>base.join(name)\<close>: a directory that is resolved and a name, or, for the
  destination of a call, the working directory and the text of the path. Once it has been made, it
  is resolved, and its entries are named relative to the result. A removal whose error is only
  logged leaves the disk as it was when it fails. The builds for Windows are not modelled.
\<close>

section \<open>Entries\<close>

text \<open>The time of an entry comes back as whole seconds.\<close>

definition entry_time :: "tree_entry \<Rightarrow> nat" where
  "entry_time e = unat (te_modified e) * 1000000000"

text \<open>Whether the file of an entry has to be copied. A file of the same length and time is not read.\<close>

definition should_copy ::
  "manager \<Rightarrow> nat \<Rightarrow> path \<Rightarrow> tree_entry \<Rightarrow> fsys \<Rightarrow> (store_error + bool) \<times> fsys" where
  "should_copy mg now dir e fs =
     (if fs_exists fs dir (te_name e) then
        (case fs_metadata fs dir (te_name e) of
           None \<Rightarrow> (Inr True, fs)
         | Some (len, modified) \<Rightarrow>
             (if len = te_size e \<and> modified = entry_time e then (Inr False, fs)
              else (case put_file (mg_hash mg) now (mg_root mg) dir (te_name e) fs of
                      (Inl er, fs1) \<Rightarrow> (Inl er, fs1)
                    | (Inr file_hash, fs1) \<Rightarrow> (Inr (file_hash \<noteq> te_hash e), fs1))))
      else (Inr True, fs))"

definition set_mode :: "u32 \<Rightarrow> path \<Rightarrow> string \<Rightarrow> fsys \<Rightarrow> fsys option" where
  "set_mode mode dir name fs = fs_change (chmod_node mode) dir name fs"

definition set_mtime :: "nat \<Rightarrow> path \<Rightarrow> string \<Rightarrow> fsys \<Rightarrow> fsys option" where
  "set_mtime mtime dir name fs = fs_change (touch_node mtime) dir name fs"

definition restore_blob ::
  "manager \<Rightarrow> nat \<Rightarrow> path \<Rightarrow> tree_entry \<Rightarrow> fsys \<Rightarrow> (store_error + unit) \<times> fsys" where
  "restore_blob mg now dir e fs =
     (case should_copy mg now dir e fs of
        (Inl er, fs1) \<Rightarrow> (Inl er, fs1)
      | (Inr copy, fs1) \<Rightarrow>
          (case (if copy then copy_file now (mg_root mg) (te_hash e) dir (te_name e) fs1 else (Inr (), fs1)) of
             (Inl er, fs2) \<Rightarrow> (Inl er, fs2)
           | (Inr _, fs2) \<Rightarrow>
               (case set_mode (te_mode e) dir (te_name e) fs2 of
                  None \<Rightarrow> (Inl IoError, fs2)
                | Some fs3 \<Rightarrow>
                    (case set_mtime (entry_time e) dir (te_name e) fs3 of
                       None \<Rightarrow> (Inl IoError, fs3)
                     | Some fs4 \<Rightarrow> (Inr (), fs4)))))"

text \<open>An operation whose error is dropped.\<close>

definition ignoring :: "(fsys \<Rightarrow> fsys option) \<Rightarrow> fsys \<Rightarrow> fsys" where
  "ignoring f fs = (case f fs of None \<Rightarrow> fs | Some fs1 \<Rightarrow> fs1)"

definition restore_symlink ::
  "manager \<Rightarrow> nat \<Rightarrow> path \<Rightarrow> tree_entry \<Rightarrow> fsys \<Rightarrow> (store_error + unit) \<times> fsys" where
  "restore_symlink mg now dir e fs =
     (case get_blob (mg_root mg) (te_hash e) fs of
        Inl er \<Rightarrow> (Inl er, fs)
      | Inr target_bytes \<Rightarrow>
          (if \<not> utf8_ok target_bytes then (Inl DecodeError, fs)
           else
             (let fs1 = (if fs_exists fs dir (te_name e) \<or> fs_is_symlink fs dir (te_name e)
                         then ignoring (fs_remove_file dir (te_name e)) fs else fs)
              in case fs_symlink now (string_of target_bytes) dir (te_name e) fs1 of
                   None \<Rightarrow> (Inl IoError, fs1)
                 | Some fs2 \<Rightarrow> (Inr (), fs2))))"

text \<open>The entries of one directory; \<open>sub\<close> restores a subdirectory. No result means out of fuel.\<close>

fun restore_entries ::
  "(string \<Rightarrow> path \<Rightarrow> string \<Rightarrow> fsys \<Rightarrow> ((store_error + unit) \<times> fsys) option) \<Rightarrow> manager \<Rightarrow> nat \<Rightarrow> path \<Rightarrow>
     tree_entry list \<Rightarrow> fsys \<Rightarrow> ((store_error + unit) \<times> fsys) option" where
  "restore_entries sub mg now dir [] fs = Some (Inr (), fs)"
| "restore_entries sub mg now dir (e # es) fs =
     (case (case te_type e of
              Blob \<Rightarrow> Some (restore_blob mg now dir e fs)
            | Tree \<Rightarrow> sub (te_hash e) dir (te_name e) fs
            | Symlink \<Rightarrow> Some (restore_symlink mg now dir e fs)
            | SymlinkDir \<Rightarrow> Some (restore_symlink mg now dir e fs)) of
        None \<Rightarrow> None
      | Some (Inl er, fs1) \<Rightarrow> Some (Inl er, fs1)
      | Some (Inr _, fs1) \<Rightarrow> restore_entries sub mg now dir es fs1)"

section \<open>Extra entries\<close>

definition remove_extra :: "path \<Rightarrow> string \<Rightarrow> fsys \<Rightarrow> fsys" where
  "remove_extra dir name fs =
     (case lstat fs (dir @ [name]) of
        None \<Rightarrow> fs
      | Some x \<Rightarrow>
          (if is_dir_node (Some x) then ignoring (fs_remove_dir_all dir name) fs
           else ignoring (fs_remove_file dir name) fs))"

definition clean_extras :: "string list \<Rightarrow> path \<Rightarrow> fsys \<Rightarrow> fsys" where
  "clean_extras expected dir fs =
     fold (\<lambda>name fs. if name \<in> set expected then fs else remove_extra dir name fs) (fs_read_dir fs dir) fs"

section \<open>Trees\<close>

primrec restore_tree ::
  "manager \<Rightarrow> nat \<Rightarrow> nat \<Rightarrow> string \<Rightarrow> path \<Rightarrow> string \<Rightarrow> fsys \<Rightarrow> ((store_error + unit) \<times> fsys) option" where
  "restore_tree mg now 0 = (\<lambda>tree_hash base name fs. None)"
| "restore_tree mg now (Suc n) =
     (\<lambda>tree_hash base name fs.
        (case fs_create_dir_all base name fs of
           None \<Rightarrow> Some (Inl IoError, fs)
         | Some fs1 \<Rightarrow>
             (case get_blob (mg_root mg) tree_hash fs1 of
                Inl er \<Rightarrow> Some (Inl er, fs1)
              | Inr tree_json \<Rightarrow>
                  (case (mg_dec_tree mg tree_json, locate True fs1 base name) of
                     (None, _) \<Rightarrow> Some (Inl DecodeError, fs1)
                   | (Some es, None) \<Rightarrow> Some (Inl IoError, fs1)
                   | (Some es, Some dir) \<Rightarrow>
                       (case restore_entries (restore_tree mg now n) mg now dir es fs1 of
                          None \<Rightarrow> None
                        | Some (Inl er, fs2) \<Rightarrow> Some (Inl er, fs2)
                        | Some (Inr _, fs2) \<Rightarrow>
                            Some (Inr (), clean_extras (map te_name es) dir fs2))))))"

definition restore_snapshot ::
  "manager \<Rightarrow> nat \<Rightarrow> nat \<Rightarrow> path \<Rightarrow> string \<Rightarrow> string \<Rightarrow> fsys \<Rightarrow> ((store_error + unit) \<times> fsys) option" where
  "restore_snapshot mg now fuel cwd snapshot_id dest fs =
     (case read_snapshot mg snapshot_id fs of
        Inl er \<Rightarrow> Some (Inl er, fs)
      | Inr s \<Rightarrow> restore_tree mg now fuel (sn_tree s) cwd dest fs)"

end
