(* ===== verification/Trees.thy ===== *)
theory Trees
  imports SnapshotFacts Restore
begin

text \<open>
  What a directory holds, as an abstract tree, and how the objects of a store spell such a tree:
  building the tree of a workspace spells what the workspace holds.
\<close>

section \<open>Abstract trees\<close>

text \<open>A file with its bytes, its permissions and its time in seconds, a link with its target, or a
  directory with the names in it.\<close>

datatype ftree = FFile bytes u32 u64 | FLink string | FDir "(string \<times> ftree) list"

text \<open>What is at a place of a tree.\<close>

datatype shape = SFile bytes u32 u64 | SLink string | SDir

fun look :: "ftree \<Rightarrow> path \<Rightarrow> shape option" where
  "look (FFile c m s) [] = Some (SFile c m s)"
| "look (FLink t) [] = Some (SLink t)"
| "look (FDir ts) [] = Some SDir"
| "look (FDir ts) (x # q) = (case map_of ts x of None \<Rightarrow> None | Some t \<Rightarrow> look t q)"
| "look _ (x # q) = None"

text \<open>What is at a place of a disk: pipes and the like, which a snapshot skips, do not count.\<close>

fun shape_of :: "node option \<Rightarrow> shape option" where
  "shape_of (Some (File c m t)) = Some (SFile c (and m 4095) (as_secs t))"
| "shape_of (Some (Link target t)) = Some (SLink target)"
| "shape_of (Some (Dir m t)) = Some SDir"
| "shape_of _ = None"

fun tree_ok :: "ftree \<Rightarrow> bool" where
  "tree_ok (FFile c m s) = True"
| "tree_ok (FLink t) = utf8_ok (bytes_of t)"
| "tree_ok (FDir ts) = (distinct (map fst ts) \<and> (\<forall>(x, t) \<in> set ts. plain_name x \<and> tree_ok t))"

text \<open>The number of files and links of a tree, and the bytes of its files.\<close>

fun leaves :: "ftree \<Rightarrow> nat" where
  "leaves (FDir ts) = sum_list (map (\<lambda>(x, t). leaves t) ts)"
| "leaves _ = 1"

fun volume :: "ftree \<Rightarrow> u64" where
  "volume (FFile c m s) = of_nat (length c)"
| "volume (FLink t) = 0"
| "volume (FDir ts) = sum_list (map (\<lambda>(x, t). volume t) ts)"

text \<open>A tree is what the directory \<open>d\<close> holds.\<close>

definition captures :: "fsys \<Rightarrow> path \<Rightarrow> ftree \<Rightarrow> bool" where
  "captures fs d t \<longleftrightarrow> (\<forall>q. look t q = shape_of (lstat fs (d @ q)))"

section \<open>Trees in a store\<close>

text \<open>The entries \<open>es\<close> spell the names \<open>ts\<close> of a directory, with less than \<open>n\<close> levels below.\<close>

inductive spells :: "manager \<Rightarrow> fsys \<Rightarrow> nat \<Rightarrow> tree_entry list \<Rightarrow> (string \<times> ftree) list \<Rightarrow> bool" for mg fs where
  spells_Nil: "spells mg fs n [] []"
| spells_File: "te_type e = Blob \<Longrightarrow> get_blob (mg_root mg) (te_hash e) fs = Inr c \<Longrightarrow> te_size e = of_nat (length c) \<Longrightarrow>
    spells mg fs n es ts \<Longrightarrow> spells mg fs n (e # es) ((te_name e, FFile c (and (te_mode e) 4095) (te_modified e)) # ts)"
| spells_Link: "te_type e = Symlink \<or> te_type e = SymlinkDir \<Longrightarrow>
    get_blob (mg_root mg) (te_hash e) fs = Inr (bytes_of target) \<Longrightarrow> spells mg fs n es ts \<Longrightarrow>
    spells mg fs n (e # es) ((te_name e, FLink target) # ts)"
| spells_Dir: "te_type e = Tree \<Longrightarrow> get_blob (mg_root mg) (te_hash e) fs = Inr d \<Longrightarrow>
    mg_dec_tree mg d = Some es' \<Longrightarrow> spells mg fs n es' ts' \<Longrightarrow> spells mg fs (Suc n) es ts \<Longrightarrow>
    spells mg fs (Suc n) (e # es) ((te_name e, FDir ts') # ts)"

definition spells_tree :: "manager \<Rightarrow> fsys \<Rightarrow> nat \<Rightarrow> string \<Rightarrow> (string \<times> ftree) list \<Rightarrow> bool" where
  "spells_tree mg fs n h ts \<longleftrightarrow>
     (\<exists>d es. get_blob (mg_root mg) h fs = Inr d \<and> mg_dec_tree mg d = Some es \<and> spells mg fs n es ts)"

definition keeps_blobs :: "manager \<Rightarrow> fsys \<Rightarrow> fsys \<Rightarrow> bool" where
  "keeps_blobs mg fs fs' \<longleftrightarrow>
     (\<forall>h d. get_blob (mg_root mg) h fs = Inr d \<longrightarrow> get_blob (mg_root mg) h fs' = Inr d)"

lemma keeps_refl: "keeps_blobs mg fs fs"
  and keeps_trans: "keeps_blobs mg fs fs1 \<Longrightarrow> keeps_blobs mg fs1 fs2 \<Longrightarrow> keeps_blobs mg fs fs2"
  by (simp_all add: keeps_blobs_def)

lemma spells_keeps: "spells mg fs n es ts \<Longrightarrow> keeps_blobs mg fs fs' \<Longrightarrow> spells mg fs' n es ts"
  by (induction rule: spells.induct) (auto simp: keeps_blobs_def intro: spells.intros)

lemma spells_tree_keeps: "spells_tree mg fs n h ts \<Longrightarrow> keeps_blobs mg fs fs' \<Longrightarrow> spells_tree mg fs' n h ts"
  unfolding spells_tree_def by (meson keeps_blobs_def spells_keeps)

text \<open>Every object holds bytes of which it is the hash.\<close>

definition store_sound :: "manager \<Rightarrow> fsys \<Rightarrow> bool" where
  "store_sound mg fs \<longleftrightarrow> no_links (mg_root mg) fs \<and>
     (\<forall>d x. lstat fs (object_path (mg_root mg) (mg_hash mg d)) = Some x \<longrightarrow> (\<exists>m t. x = File d m t))"

text \<open>The hash function has its form and tells contents apart; the tree decoder reads what the encoder
  wrote.\<close>

definition hash_ok :: "manager \<Rightarrow> bool" where
  "hash_ok mg \<longleftrightarrow> hash_fn (mg_hash mg) \<and> inj (mg_hash mg) \<and> (\<forall>es. mg_dec_tree mg (mg_enc_tree mg es) = Some es)"

lemma get_blob_iff:
  assumes "no_links root fs"
  shows "get_blob root h fs = Inr d \<longleftrightarrow>
    valid_hash h \<and> dirs_there root h fs \<and> (\<exists>m t. lstat fs (object_path root h) = Some (File d m t))"
proof (cases "valid_hash h")
  case True
  show ?thesis
    using locate_object_path [OF assms True] hash_to_path_split(1) [OF True] True
    by (auto simp: get_blob_def fs_read_def split: option.splits node.splits)
next
  case False
  then show ?thesis by (auto simp: get_blob_def hash_to_path_def valid_hash_def)
qed

lemma put_keeps:
  assumes "store_sound mg fs" and "hash_ok mg"
    and "put_effect (mg_root mg) (mg_hash mg c) c fs (Inr h, fs')"
  shows "h = mg_hash mg c" "store_sound mg fs'" "keeps_blobs mg fs fs'" "get_blob (mg_root mg) h fs' = Inr c"
proof -
  let ?r = "mg_root mg" and ?k = "mg_hash mg c"
  have ok: "valid_hash (mg_hash mg d)" for d using assms(2) by (simp add: hash_ok_def hash_fn_def)
  have links: "no_links ?r fs" using assms(1) by (simp add: store_sound_def)
  from assms(3) have eff: "no_links ?r fs'" "\<forall>h'. dirs_there ?r h' fs \<longrightarrow> dirs_there ?r h' fs'" "h = ?k"
    "if fs_exists fs ?r (object_file ?k) then fs' = fs
     else dirs_there ?r ?k fs' \<and> (\<exists>m t. lstat fs' (object_path ?r ?k) = Some (File c m t))"
    "\<forall>h'. valid_hash h' \<longrightarrow> h' \<noteq> ?k \<longrightarrow> lstat fs' (object_path ?r h') = lstat fs (object_path ?r h')"
    unfolding put_effect_def by auto
  show "h = ?k" by (rule eff(3))
  have new: "dirs_there ?r ?k fs' \<and> (\<exists>m t. lstat fs' (object_path ?r ?k) = Some (File c m t))"
  proof (cases "fs_exists fs ?r (object_file ?k)")
    case True
    then show ?thesis using exists_object [OF links ok] assms(1) eff(4) by (auto simp: store_sound_def)
  qed (use eff(4) in simp)
  show "get_blob ?r h fs' = Inr c" using new ok eff(1,3) by (simp add: get_blob_iff)
  have "mg_hash mg d \<noteq> ?k" if "d \<noteq> c" for d
    using that assms(2) by (simp add: hash_ok_def inj_eq)
  then have "lstat fs' (object_path ?r (mg_hash mg d)) = Some x \<Longrightarrow> \<exists>m t. x = File d m t" for d x
    using new eff(5) ok assms(1) by (cases "d = c") (simp_all add: store_sound_def)
  with eff(1) show "store_sound mg fs'" by (simp add: store_sound_def)
  show "keeps_blobs mg fs fs'"
    unfolding keeps_blobs_def
  proof (intro allI impI)
    fix h' d
    assume get: "get_blob ?r h' fs = Inr d"
    then have old: "valid_hash h'" "dirs_there ?r h' fs" "\<exists>m t. lstat fs (object_path ?r h') = Some (File d m t)"
      by (simp_all add: get_blob_iff [OF links])
    show "get_blob ?r h' fs' = Inr d"
    proof (cases "h' = ?k")
      case True
      then have "fs_exists fs ?r (object_file ?k)" using old exists_object [OF links ok] by auto
      then show ?thesis using eff(4) get by simp
    next
      case False
      then show ?thesis using old eff(2,5) by (simp add: get_blob_iff [OF eff(1)])
    qed
  qed
qed

section \<open>Building a tree spells the directory\<close>

text \<open>A directory to take a snapshot of: away from the objects, every entry in a directory and under an
  ordinary name, and the targets of links text.\<close>

definition source_ok :: "manager \<Rightarrow> fsys \<Rightarrow> path \<Rightarrow> bool" where
  "source_ok mg fs d \<longleftrightarrow> (\<forall>q. \<not> in_objects (mg_root mg) (d @ q)) \<and> is_dir_node (lstat fs d) \<and>
     (\<forall>q x. lstat fs (d @ q @ [x]) \<noteq> None \<longrightarrow> is_dir_node (lstat fs (d @ q)) \<and> plain_name x) \<and>
     (\<forall>q target t. lstat fs (d @ q) = Some (Link target t) \<longrightarrow> utf8_ok (bytes_of target))"

lemma source_ok_sub:
  assumes "source_ok mg fs d" and "is_dir_node (lstat fs (d @ [x]))"
  shows "source_ok mg fs (d @ [x])"
proof -
  have "\<not> in_objects (mg_root mg) ((d @ [x]) @ q)" for q
    using assms(1) unfolding source_ok_def by (metis append.assoc)
  moreover have "lstat fs ((d @ [x]) @ q @ [y]) \<noteq> None \<longrightarrow> is_dir_node (lstat fs ((d @ [x]) @ q)) \<and> plain_name y" for q y
    using assms(1) [unfolded source_ok_def] by (metis append.assoc)
  moreover have "lstat fs ((d @ [x]) @ q) = Some (Link target t) \<longrightarrow> utf8_ok (bytes_of target)" for q target t
    using assms(1) [unfolded source_ok_def] by (metis append.assoc)
  ultimately show ?thesis using assms(2) by (simp add: source_ok_def)
qed

lemma source_frame:
  assumes "source_ok mg fs d" and "objects_only (mg_root mg) fs fs'"
  shows "lstat fs' (d @ q) = lstat fs (d @ q)" "lstat fs' d = lstat fs d" "source_ok mg fs' d"
    "captures fs' d t \<longleftrightarrow> captures fs d t"
proof -
  have same: "lstat fs' (d @ q) = lstat fs (d @ q)" for q
    using assms by (simp add: source_ok_def objects_only_def)
  then show "lstat fs' (d @ q) = lstat fs (d @ q)" .
  from same [of "[]"] show "lstat fs' d = lstat fs d" by simp
  with same assms(1) show "source_ok mg fs' d" by (simp add: source_ok_def)
  from same show "captures fs' d t \<longleftrightarrow> captures fs d t" by (simp add: captures_def)
qed

lemma read_dir_names: "set (fs_read_dir fs d) = {x. lstat fs (d @ [x]) \<noteq> None}"
proof -
  have "x \<in> set (fs_read_dir fs d) \<longleftrightarrow> d @ [x] \<in> fst ` set (nodes fs)" for x
  proof -
    have "p \<noteq> [] \<and> butlast p = d \<and> last p = x \<longleftrightarrow> p = d @ [x]" for p :: path
      by (metis append_butlast_last_id append_is_Nil_conv butlast_snoc last_snoc list.distinct(1))
    then show ?thesis unfolding fs_read_dir_def by force
  qed
  then show ?thesis by (auto simp: lstat_def map_of_eq_None_iff)
qed

text \<open>Nothing lies below what is no directory.\<close>

lemma below_no_dir:
  assumes "source_ok mg fs d" and "\<not> is_dir_node (lstat fs (d @ [x]))"
  shows "lstat fs (d @ x # y # q) = None"
proof (induction q rule: rev_induct)
  case Nil
  have "lstat fs (d @ [x] @ [y]) \<noteq> None \<Longrightarrow> is_dir_node (lstat fs (d @ [x]))"
    using assms(1) unfolding source_ok_def by blast
  with assms(2) show ?case by (cases "lstat fs (d @ [x, y])") auto
next
  case (snoc z q)
  have "lstat fs (d @ (x # y # q) @ [z]) \<noteq> None \<Longrightarrow> is_dir_node (lstat fs (d @ x # y # q))"
    using assms(1) unfolding source_ok_def by blast
  with snoc show ?case by (cases "lstat fs (d @ x # y # q @ [z])") auto
qed

lemma source_plain: "source_ok mg fs d \<Longrightarrow> lstat fs (d @ [x]) \<noteq> None \<Longrightarrow> plain_name x"
proof -
  assume "source_ok mg fs d" "lstat fs (d @ [x]) \<noteq> None"
  moreover from this(1) have "lstat fs (d @ [] @ [x]) \<noteq> None \<longrightarrow> is_dir_node (lstat fs (d @ [])) \<and> plain_name x"
    unfolding source_ok_def by blast
  ultimately show "plain_name x" by simp
qed

text \<open>The names of a directory with the trees below them.\<close>

definition captures_all :: "fsys \<Rightarrow> path \<Rightarrow> string list \<Rightarrow> (string \<times> ftree) list \<Rightarrow> bool" where
  "captures_all fs d names ts \<longleftrightarrow> (\<forall>(x, t) \<in> set ts. x \<in> set names \<and> captures fs (d @ [x]) t \<and> tree_ok t) \<and>
     (\<forall>x \<in> set names. x \<notin> fst ` set ts \<longrightarrow> lstat fs (d @ [x]) = Some Special) \<and>
     (distinct names \<longrightarrow> distinct (map fst ts))"

lemma captures_dir:
  assumes "source_ok mg fs d" and "captures_all fs d (fs_read_dir fs d) ts"
  shows "captures fs d (FDir ts)" "tree_ok (FDir ts)"
proof -
  have dist: "distinct (map fst ts)"
    using assms(2) by (simp add: captures_all_def fs_read_dir_def)
  have names: "set (fs_read_dir fs d) = {x. lstat fs (d @ [x]) \<noteq> None}" by (rule read_dir_names)
  from source_plain [OF assms(1)] dist assms(2) names show "tree_ok (FDir ts)" by (fastforce simp: captures_all_def)
  have "look (FDir ts) (x # q) = shape_of (lstat fs (d @ x # q))" for x q
  proof (cases "map_of ts x")
    case (Some t)
    then have "captures fs (d @ [x]) t" using assms(2) by (auto simp: captures_all_def dest: map_of_SomeD)
    with Some show ?thesis by (simp add: captures_def)
  next
    case None
    then have "x \<notin> fst ` set ts" by (simp add: map_of_eq_None_iff)
    then have no: "lstat fs (d @ [x]) = None \<or> lstat fs (d @ [x]) = Some Special"
      using assms(2) names by (auto simp: captures_all_def)
    then have "\<not> is_dir_node (lstat fs (d @ [x]))" by auto
    with no below_no_dir [OF assms(1)] show ?thesis using None by (cases q) auto
  qed
  moreover have "look (FDir ts) [] = shape_of (lstat fs d)"
    using assms(1) by (cases "lstat fs d" rule: is_dir_node.cases) (auto simp: source_ok_def)
  ultimately show "captures fs d (FDir ts)"
    unfolding captures_def by (metis append_Nil2 list.exhaust)
qed

lemma captures_leaf:
  assumes "source_ok mg fs d" and "\<not> is_dir_node (lstat fs (d @ [x]))" and "\<nexists>ts. t = FDir ts"
    and "look t [] = shape_of (lstat fs (d @ [x]))"
  shows "captures fs (d @ [x]) t"
proof -
  have "look t q = shape_of (lstat fs (d @ x # q))" for q
  proof (cases q)
    case Nil
    with assms(4) show ?thesis by simp
  next
    case (Cons y r)
    then show ?thesis using below_no_dir [OF assms(1,2), of y r] assms(3) by (cases t) auto
  qed
  then show ?thesis by (simp add: captures_def)
qed

lemma captures_all_Nil: "captures_all fs d [] []"
  by (simp add: captures_all_def)

lemma captures_all_Cons:
  "captures_all fs d names ts \<Longrightarrow> captures fs (d @ [x]) t \<Longrightarrow> tree_ok t \<Longrightarrow>
     captures_all fs d (x # names) ((x, t) # ts)"
  by (fastforce simp: captures_all_def)

lemma captures_all_skip:
  "captures_all fs d names ts \<Longrightarrow> lstat fs (d @ [x]) = Some Special \<Longrightarrow> captures_all fs d (x # names) ts"
  by (fastforce simp: captures_all_def)

lemma captures_all_frame:
  assumes "source_ok mg fs d" and "objects_only (mg_root mg) fs fs'"
  shows "captures_all fs' d names ts \<longleftrightarrow> captures_all fs d names ts"
proof -
  have "captures fs' (d @ [x]) t \<longleftrightarrow> captures fs (d @ [x]) t" for x t
    using source_frame(1) [OF assms] by (simp add: captures_def)
  then show ?thesis using source_frame(1) [OF assms] by (simp add: captures_all_def)
qed

text \<open>What a step of the walk leaves: the store grown by the tree.\<close>

definition grows :: "manager \<Rightarrow> fsys \<Rightarrow> fsys \<Rightarrow> bool" where
  "grows mg fs fs' \<longleftrightarrow> store_sound mg fs' \<and> keeps_blobs mg fs fs' \<and> objects_only (mg_root mg) fs fs'"

lemma grows_refl: "store_sound mg fs \<Longrightarrow> grows mg fs fs"
  by (simp add: grows_def keeps_refl objects_only_refl)

lemma grows_trans: "grows mg fs fs1 \<Longrightarrow> grows mg fs1 fs2 \<Longrightarrow> grows mg fs fs2"
  unfolding grows_def using keeps_trans objects_only_trans by metis

lemma put_grows:
  assumes "store_sound mg fs" and "hash_ok mg"
    and "put_effect (mg_root mg) (mg_hash mg c) c fs (Inr h, fs')"
  shows "grows mg fs fs'"
  using put_keeps [OF assms] put_effect_frame [OF assms(3)] by (simp add: grows_def)

lemma put_blob_spelled:
  assumes "store_sound mg fs" and "hash_ok mg" and "put_blob (mg_hash mg) now (mg_root mg) c fs = (Inr h, fs')"
  shows "grows mg fs fs'" "get_blob (mg_root mg) h fs' = Inr c"
proof -
  have "put_effect (mg_root mg) (mg_hash mg c) c fs (Inr h, fs')"
    using put_blob_effect [of "mg_root mg" fs "mg_hash mg" c now] assms by (simp add: store_sound_def hash_ok_def)
  then show "grows mg fs fs'" "get_blob (mg_root mg) h fs' = Inr c"
    by (rule put_grows [OF assms(1,2)], rule put_keeps(4) [OF assms(1,2)])
qed

lemma put_file_spelled:
  assumes "store_sound mg fs" and "hash_ok mg" and "plain_name x" and "lstat fs (d @ [x]) = Some (File c m t)"
    and "put_file (mg_hash mg) now (mg_root mg) d x fs = (Inr h, fs')"
  shows "grows mg fs fs'" "get_blob (mg_root mg) h fs' = Inr c"
proof -
  have "put_effect (mg_root mg) (mg_hash mg c) c fs (Inr h, fs')"
    using put_file_effect [OF _ _ assms(3,4), of "mg_root mg" "mg_hash mg" now] assms(1,2,5)
    by (simp add: store_sound_def hash_ok_def)
  then show "grows mg fs fs'" "get_blob (mg_root mg) h fs' = Inr c"
    by (rule put_grows [OF assms(1,2)], rule put_keeps(4) [OF assms(1,2)])
qed

lemma spells_entry:
  "get_blob (mg_root mg) h fs = Inr c \<Longrightarrow> spells mg fs n es ts \<Longrightarrow>
     spells mg fs n (entry_of x m Blob h (of_nat (length c)) t # es) ((x, FFile c (and m 4095) (as_secs t)) # ts)"
  "ty = Symlink \<or> ty = SymlinkDir \<Longrightarrow> get_blob (mg_root mg) h fs = Inr (bytes_of target) \<Longrightarrow> spells mg fs n es ts \<Longrightarrow>
     spells mg fs n (entry_of x m ty h l t # es) ((x, FLink target) # ts)"
  "spells_tree mg fs n h ts' \<Longrightarrow> spells mg fs (Suc n) es ts \<Longrightarrow>
     spells mg fs (Suc n) (entry_of x m Tree h l t # es) ((x, FDir ts') # ts)"
  using spells_File [of "entry_of x m Blob h (of_nat (length c)) t"] spells_Link [of "entry_of x m ty h l t"]
    spells_Dir [of "entry_of x m Tree h l t"]
  by (auto simp: entry_of_def spells_tree_def)

lemma entry_of_name [simp]: "te_name (entry_of x m ty h l t) = x"
  by (simp add: entry_of_def)

definition built :: "manager \<Rightarrow> nat \<Rightarrow> fsys \<Rightarrow> path \<Rightarrow> string \<times> nat \<times> u64 \<Rightarrow> fsys \<Rightarrow> bool" where
  "built mg k fs d r fs' \<longleftrightarrow> (case r of (h, n, z) \<Rightarrow> grows mg fs fs' \<and>
     (\<exists>ts. spells_tree mg fs' k h ts \<and> captures fs d (FDir ts) \<and> tree_ok (FDir ts) \<and>
        n = leaves (FDir ts) \<and> z = volume (FDir ts)))"

lemma build_entries_spells:
  assumes ok: "hash_ok mg"
    and sub: "\<And>x fs r fs'. store_sound mg fs \<Longrightarrow> source_ok mg fs (d @ [x]) \<Longrightarrow>
      sub (d @ [x]) fs = Some (Inr r, fs') \<Longrightarrow> built mg k fs (d @ [x]) r fs'"
  shows "store_sound mg fs \<Longrightarrow> source_ok mg fs d \<Longrightarrow> \<forall>x \<in> set names. plain_name x \<Longrightarrow>
    build_entries sub mg now d names (es0, n0, z0) fs = Some (Inr (es1, n1, z1), fs') \<Longrightarrow>
    grows mg fs fs' \<and> (\<exists>es ts. es1 = es0 @ es \<and> spells mg fs' (Suc k) es ts \<and> captures_all fs d names ts \<and>
      n1 = n0 + leaves (FDir ts) \<and> z1 = z0 + volume (FDir ts))"
proof (induction names arbitrary: fs es0 n0 z0)
  case Nil
  then show ?case using grows_refl captures_all_Nil spells_Nil by (auto intro!: exI [of _ "[]"])
next
  case (Cons x names)
  have plain: "plain_name x" using Cons.prems(3) by simp
  have go: ?case
    if "grows mg fs fs1" "captures fs (d @ [x]) t" "tree_ok t" "te_name e = x"
      "\<And>fs' es ts. keeps_blobs mg fs1 fs' \<Longrightarrow> spells mg fs' (Suc k) es ts \<Longrightarrow> spells mg fs' (Suc k) (e # es) ((x, t) # ts)"
      "build_entries sub mg now d names (es0 @ [e], n0 + leaves t, z0 + volume t) fs1 = Some (Inr (es1, n1, z1), fs')"
    for fs1 e t
  proof -
    have frame: "objects_only (mg_root mg) fs fs1" "store_sound mg fs1" using that(1) by (simp_all add: grows_def)
    have "\<forall>x \<in> set names. plain_name x" using Cons.prems(3) by simp
    from Cons.IH [OF frame(2) source_frame(3) [OF Cons.prems(2) frame(1)] this that(6)]
    obtain es ts where rest: "grows mg fs1 fs'" "es1 = (es0 @ [e]) @ es" "spells mg fs' (Suc k) es ts"
      "captures_all fs1 d names ts" "n1 = n0 + leaves t + leaves (FDir ts)" "z1 = z0 + volume t + volume (FDir ts)"
      by blast
    have "captures_all fs d (x # names) ((x, t) # ts)"
      using captures_all_Cons that(2,3) rest(4) captures_all_frame [OF Cons.prems(2) frame(1)] by blast
    moreover have "spells mg fs' (Suc k) (e # es) ((x, t) # ts)"
      using that(5) rest(1,3) by (simp add: grows_def)
    ultimately show ?thesis
      using grows_trans [OF that(1) rest(1)] rest(2,5,6)
      by (intro conjI exI [of _ "e # es"] exI [of _ "(x, t) # ts"]) (simp_all add: add.assoc)
  qed
  show ?case
  proof (cases "lstat fs (d @ [x])")
    case None
    with Cons.prems(4) show ?thesis by simp
  next
    case (Some node)
    show ?thesis
    proof (cases node)
      case (File c m t)
      then have step: "case put_file (mg_hash mg) now (mg_root mg) d x fs of (Inl e, fs1) \<Rightarrow> False
        | (Inr h, fs1) \<Rightarrow> build_entries sub mg now d names
            (es0 @ [entry_of x m Blob h (of_nat (length c)) t], n0 + 1, z0 + of_nat (length c)) fs1 =
              Some (Inr (es1, n1, z1), fs')"
        using Cons.prems(4) Some by (auto split: prod.splits sum.splits)
      then obtain h fs1 where put: "put_file (mg_hash mg) now (mg_root mg) d x fs = (Inr h, fs1)"
        by (auto split: prod.splits sum.splits)
      note p = put_file_spelled [OF Cons.prems(1) ok plain Some [unfolded File] put]
      have "captures fs (d @ [x]) (FFile c (and m 4095) (as_secs t))"
        using Some File by (intro captures_leaf [OF Cons.prems(2)]) auto
      then show ?thesis
        using p step put
        by (intro go [of fs1 "FFile c (and m 4095) (as_secs t)" "entry_of x m Blob h (of_nat (length c)) t"])
          (auto simp: keeps_blobs_def intro!: spells_entry)
    next
      case (Link target t)
      let ?b = "bytes_of target"
      from Link have step: "case put_blob (mg_hash mg) now (mg_root mg) ?b fs of (Inl e, fs1) \<Rightarrow> False
        | (Inr h, fs1) \<Rightarrow> build_entries sub mg now d names
            (es0 @ [entry_of x symlink_mode (symlink_type fs1 d target) h 0 t], n0 + 1, z0) fs1 =
              Some (Inr (es1, n1, z1), fs')"
        using Cons.prems(4) Some by (auto split: prod.splits sum.splits)
      then obtain h fs1 where put: "put_blob (mg_hash mg) now (mg_root mg) ?b fs = (Inr h, fs1)"
        by (auto split: prod.splits sum.splits)
      note p = put_blob_spelled [OF Cons.prems(1) ok put]
      have "captures fs (d @ [x]) (FLink target)"
        using Some Link by (intro captures_leaf [OF Cons.prems(2)]) auto
      moreover have "utf8_ok ?b" using Some Link Cons.prems(2) unfolding source_ok_def by blast
      moreover have "symlink_type fs1 d target = Symlink \<or> symlink_type fs1 d target = SymlinkDir"
        by (auto simp: symlink_type_def split: option.splits)
      ultimately show ?thesis
        using p step put
        by (intro go [of fs1 "FLink target" "entry_of x symlink_mode (symlink_type fs1 d target) h 0 t"])
          (auto simp: keeps_blobs_def intro!: spells_entry)
    next
      case (Dir m t)
      then have dir: "is_dir_node (lstat fs (d @ [x]))" using Some by simp
      from Dir obtain h n z fs1 where s: "sub (d @ [x]) fs = Some (Inr (h, n, z), fs1)"
        "build_entries sub mg now d names (es0 @ [entry_of x m Tree h 0 t], n0 + n, z0 + z) fs1 =
           Some (Inr (es1, n1, z1), fs')"
        using Cons.prems(4) Some by (auto split: prod.splits sum.splits option.splits)
      from sub [OF Cons.prems(1) source_ok_sub [OF Cons.prems(2) dir] s(1)] obtain ts where
        b: "grows mg fs fs1" "spells_tree mg fs1 k h ts" "captures fs (d @ [x]) (FDir ts)" "tree_ok (FDir ts)"
        "n = leaves (FDir ts)" "z = volume (FDir ts)"
        by (auto simp: built_def)
      show ?thesis
        using b s(2)
        by (intro go [of fs1 "FDir ts" "entry_of x m Tree h 0 t"])
          (auto intro: spells_entry spells_tree_keeps)
    next
      case Special
      with Cons.prems(4) Some have "build_entries sub mg now d names (es0, n0, z0) fs = Some (Inr (es1, n1, z1), fs')"
        by simp
      with Cons.IH [OF Cons.prems(1,2) _ this] Cons.prems(3) Some Special captures_all_skip show ?thesis
        by auto blast
    qed
  qed
qed

lemma build_tree_spells:
  "hash_ok mg \<Longrightarrow> store_sound mg fs \<Longrightarrow> source_ok mg fs d \<Longrightarrow>
     build_tree mg now n d fs = Some (Inr r, fs') \<Longrightarrow> built mg n fs d r fs'"
proof (induction n arbitrary: d fs r fs')
  case 0
  then show ?case by simp
next
  case (Suc n)
  have dir: "is_dir_node (lstat fs d)" using Suc.prems(3) by (simp add: source_ok_def)
  from Suc.prems(4) obtain es k z fs1 where one:
    "build_entries (build_tree mg now n) mg now d (fs_read_dir fs d) ([], 0, 0) fs = Some (Inr (es, k, z), fs1)"
    using dir by (auto split: option.splits prod.splits sum.splits)
  from Suc.prems(4) one dir obtain h where two:
    "put_blob (mg_hash mg) now (mg_root mg) (mg_enc_tree mg es) fs1 = (Inr h, fs')" "r = (h, k, z)"
    by (auto split: option.splits prod.splits sum.splits)
  have "\<forall>x \<in> set (fs_read_dir fs d). plain_name x"
    using source_plain [OF Suc.prems(3)] by (simp add: read_dir_names)
  from build_entries_spells [OF Suc.prems(1) Suc.IH [OF Suc.prems(1)] Suc.prems(2,3) this one]
  obtain es' ts where raw: "grows mg fs fs1" "es = [] @ es'" "spells mg fs1 (Suc n) es' ts"
    "captures_all fs d (fs_read_dir fs d) ts" "k = 0 + leaves (FDir ts)" "z = 0 + volume (FDir ts)" by blast
  then have ent: "grows mg fs fs1" "spells mg fs1 (Suc n) es ts"
    "captures_all fs d (fs_read_dir fs d) ts" "k = leaves (FDir ts)" "z = volume (FDir ts)" by simp_all
  have "store_sound mg fs1" using ent(1) by (simp add: grows_def)
  note put = put_blob_spelled [OF this Suc.prems(1) two(1)]
  have "spells_tree mg fs' (Suc n) h ts"
    using put spells_keeps [OF ent(2)] Suc.prems(1) by (auto simp: spells_tree_def hash_ok_def grows_def)
  then show ?case
    using grows_trans [OF ent(1) put(1)] captures_dir [OF Suc.prems(3) ent(3)] ent(4,5) two(2)
    unfolding built_def two(2) prod.case by blast
qed

end
