(* ===== verification/RoundTrip.thy ===== *)
theory RoundTrip
  imports Trees
begin

text \<open>
  What restoring a snapshot does: a tree restored to a new place is the tree that was there when the
  snapshot was made; entries that the snapshot does not have go; a file of the same length and time
  is taken to be the same.
\<close>

section \<open>One entry in a new place\<close>

text \<open>Nothing but what is at or below one of the names \<open>X\<close> of the directory \<open>d\<close> differs.\<close>

definition changes_at :: "path \<Rightarrow> string set \<Rightarrow> fsys \<Rightarrow> fsys \<Rightarrow> bool" where
  "changes_at d X fs fs' \<longleftrightarrow> writable fs' = writable fs \<and>
     (\<forall>p. (\<forall>x \<in> X. \<forall>q. p \<noteq> d @ x # q) \<longrightarrow> lstat fs' p = lstat fs p)"

lemma changes_refl: "changes_at d X fs fs"
  by (simp add: changes_at_def)

lemma changes_trans:
  "changes_at d X fs fs1 \<Longrightarrow> changes_at d Y fs1 fs2 \<Longrightarrow> changes_at d (X \<union> Y) fs fs2"
  by (simp add: changes_at_def)

lemma changes_other:
  assumes "changes_at d X fs fs'"
  shows "x \<notin> X \<Longrightarrow> lstat fs' (d @ x # q) = lstat fs (d @ x # q)" "lstat fs' d = lstat fs d"
proof -
  have "\<forall>y \<in> X. \<forall>r. d @ x # q \<noteq> d @ y # r" if "x \<notin> X" using that by auto
  then show "x \<notin> X \<Longrightarrow> lstat fs' (d @ x # q) = lstat fs (d @ x # q)"
    using assms unfolding changes_at_def by blast
  show "lstat fs' d = lstat fs d" using assms by (simp add: changes_at_def)
qed

lemma only_changes: "only_at (d @ [x]) fs fs' \<Longrightarrow> changes_at d {x} fs fs'"
  by (auto simp: changes_at_def only_at_def)

text \<open>A directory in which the names \<open>X\<close> may be made: they are apart from the store, and can be written.\<close>

definition dest_ok :: "manager \<Rightarrow> fsys \<Rightarrow> path \<Rightarrow> string set \<Rightarrow> bool" where
  "dest_ok mg fs d X \<longleftrightarrow> no_links (mg_root mg) fs \<and> is_dir_node (lstat fs d) \<and>
     (\<forall>x \<in> X. \<forall>q. (\<forall>p. mg_root mg @ p \<noteq> d @ x # q) \<and> writable fs (d @ x # q))"

lemma dest_subset: "dest_ok mg fs d X \<Longrightarrow> Y \<subseteq> X \<Longrightarrow> dest_ok mg fs d Y"
  by (auto simp: dest_ok_def)

lemma dest_changes:
  assumes "dest_ok mg fs d X" and "changes_at d Y fs fs'" and "Y \<subseteq> X"
  shows "dest_ok mg fs' d X" "keeps_blobs mg fs fs'"
proof -
  have "\<forall>x \<in> Y. \<forall>q. mg_root mg @ p \<noteq> d @ x # q" for p
    using assms(1,3) by (auto simp: dest_ok_def)
  then have same: "lstat fs' (mg_root mg @ p) = lstat fs (mg_root mg @ p)" for p
    using assms(2) by (simp add: changes_at_def)
  then have links: "no_links (mg_root mg) fs'" using assms(1) by (simp add: dest_ok_def no_links_def)
  then show "dest_ok mg fs' d X"
    using assms(1,2) changes_other(2) [OF assms(2)] by (simp add: dest_ok_def changes_at_def)
  have "no_links (mg_root mg) fs" using assms(1) by (simp add: dest_ok_def)
  with links same show "keeps_blobs mg fs fs'"
    by (simp add: keeps_blobs_def get_blob_iff dirs_there_def object_path_def)
qed

lemma as_secs_entry: "as_secs (entry_time e) = te_modified e"
  by (simp add: as_secs_def entry_time_def)

lemma chmod_bits: "and (or (and (m0 :: u32) 61440) (and m 4095)) 4095 = and m 4095"
proof -
  have "and (or (and m0 61440) (and m 4095)) 4095 = or (and m0 (and 61440 4095)) (and m (and 4095 4095))"
    by (simp only: bit.conj_disj_distrib2 and.assoc)
  then show ?thesis by simp
qed

lemma change_fresh:
  assumes "plain_name x" and "lstat fs (d @ [x]) = Some y" and "\<not> is_link_node (Some y)" and "writable fs (d @ [x])"
  shows "fs_change f d x fs = Some (put_node (d @ [x]) (f y) fs)"
  using assms by (simp add: fs_change_def locate_plain)

lemma new_name:
  assumes "plain_name x" and "lstat fs (d @ [x]) = None"
  shows "locate f fs d x = Some (d @ [x])" "\<not> fs_exists fs d x" "\<not> fs_is_symlink fs d x"
  using assms locate_plain [OF assms(1), of fs d] by (simp_all add: fs_exists_def fs_is_symlink_def)

lemma restore_blob_new:
  assumes dest: "dest_ok mg fs d {te_name e}" and x: "plain_name (te_name e)" "lstat fs (d @ [te_name e]) = None"
    and blob: "get_blob (mg_root mg) (te_hash e) fs = Inr c"
  shows "\<exists>fs'. restore_blob mg now d e fs = (Inr (), fs') \<and> only_at (d @ [te_name e]) fs fs' \<and>
    (\<exists>m t. lstat fs' (d @ [te_name e]) = Some (File c m t) \<and> and m 4095 = and (te_mode e) 4095 \<and>
       as_secs t = te_modified e)"
proof -
  let ?x = "te_name e" and ?p = "d @ [te_name e]"
  have links: "no_links (mg_root mg) fs" and dir: "is_dir_node (lstat fs d)" and wr: "writable fs ?p"
    using dest by (simp_all add: dest_ok_def)
  note new = new_name [OF x]
  obtain m t where obj: "valid_hash (te_hash e)" "dirs_there (mg_root mg) (te_hash e) fs"
    "lstat fs (object_path (mg_root mg) (te_hash e)) = Some (File c m t)"
    using blob by (auto simp: get_blob_iff [OF links])
  have loc: "locate True fs (mg_root mg) (object_file (te_hash e)) = Some (object_path (mg_root mg) (te_hash e))"
    using obj by (simp add: locate_object_path [OF links])
  have here: "locate True fs d [] = Some d" by (simp add: locate_def is_absolute_def)
  have mk: "fs_create_dir_all d [] fs = Some fs"
    using here dir by (cases "lstat fs d") (simp_all add: fs_create_dir_all_def is_absolute_def)
  define fs1 where "fs1 = put_node ?p (File c 33188 now) fs"
  have w: "fs_write now d ?x c fs = Some fs1"
    using new(1) x(2) wr dir by (simp add: fs_write_def fs1_def)
  have "lstat fs1 ?p = Some (File c 33188 now)" by (simp add: fs1_def lstat_put)
  then have "locate True fs1 d ?x = Some ?p" using x(1) by (simp add: locate_plain)
  then have cp: "copy_file now (mg_root mg) (te_hash e) d ?x fs = (Inr (), put_node ?p (File c m now) fs1)"
    using mk hash_to_path_split(1) [OF obj(1)] loc obj(3) w by (simp add: copy_file_def fs_copy_def)
  define fs2 where "fs2 = put_node ?p (File c m now) fs1"
  define fs3 where "fs3 = put_node ?p (chmod_node (te_mode e) (File c m now)) fs2"
  define fs4 where "fs4 = put_node ?p (touch_node (entry_time e) (chmod_node (te_mode e) (File c m now))) fs3"
  have md: "set_mode (te_mode e) d ?x fs2 = Some fs3"
    using change_fresh [OF x(1), of fs2 d "File c m now"] wr
    by (simp add: set_mode_def fs2_def fs3_def fs1_def lstat_put)
  have mt: "set_mtime (entry_time e) d ?x fs3 = Some fs4"
    using change_fresh [OF x(1), of fs3 d "chmod_node (te_mode e) (File c m now)"] wr
    by (simp add: set_mtime_def fs4_def fs3_def fs2_def fs1_def lstat_put)
  have "restore_blob mg now d e fs = (Inr (), fs4)"
    using new(2) cp md mt by (simp add: restore_blob_def should_copy_def fs2_def)
  moreover have "only_at ?p fs fs4"
    by (simp add: only_at_def fs4_def fs3_def fs2_def fs1_def lstat_put)
  moreover have "lstat fs4 ?p = Some (File c (or (and m 61440) (and (te_mode e) 4095)) (entry_time e))"
    by (simp add: fs4_def lstat_put)
  ultimately show ?thesis using chmod_bits as_secs_entry by blast
qed

lemma restore_symlink_new:
  assumes dest: "dest_ok mg fs d {te_name e}" and x: "plain_name (te_name e)" "lstat fs (d @ [te_name e]) = None"
    and blob: "get_blob (mg_root mg) (te_hash e) fs = Inr (bytes_of target)" "utf8_ok (bytes_of target)"
  shows "\<exists>fs'. restore_symlink mg now d e fs = (Inr (), fs') \<and> only_at (d @ [te_name e]) fs fs' \<and>
    (\<exists>t. lstat fs' (d @ [te_name e]) = Some (Link target t))"
proof -
  let ?fs = "put_node (d @ [te_name e]) (Link target now) fs"
  have "is_dir_node (lstat fs d)" "writable fs (d @ [te_name e])"
    using dest by (simp_all add: dest_ok_def)
  then have "restore_symlink mg now d e fs = (Inr (), ?fs)"
    using blob x new_name [OF x] by (simp add: restore_symlink_def fs_symlink_def string_of_bytes Let_def)
  moreover have "only_at (d @ [te_name e]) fs ?fs" by (simp add: only_at_def lstat_put)
  ultimately show ?thesis by (auto simp: lstat_put)
qed

section \<open>All entries\<close>

lemma spells_names: "spells mg fs n es ts \<Longrightarrow> map te_name es = map fst ts"
  by (induction rule: spells.induct) auto

inductive_cases spells_ConsE: "spells mg fs n (e # es) ts"

lemma clean_nothing:
  assumes "set (fs_read_dir fs d) \<subseteq> set expected"
  shows "clean_extras expected d fs = fs"
proof -
  have "set names \<subseteq> set expected \<Longrightarrow>
      fold (\<lambda>name fs. if name \<in> set expected then fs else remove_extra d name fs) names fs = fs" for names
    by (induction names) auto
  with assms show ?thesis by (simp add: clean_extras_def)
qed

text \<open>The new names of a directory that is being filled.\<close>

definition new_names :: "fsys \<Rightarrow> path \<Rightarrow> string set \<Rightarrow> bool" where
  "new_names fs d X \<longleftrightarrow> (\<forall>x \<in> X. \<forall>q. lstat fs (d @ x # q) = None)"

lemma captures_file: "look t [] = shape_of (lstat fs p) \<Longrightarrow> \<nexists>ts. t = FDir ts \<Longrightarrow>
    \<forall>y q. lstat fs (p @ y # q) = None \<Longrightarrow> captures fs p t"
  unfolding captures_def
proof
  fix q
  assume "look t [] = shape_of (lstat fs p)" "\<nexists>ts. t = FDir ts" "\<forall>y q. lstat fs (p @ y # q) = None"
  then show "look t q = shape_of (lstat fs (p @ q))" by (cases q; cases t) auto
qed

lemma restore_entries_new:
  assumes sub: "\<And>fs h x ts n. spells_tree mg fs n h ts \<Longrightarrow> n < m \<Longrightarrow> tree_ok (FDir ts) \<Longrightarrow> plain_name x \<Longrightarrow>
      dest_ok mg fs d {x} \<Longrightarrow> new_names fs d {x} \<Longrightarrow>
      \<exists>fs'. sub h d x fs = Some (Inr (), fs') \<and> changes_at d {x} fs fs' \<and> captures fs' (d @ [x]) (FDir ts)"
  shows "spells mg fs n es ts \<Longrightarrow> n \<le> m \<Longrightarrow> tree_ok (FDir ts) \<Longrightarrow> dest_ok mg fs d (fst ` set ts) \<Longrightarrow>
    new_names fs d (fst ` set ts) \<Longrightarrow>
    \<exists>fs'. restore_entries sub mg now d es fs = Some (Inr (), fs') \<and> changes_at d (fst ` set ts) fs fs' \<and>
      (\<forall>(x, t) \<in> set ts. captures fs' (d @ [x]) t)"
proof (induction es arbitrary: fs ts)
  case Nil
  then have "ts = []" by (auto elim: spells.cases)
  then show ?case by (simp add: changes_refl)
next
  case (Cons e es)
  let ?x = "te_name e"
  obtain t ts1 where ts: "ts = (?x, t) # ts1" "spells mg fs n es ts1"
    using Cons.prems(1) by (auto elim: spells_ConsE)
  have plain: "plain_name ?x" "tree_ok t" "tree_ok (FDir ts1)" "?x \<notin> fst ` set ts1"
    using Cons.prems(3) ts(1) by auto
  have dest: "dest_ok mg fs d {?x}" "dest_ok mg fs d (fst ` set ts1)"
    using dest_subset [OF Cons.prems(4)] ts(1) by auto
  have new: "lstat fs (d @ [?x]) = None" "lstat fs (d @ ?x # q) = None" "new_names fs d (fst ` set ts1)"
    "new_names fs d {?x}" for q
    using Cons.prems(5) ts(1) by (simp_all add: new_names_def)
  have go: ?case
    if one: "(case te_type e of
              Blob \<Rightarrow> Some (restore_blob mg now d e fs)
            | Tree \<Rightarrow> sub (te_hash e) d ?x fs
            | Symlink \<Rightarrow> Some (restore_symlink mg now d e fs)
            | SymlinkDir \<Rightarrow> Some (restore_symlink mg now d e fs)) = Some (Inr (), fs1)"
      "changes_at d {?x} fs fs1" "captures fs1 (d @ [?x]) t" for fs1
  proof -
    have "{?x} \<subseteq> fst ` set ts" using ts(1) by simp
    note kept = dest_changes [OF Cons.prems(4) one(2) this]
    have dest1: "dest_ok mg fs1 d (fst ` set ts1)" using dest_subset [OF kept(1)] ts(1) by auto
    have "lstat fs1 (d @ x # q) = lstat fs (d @ x # q)" if "x \<in> fst ` set ts1" for x q
    proof -
      from that plain(4) have "x \<notin> {?x}" by blast
      then show ?thesis by (rule changes_other(1) [OF one(2)])
    qed
    then have "new_names fs1 d (fst ` set ts1)" using new(3) by (simp add: new_names_def)
    from Cons.IH [OF spells_keeps [OF ts(2) kept(2)] Cons.prems(2) plain(3) dest1 this]
    obtain fs2 where rest: "restore_entries sub mg now d es fs1 = Some (Inr (), fs2)"
      "changes_at d (fst ` set ts1) fs1 fs2" "\<forall>(x, t) \<in> set ts1. captures fs2 (d @ [x]) t" by blast
    have "captures fs2 (d @ [?x]) t"
      using one(3) changes_other(1) [OF rest(2) plain(4)] by (simp add: captures_def)
    moreover have "changes_at d (fst ` set ts) fs fs2"
      using changes_trans [OF one(2) rest(2)] ts(1) by simp
    ultimately show ?thesis using one(1) rest(1,3) ts(1) by auto
  qed
  have below: "lstat fs1 ((d @ [?x]) @ y # q) = None"
    if "only_at (d @ [?x]) fs fs1" for fs1 y q
    using that new(2) [of "y # q"] by (simp add: only_at_def)
  from Cons.prems(1) show ?case
  proof (rule spells_ConsE)
    fix c ts2
    assume blob: "te_type e = Blob" "get_blob (mg_root mg) (te_hash e) fs = Inr c"
      "ts = (?x, FFile c (and (te_mode e) 4095) (te_modified e)) # ts2"
    from restore_blob_new [OF dest(1) plain(1) new(1) blob(2), of now]
    obtain fs1 k s where r: "restore_blob mg now d e fs = (Inr (), fs1)" "only_at (d @ [?x]) fs fs1"
      "lstat fs1 (d @ [?x]) = Some (File c k s)" "and k 4095 = and (te_mode e) 4095" "as_secs s = te_modified e"
      by blast
    have "captures fs1 (d @ [?x]) t"
      using r(3-5) blob(3) ts(1) below [OF r(2)] by (intro captures_file) auto
    with r(1,2) blob(1) show ?case by (intro go) (auto simp: only_changes)
  next
    fix target ts2
    assume link: "te_type e = Symlink \<or> te_type e = SymlinkDir"
      "get_blob (mg_root mg) (te_hash e) fs = Inr (bytes_of target)" "ts = (?x, FLink target) # ts2"
    have "utf8_ok (bytes_of target)" using plain(2) link(3) ts(1) by simp
    from restore_symlink_new [OF dest(1) plain(1) new(1) link(2) this, of now]
    obtain fs1 s where r: "restore_symlink mg now d e fs = (Inr (), fs1)" "only_at (d @ [?x]) fs fs1"
      "lstat fs1 (d @ [?x]) = Some (Link target s)" by blast
    have "captures fs1 (d @ [?x]) t"
      using r(3) link(3) ts(1) below [OF r(2)] by (intro captures_file) auto
    with r(1,2) link(1) show ?case by (intro go) (auto simp: only_changes)
  next
    fix b es' n' ts' ts2
    assume tree: "te_type e = Tree" "get_blob (mg_root mg) (te_hash e) fs = Inr b"
      "mg_dec_tree mg b = Some es'" "spells mg fs n' es' ts'" "n = Suc n'" "ts = (?x, FDir ts') # ts2"
    have "spells_tree mg fs n' (te_hash e) ts'" using tree by (auto simp: spells_tree_def)
    from sub [OF this _ _ plain(1) dest(1) new(4)] tree(5,6) Cons.prems(2) plain(2) ts(1)
    obtain fs1 where "sub (te_hash e) d ?x fs = Some (Inr (), fs1)" "changes_at d {?x} fs fs1"
      "captures fs1 (d @ [?x]) t" by auto
    with tree(1) show ?case by (intro go) simp_all
  qed
qed

lemma restore_tree_new:
  "spells_tree mg fs n h ts \<Longrightarrow> n < m \<Longrightarrow> tree_ok (FDir ts) \<Longrightarrow> plain_name x \<Longrightarrow> dest_ok mg fs base {x} \<Longrightarrow>
     new_names fs base {x} \<Longrightarrow>
     \<exists>fs'. restore_tree mg now m h base x fs = Some (Inr (), fs') \<and> changes_at base {x} fs fs' \<and>
       captures fs' (base @ [x]) (FDir ts)"
proof (induction m arbitrary: fs n h ts base x)
  case 0
  then show ?case by simp
next
  case (Suc m)
  let ?d = "base @ [x]" and ?X = "fst ` set ts"
  have base: "is_dir_node (lstat fs base)" "writable fs ?d" "lstat fs ?d = None"
    using Suc.prems(5,6) by (simp_all add: dest_ok_def new_names_def)
  have name: "\<not> is_absolute x" "split_on CHR ''/'' x = [x]"
    using Suc.prems(4) by (cases x; auto simp: is_absolute_def plain_name_def split_on_none)+
  define fs1 where "fs1 = put_node ?d (Dir 16877 0) fs"
  have mk: "fs_create_dir_all base x fs = Some fs1"
    using name base new_name(1) [OF Suc.prems(4) base(3)] by (simp add: fs_create_dir_all_def fs1_def)
  have d1: "lstat fs1 ?d = Some (Dir 16877 0)" by (simp add: fs1_def lstat_put)
  then have loc: "locate True fs1 base x = Some ?d" using Suc.prems(4) by (simp add: locate_plain)
  have only: "only_at ?d fs fs1" by (simp add: fs1_def only_at_put)
  note kept = dest_changes [OF Suc.prems(5) only_changes [OF only] subset_refl]
  obtain b es where tree: "get_blob (mg_root mg) h fs1 = Inr b" "mg_dec_tree mg b = Some es" "spells mg fs1 n es ts"
    using spells_tree_keeps [OF Suc.prems(1) kept(2)] by (auto simp: spells_tree_def)
  have apart: "mg_root mg @ p \<noteq> ?d @ q" "writable fs1 (?d @ q)" for p q
    using kept(1) by (simp_all add: dest_ok_def)
  then have dest: "dest_ok mg fs1 ?d Y" for Y
    using kept(1) d1 by (simp add: dest_ok_def)
  have empty: "lstat fs1 (?d @ y # q) = None" for y q
    using Suc.prems(6) by (simp add: fs1_def lstat_put new_names_def)
  have room: "n \<le> m" "new_names fs1 ?d ?X" using Suc.prems(2) empty by (auto simp: new_names_def)
  have "\<exists>fs2. restore_entries (restore_tree mg now m) mg now ?d es fs1 = Some (Inr (), fs2) \<and>
      changes_at ?d ?X fs1 fs2 \<and> (\<forall>(x, t) \<in> set ts. captures fs2 (?d @ [x]) t)"
    by (rule restore_entries_new [where m = m, OF _ tree(3) room(1) Suc.prems(3) dest room(2)]) (rule Suc.IH)
  then
  obtain fs2 where ent: "restore_entries (restore_tree mg now m) mg now ?d es fs1 = Some (Inr (), fs2)"
    "changes_at ?d ?X fs1 fs2" "\<forall>(x, t) \<in> set ts. captures fs2 (?d @ [x]) t" by blast
  have others: "lstat fs2 (?d @ y # q) = None" if "y \<notin> ?X" for y q
    using changes_other(1) [OF ent(2) that] empty by simp
  then have "set (fs_read_dir fs2 ?d) \<subseteq> set (map te_name es)"
    unfolding read_dir_names spells_names [OF tree(3)] by force
  note clean = clean_nothing [OF this]
  have "restore_tree mg now (Suc m) h base x fs = Some (Inr (), fs2)"
    using mk tree(1,2) loc ent(1) clean by simp
  moreover have "changes_at base {x} fs fs2"
    using only_changes [OF only] ent(2) by (auto simp: changes_at_def)
  moreover have "captures fs2 ?d (FDir ts)"
    unfolding captures_def
  proof
    fix q
    show "look (FDir ts) q = shape_of (lstat fs2 (?d @ q))"
    proof (cases q)
      case Nil
      then show ?thesis using changes_other(2) [OF ent(2)] d1 by simp
    next
      case (Cons y r)
      show ?thesis
      proof (cases "map_of ts y")
        case None
        then have "y \<notin> ?X" by (simp add: map_of_eq_None_iff)
        from others [OF this, of r] None Cons show ?thesis by simp
      next
        case (Some t)
        then have "captures fs2 (?d @ [y]) t" using ent(3) by (auto dest: map_of_SomeD)
        with Some Cons show ?thesis by (simp add: captures_def)
      qed
    qed
  qed
  ultimately show ?case by blast
qed

section \<open>Create, then restore\<close>

lemma write_keeps_writable:
  "fs_write now d x c fs = Some fs' \<Longrightarrow> writable fs' = writable fs"
  "fs_rename d x y fs = Some fs' \<Longrightarrow> writable fs' = writable fs"
  by (auto simp: fs_write_def fs_rename_def split: option.splits node.splits if_splits)

lemma add_tags_writable: "add_tags mg now i tags fs = (r, fs') \<Longrightarrow> writable fs' = writable fs"
proof (induction tags arbitrary: fs)
  case (Cons tag tags)
  have "writable fs1 = writable fs" if "add_tag mg now i tag fs = (u, fs1)" for u fs1
    using that by (auto simp: add_tag_def dest!: write_keeps_writable split: option.splits)
  with Cons show ?case by (fastforce split: prod.splits sum.splits)
qed simp

lemma write_snapshot_writable: "write_snapshot mg now s fs = (r, fs') \<Longrightarrow> writable fs' = writable fs"
  by (auto simp: write_snapshot_def dest!: write_keeps_writable split: option.splits)

text \<open>What a creation leaves for a restore: the tree of the workspace is spelled, and nothing outside the
  store has changed.\<close>

lemma create_snapshot_spells:
  assumes "store_ok mg fs" and "codec_ok mg" and "hash_ok mg" and "store_sound mg fs" and "uuid_ok uuid"
    and "\<not> list_ex temp_like (input_tags tags)"
    and "locate True fs cwd workspace = Some src" and "source_ok mg fs src"
    and "create_snapshot mg now uuid fuel cwd workspace msg tags fs = Some (Inr i, fs')"
  obtains s ts where "i = uuid" "sn_id s = uuid" "read_snapshot mg i fs' = Inr s"
    "spells_tree mg fs' fuel (sn_tree s) ts" "captures fs src (FDir ts)" "tree_ok (FDir ts)"
    "sn_file_count s = leaves (FDir ts)" "sn_total_size s = volume (FDir ts)" "store_ok mg fs'"
    "no_links (mg_root mg) fs'" "writable fs' = writable fs" "\<And>q. (\<And>p. q \<noteq> mg_root mg @ p) \<Longrightarrow> lstat fs' q = lstat fs q"
proof (rule create_snapshot_effect [OF assms(1,2,5,6,9)])
  fix s dir fs1
  assume s: "i = uuid" "sn_id s = uuid" "store_ok mg fs'" "read_snapshot mg uuid fs' = Inr s"
    and dir: "locate True fs cwd workspace = Some dir"
    and build: "build_tree mg now fuel dir fs = Some (Inr (sn_tree s, sn_file_count s, sn_total_size s), fs1)"
    and early: "objects_only (mg_root mg) fs fs1"
    and late: "\<And>q. q \<noteq> snapshots_dir mg @ [snapshot_file uuid] \<Longrightarrow> q \<noteq> snapshots_dir mg @ [uuid @ ''.tmp''] \<Longrightarrow>
       \<forall>t \<in> set (input_tags tags). q \<noteq> tags_dir mg @ [t] \<and> q \<noteq> tags_dir mg @ [tag_temp t] \<Longrightarrow>
       lstat fs' q = lstat fs1 q"
  have "dir = src" using dir assms(7) by simp
  with build_tree_spells [OF assms(3,4) _ build] assms(8) obtain ts where
    ts: "spells_tree mg fs1 fuel (sn_tree s) ts" "captures fs src (FDir ts)" "tree_ok (FDir ts)"
    "sn_file_count s = leaves (FDir ts)" "sn_total_size s = volume (FDir ts)"
    unfolding built_def prod.case by blast
  have "no_links (mg_root mg) fs1" using early assms(1) by (simp add: objects_only_def store_ok_def)
  moreover have links: "no_links (mg_root mg) fs'" using s(3) by (simp add: store_ok_def)
  moreover have "lstat fs' (mg_root mg @ ''objects'' # p) = lstat fs1 (mg_root mg @ ''objects'' # p)" for p
    by (intro late) (simp_all add: snapshots_dir_def tags_dir_def)
  ultimately have "keeps_blobs mg fs1 fs'"
    by (simp add: keeps_blobs_def get_blob_iff dirs_there_def object_path_def)
  note spelled = spells_tree_keeps [OF ts(1) this]
  have outside: "lstat fs' q = lstat fs q" if "\<And>p. q \<noteq> mg_root mg @ p" for q
  proof -
    have "lstat fs' q = lstat fs1 q"
      using that by (intro late) (auto simp: snapshots_dir_def tags_dir_def)
    also have "\<dots> = lstat fs q" using early that unfolding objects_only_def in_objects_def by blast
    finally show ?thesis .
  qed
  have "writable fs' = writable fs"
    by (rule create_snapshot_parts [OF assms(9)])
      (use early build dir in \<open>auto dest!: add_tags_writable write_snapshot_writable simp: objects_only_def\<close>)
  then show thesis
    using s spelled ts(2-5) links outside by (intro that [of s ts]) simp_all
qed

lemma read_snapshot_frame:
  assumes "store_ok mg fs" and "plain_name (snapshot_file i)"
    and "\<And>p. lstat fs' (mg_root mg @ p) = lstat fs (mg_root mg @ p)"
  shows "read_snapshot mg i fs' = read_snapshot mg i fs"
proof -
  have "store_ok mg fs'"
    using assms(1,3) by (simp add: store_ok_def no_links_def snapshots_dir_def tags_dir_def)
  then have "fs_read fs' (snapshots_dir mg) (snapshot_file i) = fs_read fs (snapshots_dir mg) (snapshot_file i)"
    using assms by (simp add: read_plain(1) [OF store_dirs(1)]) (simp add: snapshots_dir_def assms(3))
  then show ?thesis by (simp add: read_snapshot_def fs_read_to_string_def)
qed

lemma create_restore:
  assumes "store_ok mg fs" and "codec_ok mg" and "hash_ok mg" and "store_sound mg fs" and "uuid_ok uuid"
    and "\<not> list_ex temp_like (input_tags tags)"
    and "locate True fs cwd workspace = Some src" and "source_ok mg fs src"
    and "create_snapshot mg now uuid fuel cwd workspace msg tags fs = Some (Inr i, fs1)"
    and "plain_name x" and "dest_ok mg fs base {x}" and "new_names fs base {x}" and "fuel < fuel'"
  obtains s ts fs2 where "i = uuid" "read_snapshot mg i fs1 = Inr s" "read_snapshot mg i fs2 = Inr s"
    "sn_file_count s = leaves (FDir ts)" "captures fs src (FDir ts)" "tree_ok (FDir ts)"
    "restore_snapshot mg now' fuel' base i x fs1 = Some (Inr (), fs2)" "changes_at base {x} fs1 fs2"
    "captures fs2 (base @ [x]) (FDir ts)"
proof (rule create_snapshot_spells [OF assms(1-9)])
  fix s ts
  assume s: "i = uuid" "read_snapshot mg i fs1 = Inr s" and ts: "spells_tree mg fs1 fuel (sn_tree s) ts"
    "captures fs src (FDir ts)" "tree_ok (FDir ts)" and links: "no_links (mg_root mg) fs1" and st: "store_ok mg fs1"
    and n: "sn_file_count s = leaves (FDir ts)"
    and wr: "writable fs1 = writable fs" and out: "\<And>q. (\<And>p. q \<noteq> mg_root mg @ p) \<Longrightarrow> lstat fs1 q = lstat fs q"
  have apart: "base @ x # q \<noteq> mg_root mg @ p" for q p
    using assms(11) unfolding dest_ok_def by (metis singletonI)
  have "base \<noteq> mg_root mg @ p" for p using apart [of "[]" "p @ [x]"] by auto
  then have "lstat fs1 base = lstat fs base" by (intro out)
  then have dest: "dest_ok mg fs1 base {x}" using assms(11) links wr by (simp add: dest_ok_def)
  have new: "new_names fs1 base {x}" using assms(12) out apart by (simp add: new_names_def)
  from restore_tree_new [OF ts(1) assms(13) ts(3) assms(10) dest new] obtain fs2 where
    r: "restore_tree mg now' fuel' (sn_tree s) base x fs1 = Some (Inr (), fs2)" "changes_at base {x} fs1 fs2"
    "captures fs2 (base @ [x]) (FDir ts)" by blast
  have "lstat fs2 (mg_root mg @ p) = lstat fs1 (mg_root mg @ p)" for p
    using r(2) apart by (metis changes_at_def singletonD)
  then have again: "read_snapshot mg i fs2 = Inr s"
    using read_snapshot_frame [OF st uuid_plain [OF assms(5)], of fs2] s(1) by (metis s(2))
  have "restore_snapshot mg now' fuel' base i x fs1 = Some (Inr (), fs2)"
    using s(2) r(1) by (simp add: restore_snapshot_def)
  from that [OF s again n ts(2,3) this r(2,3)] show thesis .
qed


text \<open>The counts of a new snapshot are those of the workspace: the number of its files and links, and
  the sum of the lengths of its files.\<close>

theorem snapshot_counts:
  assumes "store_ok mg fs" and "codec_ok mg" and "hash_ok mg" and "store_sound mg fs" and "uuid_ok uuid"
    and "\<not> list_ex temp_like (input_tags tags)"
    and "locate True fs cwd workspace = Some src" and "source_ok mg fs src"
    and "create_snapshot mg now uuid fuel cwd workspace msg tags fs = Some (Inr i, fs1)"
  shows "\<exists>t info. captures fs src t \<and> tree_ok t \<and> get_snapshot mg i fs1 = Inr info \<and>
    si_file_count info = leaves t \<and> si_total_size info = volume t"
proof (rule create_snapshot_spells [OF assms])
  fix s ts
  assume "read_snapshot mg i fs1 = Inr s" "captures fs src (FDir ts)" "tree_ok (FDir ts)"
    "sn_file_count s = leaves (FDir ts)" "sn_total_size s = volume (FDir ts)"
  then show ?thesis
    by (intro exI [of _ "FDir ts"] exI [of _ "snapshot_info_of s"])
      (simp add: get_snapshot_read snapshot_info_of_def del: leaves.simps volume.simps)
qed

section \<open>What a restore does to an old place\<close>

text \<open>C27. A restore trusts lengths and times: a file that is there with the length and the time of its
  entry is not compared with the object and keeps its bytes, whatever they are, and the restore of
  the entry reports success.\<close>

theorem restore_trusts_times:
  assumes "plain_name (te_name e)" and "lstat fs (d @ [te_name e]) = Some (File c m (entry_time e))"
    and "of_nat (length c) = te_size e" and "writable fs (d @ [te_name e])"
  shows "\<exists>fs' m'. restore_blob mg now d e fs = (Inr (), fs') \<and>
    lstat fs' (d @ [te_name e]) = Some (File c m' (entry_time e)) \<and> and m' 4095 = and (te_mode e) 4095"
proof -
  let ?p = "d @ [te_name e]" and ?y = "chmod_node (te_mode e) (File c m (entry_time e))"
  have loc: "locate True fs d (te_name e) = Some ?p" using assms(1,2) by (simp add: locate_plain)
  have md: "set_mode (te_mode e) d (te_name e) fs = Some (put_node ?p ?y fs)"
    using change_fresh [OF assms(1,2)] assms(4) by (simp add: set_mode_def)
  have mt: "set_mtime (entry_time e) d (te_name e) (put_node ?p ?y fs) =
      Some (put_node ?p (touch_node (entry_time e) ?y) (put_node ?p ?y fs))"
    using change_fresh [OF assms(1), of "put_node ?p ?y fs" d ?y] assms(4) by (simp add: set_mtime_def lstat_put)
  have "should_copy mg now d e fs = (Inr False, fs)"
    using loc assms(2,3) by (simp add: should_copy_def fs_exists_def fs_metadata_def)
  with md mt show ?thesis using chmod_bits by (auto simp: restore_blob_def lstat_put)
qed

lemma map_of_filter_keys: "map_of (filter (\<lambda>(k, _). P k) xs) k = (if P k then map_of xs k else None)"
  by (induction xs) auto

lemma remove_extra_effect:
  assumes "plain_name x" and "\<forall>p. writable fs p"
  shows "lstat (remove_extra d x fs) (d @ [y]) = (if y = x then None else lstat fs (d @ [y]))"
    "y \<noteq> x \<Longrightarrow> lstat (remove_extra d x fs) (d @ y # q) = lstat fs (d @ y # q)"
    "writable (remove_extra d x fs) = writable fs"
proof -
  let ?p = "d @ [x]"
  note loc = locate_plain_nofollow [OF assms(1), of fs d]
  have all: "list_all (\<lambda>(q, _). take (length ?p) q = ?p \<longrightarrow> writable fs q) (nodes fs)"
    using assms(2) by (simp add: list_all_iff)
  have out: "take (length ?p) (d @ y # q) \<noteq> ?p" if "y \<noteq> x" for y q using that by simp
  let ?g = "fs\<lparr>nodes := filter (\<lambda>(q, _). take (length ?p) q \<noteq> ?p) (nodes fs)\<rparr>"
  have gone: "lstat ?g q = (if take (length ?p) q \<noteq> ?p then lstat fs q else None)" if "q \<noteq> []" for q
    using that by (simp add: lstat_def map_of_filter_keys)
  have "remove_extra d x fs = (if lstat fs ?p = None then fs
      else if is_dir_node (lstat fs ?p) then ?g else drop_node ?p fs)"
    using loc all assms(2)
    by (auto simp: remove_extra_def ignoring_def fs_remove_dir_all_def fs_remove_file_def split: option.splits)
  then show "lstat (remove_extra d x fs) (d @ [y]) = (if y = x then None else lstat fs (d @ [y]))"
    "y \<noteq> x \<Longrightarrow> lstat (remove_extra d x fs) (d @ y # q) = lstat fs (d @ y # q)"
    "writable (remove_extra d x fs) = writable fs"
    using gone [of "d @ [y]"] gone [of "d @ y # q"] out [of y] by (auto simp: lstat_drop)
qed

text \<open>The clean-up of a restored directory leaves exactly the entries of the snapshot: what is not
  among them goes, a directory with all that is in it, and what is among them stays as it is, when
  everything can be written.\<close>

theorem clean_extras_exact:
  assumes "\<forall>x \<in> set (fs_read_dir fs d). plain_name x" and "\<forall>p. writable fs p"
  shows "set (fs_read_dir (clean_extras expected d fs) d) = set (fs_read_dir fs d) \<inter> set expected \<and>
    (\<forall>x q. x \<in> set expected \<longrightarrow> lstat (clean_extras expected d fs) (d @ x # q) = lstat fs (d @ x # q))"
proof -
  define f where "f = (\<lambda>name fs. if name \<in> set expected then fs else remove_extra d name fs)"
  have "\<forall>x \<in> set names. plain_name x \<Longrightarrow> \<forall>p. writable g p \<Longrightarrow>
      (\<forall>y. lstat (fold f names g) (d @ [y]) =
        (if y \<in> set names \<and> y \<notin> set expected then None else lstat g (d @ [y]))) \<and>
      (\<forall>y q. y \<in> set expected \<longrightarrow> lstat (fold f names g) (d @ y # q) = lstat g (d @ y # q))" for names g
  proof (induction names arbitrary: g)
    case (Cons x names)
    show ?case
    proof (cases "x \<in> set expected")
      case True
      with Cons show ?thesis by (simp add: f_def)
    next
      case False
      have "plain_name x" using Cons.prems(1) by simp
      note eff = remove_extra_effect [OF this Cons.prems(2), where d = d]
      have "\<forall>x \<in> set names. plain_name x" "\<forall>p. writable (remove_extra d x g) p"
        using Cons.prems eff(3) by simp_all
      note IH = Cons.IH [OF this]
      have "fold f (x # names) g = fold f names (remove_extra d x g)" using False by (simp add: f_def)
      moreover have "y \<noteq> x" if "y \<in> set expected" for y using that False by blast
      note eff(2) [OF this]
      ultimately show ?thesis using IH eff(1) False by auto
    qed
  qed simp
  from this [OF assms] show ?thesis
    unfolding clean_extras_def f_def [symmetric] read_dir_names by auto
qed

section \<open>A workspace to try\<close>

text \<open>A hash that spells the bytes, and trees as fields with a comma between them.\<close>

definition hex_letter :: "nat \<Rightarrow> char" where
  "hex_letter n = char_of (if n < 10 then 48 + n else 87 + n)"

fun spell_hash :: "bytes \<Rightarrow> string" where
  "spell_hash [] = ''aa0''"
| "spell_hash (b # d) = hex_letter (unat b div 16) # hex_letter (unat b mod 16) # spell_hash d"

lemma hex_letter_code: "n < 16 \<Longrightarrow> (of_char (hex_letter n) :: nat) = (if n < 10 then 48 + n else 87 + n)"
  by (simp add: hex_letter_def)

lemma hex_letter_inj: "m < 16 \<Longrightarrow> n < 16 \<Longrightarrow> hex_letter m = hex_letter n \<Longrightarrow> m = n"
proof -
  assume "m < 16" "n < 16" "hex_letter m = hex_letter n"
  then have "(if m < 10 then 48 + m else 87 + m) = (if n < 10 then 48 + n else 87 + n)"
    using hex_letter_code by metis
  with \<open>m < 16\<close> \<open>n < 16\<close> show "m = n" by (simp split: if_splits)
qed

lemma hex_letter_hex: "n < 16 \<Longrightarrow> is_hex (hex_letter n)"
  by (auto simp: is_hex_def hex_letter_code)

lemma byte_nibble: "unat (b :: u8) div 16 < 16"
proof -
  have "unat b < 2 ^ LENGTH(8)" by (rule unsigned_less)
  then have "unat b < 16 * 16" by simp
  then show ?thesis by (rule less_mult_imp_div_less)
qed

lemma spell_hash_length: "length (spell_hash d) = 3 + 2 * length d"
  by (induction d) simp_all

lemma spell_hash_inj: "spell_hash d = spell_hash d' \<Longrightarrow> d = d'"
proof (induction d arbitrary: d')
  case Nil
  then have "length (spell_hash []) = length (spell_hash d')" by simp
  then show ?case by (simp only: spell_hash_length) simp
next
  case (Cons b d)
  obtain b' r where d': "d' = b' # r"
  proof (cases d')
    case Nil
    have "length (spell_hash (b # d)) = length (spell_hash d')" using Cons.prems by (rule arg_cong)
    with Nil show ?thesis by (simp only: spell_hash_length) simp
  qed blast
  have parts: "unat b div 16 = unat b' div 16" "unat b mod 16 = unat b' mod 16" "spell_hash d = spell_hash r"
    using Cons.prems d' hex_letter_inj byte_nibble by auto
  then have "unat b = unat b'" by (metis div_mult_mod_eq)
  then have "b = b'" by (simp add: word_unat_eq_iff)
  moreover have "d = r" by (rule Cons.IH [OF parts(3)])
  ultimately show ?case using d' by simp
qed

lemma spell_hash_fn: "hash_fn spell_hash"
proof -
  have "list_all is_hex (spell_hash d)" for d
    by (induction d) (simp_all add: is_hex_def hex_letter_hex [unfolded is_hex_def] byte_nibble del: One_nat_def)
  then show ?thesis by (simp add: hash_fn_def valid_hash_def spell_hash_length)
qed

definition mode_field :: "u32 \<Rightarrow> string" where
  "mode_field m = map (\<lambda>i. if bit m i then CHR ''B'' else CHR ''A'') [0..<32]"

definition field_mode :: "string \<Rightarrow> u32" where
  "field_mode s = horner_sum of_bool 2 (map (\<lambda>c. c = CHR ''B'') s)"

lemma mode_field: "field_mode (mode_field m) = m" "demo_text (mode_field m)"
proof -
  have "map (\<lambda>c. c = CHR ''B'') (mode_field m) = map (bit m) [0..<32]"
    by (simp add: mode_field_def comp_def)
  moreover have "take_bit 32 m = m" using take_bit_length_eq [of m] by simp
  ultimately show "field_mode (mode_field m) = m"
    by (simp add: field_mode_def horner_sum_bit_eq_take_bit)
  show "demo_text (mode_field m)" by (auto simp: mode_field_def demo_text_def)
qed

fun type_field :: "entry_type \<Rightarrow> nat" where
  "type_field Blob = 0"
| "type_field Tree = 1"
| "type_field Symlink = 2"
| "type_field SymlinkDir = 3"

definition field_type :: "nat \<Rightarrow> entry_type" where
  "field_type n = (if n = 0 then Blob else if n = 1 then Tree else if n = 2 then Symlink else SymlinkDir)"

fun demo_enc_entries :: "tree_entry list \<Rightarrow> string list" where
  "demo_enc_entries [] = []"
| "demo_enc_entries (e # es) =
     demo_str (te_name e) # mode_field (te_mode e) # demo_num (type_field (te_type e)) #
     demo_str (te_hash e) # demo_num (unat (te_size e)) # demo_num (unat (te_modified e)) # demo_enc_entries es"

fun demo_dec_entries :: "string list \<Rightarrow> tree_entry list" where
  "demo_dec_entries (n # m # ty # h # z # t # r) =
     \<lparr>te_name = demo_unstr n, te_mode = field_mode m, te_type = field_type (length ty),
      te_hash = demo_unstr h, te_size = of_nat (length z), te_modified = of_nat (length t)\<rparr> # demo_dec_entries r"
| "demo_dec_entries _ = []"

lemma demo_entries: "demo_dec_entries (demo_enc_entries es) = es" "list_all demo_text (demo_enc_entries es)"
proof -
  have "field_type (type_field ty) = ty" for ty by (cases ty) (simp_all add: field_type_def)
  then show "demo_dec_entries (demo_enc_entries es) = es"
    by (induction es) (simp_all add: demo_unstr demo_num_def mode_field)
  show "list_all demo_text (demo_enc_entries es)"
    by (induction es) (simp_all add: demo_str_text demo_num_text mode_field)
qed

definition spell_manager :: "(snapshot \<Rightarrow> bytes) \<Rightarrow> (bytes \<Rightarrow> snapshot option) \<Rightarrow> manager" where
  "spell_manager enc dec =
     \<lparr>mg_root = [''s''], mg_hash = spell_hash, mg_enc_tree = (\<lambda>es. demo_join ([] # demo_enc_entries es)),
      mg_dec_tree = (\<lambda>d. Some (demo_dec_entries (tl (demo_fields d)))), mg_enc = enc, mg_dec = dec\<rparr>"

lemma spell_manager_ok: "hash_ok (spell_manager enc dec)" "codec_ok (spell_manager demo_enc demo_dec)"
proof -
  have "demo_fields (demo_join ([] # demo_enc_entries es)) = [] # demo_enc_entries es" for es
    by (rule demo_fields_join) (simp_all add: demo_entries, simp add: demo_text_def)
  then show "hash_ok (spell_manager enc dec)"
    by (simp add: hash_ok_def spell_manager_def spell_hash_fn inj_def demo_entries)
      (use spell_hash_inj in blast)
  show "codec_ok (spell_manager demo_enc demo_dec)"
    by (simp add: codec_ok_def spell_manager_def spell_hash_fn demo_codec)
qed

text \<open>A workspace with a file and a link.\<close>

definition work_disk :: fsys where
  "work_disk =
     \<lparr>nodes = [([''s''], Dir 0 0), ([''s'', ''snapshots''], Dir 0 0), ([''s'', ''refs''], Dir 0 0),
        ([''s'', ''refs'', ''tags''], Dir 0 0), ([''w''], Dir 0 0), ([''w'', ''f''], File [2] 6 0),
        ([''w'', ''l''], Link ''f'' 0)],
      writable = (\<lambda>_. True), other_len = (\<lambda>_. 4096)\<rparr>"

abbreviation work_manager :: manager where
  "work_manager \<equiv> spell_manager demo_enc demo_dec"

lemma work_disk_node:
  "lstat work_disk p =
     (if p = [] then Some (Dir 16877 0) else if p = [''s''] \<or> p = [''s'', ''snapshots''] \<or> p = [''s'', ''refs''] \<or>
        p = [''s'', ''refs'', ''tags''] \<or> p = [''w''] then Some (Dir 0 0)
      else if p = [''w'', ''f''] then Some (File [2] 6 0) else if p = [''w'', ''l''] then Some (Link ''f'' 0) else None)"
  by (simp add: lstat_def work_disk_def)

lemma work_disk_ok: "store_ok work_manager work_disk" "store_sound work_manager work_disk"
  "source_ok work_manager work_disk [''w'']" "dest_ok work_manager work_disk [] {''o''}" "new_names work_disk [] {''o''}"
proof -
  have links: "no_links (mg_root work_manager) work_disk"
    by (simp add: no_links_def spell_manager_def work_disk_node)
  then show "store_ok work_manager work_disk"
    by (simp add: store_ok_def snapshots_dir_def tags_dir_def spell_manager_def work_disk_node)
  show "store_sound work_manager work_disk"
    using links by (simp add: store_sound_def spell_manager_def object_path_def work_disk_node)
  show "source_ok work_manager work_disk [''w'']"
    by (auto simp: source_ok_def in_objects_def spell_manager_def work_disk_node plain_name_def bytes_of_def
      append_eq_Cons_conv split: if_splits)
  show "dest_ok work_manager work_disk [] {''o''}"
    using links by (simp add: dest_ok_def work_disk_node spell_manager_def) (simp add: work_disk_def)
  show "new_names work_disk [] {''o''}" by (simp add: new_names_def work_disk_node)
qed

definition work_created :: fsys where
  "work_created = snd (the (create_snapshot work_manager 0 ''a'' 9 [] ''/w'' (Some ''m'') None work_disk))"

lemma work_create:
  "create_snapshot work_manager 0 ''a'' 9 [] ''/w'' (Some ''m'') None work_disk = Some (Inr ''a'', work_created)"
proof -
  have "map_option fst (create_snapshot (spell_manager enc dec) 0 ''a'' 9 [] ''/w'' (Some ''m'') None work_disk) =
      Some (Inr ''a'')" for enc dec
    by code_simp
  from this [of demo_enc demo_dec] show ?thesis unfolding work_created_def by auto
qed


theorem snapshot_counts_witness:
  "\<exists>t info. captures work_disk [''w''] t \<and> get_snapshot work_manager ''a'' work_created = Inr info \<and>
     si_file_count info = leaves t \<and> si_total_size info = volume t"
proof -
  have "uuid_ok ''a''" "\<not> list_ex temp_like (input_tags None)"
    "locate True work_disk [] ''/w'' = Some [''w'']" by code_simp+
  from snapshot_counts [OF work_disk_ok(1) spell_manager_ok(2,1) work_disk_ok(2) this work_disk_ok(3) work_create]
  show ?thesis by blast
qed

theorem restore_trusts_times_witness:
  "\<exists>fs' m'. restore_blob work_manager 5 [''w''] (entry_of ''f'' 420 Blob ''aa0'' 1 0) work_disk = (Inr (), fs') \<and>
     lstat fs' [''w'', ''f''] = Some (File [2] m' 0) \<and> and m' 4095 = 420"
proof -
  let ?e = "entry_of ''f'' 420 Blob ''aa0'' 1 0"
  have time: "entry_time ?e = 0" by (simp add: entry_time_def entry_of_def as_secs_def)
  have "plain_name (te_name ?e)" by (simp add: plain_name_def)
  moreover have "lstat work_disk ([''w''] @ [te_name ?e]) = Some (File [2] 6 (entry_time ?e))"
    by (simp add: work_disk_node time)
  moreover have "of_nat (length [2 :: u8]) = te_size ?e" "writable work_disk ([''w''] @ [te_name ?e])"
    by (simp_all add: entry_of_def work_disk_def)
  ultimately show ?thesis
    using restore_trusts_times [of ?e work_disk "[''w'']" "[2]" 6 work_manager 5] time
    by (simp add: entry_of_def)
qed

theorem clean_extras_exact_witness:
  "set (fs_read_dir (clean_extras [''f''] [''w''] work_disk) [''w'']) = {''f''} \<and>
   lstat (clean_extras [''f''] [''w''] work_disk) [''w'', ''f''] = Some (File [2] 6 0)"
proof -
  have names: "set (fs_read_dir work_disk [''w'']) = {''f'', ''l''}"
    by (auto simp: read_dir_names work_disk_node)
  then have "\<forall>x \<in> set (fs_read_dir work_disk [''w'']). plain_name x" by (auto simp: plain_name_def)
  moreover have "\<forall>p. writable work_disk p" by (simp add: work_disk_def)
  ultimately show ?thesis
    using clean_extras_exact [of work_disk "[''w'']" "[''f'']"] names by (auto simp: work_disk_node)
qed

end
