(* ===== verification/Agent.thy ===== *)
theory Agent
  imports EndToEnd RoundTrip
begin

text \<open>
  The daemon with its snapshot manager: the operations that \<open>handle_message\<close> calls, on the model of
  \<open>Snapshot\<close> and \<open>Restore\<close>, the directory they work in (\<open>serve\<close> in \<open>sandd/src/main.rs\<close>), and the
  snapshot calls of the Python API from one end to the other.
\<close>

section \<open>The manager of a daemon\<close>

text \<open>\<open>var\<close> reads an environment variable.\<close>

definition sandd_root :: "(string \<Rightarrow> string option) \<Rightarrow> string" where
  "sandd_root var =
     (case var ''SANDD_ROOT'' of
        Some root \<Rightarrow> root
      | None \<Rightarrow> (case var ''HOME'' of Some d \<Rightarrow> d | None \<Rightarrow> ''.'') @ ''/.sandd'')"

text \<open>The directory that a path names when no link is on the way.\<close>

definition plain_path :: "path \<Rightarrow> string \<Rightarrow> path" where
  "plain_path cwd s =
     (if is_absolute s then [] else cwd) @ filter (\<lambda>c. c \<noteq> [] \<and> c \<noteq> ''.'') (split_on CHR ''/'' s)"

definition init_snapshots :: "(string \<Rightarrow> string option) \<Rightarrow> path \<Rightarrow> fsys \<Rightarrow> (string + path) \<times> fsys" where
  "init_snapshots var cwd fs =
     (let root = plain_path cwd (sandd_root var)
      in case manager_new root fs of
           (Inl _, fs1) \<Rightarrow> (Inl ''Failed to initialize snapshot manager'', fs1)
         | (Inr _, fs1) \<Rightarrow> (Inr root, fs1))"

text \<open>
  What the operations need besides the disk: the manager, the working directory, the text of an error
  and the fuel of a restore. The state holds the disk, the time and the ids still to be drawn; the
  bound on the walk of a creation is enough by \<open>create_snapshot_returns\<close>.
\<close>

record agent_conf =
  ac_manager :: manager
  ac_cwd :: path
  ac_error_text :: "store_error \<Rightarrow> string"
  ac_restore_fuel :: nat

record agent_os =
  ag_disk :: fsys
  ag_now :: nat
  ag_ids :: "nat \<Rightarrow> string"
  ag_next :: nat

definition op_result ::
  "agent_conf \<Rightarrow> ((store_error + 'a) \<times> fsys) option \<Rightarrow> agent_os \<Rightarrow> (string + 'a) \<times> agent_os" where
  "op_result conf r os =
     (case r of
        None \<Rightarrow> (Inl ''recursion limit'', os)
      | Some (Inl e, fs) \<Rightarrow> (Inl (ac_error_text conf e), os\<lparr>ag_disk := fs\<rparr>)
      | Some (Inr x, fs) \<Rightarrow> (Inr x, os\<lparr>ag_disk := fs\<rparr>))"

definition snapshot_ops :: "agent_conf \<Rightarrow> agent_os snap_ops" where
  "snapshot_ops conf =
     (let mg = ac_manager conf; cwd = ac_cwd conf
      in \<lparr>op_create = (\<lambda>workspace msg tags os.
            op_result conf
              (create_snapshot mg (ag_now os) (ag_ids os (ag_next os)) (Suc (depth_bound mg (ag_disk os))) cwd
                 workspace msg tags (ag_disk os))
              (os\<lparr>ag_next := Suc (ag_next os)\<rparr>)),
          op_restore = (\<lambda>i dest os.
            op_result conf
              (restore_snapshot mg (ag_now os) (ac_restore_fuel conf) cwd i dest (ag_disk os)) os),
          op_list = (\<lambda>tags os. op_result conf (Some (list_snapshots mg tags (ag_disk os), ag_disk os)) os),
          op_find = (\<lambda>tag os. op_result conf (Some (find_snapshot_by_tag mg tag (ag_disk os), ag_disk os)) os),
          op_get = (\<lambda>i os. op_result conf (Some (get_snapshot mg i (ag_disk os), ag_disk os)) os),
          op_delete = (\<lambda>i os. op_result conf (Some (delete_snapshot mg i (ag_disk os))) os)\<rparr>)"

section \<open>A call is a remote procedure call\<close>

text \<open>A call can be made: its id is fresh, its daemon is listed and served by the task \<open>t\<close> over an open
  socket with nothing queued, and the daemon's socket takes one more frame.\<close>

definition call_ready ::
  "nat \<Rightarrow> nat \<Rightarrow> (nat \<Rightarrow> string) \<Rightarrow> (nat \<Rightarrow> nat) \<Rightarrow> server \<Rightarrow> string \<Rightarrow> string \<Rightarrow> ws_task \<Rightarrow> 'o daemon \<Rightarrow> bool" where
  "call_ready n q own hom sv rid i t d \<longleftrightarrow>
     srv_ok n q own hom sv \<and> (\<forall>p < q. own p \<noteq> rid) \<and> daemon_id t = Some i \<and> ws_running t \<and> ws_tx_ok t \<and>
     (\<exists>a. registry_get (reg sv) i = Some a \<and> request_tx (heap (reg sv) a) = req_chan t) \<and>
     receiver_open (req_chans (chans sv) (req_chan t)) \<and> queue (req_chans (chans sv) (req_chan t)) = [] \<and>
     length (sent (dm_tx d)) < limit (dm_tx d)"

text \<open>What the daemon sends for one request is what the call returns.\<close>

lemma round_trip_answer:
  assumes "call_ready n q own hom sv rid i t d" and "response_id ans = Some rid"
    and "sent (dm_tx (snd (handle_message h m d))) = sent (dm_tx d) @ [Text ans]"
  shows "fst (request_response i err m (round_trip h d t) rid q sv) = Inr (Received ans)"
proof -
  obtain a where ok: "srv_ok n q own hom sv" "\<forall>p < q. own p \<noteq> rid" "daemon_id t = Some i" "ws_running t" "ws_tx_ok t"
    and a: "registry_get (reg sv) i = Some a" "request_tx (heap (reg sv) a) = req_chan t"
    and opened: "receiver_open (req_chans (chans sv) (req_chan t))" "queue (req_chans (chans sv) (req_chan t)) = []"
    using assms(1) unfolding call_ready_def by blast
  let ?sv = "call_register rid q a sv"
  note none = pending_fresh [OF ok(1,2), of a]
  note reg = call_register_fields [OF none, of q]
  have empty: "oneshots (chans sv) q = OsEmpty"
    using ok(1) by (cases "oneshots (chans sv) q") (auto simp: srv_ok_def)
  have tx: "request_tx (heap (reg ?sv) a) = req_chan t"
    using a(2) by (simp add: call_register_def update_arc_heap)
  obtain t1 sv1 where f: "ws_step 0 ReqReady t (snd (call_send m a ?sv)) = (t1, sv1)"
    "last (ws_sent t1) = m" "daemon_id t1 = daemon_id t" "reg sv1 = reg ?sv"
    "oneshots (chans sv1) = oneshots (chans ?sv)"
    by (rule forwarded [OF ok(4,5) tx, of m]) (use opened reg(1) in auto)
  have "oneshots (chans (answered_by ans t1 sv1)) q = OsSent ans"
    by (rule answered_state [where a = a, OF _ _ _ _ assms(2)])
      (use f reg(1) reg(2) [of a rid] empty a ok(3) in \<open>auto simp: pending_at_def call_register_def\<close>)
  then show ?thesis
    using f opened(1) assms(3)
    by (simp add: request_response_cases [OF a(1)] reg(1) Let_def a(2) round_trip_def deliver_def
        await_response_def)
qed

lemma finish_answered: "fst r = Inr w \<Longrightarrow> fst (finish f r) = f w"
  by (cases r) (simp add: finish_def)


section \<open>Snapshots from end to end\<close>

text \<open>What \<open>create_snapshot\<close> leaves on the disk of a daemon whose handler has answered.\<close>

lemma created_over_wire:
  assumes "snapshots h = snapshot_ops conf" and "ac_manager conf = mg" and "ac_cwd conf = cwd"
    and "dm_os d = os" and "length (sent (dm_tx d)) < limit (dm_tx d)"
    and "create_snapshot mg (ag_now os) (ag_ids os (ag_next os)) (Suc (depth_bound mg (ag_disk os))) cwd
       workspace msg tags (ag_disk os) = Some (Inr i, fs1)"
    and "read_snapshot mg i fs1 = Inr s"
  shows "dm_os (snd (handle_message h (CreateSnapshot rid workspace msg tags) d)) =
      os\<lparr>ag_next := Suc (ag_next os), ag_disk := fs1\<rparr>"
    "sent (dm_tx (snd (handle_message h (CreateSnapshot rid workspace msg tags) d))) =
      sent (dm_tx d) @ [Text (SnapshotCreated rid i (sn_file_count s) (sn_total_size s))]"
  using assms
  by (simp_all add: handle_message_def handle_create_snapshot_def snapshot_ops_def Let_def op_result_def
      get_snapshot_read snapshot_info_of_def send_text_ok)

lemma restored_over_wire:
  assumes "snapshots h = snapshot_ops conf" and "ac_manager conf = mg" and "ac_cwd conf = cwd"
    and "dm_os d = os" and "length (sent (dm_tx d)) < limit (dm_tx d)"
    and "restore_snapshot mg (ag_now os) (ac_restore_fuel conf) cwd i x (ag_disk os) = Some (Inr (), fs2)"
    and "read_snapshot mg i fs2 = Inr s"
  shows "dm_os (snd (handle_message h (RestoreSnapshot rid i x) d)) = os\<lparr>ag_disk := fs2\<rparr>"
    "sent (dm_tx (snd (handle_message h (RestoreSnapshot rid i x) d))) =
      sent (dm_tx d) @ [Text (SnapshotRestored rid (sn_file_count s))]"
  using assms
  by (simp_all add: handle_message_def handle_restore_snapshot_def snapshot_ops_def Let_def op_result_def
      get_snapshot_read snapshot_info_of_def send_text_ok)

text \<open>Time passes between two calls.\<close>

definition at_time :: "nat \<Rightarrow> agent_os daemon \<Rightarrow> agent_os daemon" where
  "at_time now d = d\<lparr>dm_os := (dm_os d)\<lparr>ag_now := now\<rparr>\<rparr>"


section \<open>A concrete daemon\<close>

text \<open>A daemon with the disk of \<open>RoundTrip\<close>, that can run no processes.\<close>

definition wire_conf :: agent_conf where
  "wire_conf = \<lparr>ac_manager = work_manager, ac_cwd = [], ac_error_text = (\<lambda>_. ''error''), ac_restore_fuel = 9\<rparr>"

definition wire_host :: "agent_os host" where
  "wire_host = \<lparr>processes = \<lparr>spawn = (\<lambda>_ os. (Inl [], os)), wait_output = (\<lambda>_ _ os. (StillRunning, os)),
       clock = ag_now, utf8_lossy = (\<lambda>_. [])\<rparr>,
     terminals = \<lparr>openpty = (\<lambda>_ _ os. (Inl [], os)), clone_reader = (\<lambda>_ os. (Inl [], os)),
       take_writer = (\<lambda>_ os. (Inl [], os)), spawn_command = (\<lambda>_ _ _ os. (Inl [], os)),
       write_all = (\<lambda>_ _ os. (Inl [], os)), flush = (\<lambda>_ os. (Inl [], os)),
       resize_pty = (\<lambda>_ _ _ os. (Inl [], os)), bash_exists = (\<lambda>_. False), shell_var = (\<lambda>_. None)\<rparr>,
     snapshots = snapshot_ops wire_conf, read_file = (\<lambda>_ os. (Inl [], os))\<rparr>"

definition wire_daemon :: "agent_os daemon" where
  "wire_daemon = \<lparr>dm_sessions = [], dm_os = \<lparr>ag_disk = work_disk, ag_now = 0, ag_ids = (\<lambda>_. ''a''), ag_next = 0\<rparr>,
     dm_tx = \<lparr>sent = [], limit = 9\<rparr>\<rparr>"

definition wire_restored :: "agent_os daemon" where
  "wire_restored = at_time 5 (snd (handle_message wire_host (CreateSnapshot ''r1'' ''/w'' (Some ''m'') None) wire_daemon))"

lemma wire_depth: "depth_bound work_manager work_disk = 3"
  by (simp add: depth_bound_def work_disk_def spell_manager_def)

definition wire_created :: fsys where
  "wire_created = snd (the (create_snapshot work_manager 0 ''a'' 4 [] ''/w'' (Some ''m'') None work_disk))"

lemma wire_create:
  "create_snapshot work_manager 0 ''a'' (Suc (depth_bound work_manager work_disk)) [] ''/w'' (Some ''m'') None
     work_disk = Some (Inr ''a'', wire_created)"
proof -
  have "map_option fst (create_snapshot (spell_manager enc dec) 0 ''a'' 4 [] ''/w'' (Some ''m'') None work_disk) =
      Some (Inr ''a'')" for enc dec
    by code_simp
  from this [of demo_enc demo_dec] show ?thesis unfolding wire_created_def wire_depth by (auto simp: numeral_eq_Suc)
qed

lemma wire_ready:
  assumes "length (sent (dm_tx d)) < limit (dm_tx d)"
  shows "call_ready (ntasks demo_idle) 0 (owner demo_idle) (home demo_idle) (srv demo_idle) rid ''d1''
     (tasks demo_idle 0) d"
  using demo_idle_ok assms by (simp add: call_ready_def demo_idle_state demo_idle_task)

lemma wire_place: "uuid_ok ''a''" "\<not> list_ex temp_like (input_tags None)" "plain_name ''o''"
  "locate True work_disk [] ''/w'' = Some [''w'']"
  by code_simp+



end
