(* ===== verification/SnapshotDelete.thy ===== *)
theory SnapshotDelete
  imports Trees
begin

text \<open>
  What deleting a snapshot does (\<open>delete_snapshot\<close> in \<open>sandd/src/snapshot/manager.rs\<close>).
\<close>

lemma remove_plain:
  assumes "plain_dir d fs" and "plain_name s" and "fs_remove_file d s fs = Some fs'"
  shows "fs' = drop_node (d @ [s]) fs" "lstat fs' q = (if q = d @ [s] then None else lstat fs q)"
proof -
  show eq: "fs' = drop_node (d @ [s]) fs"
    using assms(3) by (auto simp: fs_remove_file_def locate_plain_nofollow [OF assms(2)] split: option.splits if_splits)
  show "lstat fs' q = (if q = d @ [s] then None else lstat fs q)" by (simp add: eq lstat_drop)
qed

lemma store_ok_drop:
  assumes "store_ok mg fs" and "d = snapshots_dir mg \<or> d = tags_dir mg"
    and "\<And>q. lstat fs' q = (if q = d @ [s] then None else lstat fs q)"
  shows "store_ok mg fs'"
  by (rule store_ok_write [OF assms(1,2), of s fs' s]) (simp_all add: assms(3))

lemma remove_tags_effect:
  "store_ok mg fs \<Longrightarrow> list_all plain_name tags \<Longrightarrow> remove_tags mg tags fs = (Inr u, fs') \<Longrightarrow>
     store_ok mg fs' \<and> (\<forall>q. lstat fs' q = (if q \<in> (\<lambda>t. tags_dir mg @ [t]) ` set tags then None else lstat fs q))"
proof (induction tags arbitrary: fs)
  case Nil
  then show ?case by simp
next
  case (Cons tag tags)
  obtain v fs1 where one: "remove_tag mg tag fs = (Inr v, fs1)" "remove_tags mg tags fs1 = (Inr u, fs')"
    using Cons.prems(3) by (auto split: prod.splits sum.splits)
  have plain: "plain_name tag" "list_all plain_name tags" using Cons.prems(2) by simp_all
  note dir = store_dirs(2) [OF Cons.prems(1)]
  have eff: "lstat fs1 q = (if q = tags_dir mg @ [tag] then None else lstat fs q)" for q
  proof (cases "fs_exists fs (tags_dir mg) tag")
    case True
    then have "fs_remove_file (tags_dir mg) tag fs = Some fs1"
      using one(1) by (auto simp: remove_tag_def split: option.splits)
    then show ?thesis by (rule remove_plain(2) [OF dir plain(1)])
  next
    case False
    with one(1) read_plain(2) [OF dir plain(1)] show ?thesis by (auto simp: remove_tag_def)
  qed
  have "store_ok mg fs1" by (rule store_ok_drop [OF Cons.prems(1) _ eff]) simp
  from Cons.IH [OF this plain(2) one(2)] eff show ?case by auto
qed

text \<open>C26. A deleted snapshot is gone, its tags name nothing any more, every other snapshot reads as before,
  every other tag names what it named, and no object is removed: also those that only the deleted
  snapshot used stay in the store. Deleting a snapshot that cannot be read changes nothing and gives
  the error of the read.\<close>

theorem delete_snapshot_spec:
  assumes "store_ok mg fs" and "plain_name (snapshot_file i)"
    and "case get_snapshot mg i fs of Inr info \<Rightarrow> list_all plain_name (si_tags info) | Inl e \<Rightarrow> True"
    and "delete_snapshot mg i fs = (r, fs')"
  shows "case get_snapshot mg i fs of
      Inl e \<Rightarrow> r = Inl e \<and> fs' = fs
    | Inr info \<Rightarrow> (case r of
        Inl e \<Rightarrow> True
      | Inr u \<Rightarrow> (\<exists>e. get_snapshot mg i fs' = Inl e) \<and>
          list_all (\<lambda>t. get_snapshot_by_tag mg t fs' = Inr None) (si_tags info) \<and>
          (plain_name (snapshot_file j) \<and> j \<noteq> i \<longrightarrow> get_snapshot mg j fs' = get_snapshot mg j fs) \<and>
          (plain_name t \<and> t \<notin> set (si_tags info) \<longrightarrow>
             get_snapshot_by_tag mg t fs' = get_snapshot_by_tag mg t fs) \<and>
          keeps_blobs mg fs fs')"
proof (cases "get_snapshot mg i fs")
  case (Inl e)
  with assms(4) show ?thesis by (simp add: delete_snapshot_def)
next
  case (Inr info)
  show ?thesis
  proof (cases r)
    case (Inl e)
    with Inr show ?thesis by simp
  next
    case ok: (Inr u)
    obtain v fs1 where steps: "remove_tags mg (si_tags info) fs = (Inr v, fs1)"
      "fs_remove_file (snapshots_dir mg) (snapshot_file i) fs1 = Some fs'"
      using assms(4) Inr ok by (auto simp: delete_snapshot_def split: prod.splits sum.splits option.splits)
    have plain: "list_all plain_name (si_tags info)" using assms(3) Inr by simp
    from remove_tags_effect [OF assms(1) plain steps(1)]
    have t: "store_ok mg fs1"
      "\<And>q. lstat fs1 q = (if q \<in> (\<lambda>t. tags_dir mg @ [t]) ` set (si_tags info) then None else lstat fs q)" by auto
    note rem = remove_plain(2) [OF store_dirs(1) [OF t(1)] assms(2) steps(2)]
    have store: "store_ok mg fs'" by (rule store_ok_drop [OF t(1) _ rem]) simp
    have apart: "snapshots_dir mg @ [a] \<noteq> tags_dir mg @ [b]" for a b
      by (simp add: snapshots_dir_def tags_dir_def)
    have snap: "lstat fs' (snapshots_dir mg @ [snapshot_file j]) =
        (if j = i then None else lstat fs (snapshots_dir mg @ [snapshot_file j]))" for j
      using rem t(2) apart by (auto simp: snapshot_file_def)
    have tag: "lstat fs' (tags_dir mg @ [b]) =
        (if b \<in> set (si_tags info) then None else lstat fs (tags_dir mg @ [b]))" for b
      using rem t(2) apart [of "snapshot_file i" b] by auto
    note now = store_dirs [OF store] and before = store_dirs [OF assms(1)]
    have "\<exists>e. get_snapshot mg i fs' = Inl e"
      using snap [of i] read_plain(1) [OF now(1) assms(2)]
      by (simp add: get_snapshot_def read_snapshot_def fs_read_to_string_def)
    moreover have "list_all (\<lambda>t. get_snapshot_by_tag mg t fs' = Inr None) (si_tags info)"
      using plain tag read_plain(2) [OF now(2)] by (auto simp: list_all_iff get_snapshot_by_tag_def)
    moreover have "get_snapshot mg j fs' = get_snapshot mg j fs" if "plain_name (snapshot_file j)" "j \<noteq> i"
      using that snap [of j] read_plain(1) [OF now(1) that(1)] read_plain(1) [OF before(1) that(1)]
      by (simp add: get_snapshot_def read_snapshot_def fs_read_to_string_def)
    moreover have "get_snapshot_by_tag mg t fs' = get_snapshot_by_tag mg t fs"
      if "plain_name t" "t \<notin> set (si_tags info)"
      using that tag [of t] read_plain [OF now(2) that(1)] read_plain [OF before(2) that(1)]
      by (simp add: get_snapshot_by_tag_def fs_read_to_string_def)
    moreover have "keeps_blobs mg fs fs'"
    proof -
      have "lstat fs' (mg_root mg @ ''objects'' # p) = lstat fs (mg_root mg @ ''objects'' # p)" for p
        using rem t(2) by (auto simp: snapshots_dir_def tags_dir_def)
      moreover have "no_links (mg_root mg) fs" "no_links (mg_root mg) fs'"
        using assms(1) store by (simp_all add: store_ok_def)
      ultimately show ?thesis by (simp add: keeps_blobs_def get_blob_iff dirs_there_def object_path_def)
    qed
    ultimately show ?thesis using Inr ok by simp
  qed
qed

text \<open>A store with a tagged snapshot.\<close>

definition demo_tagged :: fsys where
  "demo_tagged = demo_store\<lparr>nodes :=
     [([''s'', ''snapshots'', ''b.json''], File (demo_enc ((demo_dated ''b'' 1)\<lparr>sn_tags := [''x.tmp'']\<rparr>)) 33188 0),
      ([''s'', ''snapshots'', ''c.json''], File (demo_enc (demo_dated ''c'' 2)) 33188 0)] @ nodes demo_store\<rparr>"

theorem delete_snapshot_spec_witness:
  "case delete_snapshot demo_manager ''b'' demo_tagged of
     (Inr u, fs') \<Rightarrow> (\<exists>e. get_snapshot demo_manager ''b'' fs' = Inl e) \<and>
       get_snapshot_by_tag demo_manager ''x.tmp'' fs' = Inr None \<and>
       get_snapshot demo_manager ''c'' fs' = get_snapshot demo_manager ''c'' demo_tagged
   | (Inl e, fs') \<Rightarrow> False"
proof -
  have store: "store_ok demo_manager demo_tagged"
    by (auto simp: store_ok_def no_links_def lstat_def demo_tagged_def demo_store_def demo_manager_def
      demo_with_def snapshots_dir_def tags_dir_def)
  have names: "plain_name (snapshot_file ''b'')" "plain_name (snapshot_file ''c'')"
    and tags: "map_sum id si_tags (get_snapshot demo_manager ''b'' demo_tagged) = Inr [''x.tmp'']"
    and ok: "fst (delete_snapshot demo_manager ''b'' demo_tagged) = Inr ()" and plain: "plain_name ''x.tmp''"
    by code_simp+
  then obtain info fs' where one: "get_snapshot demo_manager ''b'' demo_tagged = Inr info" "si_tags info = [''x.tmp'']"
    "delete_snapshot demo_manager ''b'' demo_tagged = (Inr (), fs')"
    by (cases "get_snapshot demo_manager ''b'' demo_tagged"; cases "delete_snapshot demo_manager ''b'' demo_tagged") auto
  have "case get_snapshot demo_manager ''b'' demo_tagged of
      Inr info \<Rightarrow> list_all plain_name (si_tags info) | Inl e \<Rightarrow> True" using one plain by simp
  from delete_snapshot_spec [OF store names(1) this one(3), of "''c''" "''y''"] one names(2) show ?thesis by simp
qed

end
