(* ===== verification/Storing.thy ===== *)
theory Storing
  imports RoundTrip
begin

text \<open>
  The two ways in which bytes get into the store (\<open>put_blob\<close> and \<open>put_file\<close> in
  \<open>sandd/src/snapshot/object_store.rs\<close>) do the same.
\<close>

lemma get_blob_missing:
  "valid_hash k \<Longrightarrow> get_blob root k fs = Inl e \<Longrightarrow> e = Msg (''Object '' @ k @ '' not found'')"
  by (auto simp: get_blob_def hash_to_path_split(1) split: option.splits)

lemma get_blob_same:
  assumes "valid_hash k" and "\<And>d. get_blob root k fs1 = Inr d \<longleftrightarrow> get_blob root k fs2 = Inr d"
  shows "get_blob root k fs1 = get_blob root k fs2"
proof (cases "get_blob root k fs1")
  case (Inl e)
  with assms(2) obtain e' where "get_blob root k fs2 = Inl e'" by (cases "get_blob root k fs2") auto
  with Inl get_blob_missing [OF assms(1)] show ?thesis by metis
next
  case (Inr d)
  with assms(2) show ?thesis by metis
qed

text \<open>C23. Storing a file, which is hashed in pieces and copied, has the effect of storing its bytes: the same
  hash, and afterwards the same answer for every object of the store. The store is sound, and every
  object in it lies in its directories.\<close>

theorem put_file_like_blob:
  assumes "store_sound mg fs" and "hash_ok mg" and "plain_name s"
    and "lstat fs (base @ [s]) = Some (File c m t)"
    and "put_file (mg_hash mg) now (mg_root mg) base s fs = (Inr h, fs1)"
    and "put_blob (mg_hash mg) now' (mg_root mg) c fs = (Inr h', fs2)"
    and "valid_hash k" and "lstat fs (object_path (mg_root mg) k) = None \<or> dirs_there (mg_root mg) k fs"
  shows "h = h' \<and> get_blob (mg_root mg) k fs1 = get_blob (mg_root mg) k fs2"
proof -
  let ?r = "mg_root mg" and ?k = "mg_hash mg c"
  have links: "no_links ?r fs" and H: "hash_fn (mg_hash mg)"
    using assms(1,2) by (simp_all add: store_sound_def hash_ok_def)
  have e1: "put_effect ?r ?k c fs (Inr h, fs1)" using put_file_effect [OF links H assms(3,4), of now] assms(5) by simp
  have e2: "put_effect ?r ?k c fs (Inr h', fs2)" using put_blob_effect [OF links H, of c now'] assms(6) by simp
  note k1 = put_keeps [OF assms(1,2) e1] and k2 = put_keeps [OF assms(1,2) e2]
  have "get_blob ?r k fs1 = Inr d \<longleftrightarrow> get_blob ?r k fs2 = Inr d" for d
  proof (cases "k = ?k")
    case True
    with k1(1,4) k2(1,4) show ?thesis by simp
  next
    case False
    have at: "lstat f (object_path ?r k) = lstat fs (object_path ?r k)" "no_links ?r f"
      "dirs_there ?r k fs \<longrightarrow> dirs_there ?r k f" if "put_effect ?r ?k c fs (Inr i, f)" for i f
      using that False assms(7) unfolding put_effect_def by auto
    from at [OF e1] at [OF e2] assms(8) show ?thesis by (auto simp: get_blob_iff)
  qed
  then show ?thesis using k1(1) k2(1) get_blob_same [OF assms(7)] by blast
qed

theorem put_file_like_blob_witness:
  "get_blob [''s''] ''02aa0'' (snd (put_file spell_hash 0 [''s''] [''w''] ''f'' work_disk)) =
   get_blob [''s''] ''02aa0'' (snd (put_blob spell_hash 0 [''s''] [2] work_disk))"
proof -
  have mg: "mg_hash work_manager = spell_hash" "mg_root work_manager = [''s'']" by (simp_all add: spell_manager_def)
  have "fst (put_file spell_hash 0 [''s''] [''w''] ''f'' work_disk) = Inr ''02aa0''"
    "fst (put_blob spell_hash 0 [''s''] [2] work_disk) = Inr ''02aa0''" by code_simp+
  then have puts: "put_file spell_hash 0 [''s''] [''w''] ''f'' work_disk =
      (Inr ''02aa0'', snd (put_file spell_hash 0 [''s''] [''w''] ''f'' work_disk))"
    "put_blob spell_hash 0 [''s''] [2] work_disk = (Inr ''02aa0'', snd (put_blob spell_hash 0 [''s''] [2] work_disk))"
    by (simp_all add: prod_eq_iff)
  have "plain_name ''f''" "valid_hash ''02aa0''" by code_simp+
  moreover have "lstat work_disk ([''w''] @ [''f'']) = Some (File [2] 6 0)"
    "lstat work_disk (object_path [''s''] ''02aa0'') = None"
    by (simp_all add: work_disk_node object_path_def)
  ultimately show ?thesis
    using put_file_like_blob [OF work_disk_ok(2) spell_manager_ok(1) _ _ puts [folded mg], where k = "''02aa0''"]
    by (simp add: mg)
qed

end
