(* ===== verification/Dedup.thy ===== *)
theory Dedup
  imports RoundTrip
begin

text \<open>
  Deduplication: what a second snapshot of the same workspace adds to the store, and what the hash
  of a tree says of the workspace it was taken of. The first needs that building a tree reads the
  directories of the workspace in the same order throughout; so a put is shown to leave the order
  of every directory outside \<open>objects\<close> alone.
\<close>

section \<open>Puts leave the listing of other directories alone\<close>

definition outside :: "path \<Rightarrow> fsys \<Rightarrow> (path \<times> node) list" where
  "outside root fs = filter (\<lambda>(p, _). \<not> in_objects root p) (nodes fs)"

lemma filter_update: "(\<And>v. \<not> Q (k, v)) \<Longrightarrow> filter Q (AList.update k v xs) = filter Q xs"
  by (induction xs) auto

lemma filter_delete: "(\<And>v. \<not> Q (k, v)) \<Longrightarrow> filter Q (AList.delete k xs) = filter Q xs"
  by (induction xs) auto

lemma outside_put: "in_objects root p \<Longrightarrow> outside root (put_node p x fs) = outside root fs"
  by (simp add: outside_def put_node_def filter_update)

lemma outside_drop: "in_objects root p \<Longrightarrow> outside root (drop_node p fs) = outside root fs"
  by (simp add: outside_def drop_node_def filter_delete)

lemma read_dir_outside:
  assumes "outside root fs' = outside root fs" and "\<And>x. \<not> in_objects root (d @ [x])"
  shows "fs_read_dir fs' d = fs_read_dir fs d"
proof -
  have apart: "\<not> in_objects root p" if "p \<noteq> []" "butlast p = d" for p
    using assms(2) [of "last p"] that append_butlast_last_id [of p] by simp
  have "filter (\<lambda>(p, _). p \<noteq> [] \<and> butlast p = d) (nodes g) =
      filter (\<lambda>(p, _). p \<noteq> [] \<and> butlast p = d) (outside root g)" for g
    using apart by (auto simp: outside_def intro!: filter_cong)
  then show ?thesis using assms(1) by (simp add: fs_read_dir_def)
qed

lemma make_dirs_outside:
  assumes "no_links root fs" and "plain_name c" and "cur = root @ p" and "in_objects root (cur @ [c])"
    and "make_dirs fs cur (c # cs) = Some fs1"
  obtains g where "make_dirs g (cur @ [c]) cs = Some fs1" "no_links root g" "outside root g = outside root fs"
proof -
  have loc: "locate True fs cur c = Some (cur @ [c])"
    using assms(1-3) locate_plain [of c fs cur] no_links_node [of root fs "p @ [c]"] by simp
  show thesis
  proof (cases "lstat fs (cur @ [c])")
    case None
    with assms(5) loc have "make_dirs (put_node (cur @ [c]) (Dir 16877 0) fs) (cur @ [c]) cs = Some fs1"
      by (auto split: if_splits)
    moreover have "no_links root (put_node (cur @ [c]) (Dir 16877 0) fs)"
      using assms(1) by (simp add: no_links_def lstat_put)
    ultimately show thesis using that outside_put [OF assms(4)] by blast
  next
    case (Some x)
    with assms(5) loc have "make_dirs fs (cur @ [c]) cs = Some fs1" by (auto split: if_splits)
    with that assms(1) show thesis by blast
  qed
qed

lemma object_dirs_outside:
  assumes "no_links root fs" and "valid_hash h" and "fs_create_dir_all root (object_dir h) fs = Some fs1"
  shows "outside root fs1 = outside root fs"
proof -
  have made: "make_dirs fs root [''objects'', take 2 h] = Some fs1"
    using assms(3) hash_to_path_split(3) [OF assms(2)] not_absolute_object [of h "[]"]
    by (simp add: fs_create_dir_all_def del: make_dirs.simps)
  obtain g where g: "make_dirs g (root @ [''objects'']) [take 2 h] = Some fs1" "no_links root g"
    "outside root g = outside root fs"
    by (rule make_dirs_outside [OF assms(1) plain_objects _ _ made, of "[]"])
      (simp_all add: in_objects_temp)
  obtain g2 where "make_dirs g2 ((root @ [''objects'']) @ [take 2 h]) [] = Some fs1" "outside root g2 = outside root g"
    by (rule make_dirs_outside [OF g(2) hex_parts(1) [OF assms(2)] _ _ g(1), of "[''objects'']"])
      (simp_all add: in_objects_temp)
  with g(3) show ?thesis by simp
qed

lemma store_object_outside:
  assumes "no_links root fs" and "valid_hash h"
    and "\<And>fs1. fs_create_dir_all root (object_dir h) fs = Some fs1 \<Longrightarrow> writes_temp root h d fs1 (write_temp fs1)"
    and temp: "\<And>fs1 r fs2. fs_create_dir_all root (object_dir h) fs = Some fs1 \<Longrightarrow> write_temp fs1 = (Inr fs2, r) \<Longrightarrow>
       outside root fs2 = outside root fs1"
  shows "outside root (snd (store_object root h write_temp fs)) = outside root fs"
proof (cases "fs_exists fs root (object_file h)")
  case True
  then show ?thesis by (simp add: store_object_def hash_to_path_split(1) [OF assms(2)])
next
  case new: False
  note path = hash_to_path_split(1) [OF assms(2)]
  show ?thesis
  proof (cases "fs_create_dir_all root (object_dir h) fs")
    case None
    with new show ?thesis by (simp add: store_object_def path)
  next
    case (Some fs1)
    note dirs = make_object_dirs [OF assms(1,2) Some] and out = object_dirs_outside [OF assms(1,2) Some]
    obtain wr fs2' where wr: "write_temp fs1 = (wr, fs2')" by fastforce
    show ?thesis
    proof (cases wr)
      case (Inl e)
      with assms(3) [OF Some] wr have "fs2' = fs1" by (simp add: writes_temp_def)
      with new Some wr Inl out show ?thesis by (simp add: store_object_def path)
    next
      case (Inr fs2)
      with assms(3) [OF Some] wr obtain m t where fs2: "only_at (temp_file root h) fs1 fs2"
        "lstat fs2 (temp_file root h) = Some (File d m t)"
        by (auto simp: writes_temp_def)
      have ok2: "no_links root fs2" "dirs_there root h fs2"
        using dirs(1,2) fs2 by (auto simp: only_at_dirs intro: only_at_links)
      have same: "outside root fs2 = outside root fs" using temp [OF Some] wr Inr out by simp
      from rename_into_place [OF ok2(1) assms(2) ok2(2) fs2(2)] show ?thesis
        using new Some wr Inr same
        by (auto simp: store_object_def path outside_put outside_drop in_objects_temp)
    qed
  qed
qed

lemma put_blob_outside:
  assumes "no_links root fs" and "hash_fn H"
  shows "outside root (snd (put_blob H now root c fs)) = outside root fs"
proof -
  have ok: "valid_hash (H c)" using assms(2) by (simp add: hash_fn_def)
  have w: "case fs_write now root (temp_path (H c)) c fs1 of
      None \<Rightarrow> True | Some fs2 \<Rightarrow> \<exists>m. fs2 = put_node (temp_file root (H c)) (File c m now) fs1"
    if "fs_create_dir_all root (object_dir (H c)) fs = Some fs1" for fs1
    using write_temp_file [OF make_object_dirs(2,1) [OF assms(1) ok that] ok] .
  have wt: "writes_temp root (H c) c fs1 (case fs_write now root (temp_path (H c)) c fs1 of
      None \<Rightarrow> (Inl IoError, fs1) | Some fs2 \<Rightarrow> (Inr fs2, fs2))"
    if "fs_create_dir_all root (object_dir (H c)) fs = Some fs1" for fs1
    using w [OF that] by (auto simp: writes_temp_def only_at_put lstat_put split: option.splits)
  have tmp: "outside root fs2 = outside root fs1"
    if "fs_create_dir_all root (object_dir (H c)) fs = Some fs1"
      "(case fs_write now root (temp_path (H c)) c fs1 of
          None \<Rightarrow> (Inl IoError, fs1) | Some fs2 \<Rightarrow> (Inr fs2, fs2)) = (Inr fs2, r)" for fs1 fs2 r
    using w [OF that(1)] that(2) by (auto simp: outside_put in_objects_temp split: option.splits)
  show ?thesis
    unfolding put_blob_def
  proof (rule store_object_outside [where d = c])
    show "no_links root fs" "valid_hash (H c)" by (rule assms(1), rule ok)
  qed (erule wt, erule (1) tmp)
qed

lemma put_file_outside:
  assumes "no_links root fs" and "hash_fn H"
  shows "outside root (snd (put_file H now root base s fs)) = outside root fs"
proof (cases "fs_read fs base s")
  case None
  then show ?thesis by (simp add: put_file_def)
next
  case (Some c)
  have ok: "valid_hash (H c)" using assms(2) by (simp add: hash_fn_def)
  have copied: "\<exists>x y. fs2 = put_node (temp_file root (H c)) x (put_node (temp_file root (H c)) y fs1)"
    if made: "fs_create_dir_all root (object_dir (H c)) fs = Some fs1"
      and copy: "fs_copy now base s root (temp_path (H c)) fs1 = Some fs2" for fs1 fs2
  proof -
    note dirs = make_object_dirs [OF assms(1) ok made]
    obtain p d m t fs3 p' where c: "locate True fs1 base s = Some p" "lstat fs1 p = Some (File d m t)"
      "fs_write now root (temp_path (H c)) d fs1 = Some fs3" "locate True fs3 root (temp_path (H c)) = Some p'"
      "fs2 = put_node p' (File d m now) fs3"
      using copy by (auto simp: fs_copy_def split: option.splits node.splits)
    obtain m0 where fs3: "fs3 = put_node (temp_file root (H c)) (File d m0 now) fs1"
      using write_temp_file [OF dirs(2,1) ok, of d now] c(3) by auto
    have "no_links root fs3" "dirs_there root (H c) fs3"
      using dirs(1,2) by (auto simp: fs3 no_links_def dirs_there_def lstat_put)
    then have "p' = temp_file root (H c)" using locate_temp_path [OF _ ok] c(4) by simp
    with c(5) fs3 show ?thesis by blast
  qed
  let ?w = "\<lambda>fs1. case fs_copy now base s root (temp_path (H c)) fs1 of
      None \<Rightarrow> (Inl (Msg ''Failed to copy file to object store''), fs1) | Some fs2 \<Rightarrow> (Inr fs2, fs2)"
  have "\<exists>d. \<forall>fs1. fs_create_dir_all root (object_dir (H c)) fs = Some fs1 \<longrightarrow> writes_temp root (H c) d fs1 (?w fs1)"
  proof (cases "fs_create_dir_all root (object_dir (H c)) fs")
    case (Some fs1)
    note dirs = make_object_dirs [OF assms(1) ok Some]
    show ?thesis
      using copy_to_temp [OF dirs(2,1) ok, of now base s] Some
      by (cases "fs_copy now base s root (temp_path (H c)) fs1") (auto simp: writes_temp_def)
  qed simp
  then obtain d where wt: "\<And>fs1. fs_create_dir_all root (object_dir (H c)) fs = Some fs1 \<Longrightarrow>
      writes_temp root (H c) d fs1 (?w fs1)" by blast
  have tmp: "outside root fs2 = outside root fs1"
    if "fs_create_dir_all root (object_dir (H c)) fs = Some fs1" "?w fs1 = (Inr fs2, r)" for fs1 fs2 r
  proof -
    from that(2) have "fs_copy now base s root (temp_path (H c)) fs1 = Some fs2"
      by (simp split: option.splits)
    from copied [OF that(1) this] show ?thesis by (elim exE) (simp add: outside_put in_objects_temp)
  qed
  have "outside root (snd (store_object root (H c) ?w fs)) = outside root fs"
  proof (rule store_object_outside [where d = d])
    show "no_links root fs" "valid_hash (H c)" by (rule assms(1), rule ok)
  qed (erule wt, erule (1) tmp)
  with Some show ?thesis by (simp add: put_file_def hash_file_whole Let_def)
qed

section \<open>Building a tree again\<close>

text \<open>A workspace looks the same in \<open>fs2\<close> as in \<open>fs\<close>: the same nodes, listed in the same order, and
  links that lead to the same kind of place.\<close>

definition same_work :: "path \<Rightarrow> fsys \<Rightarrow> fsys \<Rightarrow> bool" where
  "same_work d fs fs2 \<longleftrightarrow> (\<forall>q. lstat fs2 (d @ q) = lstat fs (d @ q)) \<and>
     (\<forall>q. fs_read_dir fs2 (d @ q) = fs_read_dir fs (d @ q)) \<and>
     (\<forall>q x target t. lstat fs (d @ q @ [x]) = Some (Link target t) \<longrightarrow>
        symlink_type fs2 (d @ q) target = symlink_type fs (d @ q) target)"

text \<open>No link of the workspace leads to a place that storing objects changes.\<close>

definition steady :: "manager \<Rightarrow> fsys \<Rightarrow> path \<Rightarrow> bool" where
  "steady mg fs d \<longleftrightarrow> (\<forall>g q x target t. objects_only (mg_root mg) fs g \<longrightarrow>
     lstat fs (d @ q @ [x]) = Some (Link target t) \<longrightarrow>
     symlink_type g (d @ q) target = symlink_type fs (d @ q) target)"

text \<open>What building adds, with the listing.\<close>

definition stored :: "manager \<Rightarrow> fsys \<Rightarrow> fsys \<Rightarrow> bool" where
  "stored mg fs fs' \<longleftrightarrow> grows mg fs fs' \<and> outside (mg_root mg) fs' = outside (mg_root mg) fs"

lemma stored_refl: "store_sound mg fs \<Longrightarrow> stored mg fs fs"
  by (simp add: stored_def grows_refl)

lemma stored_trans: "stored mg fs fs1 \<Longrightarrow> stored mg fs1 fs2 \<Longrightarrow> stored mg fs fs2"
  unfolding stored_def using grows_trans by metis

lemma same_work_sub: "same_work d fs fs2 \<Longrightarrow> same_work (d @ [x]) fs fs2"
  unfolding same_work_def by (metis append.assoc)

lemma steady_sub: "steady mg fs d \<Longrightarrow> steady mg fs (d @ [x])"
  unfolding steady_def by (metis append.assoc)

lemma stored_source:
  assumes "stored mg fs fs1" and "source_ok mg fs d" and "steady mg fs d" and "same_work d fs fs2"
  shows "source_ok mg fs1 d" "steady mg fs1 d" "same_work d fs1 fs2"
proof -
  have only: "objects_only (mg_root mg) fs fs1" using assms(1) by (simp add: stored_def grows_def)
  note frame = source_frame [OF assms(2) only]
  show "source_ok mg fs1 d" by (rule frame(3))
  have kind: "symlink_type fs1 (d @ q) target = symlink_type fs (d @ q) target"
    if "lstat fs (d @ q @ [x]) = Some (Link target t)" for q x target t
    using assms(3) only that unfolding steady_def by blast
  show "steady mg fs1 d"
    unfolding steady_def frame(1)
    using assms(3) kind objects_only_trans [OF only] unfolding steady_def by metis
  have list: "fs_read_dir fs1 (d @ q) = fs_read_dir fs (d @ q)" for q
    using assms(1,2) by (intro read_dir_outside [of "mg_root mg"]) (simp_all add: stored_def source_ok_def)
  show "same_work d fs1 fs2"
    using assms(4) kind unfolding same_work_def frame(1) list by metis
qed

lemma put_again:
  assumes "hash_ok mg" and "no_links (mg_root mg) fs" and "get_blob (mg_root mg) (mg_hash mg c) fs = Inr c'"
  shows "put_blob (mg_hash mg) now (mg_root mg) c fs = (Inr (mg_hash mg c), fs)"
    "fs_read fs base s = Some c \<Longrightarrow> put_file (mg_hash mg) now (mg_root mg) base s fs = (Inr (mg_hash mg c), fs)"
proof -
  have ok: "valid_hash (mg_hash mg c)" using assms(1) by (simp add: hash_ok_def hash_fn_def)
  have "fs_exists fs (mg_root mg) (object_file (mg_hash mg c))"
    using assms(3) by (auto simp: exists_object [OF assms(2) ok] get_blob_iff [OF assms(2)])
  then show "put_blob (mg_hash mg) now (mg_root mg) c fs = (Inr (mg_hash mg c), fs)"
    "fs_read fs base s = Some c \<Longrightarrow> put_file (mg_hash mg) now (mg_root mg) base s fs = (Inr (mg_hash mg c), fs)"
    by (simp_all add: put_blob_def put_file_def store_object_def hash_to_path_split(1) [OF ok] hash_file_whole Let_def)
qed

text \<open>The first put of some contents, and what a later one does.\<close>

lemma put_blob_stored:
  assumes "store_sound mg fs" and "hash_ok mg" and "put_blob (mg_hash mg) now (mg_root mg) c fs = (Inr h, fs1)"
  shows "stored mg fs fs1"
    "keeps_blobs mg fs1 fs2 \<Longrightarrow> no_links (mg_root mg) fs2 \<Longrightarrow>
       put_blob (mg_hash mg) now' (mg_root mg) c fs2 = (Inr h, fs2)"
proof -
  have links: "no_links (mg_root mg) fs" "hash_fn (mg_hash mg)"
    using assms(1,2) by (simp_all add: store_sound_def hash_ok_def)
  note p = put_blob_spelled [OF assms]
  show "stored mg fs fs1"
    using p(1) put_blob_outside [OF links, of now c] assms(3) by (simp add: stored_def)
  have "put_effect (mg_root mg) (mg_hash mg c) c fs (Inr h, fs1)"
    using put_blob_effect [OF links, of c now] assms(3) by simp
  then have h: "h = mg_hash mg c" by (rule put_keeps(1) [OF assms(1,2)])
  assume "keeps_blobs mg fs1 fs2" "no_links (mg_root mg) fs2"
  with put_again(1) [OF assms(2), of fs2 c c now'] p(2) h
  show "put_blob (mg_hash mg) now' (mg_root mg) c fs2 = (Inr h, fs2)" by (simp add: keeps_blobs_def)
qed

lemma put_file_stored:
  assumes "store_sound mg fs" and "hash_ok mg" and "plain_name x" and "lstat fs (d @ [x]) = Some (File c m t)"
    and "put_file (mg_hash mg) now (mg_root mg) d x fs = (Inr h, fs1)"
  shows "stored mg fs fs1"
    "keeps_blobs mg fs1 fs2 \<Longrightarrow> no_links (mg_root mg) fs2 \<Longrightarrow> lstat fs2 (d @ [x]) = Some (File c m t) \<Longrightarrow>
       put_file (mg_hash mg) now' (mg_root mg) d x fs2 = (Inr h, fs2)"
proof -
  have links: "no_links (mg_root mg) fs" "hash_fn (mg_hash mg)"
    using assms(1,2) by (simp_all add: store_sound_def hash_ok_def)
  note p = put_file_spelled [OF assms]
  show "stored mg fs fs1"
    using p(1) put_file_outside [OF links, of now d x] assms(5) by (simp add: stored_def)
  have "put_effect (mg_root mg) (mg_hash mg c) c fs (Inr h, fs1)"
    using put_file_effect [OF links assms(3,4), of now] assms(5) by simp
  then have h: "h = mg_hash mg c" by (rule put_keeps(1) [OF assms(1,2)])
  assume "keeps_blobs mg fs1 fs2" "no_links (mg_root mg) fs2" "lstat fs2 (d @ [x]) = Some (File c m t)"
  moreover from this(3) have "fs_read fs2 d x = Some c"
    using assms(3) by (simp add: fs_read_def locate_plain)
  ultimately show "put_file (mg_hash mg) now' (mg_root mg) d x fs2 = (Inr h, fs2)"
    using put_again(2) [OF assms(2), of fs2 c c d x now'] p(2) h by (simp add: keeps_blobs_def)
qed

definition again ::
  "(path \<Rightarrow> fsys \<Rightarrow> ((store_error + 'r) \<times> fsys) option) \<Rightarrow> manager \<Rightarrow> path \<Rightarrow> fsys \<Rightarrow> 'r \<Rightarrow> fsys \<Rightarrow> bool" where
  "again f mg d fs r fs' \<longleftrightarrow> stored mg fs fs' \<and>
     (\<forall>fs2. same_work d fs fs2 \<longrightarrow> keeps_blobs mg fs' fs2 \<longrightarrow> no_links (mg_root mg) fs2 \<longrightarrow>
        f d fs2 = Some (Inr r, fs2))"

lemma again_after:
  assumes "again f mg d fs1 r fs'" and "stored mg fs fs1" and "source_ok mg fs d" and "steady mg fs d"
    and "\<And>fs2. same_work d fs fs2 \<Longrightarrow> keeps_blobs mg fs1 fs2 \<Longrightarrow> no_links (mg_root mg) fs2 \<Longrightarrow> g d fs2 = f d fs2"
  shows "again g mg d fs r fs'"
proof -
  have late: "keeps_blobs mg fs1 fs'" using assms(1) by (simp add: again_def stored_def grows_def)
  have "g d fs2 = Some (Inr r, fs2)"
    if "same_work d fs fs2" "keeps_blobs mg fs' fs2" "no_links (mg_root mg) fs2" for fs2
  proof -
    have "same_work d fs1 fs2" by (rule stored_source(3) [OF assms(2-4) that(1)])
    then have "f d fs2 = Some (Inr r, fs2)" using assms(1) that(2,3) by (simp add: again_def)
    with assms(5) [OF that(1) keeps_trans [OF late that(2)] that(3)] show ?thesis by simp
  qed
  with assms(1,2) stored_trans show ?thesis by (auto simp: again_def)
qed

lemma build_entries_again:
  assumes ok: "hash_ok mg"
    and sub: "\<And>x fs r fs'. store_sound mg fs \<Longrightarrow> source_ok mg fs (d @ [x]) \<Longrightarrow> steady mg fs (d @ [x]) \<Longrightarrow>
      sub (d @ [x]) fs = Some (Inr r, fs') \<Longrightarrow> again sub2 mg (d @ [x]) fs r fs'"
  shows "store_sound mg fs \<Longrightarrow> source_ok mg fs d \<Longrightarrow> steady mg fs d \<Longrightarrow> \<forall>x \<in> set names. plain_name x \<Longrightarrow>
    build_entries sub mg now d names acc fs = Some (Inr acc', fs') \<Longrightarrow>
    again (\<lambda>d. build_entries sub2 mg now' d names acc) mg d fs acc' fs'"
proof (induction names arbitrary: fs acc)
  case Nil
  then show ?case by (simp add: again_def stored_refl)
next
  case (Cons x names)
  obtain es n z where acc: "acc = (es, n, z)" by (metis prod_cases3)
  have plain: "plain_name x" "\<forall>x \<in> set names. plain_name x" using Cons.prems(4) by simp_all
  have go: "again (\<lambda>d. build_entries sub2 mg now' d (x # names) acc) mg d fs acc' fs'"
    if "stored mg fs fs1" "build_entries sub mg now d names acc1 fs1 = Some (Inr acc', fs')"
      "\<And>fs2. same_work d fs fs2 \<Longrightarrow> keeps_blobs mg fs1 fs2 \<Longrightarrow> no_links (mg_root mg) fs2 \<Longrightarrow>
         build_entries sub2 mg now' d (x # names) acc fs2 = build_entries sub2 mg now' d names acc1 fs2"
    for fs1 acc1
  proof -
    have same: "same_work d fs fs" by (simp add: same_work_def)
    note src = stored_source [OF that(1) Cons.prems(2,3) same]
    have sound: "store_sound mg fs1" using that(1) by (simp add: stored_def grows_def)
    from Cons.IH [OF sound src(1,2) plain(2) that(2)]
    have "again (\<lambda>d. build_entries sub2 mg now' d names acc1) mg d fs1 acc' fs'" .
    then show ?thesis by (rule again_after [OF _ that(1) Cons.prems(2,3)]) (rule that(3))
  qed
  have here: "lstat fs2 (d @ [x]) = lstat fs (d @ [x])" if "same_work d fs fs2" for fs2
    using that by (simp add: same_work_def)
  show ?case
  proof (cases "lstat fs (d @ [x])")
    case None
    with Cons.prems(5) acc show ?thesis by simp
  next
    case (Some node)
    show ?thesis
    proof (cases node)
      case (File c m t)
      note f = Some [unfolded File]
      with Cons.prems(5) acc obtain h fs1 where put: "put_file (mg_hash mg) now (mg_root mg) d x fs = (Inr h, fs1)"
        by (auto split: prod.splits sum.splits)
      note p = put_file_stored [OF Cons.prems(1) ok plain(1) f put]
      show ?thesis
        by (rule go [OF p(1)]) (use Cons.prems(5) acc f put p(2) here in auto)
    next
      case (Link target t)
      note l = Some [unfolded Link]
      with Cons.prems(5) acc obtain h fs1
        where put: "put_blob (mg_hash mg) now (mg_root mg) (bytes_of target) fs = (Inr h, fs1)"
        by (auto split: prod.splits sum.splits)
      note p = put_blob_stored [OF Cons.prems(1) ok put]
      have only: "objects_only (mg_root mg) fs fs1" using p(1) by (simp add: stored_def grows_def)
      have "symlink_type fs1 (d @ []) target = symlink_type fs (d @ []) target"
        using Cons.prems(3) only l unfolding steady_def by (metis append_Nil)
      moreover have "symlink_type fs2 (d @ []) target = symlink_type fs (d @ []) target" if "same_work d fs fs2" for fs2
        using that l unfolding same_work_def by (metis append_Nil)
      ultimately have kind: "symlink_type fs2 d target = symlink_type fs1 d target" if "same_work d fs fs2" for fs2
        using that by simp
      show ?thesis
        by (rule go [OF p(1)]) (use Cons.prems(5) acc l put p(2) here kind in auto)
    next
      case (Dir m t)
      note dn = Some [unfolded Dir]
      with Cons.prems(5) acc obtain r fs1 where s: "sub (d @ [x]) fs = Some (Inr r, fs1)"
        by (auto split: prod.splits sum.splits option.splits)
      obtain h k y where r: "r = (h, k, y)" by (metis prod_cases3)
      have "is_dir_node (lstat fs (d @ [x]))" using dn by simp
      from sub [OF Cons.prems(1) source_ok_sub [OF Cons.prems(2) this] steady_sub [OF Cons.prems(3)] s]
      have b: "stored mg fs fs1" "\<And>fs2. same_work (d @ [x]) fs fs2 \<Longrightarrow> keeps_blobs mg fs1 fs2 \<Longrightarrow>
          no_links (mg_root mg) fs2 \<Longrightarrow> sub2 (d @ [x]) fs2 = Some (Inr r, fs2)"
        by (simp_all add: again_def)
      show ?thesis
        by (rule go [OF b(1)]) (use Cons.prems(5) acc dn s r b(2) [OF same_work_sub] here in auto)
    next
      case Special
      show ?thesis
        by (rule go [OF stored_refl [OF Cons.prems(1)]]) (use Cons.prems(5) acc Some Special here in auto)
    qed
  qed
qed

text \<open>Building the tree of an unchanged workspace again gives the same result and changes nothing.\<close>

lemma build_tree_again:
  "hash_ok mg \<Longrightarrow> store_sound mg fs \<Longrightarrow> source_ok mg fs d \<Longrightarrow> steady mg fs d \<Longrightarrow>
     build_tree mg now n d fs = Some (Inr r, fs') \<Longrightarrow> again (build_tree mg now' n) mg d fs r fs'"
proof (induction n arbitrary: d fs r fs')
  case 0
  then show ?case by simp
next
  case (Suc n)
  have dir: "is_dir_node (lstat fs d)" using Suc.prems(3) by (simp add: source_ok_def)
  from Suc.prems(5) obtain es k z fs1 where one:
    "build_entries (build_tree mg now n) mg now d (fs_read_dir fs d) ([], 0, 0) fs = Some (Inr (es, k, z), fs1)"
    using dir by (auto split: option.splits prod.splits sum.splits)
  from Suc.prems(5) one dir obtain h where two:
    "put_blob (mg_hash mg) now (mg_root mg) (mg_enc_tree mg es) fs1 = (Inr h, fs')" "r = (h, k, z)"
    by (auto split: option.splits prod.splits sum.splits)
  have plain: "\<forall>x \<in> set (fs_read_dir fs d). plain_name x"
    using source_plain [OF Suc.prems(3)] by (simp add: read_dir_names)
  have sub: "again (build_tree mg now' n) mg (d @ [x]) g r g'"
    if "store_sound mg g" "source_ok mg g (d @ [x])" "steady mg g (d @ [x])"
      "build_tree mg now n (d @ [x]) g = Some (Inr r, g')" for x g r g'
    by (rule Suc.IH [OF Suc.prems(1) that])
  have "again (\<lambda>d'. build_entries (build_tree mg now' n) mg now' d' (fs_read_dir fs d) ([], 0, 0)) mg d fs (es, k, z) fs1"
    by (rule build_entries_again [where d = d and sub = "build_tree mg now n", OF Suc.prems(1) _ Suc.prems(2-4) plain one])
      (rule sub)
  then have a: "stored mg fs fs1" "\<forall>fs2. same_work d fs fs2 \<longrightarrow> keeps_blobs mg fs1 fs2 \<longrightarrow> no_links (mg_root mg) fs2 \<longrightarrow>
      build_entries (build_tree mg now' n) mg now' d (fs_read_dir fs d) ([], 0, 0) fs2 = Some (Inr (es, k, z), fs2)"
    unfolding again_def by blast+
  have "store_sound mg fs1" using a(1) by (simp add: stored_def grows_def)
  note put = put_blob_stored [OF this Suc.prems(1) two(1)]
  have late: "keeps_blobs mg fs1 fs'" using put(1) by (simp add: stored_def grows_def)
  have "build_tree mg now' (Suc n) d fs2 = Some (Inr r, fs2)"
    if w: "same_work d fs fs2" and k: "keeps_blobs mg fs' fs2" and l: "no_links (mg_root mg) fs2" for fs2
  proof -
    have "lstat fs2 (d @ []) = lstat fs (d @ [])" "fs_read_dir fs2 (d @ []) = fs_read_dir fs (d @ [])"
      using w unfolding same_work_def by blast+
    with dir a(2) w keeps_trans [OF late k] l put(2) [OF k l, of now'] two(2) show ?thesis by simp
  qed
  with stored_trans [OF a(1) put(1)] show ?case by (simp add: again_def del: build_tree.simps)
qed

section \<open>What a creation leaves alone\<close>

lemma create_snapshot_built:
  assumes "store_ok mg fs" and "codec_ok mg" and "uuid_ok uuid" and "\<not> list_ex temp_like (input_tags tags)"
    and "locate True fs cwd workspace = Some src"
    and "create_snapshot mg now uuid fuel cwd workspace msg tags fs = Some (Inr i, fs')"
  obtains s g where "i = uuid" "read_snapshot mg i fs' = Inr s"
    "build_tree mg now fuel src fs = Some (Inr (sn_tree s, sn_file_count s, sn_total_size s), g)"
    "\<And>p. in_objects (mg_root mg) p \<Longrightarrow> lstat fs' p = lstat g p" "keeps_blobs mg g fs'" "store_ok mg fs'"
proof (rule create_snapshot_effect [OF assms(1-4,6)])
  fix s dir g
  assume s: "i = uuid" "sn_id s = uuid" "store_ok mg fs'" "read_snapshot mg uuid fs' = Inr s"
    and dir: "locate True fs cwd workspace = Some dir"
    and build: "build_tree mg now fuel dir fs = Some (Inr (sn_tree s, sn_file_count s, sn_total_size s), g)"
    and early: "objects_only (mg_root mg) fs g"
    and late: "\<And>q. q \<noteq> snapshots_dir mg @ [snapshot_file uuid] \<Longrightarrow> q \<noteq> snapshots_dir mg @ [uuid @ ''.tmp''] \<Longrightarrow>
       \<forall>t \<in> set (input_tags tags). q \<noteq> tags_dir mg @ [t] \<and> q \<noteq> tags_dir mg @ [tag_temp t] \<Longrightarrow>
       lstat fs' q = lstat g q"
  have obj: "lstat fs' p = lstat g p" if "in_objects (mg_root mg) p" for p
    using that by (intro late) (auto simp: in_objects_def snapshots_dir_def tags_dir_def)
  have "no_links (mg_root mg) g" "no_links (mg_root mg) fs'"
    using early assms(1) s(3) by (simp_all add: objects_only_def store_ok_def)
  moreover have "lstat fs' (mg_root mg @ ''objects'' # p) = lstat g (mg_root mg @ ''objects'' # p)" for p
    by (rule obj) (auto simp: in_objects_def)
  ultimately have "keeps_blobs mg g fs'"
    by (simp add: keeps_blobs_def get_blob_iff dirs_there_def object_path_def)
  with s dir build obj assms(5) show thesis by (intro that [of s g]) auto
qed

text \<open>The listing of a directory outside the store.\<close>

definition beyond :: "path \<Rightarrow> fsys \<Rightarrow> (path \<times> node) list" where
  "beyond root fs = filter (\<lambda>(p, _). \<forall>q. p \<noteq> root @ q) (nodes fs)"

lemma beyond_put: "beyond root (put_node (root @ p) x fs) = beyond root fs"
  by (simp add: beyond_def put_node_def filter_update)

lemma beyond_drop: "beyond root (drop_node (root @ p) fs) = beyond root fs"
  by (simp add: beyond_def drop_node_def filter_delete)

lemma beyond_outside: "outside root fs' = outside root fs \<Longrightarrow> beyond root fs' = beyond root fs"
proof -
  assume same: "outside root fs' = outside root fs"
  have "beyond root g = filter (\<lambda>(p, _). \<forall>q. p \<noteq> root @ q) (outside root g)" for g
    by (auto simp: beyond_def outside_def in_objects_def intro!: filter_cong)
  with same show ?thesis by simp
qed

lemma read_dir_beyond:
  assumes "beyond root fs' = beyond root fs" and "\<And>x q. d @ [x] \<noteq> root @ q"
  shows "fs_read_dir fs' d = fs_read_dir fs d"
proof -
  have apart: "p \<noteq> root @ q" if "p \<noteq> []" "butlast p = d" for p q
    using assms(2) [of "last p"] that append_butlast_last_id [of p] by simp
  have "filter (\<lambda>(p, _). p \<noteq> [] \<and> butlast p = d) (nodes g) =
      filter (\<lambda>(p, _). p \<noteq> [] \<and> butlast p = d) (beyond root g)" for g
    using apart by (auto simp: beyond_def intro!: filter_cong)
  then show ?thesis using assms(1) by (simp add: fs_read_dir_def)
qed

lemma through_beyond:
  assumes "plain_dir (root @ p) fs" and "plain_name s" and "plain_name t"
    and "fs_write now (root @ p) t c fs = Some fs1" and "fs_rename (root @ p) t s fs1 = Some fs2"
  shows "beyond root fs2 = beyond root fs"
proof -
  let ?d = "root @ p"
  obtain m where fs1: "fs1 = put_node (?d @ [t]) (File c m now) fs"
    using write_plain [OF assms(1,3,4)] by blast
  have "fs2 = (if s = t then fs1 else put_node (?d @ [s]) (File c m now) (drop_node (?d @ [t]) fs1))"
    using assms(2,3,5) by (auto simp: fs_rename_def locate_plain_nofollow fs1 lstat_put split: if_splits)
  then show ?thesis using beyond_put [of root] beyond_drop [of root] by (simp add: fs1)
qed

lemma write_snapshot_beyond:
  assumes "store_ok mg fs" and "uuid_ok (sn_id s)" and "write_snapshot mg now s fs = (Inr u, fs')"
  shows "beyond (mg_root mg) fs' = beyond (mg_root mg) fs"
proof -
  have temp: "plain_name (sn_id s @ ''.tmp'')"
    using temp_of_plain [OF uuid_plain [OF assms(2)]] by (simp add: uuid_temp [OF assms(2)])
  obtain fs1 where "fs_write now (snapshots_dir mg) (sn_id s @ ''.tmp'') (mg_enc mg s) fs = Some fs1"
    "fs_rename (snapshots_dir mg) (sn_id s @ ''.tmp'') (snapshot_file (sn_id s)) fs1 = Some fs'"
    using assms(3) by (auto simp: write_snapshot_def uuid_temp [OF assms(2)] split: option.splits)
  with store_dirs(1) [OF assms(1)] uuid_plain [OF assms(2)] temp show ?thesis
    unfolding snapshots_dir_def by (intro through_beyond)
qed

lemma add_tags_beyond:
  "store_ok mg fs \<Longrightarrow> list_all plain_name tags \<Longrightarrow> add_tags mg now i tags fs = (Inr u, fs') \<Longrightarrow>
     beyond (mg_root mg) fs' = beyond (mg_root mg) fs"
proof (induction tags arbitrary: fs)
  case Nil
  then show ?case by simp
next
  case (Cons tag tags)
  obtain v fs1 where one: "add_tag mg now i tag fs = (Inr v, fs1)" "add_tags mg now i tags fs1 = (Inr u, fs')"
    using Cons.prems(3) by (auto split: prod.splits sum.splits)
  have plain: "plain_name tag" "plain_name (tag_temp tag)"
    using Cons.prems(2) by (simp_all add: tag_temp_def temp_of_plain)
  obtain g where g: "fs_write now (tags_dir mg) (tag_temp tag) (bytes_of i) fs = Some g"
    "fs_rename (tags_dir mg) (tag_temp tag) tag g = Some fs1"
    using one(1) by (auto simp: add_tag_def split: option.splits)
  have "beyond (mg_root mg) fs1 = beyond (mg_root mg) fs"
    using store_dirs(2) [OF Cons.prems(1)] plain g unfolding tags_dir_def by (intro through_beyond)
  with Cons.IH [OF add_tag_effect(1) [OF Cons.prems(1) plain(1) one(1)] _ one(2)] Cons.prems(2)
  show ?case by simp
qed

text \<open>The workspace is away from the store, and no link in it leads into the store.\<close>

definition away :: "manager \<Rightarrow> fsys \<Rightarrow> path \<Rightarrow> bool" where
  "away mg fs d \<longleftrightarrow> (\<forall>p q. d @ p \<noteq> mg_root mg @ q) \<and>
     (\<forall>g q x target t. (\<forall>p. (\<forall>r. p \<noteq> mg_root mg @ r) \<longrightarrow> lstat g p = lstat fs p) \<longrightarrow>
        lstat fs (d @ q @ [x]) = Some (Link target t) \<longrightarrow> symlink_type g (d @ q) target = symlink_type fs (d @ q) target)"

lemma away_steady: "away mg fs d \<Longrightarrow> steady mg fs d"
  unfolding away_def steady_def objects_only_def in_objects_def by metis

text \<open>A creation leaves its workspace as it was, with the order of its directories.\<close>

lemma create_keeps_work:
  assumes "store_ok mg fs" and "codec_ok mg" and "hash_ok mg" and "store_sound mg fs" and "uuid_ok uuid"
    and "\<not> list_ex temp_like (input_tags tags)"
    and "locate True fs cwd workspace = Some src" and "source_ok mg fs src" and "away mg fs src"
    and "create_snapshot mg now uuid fuel cwd workspace msg tags fs = Some (Inr i, fs')"
  shows "same_work src fs fs'"
proof -
  have same: "lstat fs' p = lstat fs p" if "\<forall>q. p \<noteq> mg_root mg @ q" for p
    by (rule create_snapshot_spells [OF assms(1-8,10)]) (use that in blast)
  obtain dir s fs1 fs2 u where parts: "sn_id s = uuid" "check_all validate_tag_name (input_tags tags) = Inr ()"
    "locate True fs cwd workspace = Some dir"
    "build_tree mg now fuel dir fs = Some (Inr (sn_tree s, sn_file_count s, sn_total_size s), fs1)"
    "write_snapshot mg now s fs1 = (Inr u, fs2)" "add_tags mg now uuid (input_tags tags) fs2 = (Inr (), fs')"
    by (rule create_snapshot_parts [OF assms(10)])
  have st: "stored mg fs fs1"
    using build_tree_again [OF assms(3,4,8) away_steady [OF assms(9)], of now fuel _ fs1 now] parts(3,4) assms(7)
    by (auto simp: again_def)
  have ok1: "store_ok mg fs1" using store_ok_objects [OF assms(1)] st by (simp add: stored_def grows_def)
  have ok2: "store_ok mg fs2" using write_snapshot_effect(1) [OF ok1 _ parts(5)] parts(1) assms(5) by simp
  have plain: "list_all plain_name (input_tags tags)"
    using parts(2) valid_tag_plain by (auto simp: check_all_iff list_all_iff)
  have "beyond (mg_root mg) fs' = beyond (mg_root mg) fs"
    using add_tags_beyond [OF ok2 plain parts(6)] write_snapshot_beyond [OF ok1 _ parts(5)] parts(1) assms(5)
      beyond_outside [of "mg_root mg" fs1 fs] st
    by (simp add: stored_def)
  moreover have "\<And>x q p. (src @ p) @ [x] \<noteq> mg_root mg @ q" using assms(9) by (simp add: away_def)
  ultimately have "fs_read_dir fs' (src @ p) = fs_read_dir fs (src @ p)" for p
    by (rule read_dir_beyond)
  then show ?thesis
    using same assms(9) unfolding same_work_def away_def by metis
qed

section \<open>Properties\<close>


lemma bytes_of_inj: "bytes_of s = bytes_of t \<Longrightarrow> s = t"
  by (metis string_of_bytes)

text \<open>The objects of a store spell one tree for a hash.\<close>

inductive_cases spells_NilE: "spells mg fs n [] ts"
inductive_cases spells_ConsE: "spells mg fs n (e # es) ts"

lemma spells_unique: "spells mg fs n es ts \<Longrightarrow> spells mg fs n' es ts' \<Longrightarrow> ts' = ts"
proof (induction arbitrary: n' ts' rule: spells.induct)
  case (spells_Nil n)
  then show ?case by (rule spells_NilE)
next
  case (spells_File e c n es ts)
  note h = spells_File.hyps and ih = spells_File.IH
  from spells_File.prems show ?case
  proof (rule spells_ConsE)
    fix c' us
    assume "ts' = (te_name e, FFile c' (and (te_mode e) 4095) (te_modified e)) # us"
      "get_blob (mg_root mg) (te_hash e) fs = Inr c'" "spells mg fs n' es us"
    with h ih show ?thesis by simp
  qed (use h in auto)
next
  case (spells_Link e target n es ts)
  note h = spells_Link.hyps and ih = spells_Link.IH
  from spells_Link.prems show ?case
  proof (rule spells_ConsE)
    fix target' us
    assume e: "ts' = (te_name e, FLink target') # us"
      "get_blob (mg_root mg) (te_hash e) fs = Inr (bytes_of target')" "spells mg fs n' es us"
    then have "target' = target" using h(2) by (intro bytes_of_inj) simp
    with e(1) ih [OF e(3)] show ?thesis by simp
  qed (use h in auto)
next
  case (spells_Dir e d es' n ts1 es ts)
  note h = spells_Dir.hyps and ih = spells_Dir.IH
  from spells_Dir.prems show ?case
  proof (rule spells_ConsE)
    fix d' es2 m us1 us
    assume e: "n' = Suc m" "ts' = (te_name e, FDir us1) # us" "get_blob (mg_root mg) (te_hash e) fs = Inr d'"
      "mg_dec_tree mg d' = Some es2" "spells mg fs m es2 us1" "spells mg fs (Suc m) es us"
    then have "es2 = es'" using h(2,3) by simp
    with ih(1) e(5) ih(2) [OF e(6)] e(2) show ?thesis by simp
  qed (use h in auto)
qed

lemma spells_tree_unique: "spells_tree mg fs n h ts \<Longrightarrow> spells_tree mg fs n' h ts' \<Longrightarrow> ts' = ts"
  by (auto simp: spells_tree_def dest: spells_unique)


section \<open>Two snapshots in a row\<close>

lemma work_away: "away work_manager work_disk [''w'']"
proof -
  have root: "mg_root work_manager = [''s'']" by (simp add: spell_manager_def)
  have kind: "symlink_type g ([''w''] @ q) target = symlink_type work_disk ([''w''] @ q) target"
    if same: "\<forall>p. (\<forall>r. p \<noteq> [''s''] @ r) \<longrightarrow> lstat g p = lstat work_disk p"
      and link: "lstat work_disk ([''w''] @ q @ [x]) = Some (Link target t)" for g q x target t
  proof -
    have "[''w''] @ q @ [x] = [''w'', ''l'']"
    proof (rule ccontr)
      assume "[''w''] @ q @ [x] \<noteq> [''w'', ''l'']"
      with link show False unfolding work_disk_node by (simp split: if_splits)
    qed
    then have q: "q = []" "x = ''l''" by (simp_all add: append_eq_Cons_conv)
    with link have target: "target = ''f''" by (simp add: work_disk_node)
    have f: "lstat work_disk ([''w''] @ [''f'']) = Some (File [2] 6 0)" by (simp add: work_disk_node)
    have "lstat g ([''w''] @ [''f'']) = lstat work_disk ([''w''] @ [''f''])" using same by simp
    then have "lstat g ([''w''] @ [''f'']) = Some (File [2] 6 0)" using f by simp
    moreover have "plain_name ''f''" by (simp add: plain_name_def)
    ultimately show ?thesis using f by (simp add: symlink_type_def locate_plain q target)
  qed
  show ?thesis
    unfolding away_def root by (intro conjI allI impI) (simp, rule kind)
qed

lemma work_twice:
  "uuid_ok ''a''" "uuid_ok ''b''" "\<not> list_ex temp_like (input_tags None)" "locate True work_disk [] ''/w'' = Some [''w'']"
  by code_simp+

lemma work_created_ok:
  "store_ok work_manager work_created" "same_work [''w''] work_disk work_created"
  "locate True work_created [] ''/w'' = Some [''w'']" "store_sound work_manager work_created"
  "source_ok work_manager work_created [''w'']"
proof -
  note h = work_disk_ok(1) spell_manager_ok(2,1) work_disk_ok(2) work_twice(1,3,4) work_disk_ok(3)
  show same: "same_work [''w''] work_disk work_created"
    by (rule create_keeps_work [OF h work_away work_create])
  show "store_ok work_manager work_created"
    by (rule create_snapshot_built [OF work_disk_ok(1) spell_manager_ok(2) work_twice(1,3,4) work_create])
  show "store_sound work_manager work_created"
  proof (rule create_snapshot_built [OF work_disk_ok(1) spell_manager_ok(2) work_twice(1,3,4) work_create])
    fix s g
    assume "build_tree work_manager 0 9 [''w''] work_disk = Some (Inr (sn_tree s, sn_file_count s, sn_total_size s), g)"
      and late: "\<And>p. in_objects (mg_root work_manager) p \<Longrightarrow> lstat work_created p = lstat g p"
      and "store_ok work_manager work_created"
    then have "store_sound work_manager g"
      using build_tree_spells [OF spell_manager_ok(1) work_disk_ok(2,3)] by (simp add: built_def grows_def)
    then show "store_sound work_manager work_created"
      using late \<open>store_ok work_manager work_created\<close> by (simp add: store_sound_def store_ok_def in_objects_temp)
  qed
  have node: "lstat work_created ([''w''] @ q) = lstat work_disk ([''w''] @ q)" for q
    using same by (simp add: same_work_def)
  then show "source_ok work_manager work_created [''w'']"
    using work_disk_ok(3) node [of "[]"] unfolding source_ok_def by simp
  have "is_dir_node (lstat work_created [''w''])" using node [of "[]"] by (simp add: work_disk_node)
  then show "locate True work_created [] ''/w'' = Some [''w'']"
    by (cases "lstat work_created [''w'']" rule: is_dir_node.cases)
      (simp_all add: locate_def is_absolute_def max_links_def)
qed

lemma write_snapshot_fresh:
  assumes "store_ok mg fs" and "uuid_ok (sn_id s)" and "\<forall>p. writable fs p"
    and "lstat fs (snapshots_dir mg @ [snapshot_file (sn_id s)]) = None"
    and "lstat fs (snapshots_dir mg @ [sn_id s @ ''.tmp'']) = None"
  shows "fst (write_snapshot mg now s fs) = Inr ()"
proof -
  let ?d = "snapshots_dir mg" and ?t = "sn_id s @ ''.tmp''" and ?f = "snapshot_file (sn_id s)"
  have dir: "is_dir_node (lstat fs ?d)" using store_dirs(1) [OF assms(1)] by (simp add: plain_dir_def)
  have temp: "plain_name ?t"
    using temp_of_plain [OF uuid_plain [OF assms(2)]] by (simp add: uuid_temp [OF assms(2)])
  let ?fs1 = "put_node (?d @ [?t]) (File (mg_enc mg s) 33188 now) fs"
  have "fs_write now ?d ?t (mg_enc mg s) fs = Some ?fs1"
    using temp assms(3,5) dir by (simp add: fs_write_def locate_plain)
  moreover have "?f \<noteq> ?t" by (simp add: snapshot_file_def)
  then have "fs_rename ?d ?t ?f ?fs1 \<noteq> None"
    using temp uuid_plain [OF assms(2)] assms(3,4) dir
    by (simp add: fs_rename_def locate_plain_nofollow lstat_put)
  ultimately show ?thesis
    by (auto simp: write_snapshot_def uuid_temp [OF assms(2)])
qed

lemma work_built_again:
  "\<exists>s. build_tree work_manager 9 9 [''w''] work_created = Some (Inr (sn_tree s, sn_file_count s, sn_total_size s), work_created) \<and>
     read_snapshot work_manager ''a'' work_created = Inr s"
proof -
  obtain s g where one: "read_snapshot work_manager ''a'' work_created = Inr s" "keeps_blobs work_manager g work_created"
    "build_tree work_manager 0 9 [''w''] work_disk = Some (Inr (sn_tree s, sn_file_count s, sn_total_size s), g)"
    by (rule create_snapshot_built [OF work_disk_ok(1) spell_manager_ok(2) work_twice(1,3,4) work_create])
  have "again (build_tree work_manager 9 9) work_manager [''w''] work_disk (sn_tree s, sn_file_count s, sn_total_size s) g"
    by (rule build_tree_again [OF spell_manager_ok(1) work_disk_ok(2,3) away_steady [OF work_away] one(3)])
  with one(1,2) work_created_ok(1,2) show ?thesis by (auto simp: again_def store_ok_def)
qed

definition work_again :: fsys where
  "work_again = snd (the (create_snapshot work_manager 9 ''b'' 9 [] ''/w'' None None work_created))"

lemma work_create_again:
  "create_snapshot work_manager 9 ''b'' 9 [] ''/w'' None None work_created = Some (Inr ''b'', work_again)"
proof -
  obtain s :: snapshot where b: "build_tree work_manager 9 9 [''w''] work_created =
      Some (Inr (sn_tree s, sn_file_count s, sn_total_size s), work_created)"
    using work_built_again by blast
  let ?s = "\<lparr>sn_id = ''b'', sn_created_at = as_secs 9, sn_tree = sn_tree s, sn_message = ''Snapshot '' @ ''b'',
      sn_tags = [], sn_workspace = ''/w'', sn_file_count = sn_file_count s, sn_total_size = sn_total_size s\<rparr>"
  have free: "lstat work_created (snapshots_dir work_manager @ [n]) = None" if "n = ''b.json'' \<or> n = ''b.tmp''" for n
  proof (rule create_snapshot_effect [OF work_disk_ok(1) spell_manager_ok(2) work_twice(1,3) work_create])
    fix dir g
    let ?q = "snapshots_dir work_manager @ [n]"
    assume early: "objects_only (mg_root work_manager) work_disk g"
      and late: "\<And>q. q \<noteq> snapshots_dir work_manager @ [snapshot_file ''a''] \<Longrightarrow>
        q \<noteq> snapshots_dir work_manager @ [''a'' @ ''.tmp''] \<Longrightarrow>
        \<forall>t \<in> set (input_tags None). q \<noteq> tags_dir work_manager @ [t] \<and> q \<noteq> tags_dir work_manager @ [tag_temp t] \<Longrightarrow>
        lstat work_created q = lstat g q"
    have "lstat work_created ?q = lstat g ?q"
      using that by (intro late) (auto simp: snapshot_file_def snapshots_dir_def tags_dir_def)
    also have "\<dots> = lstat work_disk ?q"
      using early by (simp add: objects_only_def in_objects_def snapshots_dir_def)
    also have "\<dots> = None"
      using that by (auto simp: work_disk_node snapshots_dir_def spell_manager_def)
    finally show ?thesis .
  qed
  have "writable work_created = writable work_disk"
    by (rule create_snapshot_spells [OF work_disk_ok(1) spell_manager_ok(2,1) work_disk_ok(2) work_twice(1,3,4)
        work_disk_ok(3) work_create])
  then have "\<forall>p. writable work_created p" by (simp add: work_disk_def)
  then have "fst (write_snapshot work_manager 9 ?s work_created) = Inr ()"
    using free work_twice(2) by (intro write_snapshot_fresh [OF work_created_ok(1)]) (simp_all add: snapshot_file_def)
  then obtain g where "write_snapshot work_manager 9 ?s work_created = (Inr (), g)" by (metis prod.collapse)
  moreover have "input_tags None = []" by (simp add: input_tags_def)
  ultimately have "create_snapshot work_manager 9 ''b'' 9 [] ''/w'' None None work_created = Some (Inr ''b'', g)"
    using work_created_ok(3) b by (simp add: create_snapshot_def Let_def)
  then show ?thesis by (simp add: work_again_def)
qed



end
