(* ===== verification/Hazards.thy ===== *)
theory Hazards
  imports RoundTrip Daemon
begin

text \<open>
  Behaviour that a caller may not expect, each shown where it happens: restoring writes through a link,
  an id may lead out of the directory of snapshots, the hash of a tree depends on the order in which
  the directory is read, and an empty file is sent as nothing at all.
\<close>

section \<open>A link at the destination\<close>

definition link_disk :: fsys where
  "link_disk =
     \<lparr>nodes = [([''s''], Dir 0 0), ([''o''], Dir 0 0), ([''o'', ''f''], Link ''../x'' 0), ([''x''], File [9, 9] 6 0)],
      writable = (\<lambda>_. True), other_len = (\<lambda>_. 4096)\<rparr>"

text \<open>The store has the object that a file was; the restore finds the link in its place.\<close>

definition link_entry :: tree_entry where
  "link_entry = entry_of ''f'' 420 Blob (spell_hash [2]) 1 0"

definition stored_disk :: fsys where
  "stored_disk = snd (put_blob spell_hash 0 [''s''] [2] link_disk)"

definition compared_disk :: fsys where
  "compared_disk = snd (should_copy work_manager 0 [''o''] link_entry stored_disk)"

definition copied_disk :: fsys where
  "copied_disk = snd (copy_file 0 [''s''] (te_hash link_entry) [''o''] ''f'' compared_disk)"

lemma copied_disk_facts:
  "fst (should_copy work_manager 0 [''o''] link_entry stored_disk) = Inr True"
  "fst (copy_file 0 [''s''] (te_hash link_entry) [''o''] ''f'' compared_disk) = Inr ()"
  "lstat copied_disk [''x''] = Some (File [2] 33188 0)" "lstat copied_disk [''o''] = Some (Dir 0 0)"
  "lstat copied_disk [''o'', ''f''] = Some (Link ''../x'' 0)" "writable copied_disk [''x'']"
  by code_simp+

lemma through_the_link:
  assumes "\<And>p. p \<noteq> [''x''] \<Longrightarrow> lstat fs p = lstat copied_disk p" and "lstat fs [''x''] = Some (File c m s)"
  shows "locate True fs [''o''] ''f'' = Some [''x'']"
  using assms by (simp add: locate_def is_absolute_def max_links_def copied_disk_facts)

theorem restore_follows_link:
  "\<exists>fs' m. restore_blob work_manager 0 [''o''] link_entry stored_disk = (Inr (), fs') \<and>
     lstat stored_disk [''x''] = Some (File [9, 9] 6 0) \<and> lstat fs' [''x''] = Some (File [2] m 0) \<and>
     lstat fs' [''o'', ''f''] = Some (Link ''../x'' 0)"
proof -
  have before: "lstat stored_disk [''x''] = Some (File [9, 9] 6 0)" "te_name link_entry = ''f''" by code_simp+
  let ?y = "chmod_node (te_mode link_entry) (File [2] 33188 0)"
  have loc: "locate True copied_disk [''o''] ''f'' = Some [''x'']" "locate True (put_node [''x''] ?y copied_disk) [''o''] ''f'' = Some [''x'']"
    by (rule through_the_link; simp add: lstat_put copied_disk_facts)+
  have "should_copy work_manager 0 [''o''] link_entry stored_disk = (Inr True, compared_disk)"
    "copy_file 0 [''s''] (te_hash link_entry) [''o''] ''f'' compared_disk = (Inr (), copied_disk)"
    using copied_disk_facts(1,2) by (simp_all add: compared_disk_def copied_disk_def prod_eq_iff)
  moreover have "set_mode (te_mode link_entry) [''o''] ''f'' copied_disk = Some (put_node [''x''] ?y copied_disk)"
    using loc(1) by (simp add: set_mode_def fs_change_def copied_disk_facts)
  moreover have "writable (put_node [''x''] ?y copied_disk) [''x'']" using copied_disk_facts(6) by (simp add: put_node_def)
  moreover have "set_mtime (entry_time link_entry) [''o''] ''f'' (put_node [''x''] ?y copied_disk) =
      Some (put_node [''x''] (touch_node (entry_time link_entry) ?y) (put_node [''x''] ?y copied_disk))"
    using loc(2) calculation(4) by (simp add: set_mtime_def fs_change_def lstat_put)
  moreover have "entry_time link_entry = 0" by (simp add: entry_time_def link_entry_def entry_of_def as_secs_def)
  moreover have "mg_root work_manager = [''s'']" by (simp add: spell_manager_def)
  ultimately show ?thesis using before copied_disk_facts(5) by (simp add: restore_blob_def lstat_put)
qed

section \<open>An id with separators\<close>

definition stray_disk :: fsys where
  "stray_disk =
     \<lparr>nodes = [([''s''], Dir 0 0), ([''s'', ''snapshots''], Dir 0 0), ([''s'', ''refs''], Dir 0 0), ([''s'', ''refs'', ''tags''], Dir 0 0),
        ([''s'', ''x.json''], File [] 420 0)],
      writable = (\<lambda>_. True), other_len = (\<lambda>_. 4096)\<rparr>"

lemma stray_writable: "writable stray_disk p"
  by (simp add: stray_disk_def)

lemma spell_manager_dec: "mg_dec (spell_manager enc dec) = dec"
  by (simp add: spell_manager_def)

theorem id_leads_outside:
  assumes "dec [] = Some s" and "sn_tags s = []"
  shows "\<exists>fs. delete_snapshot (spell_manager enc dec) ''../x'' stray_disk = (Inr (), fs) \<and> lstat fs [''s'', ''x.json''] = None"
proof -
  let ?mg = "spell_manager enc dec" and ?p = "[''s'', ''x.json'']"
  have "locate True stray_disk (snapshots_dir ?mg) (snapshot_file ''../x'') = Some ?p"
    "locate False stray_disk (snapshots_dir ?mg) (snapshot_file ''../x'') = Some ?p"
    "lstat stray_disk ?p = Some (File [] 420 0)" by code_simp+
  moreover have "remove_tags ?mg [] stray_disk = (Inr (), stray_disk)" by simp
  ultimately show ?thesis
    using assms by (simp add: delete_snapshot_def get_snapshot_def read_snapshot_def fs_read_to_string_def fs_read_def fs_remove_file_def
        spell_manager_dec stray_writable bytes_of_def string_of_def snapshot_info_of_def lstat_drop)
qed

section \<open>The order of a directory\<close>

definition two_files :: "(path \<times> node) list \<Rightarrow> fsys" where
  "two_files fs = \<lparr>nodes = [([''s''], Dir 0 0), ([''w''], Dir 0 0)] @ fs, writable = (\<lambda>_. True), other_len = (\<lambda>_. 4096)\<rparr>"

definition tree_of :: "(path \<times> node) list \<Rightarrow> (store_error + string \<times> nat \<times> u64) option" where
  "tree_of fs = map_option fst (build_tree work_manager 0 9 [''w''] (two_files fs))"

theorem tree_hash_by_order:
  "let a = ([''w'', ''a''], File [1] 420 0); b = ([''w'', ''b''], File [2] 420 0)
   in lstat (two_files [a, b]) = lstat (two_files [b, a]) \<and> tree_of [a, b] \<noteq> tree_of [b, a]"
proof -
  have "tree_of [([''w'', ''a''], File [1] 420 0), ([''w'', ''b''], File [2] 420 0)] \<noteq>
      tree_of [([''w'', ''b''], File [2] 420 0), ([''w'', ''a''], File [1] 420 0)]"
    by code_simp
  then show ?thesis by (auto simp: Let_def lstat_def two_files_def)
qed

section \<open>An empty file\<close>

theorem empty_file_sends_nothing:
  assumes "read_file h path (dm_os d) = (Inr [], os)"
  shows "handle_download_start h rid path d = (True, d\<lparr>dm_os := os\<rparr>)"
  using assms by (simp add: handle_download_start_def chunks_Nil)

end
