(* ===== verification/ControllerTests.thy ===== *)
theory ControllerTests
  imports Server
begin

text \<open>
  The unit tests of the controller, over the model: those of \<open>server/src/registry.rs\<close> and of
  \<open>server/src/server.rs\<close>, each as the conjunction of its assertions. A test that reads the clock takes
  what it reads as arguments, in the order of the readings, and its lemma says for which readings
  it passes: those tests that compare times pass only when the clock has not moved too far.
\<close>

section \<open>Registry\<close>

definition create_test_metadata :: "string \<Rightarrow> string \<Rightarrow> daemon_metadata" where
  "create_test_metadata host pf =
     \<lparr>hostname = host, platform = pf, arch = ''x86_64'', version = ''0.1.0'', labels = []\<rparr>"

definition create_test_metadata_with_labels :: "string \<Rightarrow> string \<Rightarrow> string hmap \<Rightarrow> daemon_metadata" where
  "create_test_metadata_with_labels host pf lbls =
     \<lparr>hostname = host, platform = pf, arch = ''x86_64'', version = ''0.1.0'', labels = lbls\<rparr>"

definition test_registry_new :: bool where
  "test_registry_new = (registry_count registry_new = 0)"

definition test_register_single_daemon :: "u64 \<Rightarrow> bool" where
  "test_register_single_daemon now =
     (let meta = create_test_metadata ''host1'' ''linux'';
          conn = connection_new now ''daemon-1'' meta 0;
          registry = snd (register conn registry_new)
      in registry_count registry = 1 \<and> registry_get registry ''daemon-1'' \<noteq> None)"

text \<open>The loop that registers numbered daemons; \<open>now i\<close> is the clock in round \<open>i\<close>.\<close>

definition numbered :: "string \<Rightarrow> nat \<Rightarrow> string" where
  "numbered s i = s @ [char_of (48 + i)]"

definition register_numbered :: "(nat \<Rightarrow> u64) \<Rightarrow> nat \<Rightarrow> registry" where
  "register_numbered now n =
     fold (\<lambda>i registry.
         let meta = create_test_metadata (numbered ''host'' i) ''linux'';
             conn = connection_new (now i) (numbered ''daemon-'' i) meta i
         in snd (register conn registry))
       [0..<n] registry_new"

definition test_register_multiple_daemons :: "(nat \<Rightarrow> u64) \<Rightarrow> bool" where
  "test_register_multiple_daemons now = (registry_count (register_numbered now 5) = 5)"

definition test_register_replaces_existing :: "u64 \<Rightarrow> u64 \<Rightarrow> bool" where
  "test_register_replaces_existing now1 now2 =
     (let metadata1 = create_test_metadata ''host1'' ''linux'';
          conn1 = connection_new now1 ''daemon-1'' metadata1 0;
          registry1 = snd (register conn1 registry_new);
          metadata2 = create_test_metadata ''host2'' ''darwin'';
          conn2 = connection_new now2 ''daemon-1'' metadata2 1;
          registry2 = snd (register conn2 registry1)
      in registry_count registry1 = 1 \<and> registry_count registry2 = 1 \<and>
         (case registry_get registry2 ''daemon-1'' of
            Some a \<Rightarrow> hostname (metadata (heap registry2 a)) = ''host2''
          | None \<Rightarrow> False))"

definition test_get_existing_daemon :: "u64 \<Rightarrow> bool" where
  "test_get_existing_daemon now =
     (let meta = create_test_metadata ''host1'' ''linux'';
          conn = connection_new now ''daemon-1'' meta 0;
          registry = snd (register conn registry_new)
      in case registry_get registry ''daemon-1'' of
           Some a \<Rightarrow> conn_id (heap registry a) = ''daemon-1''
         | None \<Rightarrow> False)"

definition test_get_nonexistent_daemon :: bool where
  "test_get_nonexistent_daemon = (registry_get registry_new ''nonexistent'' = None)"

definition test_remove_daemon :: "u64 \<Rightarrow> bool" where
  "test_remove_daemon now =
     (let meta = create_test_metadata ''host1'' ''linux'';
          conn = connection_new now ''daemon-1'' meta 0;
          registry1 = snd (register conn registry_new);
          registry2 = registry_remove ''daemon-1'' registry1
      in registry_count registry1 = 1 \<and> registry_count registry2 = 0 \<and>
         registry_get registry2 ''daemon-1'' = None)"

definition test_remove_nonexistent_daemon :: bool where
  "test_remove_nonexistent_daemon = (registry_count (registry_remove ''nonexistent'' registry_new) = 0)"

definition test_list_all_no_filter :: "(nat \<Rightarrow> u64) \<Rightarrow> bool" where
  "test_list_all_no_filter now = (length (registry_list_all None (register_numbered now 3)) = 3)"

definition test_list_all_with_label_filter :: "u64 \<Rightarrow> u64 \<Rightarrow> u64 \<Rightarrow> bool" where
  "test_list_all_with_label_filter now1 now2 now3 =
     (let labels1 = hm_insert ''region'' ''us-west'' (hm_insert ''env'' ''prod'' []);
          metadata1 = create_test_metadata_with_labels ''host1'' ''linux'' labels1;
          registry = snd (register (connection_new now1 ''daemon-1'' metadata1 0) registry_new);
          labels2 = hm_insert ''region'' ''us-east'' (hm_insert ''env'' ''dev'' []);
          metadata2 = create_test_metadata_with_labels ''host2'' ''linux'' labels2;
          registry = snd (register (connection_new now2 ''daemon-2'' metadata2 1) registry);
          metadata3 = create_test_metadata ''host3'' ''linux'';
          registry = snd (register (connection_new now3 ''daemon-3'' metadata3 2) registry);
          prod_daemons = registry_list_all (Some (hm_insert ''env'' ''prod'' [])) registry;
          dev_daemons = registry_list_all (Some (hm_insert ''env'' ''dev'' [])) registry;
          multi_match = registry_list_all
            (Some (hm_insert ''region'' ''us-west'' (hm_insert ''env'' ''prod'' []))) registry;
          no_match = registry_list_all
            (Some (hm_insert ''region'' ''us-east'' (hm_insert ''env'' ''prod'' []))) registry;
          none_daemons = registry_list_all (Some (hm_insert ''env'' ''staging'' [])) registry
      in length prod_daemons = 1 \<and> prod_daemons ! 0 = ''daemon-1'' \<and>
         length dev_daemons = 1 \<and> dev_daemons ! 0 = ''daemon-2'' \<and>
         length multi_match = 1 \<and> multi_match ! 0 = ''daemon-1'' \<and>
         length no_match = 0 \<and> length none_daemons = 0 \<and>
         length (registry_list_all (Some []) registry) = 3 \<and>
         length (registry_list_all None registry) = 3)"

definition test_get_stats_empty :: "u64 \<Rightarrow> bool" where
  "test_get_stats_empty now =
     (let stats = get_stats now registry_new
      in total_daemons stats = 0 \<and> length (by_platform stats) = 0 \<and> oldest_connection_secs stats = 0)"

definition test_get_stats_with_daemons :: "u64 \<Rightarrow> u64 \<Rightarrow> u64 \<Rightarrow> u64 \<Rightarrow> bool" where
  "test_get_stats_with_daemons now1 now2 now3 now4 =
     (let metadata1 = create_test_metadata ''host1'' ''linux'';
          registry = snd (register (connection_new now1 ''daemon-1'' metadata1 0) registry_new);
          metadata2 = create_test_metadata ''host2'' ''linux'';
          registry = snd (register (connection_new now2 ''daemon-2'' metadata2 1) registry);
          metadata3 = create_test_metadata ''host3'' ''darwin'';
          registry = snd (register (connection_new now3 ''daemon-3'' metadata3 2) registry);
          stats = get_stats now4 registry
      in total_daemons stats = 3 \<and> length (by_platform stats) = 2 \<and>
         hm_get (by_platform stats) ''linux'' = Some 2 \<and>
         hm_get (by_platform stats) ''darwin'' = Some 1)"

definition test_get_stats_daemons_detail :: "u64 \<Rightarrow> u64 \<Rightarrow> bool" where
  "test_get_stats_daemons_detail now1 now2 =
     (let lbls = hm_insert ''pod'' ''sandbox-1'' [];
          meta = create_test_metadata_with_labels ''host1'' ''linux'' lbls;
          registry = snd (register (connection_new now1 ''daemon-1'' meta 0) registry_new);
          stats = get_stats now2 registry
      in total_daemons stats = length (daemons stats) \<and>
         (case hm_get (daemons stats) ''daemon-1'' of
            Some info \<Rightarrow>
              di_hostname info = ''host1'' \<and> di_platform info = ''linux'' \<and> di_arch info = ''x86_64'' \<and>
              di_version info = ''0.1.0'' \<and> hm_get (di_labels info) ''pod'' = Some ''sandbox-1'' \<and>
              \<not> di_is_busy info \<and> di_seconds_since_heartbeat info \<le> 1 \<and> di_connected_secs info \<le> 1
          | None \<Rightarrow> False))"

definition test_get_stats_daemons_reflects_reap :: "u64 \<Rightarrow> u64 \<Rightarrow> u64 \<Rightarrow> u64 \<Rightarrow> bool" where
  "test_get_stats_daemons_reflects_reap now1 now2 now3 now4 =
     (let meta = create_test_metadata ''host1'' ''linux'';
          (arc_conn, registry) = register (connection_new now1 ''daemon-1'' meta 0) registry_new;
          registry = update_arc arc_conn (last_heartbeat_update (\<lambda>_. 0)) registry;
          stats = get_stats now2 registry;
          (removed, registry') = cleanup_stale now3 0 registry;
          stats' = get_stats now4 registry'
      in (case hm_get (daemons stats) ''daemon-1'' of
            Some info \<Rightarrow> 1000 < di_seconds_since_heartbeat info
          | None \<Rightarrow> False) \<and>
         removed = 1 \<and> hm_get (daemons stats') ''daemon-1'' = None \<and>
         total_daemons stats' = 0 \<and> length (daemons stats') = 0)"

definition test_cleanup_stale_none :: "u64 \<Rightarrow> u64 \<Rightarrow> bool" where
  "test_cleanup_stale_none now1 now2 =
     (let meta = create_test_metadata ''host1'' ''linux'';
          registry = snd (register (connection_new now1 ''daemon-1'' meta 0) registry_new);
          (removed, registry) = cleanup_stale now2 3600 registry
      in removed = 0 \<and> registry_count registry = 1)"

definition test_cleanup_stale_old_connection :: "u64 \<Rightarrow> u64 \<Rightarrow> bool" where
  "test_cleanup_stale_old_connection now1 now2 =
     (let meta = create_test_metadata ''host1'' ''linux'';
          (arc_conn, registry) = register (connection_new now1 ''daemon-1'' meta 0) registry_new;
          registry = update_arc arc_conn (last_heartbeat_update (\<lambda>_. 0)) registry;
          (removed, registry) = cleanup_stale now2 0 registry
      in removed = 1 \<and> registry_count registry = 0)"

definition test_daemon_connection_heartbeat :: "u64 \<Rightarrow> u64 \<Rightarrow> bool" where
  "test_daemon_connection_heartbeat now1 now2 =
     (let conn = connection_new now1 ''daemon-1'' (create_test_metadata ''host1'' ''linux'') 0;
          initial_heartbeat = last_heartbeat conn;
          new_heartbeat = last_heartbeat (update_heartbeat now2 conn)
      in 0 < initial_heartbeat \<and> initial_heartbeat \<le> new_heartbeat)"

definition test_daemon_connection_seconds_since_heartbeat :: "u64 \<Rightarrow> u64 \<Rightarrow> u64 \<Rightarrow> bool" where
  "test_daemon_connection_seconds_since_heartbeat now1 now2 now3 =
     (let conn = connection_new now1 ''daemon-1'' (create_test_metadata ''host1'' ''linux'') 0
      in seconds_since_heartbeat now2 conn = 0 \<and>
         0 < seconds_since_heartbeat now3 (conn\<lparr>last_heartbeat := 0\<rparr>))"

named_theorems test_defs

lemmas registry_defs [test_defs] =
  registry_new_def register_def registry_get_def registry_remove_def registry_count_def registry_list_all_def
  label_match_def cleanup_stale_def is_stale_def seconds_since_heartbeat_def get_stats_def stats_entry_def
  daemon_info_of_def conn_age_def count_of_def connection_new_def update_arc_def update_heartbeat_def
  create_test_metadata_def create_test_metadata_with_labels_def Let_def is_busy_def

lemma sat_sub_zero: "sat_sub a 0 = a"
  by (simp add: sat_sub_def)

lemma registry_tests_pass:
  "test_registry_new" "test_register_single_daemon now" "test_register_replaces_existing now now2"
  "test_get_existing_daemon now" "test_get_nonexistent_daemon" "test_remove_daemon now"
  "test_remove_nonexistent_daemon" "test_get_stats_empty now"
  by (simp_all add: test_defs test_registry_new_def test_register_single_daemon_def
      test_register_replaces_existing_def test_get_existing_daemon_def test_get_nonexistent_daemon_def
      test_remove_daemon_def test_remove_nonexistent_daemon_def test_get_stats_empty_def)

lemma numbered_same [simp]: "i < 10 \<Longrightarrow> j < 10 \<Longrightarrow> numbered s i = numbered s j \<longleftrightarrow> i = j"
  by (auto simp: numbered_def)

lemma registry_numbered_tests_pass:
  "test_register_multiple_daemons clock" "test_list_all_no_filter clock"
  by (simp_all add: test_defs test_register_multiple_daemons_def test_list_all_no_filter_def register_numbered_def
      upt_rec numeral_eq_Suc)

lemma label_filter_test_passes: "test_list_all_with_label_filter now1 now2 now3"
  by (simp add: test_defs test_list_all_with_label_filter_def)

lemma stats_test_passes: "test_get_stats_with_daemons now1 now2 now3 now4"
  by (simp add: test_defs test_get_stats_with_daemons_def)

lemma stats_detail_test_passes:
  "sat_sub now2 now1 \<le> 1 \<Longrightarrow> test_get_stats_daemons_detail now1 now2"
  by (simp add: test_defs test_get_stats_daemons_detail_def)

lemma reap_tests_pass:
  "1000 < now2 \<Longrightarrow> 0 < now3 \<Longrightarrow> test_get_stats_daemons_reflects_reap now1 now2 now3 now4"
  "sat_sub now2 now1 \<le> 3600 \<Longrightarrow> test_cleanup_stale_none now1 now2"
  "0 < now2 \<Longrightarrow> test_cleanup_stale_old_connection now1 now2"
  by (simp_all add: test_defs test_get_stats_daemons_reflects_reap_def test_cleanup_stale_none_def
      test_cleanup_stale_old_connection_def sat_sub_zero not_less)

lemma heartbeat_tests_pass:
  "0 < now1 \<Longrightarrow> now1 \<le> now2 \<Longrightarrow> test_daemon_connection_heartbeat now1 now2"
  "0 < now3 \<Longrightarrow> test_daemon_connection_seconds_since_heartbeat now1 now2 now3 \<longleftrightarrow> now2 \<le> now1"
  by (auto simp: test_defs test_daemon_connection_heartbeat_def sat_sub_def
      test_daemon_connection_seconds_since_heartbeat_def)

section \<open>Heartbeats, registration and the statistics\<close>

definition test_metadata :: daemon_metadata where
  "test_metadata =
     \<lparr>hostname = ''gpu-box'', platform = ''linux'', arch = ''x86_64'', version = ''0.1.0'',
      labels = hm_insert ''env'' ''prod'' []\<rparr>"

text \<open>The receiver of the channel of \<open>registered\<close> is dropped when that returns.\<close>

definition registered :: "u64 \<Rightarrow> string \<Rightarrow> registry \<times> channels" where
  "registered now i =
     (snd (register (connection_new now i test_metadata 0) registry_new),
      channels_new\<lparr>req_chans := (req_chans channels_new)(0 := mpsc_close mpsc_new)\<rparr>)"

definition try_recv :: "channels \<Rightarrow> nat \<Rightarrow> message option" where
  "try_recv chs k = fst (mpsc_recv (req_chans chs k))"

definition send_through :: "registry \<Rightarrow> string \<Rightarrow> message \<Rightarrow> channels \<Rightarrow> ((string + unit) \<times> channels) option" where
  "send_through registry i m chs =
     map_option (\<lambda>a. send_message m (heap registry a) chs) (registry_get registry i)"

definition heartbeat_from_reaped_daemon_requires_register :: "u64 \<Rightarrow> u64 \<Rightarrow> bool" where
  "heartbeat_from_reaped_daemon_requires_register now1 now2 =
     (let (registry, _) = registered now1 ''daemon-1'';
          registry1 = registry_remove ''daemon-1'' registry;
          (known, registry2) = handle_heartbeat now2 ''daemon-1'' registry1
      in registry_count registry1 = 0 \<and> \<not> known \<and> registry_count registry2 = 0)"

definition heartbeat_from_unknown_daemon_requires_register :: "u64 \<Rightarrow> bool" where
  "heartbeat_from_unknown_daemon_requires_register now =
     (\<not> fst (handle_heartbeat now ''daemon-1'' registry_new))"

definition heartbeat_refreshes_existing_daemon :: "u64 \<Rightarrow> u64 \<Rightarrow> u64 \<Rightarrow> bool" where
  "heartbeat_refreshes_existing_daemon now1 now2 now3 =
     (let (registry, _) = registered now1 ''daemon-1'';
          (known, registry) = handle_heartbeat now2 ''daemon-1'' registry
      in known \<and> registry_count registry = 1 \<and>
         (case registry_get registry ''daemon-1'' of
            Some a \<Rightarrow> seconds_since_heartbeat now3 (heap registry a) = 0
          | None \<Rightarrow> False))"

definition reregister_routes_to_the_registering_connection :: "u64 \<Rightarrow> u64 \<Rightarrow> bool" where
  "reregister_routes_to_the_registering_connection now1 now2 =
     (let registry = snd (register (connection_new now1 ''daemon-1'' test_metadata 0) registry_new);
          registry = snd (register (connection_new now2 ''daemon-1'' test_metadata 1) registry)
      in registry_count registry = 1 \<and>
         (case send_through registry ''daemon-1'' Heartbeat channels_new of
            Some (Inr _, chs) \<Rightarrow> try_recv chs 1 \<noteq> None \<and> try_recv chs 0 = None
          | _ \<Rightarrow> False))"

definition daemon_evicted_by_a_dying_connection_recovers_on_its_next_heartbeat ::
  "u64 \<Rightarrow> u64 \<Rightarrow> u64 \<Rightarrow> u64 \<Rightarrow> u64 \<Rightarrow> bool" where
  "daemon_evicted_by_a_dying_connection_recovers_on_its_next_heartbeat now1 now2 now3 now4 now5 =
     (let (registry, chs) = registered now1 ''daemon-1'';
          registry1 = snd (register (connection_new now2 ''daemon-1'' test_metadata 1) registry);
          registry2 = registry_remove ''daemon-1'' registry1;
          (known, registry3) = handle_heartbeat now3 ''daemon-1'' registry2;
          registry4 = snd (register (connection_new now4 ''daemon-1'' test_metadata 1) registry3);
          (known', registry5) = handle_heartbeat now5 ''daemon-1'' registry4
      in registry_count registry1 = 1 \<and> registry_count registry2 = 0 \<and> \<not> known \<and>
         registry_count registry4 = 1 \<and> known' \<and>
         (case send_through registry5 ''daemon-1'' Heartbeat chs of
            Some (Inr _, chs) \<Rightarrow> try_recv chs 1 \<noteq> None
          | _ \<Rightarrow> False))"

text \<open>Reading a JSON value: the member of a member, and whether it is an unsigned number.\<close>

definition json_at :: "json \<Rightarrow> string list \<Rightarrow> json option" where
  "json_at j ks = foldl (\<lambda>v k. Option.bind v (\<lambda>j. json_get j k)) (Some j) ks"

definition is_u64 :: "json option \<Rightarrow> bool" where
  "is_u64 v = (case v of Some (JNum n) \<Rightarrow> 0 \<le> n \<and> n < 2 ^ 64 | _ \<Rightarrow> False)"

definition stats_body_exposes_each_daemon_keyed_by_id :: "u64 \<Rightarrow> u64 \<Rightarrow> bool" where
  "stats_body_exposes_each_daemon_keyed_by_id now1 now2 =
     (let (registry, _) = registered now1 ''daemon-1'';
          body = stats_body (get_stats now2 registry);
          d = (\<lambda>ks. json_at body ([''daemons'', ''daemon-1''] @ ks))
      in json_at body [''total_daemons''] = Some (JNum 1) \<and>
         json_at body [''by_platform'', ''linux''] = Some (JNum 1) \<and>
         is_u64 (json_at body [''oldest_connection_secs'']) \<and>
         d [''hostname''] = Some (JStr ''gpu-box'') \<and> d [''platform''] = Some (JStr ''linux'') \<and>
         d [''arch''] = Some (JStr ''x86_64'') \<and> d [''version''] = Some (JStr ''0.1.0'') \<and>
         d [''labels'', ''env''] = Some (JStr ''prod'') \<and> d [''is_busy''] = Some (JBool False) \<and>
         is_u64 (d [''seconds_since_heartbeat'']) \<and> is_u64 (d [''connected_secs'']))"

definition stats_body_has_empty_daemons_object_when_none_connected :: "u64 \<Rightarrow> bool" where
  "stats_body_has_empty_daemons_object_when_none_connected now =
     (let body = stats_body (get_stats now registry_new)
      in json_at body [''total_daemons''] = Some (JNum 0) \<and>
         (case json_at body [''daemons''] of Some (JObj ds) \<Rightarrow> length ds = 0 | _ \<Rightarrow> False))"

lemmas server_defs [test_defs] =
  registered_def test_metadata_def handle_heartbeat_def send_through_def send_message_def try_recv_def
  mpsc_send_def mpsc_recv_def mpsc_close_def mpsc_new_def channels_new_def stats_body_def daemon_json_def
  json_at_def is_u64_def

lemma heartbeat_route_tests_pass:
  "heartbeat_from_reaped_daemon_requires_register now1 now2"
  "heartbeat_from_unknown_daemon_requires_register now1"
  "reregister_routes_to_the_registering_connection now1 now2"
  by (simp_all add: test_defs heartbeat_from_reaped_daemon_requires_register_def
      heartbeat_from_unknown_daemon_requires_register_def reregister_routes_to_the_registering_connection_def)

lemma refresh_test_passes: "heartbeat_refreshes_existing_daemon now1 now2 now3 \<longleftrightarrow> now3 \<le> now2"
  by (auto simp: test_defs heartbeat_refreshes_existing_daemon_def sat_sub_def)

lemma recovery_test_passes:
  "daemon_evicted_by_a_dying_connection_recovers_on_its_next_heartbeat now1 now2 now3 now4 now5"
  by (simp add: test_defs daemon_evicted_by_a_dying_connection_recovers_on_its_next_heartbeat_def)

lemma uint_bounds: "0 \<le> uint (w :: u64)" "uint (w :: u64) < 18446744073709551616"
  using uint_lt2p [of w] by simp_all

lemma stats_body_tests_pass:
  "stats_body_exposes_each_daemon_keyed_by_id now1 now2"
  "stats_body_has_empty_daemons_object_when_none_connected now1"
  by (simp_all add: test_defs stats_body_exposes_each_daemon_keyed_by_id_def uint_bounds
      stats_body_has_empty_daemons_object_when_none_connected_def)

end
