(* ===== verification/WireTests.thy ===== *)
theory WireTests
  imports Wire
begin

text \<open>
  The unit tests of the protocol (\<open>protocol/src/lib.rs\<close>), over the model: each builds a message, writes it,
  reads it back and compares fields. They pass with every base64 engine that decodes what it
  encoded; the one that looks for raw bytes in the text needs an engine whose alphabet is printable.
\<close>

section \<open>The tests\<close>

text \<open>\<open>to_string\<close> and then \<open>from_str\<close>; a message that cannot be read makes \<open>unwrap\<close> panic.\<close>

definition through_json :: "base64 \<Rightarrow> message \<Rightarrow> message option" where
  "through_json w m = of_object w (to_object w m)"

definition test_message_serialization :: "base64 \<Rightarrow> bool" where
  "test_message_serialization w =
     (case through_json w (ExecuteCommand ''test-123'' ''ls -la'' 30 [] None) of
        Some (ExecuteCommand rid _ _ _ _) \<Rightarrow> rid = ''test-123''
      | _ \<Rightarrow> False)"

definition test_register_message :: "base64 \<Rightarrow> bool" where
  "test_register_message w =
     (let lbls = hm_insert ''env'' ''prod'' [];
          msg = Register ''daemon-1''
            \<lparr>hostname = ''test-host'', platform = ''linux'', arch = ''x86_64'', version = ''0.1.0'', labels = lbls\<rparr>
      in case through_json w msg of
           Some (Register i md) \<Rightarrow>
             i = ''daemon-1'' \<and> hostname md = ''test-host'' \<and> platform md = ''linux'' \<and>
             hm_get (labels md) ''env'' = Some ''prod''
         | _ \<Rightarrow> False)"

definition test_heartbeat_message :: "base64 \<Rightarrow> bool" where
  "test_heartbeat_message w =
     (case through_json w Heartbeat of Some Heartbeat \<Rightarrow> True | _ \<Rightarrow> False)"

definition test_command_output_message :: "base64 \<Rightarrow> bool" where
  "test_command_output_message w =
     (case through_json w (CommandOutput ''req-1'' ''output'' ''error'' 0 123) of
        Some (CommandOutput rid out errs code ms) \<Rightarrow>
          rid = ''req-1'' \<and> out = ''output'' \<and> errs = ''error'' \<and> code = 0 \<and> ms = 123
      | _ \<Rightarrow> False)"

definition test_session_messages :: "base64 \<Rightarrow> bool" where
  "test_session_messages w =
     (case through_json w (NewSession ''session-1'' 24 80 ''xterm-256color'') of
        Some (NewSession sid r c tm) \<Rightarrow>
          sid = ''session-1'' \<and> r = 24 \<and> c = 80 \<and> tm = ''xterm-256color''
      | _ \<Rightarrow> False)"

definition test_session_input_with_binary_data :: "base64 \<Rightarrow> bool" where
  "test_session_input_with_binary_data w =
     (let d = [1, 2, 3, 255]
      in case through_json w (SessionInput ''session-1'' d) of
           Some (SessionInput _ parsed_data) \<Rightarrow> parsed_data = d
         | _ \<Rightarrow> False)"

definition test_file_upload_messages :: "base64 \<Rightarrow> bool" where
  "test_file_upload_messages w =
     (case through_json w (FileUploadStart ''upload-1'' ''/tmp/test.txt'' 1024 (Some 420)) of
        Some (FileUploadStart rid p len md) \<Rightarrow>
          rid = ''upload-1'' \<and> p = ''/tmp/test.txt'' \<and> len = 1024 \<and> md = Some 420
      | _ \<Rightarrow> False)"

definition test_file_upload_chunk :: "base64 \<Rightarrow> bool" where
  "test_file_upload_chunk w =
     (let d = map (\<lambda>c. of_nat (of_char c)) ''test file content''
      in case through_json w (FileUploadChunk ''upload-1'' d 0) of
           Some (FileUploadChunk _ parsed_data off) \<Rightarrow> parsed_data = d \<and> off = 0
         | _ \<Rightarrow> False)"

definition test_error_message :: "base64 \<Rightarrow> bool" where
  "test_error_message w =
     (case through_json w (Error ''Something went wrong'' True) of
        Some (Error msg rec) \<Rightarrow> msg = ''Something went wrong'' \<and> rec = True
      | _ \<Rightarrow> False)"

definition test_command_with_env_vars :: "base64 \<Rightarrow> bool" where
  "test_command_with_env_vars w =
     (let env = hm_insert ''HOME'' ''/home/user'' (hm_insert ''PATH'' ''/usr/bin'' [])
      in case through_json w (ExecuteCommand ''cmd-1'' ''echo $PATH'' 60 env (Some ''/tmp'')) of
           Some (ExecuteCommand _ _ _ env cwd) \<Rightarrow>
             hm_get env ''PATH'' = Some ''/usr/bin'' \<and> hm_get env ''HOME'' = Some ''/home/user'' \<and>
             cwd = Some ''/tmp''
         | _ \<Rightarrow> False)"

definition test_default_timeout :: bool where
  "test_default_timeout = (default_timeout = 300)"

definition test_default_term :: bool where
  "test_default_term = (default_term = ''xterm-256color'')"

definition test_daemon_metadata :: bool where
  "test_daemon_metadata =
     (let lbls = hm_insert ''env'' ''staging'' (hm_insert ''region'' ''us-west'' []);
          md = \<lparr>hostname = ''worker-01'', platform = ''linux'', arch = ''aarch64'', version = ''1.0.0'', labels = lbls\<rparr>
      in hostname md = ''worker-01'' \<and> platform md = ''linux'' \<and> arch md = ''aarch64'' \<and> length (labels md) = 2)"

definition test_empty_labels :: bool where
  "test_empty_labels =
     (labels \<lparr>hostname = ''test'', platform = ''darwin'', arch = ''x86_64'', version = ''0.1.0'', labels = []\<rparr> = [])"

text \<open>The characters of the strings in a value; the text of a value has these, escaped, and punctuation.\<close>

fun json_chars :: "json \<Rightarrow> string" where
  "json_chars (JStr s) = s"
| "json_chars (JArr js) = concat (map json_chars js)"
| "json_chars (JObj fs) = concat (map (\<lambda>(k, j). k @ json_chars j) fs)"
| "json_chars _ = []"

definition test_base64_encoding :: "base64 \<Rightarrow> bool" where
  "test_base64_encoding w =
     (let d = [0, 1, 2, 255, 254, 253];
          msg = SessionOutput ''test'' d;
          text_chars = json_chars (JObj (to_object w msg))
      in CHR 0x00 \<notin> set text_chars \<and> CHR 0xFF \<notin> set text_chars \<and>
         (case through_json w msg of
            Some (SessionOutput _ parsed_data) \<Rightarrow> parsed_data = d
          | _ \<Rightarrow> False))"

definition test_session_resize :: "base64 \<Rightarrow> bool" where
  "test_session_resize w =
     (case through_json w (SessionResize ''session-1'' 50 120) of
        Some (SessionResize _ r c) \<Rightarrow> r = 50 \<and> c = 120
      | _ \<Rightarrow> False)"

definition test_file_download_error :: "base64 \<Rightarrow> bool" where
  "test_file_download_error w =
     (case through_json w (FileDownloadError ''download-1'' ''File not found'') of
        Some (FileDownloadError _ err) \<Rightarrow> err = ''File not found''
      | _ \<Rightarrow> False)"

section \<open>They pass\<close>

lemma carries_written: "carries w m (to_object w m)"
  by (cases m) (simp_all add: carries_def to_object_def)

lemma through_json_same:
  "(\<And>d. b64_decode w (b64_encode w d) = Some d) \<Longrightarrow> message_ok m \<Longrightarrow> through_json w m = Some m"
  using variant_reads [OF _ _ carries_written, of w m] carries_written [of w m]
  by (simp add: through_json_def of_object_def required_def carries_def)

lemma protocol_tests_pass:
  assumes "\<And>d. b64_decode w (b64_encode w d) = Some d"
  shows "test_message_serialization w" "test_register_message w" "test_heartbeat_message w"
    "test_command_output_message w" "test_session_messages w" "test_session_input_with_binary_data w"
    "test_file_upload_messages w" "test_file_upload_chunk w" "test_error_message w" "test_command_with_env_vars w"
    "test_session_resize w" "test_file_download_error w"
  by (simp_all add: through_json_same [OF assms] test_message_serialization_def test_register_message_def
      test_heartbeat_message_def test_command_output_message_def test_session_messages_def
      test_session_input_with_binary_data_def test_file_upload_messages_def test_file_upload_chunk_def
      test_error_message_def test_command_with_env_vars_def test_session_resize_def
      test_file_download_error_def hm_ok_def Let_def)

lemma default_tests_pass: "test_default_timeout" "test_default_term" "test_daemon_metadata" "test_empty_labels"
  by (simp_all add: test_default_timeout_def default_timeout_def test_default_term_def default_term_def
      test_daemon_metadata_def test_empty_labels_def)

lemma base64_test_passes:
  assumes "\<And>d. b64_decode w (b64_encode w d) = Some d"
    and "\<And>d c. c \<in> set (b64_encode w d) \<Longrightarrow> c \<noteq> CHR 0x00 \<and> c \<noteq> CHR 0xFF"
  shows "test_base64_encoding w"
  using assms(2) by (auto simp: test_base64_encoding_def through_json_same [OF assms(1)] to_object_def bytes_json_def Let_def)

end
