(* ===== verification/SessionTests.thy ===== *)
theory SessionTests
  imports Startup
begin

text \<open>
  The tests of the daemon's session (\<open>sandd/src/main.rs\<close>, \<open>shutdown_tests\<close>), over the model. A test runs
  \<open>serve\<close> against a controller it plays itself. What the daemon does on its own between the
  controller's frames (heartbeats, liveness checks that are not overdue) is an argument, so that a test
  stands for all its schedules; its lemma says that it passes under each of them, on a socket that
  has room for what is sent.
\<close>

section \<open>The two sides of a test\<close>

definition test_conf :: "platform_info \<Rightarrow> serve_conf" where
  "test_conf info =
     \<lparr>sc_daemon_id = ''test-daemon'', sc_heartbeat_interval = 3600, sc_metadata = metadata_of info []\<rparr>"

text \<open>A connected pair: the daemon's end, of which nothing has been read.\<close>

definition ws_pair :: "'o \<Rightarrow> nat \<Rightarrow> 'o daemon" where
  "ws_pair os room = \<lparr>dm_sessions = [], dm_os = os, dm_tx = \<lparr>sent = [], limit = room\<rparr>\<rparr>"

text \<open>The controller reads the first frame and acknowledges it; the session starts. The other frames are
  still to be read.\<close>

definition ack_registration :: "frame list \<Rightarrow> ws_in option" where
  "ack_registration fs =
     (case fs of
        Text (Register _ _) # _ \<Rightarrow> Some (InText (Some (RegisterAck True ''ok'')))
      | _ \<Rightarrow> None)"

definition start_session :: "serve_conf \<Rightarrow> 'o daemon \<Rightarrow> 'o serve_state option" where
  "start_session conf d =
     (case ack_registration (sent (dm_tx (snd (send_text (register_message conf) d)))) of
        None \<Rightarrow> None
      | Some ack \<Rightarrow>
          (case serve_start conf 0 (Inr ()) ack d of Inl _ \<Rightarrow> None | Inr st \<Rightarrow> Some st))"

definition told :: "message \<Rightarrow> serve_event" where
  "told m = Wake \<lparr>wk_now = 0, wk_shutdown = False, wk_tick = False, wk_msg = Some (InText (Some m)), wk_done = 0\<rparr>"

definition closed :: serve_event where
  "closed = Wake \<lparr>wk_now = 0, wk_shutdown = False, wk_tick = False, wk_msg = Some InClose, wk_done = 0\<rparr>"

definition signalled :: serve_event where
  "signalled = Wake \<lparr>wk_now = 0, wk_shutdown = True, wk_tick = False, wk_msg = None, wk_done = 0\<rparr>"

definition run :: "'o host \<Rightarrow> serve_conf \<Rightarrow> serve_event list \<Rightarrow> 'o serve_state \<Rightarrow> 'o serve_state" where
  "run h conf evs st = foldl (serve_step h conf) st evs"

definition unread :: "nat \<Rightarrow> 'o serve_state \<Rightarrow> frame list" where
  "unread n st = drop n (sent (dm_tx (sv_daemon st)))"

text \<open>The first message that is no heartbeat, and the frames after it; nothing once the wait times out.\<close>

fun next_non_heartbeat :: "frame list \<Rightarrow> message option \<times> frame list" where
  "next_non_heartbeat [] = (None, [])"
| "next_non_heartbeat (Text m # fs) = (if m = Heartbeat then next_non_heartbeat fs else (Some m, fs))"
| "next_non_heartbeat (CloseFrame # fs) = next_non_heartbeat fs"

section \<open>The tests\<close>

definition shutdown_sends_close_and_returns_shutdown ::
  "'o host \<Rightarrow> platform_info \<Rightarrow> 'o daemon \<Rightarrow> serve_event list \<Rightarrow> bool" where
  "shutdown_sends_close_and_returns_shutdown h info d evs =
     (case start_session (test_conf info) d of
        None \<Rightarrow> False
      | Some st \<Rightarrow>
          (let st = run h (test_conf info) (evs @ [signalled]) st
           in CloseFrame \<in> set (unread 1 st) \<and> sv_outcome st = Some Shutdown))"

definition server_close_returns_disconnected ::
  "'o host \<Rightarrow> platform_info \<Rightarrow> 'o daemon \<Rightarrow> serve_event list \<Rightarrow> bool" where
  "server_close_returns_disconnected h info d evs =
     (case start_session (test_conf info) d of
        None \<Rightarrow> False
      | Some st \<Rightarrow> sv_outcome (run h (test_conf info) (evs @ [closed]) st) = Some Disconnected)"

definition nack :: message where
  "nack = HeartbeatAck False ''daemon is not registered''"

definition rejected_heartbeat_reregisters_in_place ::
  "'o host \<Rightarrow> platform_info \<Rightarrow> 'o daemon \<Rightarrow> serve_event list \<Rightarrow> serve_event list \<Rightarrow> bool" where
  "rejected_heartbeat_reregisters_in_place h info d evs1 evs2 =
     (case start_session (test_conf info) d of
        None \<Rightarrow> False
      | Some st \<Rightarrow>
          (let st = run h (test_conf info) (evs1 @ told nack # evs2) st;
               reregistered =
                 (case next_non_heartbeat (unread 1 st) of
                    (Some (Register i md), _) \<Rightarrow> i = ''test-daemon'' \<and> hostname md \<noteq> []
                  | _ \<Rightarrow> False);
               st = run h (test_conf info) [closed] st
           in reregistered \<and> sv_outcome st = Some Disconnected))"

text \<open>Two evictions, then a command. The controller reads at most five messages for its output.\<close>

definition evict_once ::
  "'o host \<Rightarrow> serve_conf \<Rightarrow> serve_event list \<Rightarrow> nat \<times> nat \<times> 'o serve_state \<Rightarrow> nat \<times> nat \<times> 'o serve_state" where
  "evict_once h conf evs s =
     (case s of
        (registers, seen, st) \<Rightarrow>
          (let st = run h conf (told nack # evs) st
           in case next_non_heartbeat (unread seen st) of
                (Some (Register _ _), fs) \<Rightarrow>
                  (registers + 1, length (sent (dm_tx (sv_daemon st))) - length fs, st)
              | (_, fs) \<Rightarrow> (registers, length (sent (dm_tx (sv_daemon st))) - length fs, st)))"

fun command_output_in :: "nat \<Rightarrow> frame list \<Rightarrow> (string \<times> string) option" where
  "command_output_in 0 fs = None"
| "command_output_in (Suc n) fs =
     (case next_non_heartbeat fs of
        (Some (CommandOutput rid out _ _ _), _) \<Rightarrow> Some (rid, out)
      | (Some _, fs) \<Rightarrow> command_output_in n fs
      | (None, _) \<Rightarrow> None)"

definition daemon_recovers_and_keeps_serving_after_eviction ::
  "'o host \<Rightarrow> platform_info \<Rightarrow> 'o daemon \<Rightarrow> serve_event list \<Rightarrow> serve_event list \<Rightarrow> serve_event list \<Rightarrow>
     serve_event list \<Rightarrow> bool" where
  "daemon_recovers_and_keeps_serving_after_eviction h info d evs0 evs1 evs2 evs3 =
     (case start_session (test_conf info) d of
        None \<Rightarrow> False
      | Some st \<Rightarrow>
          (let conf = test_conf info;
               (registers, seen, st) =
                 evict_once h conf evs2 (evict_once h conf evs1 (0, 1, run h conf evs0 st));
               st = run h conf (told (ExecuteCommand ''recovery-1'' ''echo recovered'' 30 [] None) # evs3) st;
               output = command_output_in 5 (unread seen st);
               st = run h conf [closed] st
           in registers = 2 \<and>
              (case output of
                 Some (rid, out) \<Rightarrow> rid = ''recovery-1'' \<and> trim out = ''recovered''
               | None \<Rightarrow> False) \<and>
              sv_outcome st = Some Disconnected))"

definition successful_heartbeat_ack_is_ignored ::
  "'o host \<Rightarrow> platform_info \<Rightarrow> 'o daemon \<Rightarrow> serve_event list \<Rightarrow> serve_event list \<Rightarrow> bool" where
  "successful_heartbeat_ack_is_ignored h info d evs1 evs2 =
     (case start_session (test_conf info) d of
        None \<Rightarrow> False
      | Some st \<Rightarrow>
          (let st = run h (test_conf info) (evs1 @ told (HeartbeatAck True []) # evs2) st;
               replied = fst (next_non_heartbeat (unread 1 st));
               st = run h (test_conf info) [closed] st
           in replied = None \<and> sv_outcome st = Some Disconnected))"

definition shutdown_signal_resolves_on_sigterm :: bool where
  "shutdown_signal_resolves_on_sigterm = shutdown_signal True True False"

section \<open>What a session does on its own\<close>

text \<open>A heartbeat, or a wake-up that finds nothing or a liveness check before the deadline, which is six
  hours with the interval of the tests.\<close>

fun quiet :: "serve_event \<Rightarrow> bool" where
  "quiet Beat = True"
| "quiet Broken = False"
| "quiet (Wake wk) = (\<not> wk_shutdown wk \<and> wk_msg wk = None \<and> wk_now wk < 21600000000000)"

definition sends :: "'o serve_state \<Rightarrow> message list \<Rightarrow> 'o serve_state \<Rightarrow> bool" where
  "sends st ms st' \<longleftrightarrow> sv_outcome st' = None \<and> sv_beat st' = Beating \<and>
     dm_sessions (sv_daemon st') = dm_sessions (sv_daemon st) \<and>
     limit (dm_tx (sv_daemon st')) = limit (dm_tx (sv_daemon st)) \<and>
     sent (dm_tx (sv_daemon st')) = sent (dm_tx (sv_daemon st)) @ map Text ms"

definition idle :: "serve_conf \<Rightarrow> nat \<Rightarrow> 'o serve_state \<Rightarrow> bool" where
  "idle conf n st \<longleftrightarrow> sv_outcome st = None \<and> sv_beat st = Beating \<and>
     length (sent (dm_tx (sv_daemon st))) + n \<le> limit (dm_tx (sv_daemon st))"

lemma test_interval [simp]: "sc_heartbeat_interval (test_conf info) = 3600"
  by (simp add: test_conf_def)

lemma test_registration: "register_message (test_conf info) = Register ''test-daemon'' (metadata_of info [])"
  by (simp add: register_message_def test_conf_def)

lemma test_host_name: "hostname (metadata_of info ls) = [] \<longleftrightarrow> pi_host_name info = Some []"
  by (simp add: metadata_of_def split: option.splits)

lemma quiet_step:
  assumes "quiet ev" and "idle (test_conf info) (Suc n) st"
  shows "\<exists>k \<le> 1. sends st (replicate k Heartbeat) (serve_step h (test_conf info) st ev) \<and>
    dm_os (sv_daemon (serve_step h (test_conf info) st ev)) = dm_os (sv_daemon st)"
proof (cases ev)
  case Beat
  with assms show ?thesis
    by (intro exI [of _ 1]) (simp add: idle_def sends_def serve_step_def beat_tick_def put_frame_def tx_send_def)
next
  case (Wake wk)
  then have "\<not> ack_timeout 3600 \<le> wk_now wk - sv_last_ack st"
    using assms(1) by (simp add: ack_timeout_nat not_le less_imp_diff_less)
  with Wake assms show ?thesis
    by (intro exI [of _ 0]) (simp add: idle_def sends_def serve_step_def serve_wake_def poll_def)
qed (use assms in simp)

lemma quiet_run:
  "list_all quiet evs \<Longrightarrow> idle (test_conf info) (length evs + n) st \<Longrightarrow>
     \<exists>k \<le> length evs. sends st (replicate k Heartbeat) (run h (test_conf info) evs st) \<and>
       dm_os (sv_daemon (run h (test_conf info) evs st)) = dm_os (sv_daemon st)"
proof (induction evs arbitrary: st)
  case Nil
  then show ?case by (simp add: run_def sends_def idle_def)
next
  case (Cons ev evs)
  obtain st1 where st1: "st1 = serve_step h (test_conf info) st ev" by blast
  obtain k where k: "k \<le> 1" "sends st (replicate k Heartbeat) st1" "dm_os (sv_daemon st1) = dm_os (sv_daemon st)"
    using quiet_step [of ev info "length evs + n" st h] Cons.prems st1 by auto
  then have "idle (test_conf info) (length evs + n) st1"
    using Cons.prems(2) by (auto simp: sends_def idle_def)
  with Cons.IH Cons.prems(1) obtain k' where "k' \<le> length evs"
    "sends st1 (replicate k' Heartbeat) (run h (test_conf info) evs st1)"
    "dm_os (sv_daemon (run h (test_conf info) evs st1)) = dm_os (sv_daemon st1)" by auto
  with k st1 show ?case
    by (intro exI [of _ "k + k'"]) (auto simp: sends_def run_def replicate_add)
qed

section \<open>They pass\<close>

lemma started:
  assumes "Suc n \<le> room"
  obtains st where "start_session (test_conf info) (ws_pair os room) = Some st" "idle (test_conf info) n st"
    "sent (dm_tx (sv_daemon st)) = [Text (register_message (test_conf info))]" "dm_os (sv_daemon st) = os"
    "limit (dm_tx (sv_daemon st)) = room"
  using assms
  by (simp add: start_session_def ws_pair_def send_text_def tx_send_def register_message_def ack_registration_def
      serve_start_def idle_def)

lemma run_append: "run h conf (evs @ evs') st = run h conf evs' (run h conf evs st)"
  by (simp add: run_def)

lemma run_Cons: "run h conf (ev # evs) st = run h conf evs (serve_step h conf st ev)"
  by (simp add: run_def)

lemma sends_trans: "sends st ms st1 \<Longrightarrow> sends st1 ms' st2 \<Longrightarrow> sends st (ms @ ms') st2"
  by (simp add: sends_def)

lemma sends_idle: "sends st ms st' \<Longrightarrow> idle conf (length ms + n) st \<Longrightarrow> idle conf n st'"
  by (simp add: sends_def idle_def)

lemma idle_less: "idle conf n st \<Longrightarrow> m \<le> n \<Longrightarrow> idle conf m st"
  by (simp add: idle_def)

lemma told_nack:
  "idle (test_conf info) (Suc n) st \<Longrightarrow>
     sends st [register_message (test_conf info)] (serve_step h (test_conf info) st (told nack))"
  by (simp add: idle_def sends_def serve_step_def told_def nack_def serve_wake_def poll_def serve_frame_def
      put_frame_def tx_send_def)

lemma told_ack:
  "idle (test_conf info) n st \<Longrightarrow> sends st [] (serve_step h (test_conf info) st (told (HeartbeatAck True r)))"
  by (simp add: idle_def sends_def serve_step_def told_def serve_wake_def poll_def serve_frame_def)

lemma told_exec:
  assumes "idle (test_conf info) (Suc n) st"
    and "fst (execute (processes h) cmd wait env cwd (dm_os (sv_daemon st))) = Inr out"
  shows "sends st [CommandOutput rid (co_stdout out) (co_stderr out) (co_exit_code out) (co_duration_ms out)]
    (serve_step h (test_conf info) st (told (ExecuteCommand rid cmd wait env cwd)))"
  using assms
  by (cases "execute (processes h) cmd wait env cwd (dm_os (sv_daemon st))")
    (simp add: idle_def sends_def serve_step_def told_def serve_wake_def poll_def serve_frame_def
      handle_message_def handle_execute_def send_text_def tx_send_def)

lemma told_closed:
  assumes "idle (test_conf info) n st"
  shows "sv_outcome (run h (test_conf info) [closed] st) = Some Disconnected"
  using assms
  by (simp add: idle_def run_def serve_step_def closed_def serve_wake_def poll_def serve_frame_def finish_serve_def)

lemma told_shutdown:
  assumes "idle (test_conf info) (Suc n) st"
  shows "sv_outcome (run h (test_conf info) [signalled] st) = Some Shutdown"
    "sent (dm_tx (sv_daemon (run h (test_conf info) [signalled] st))) = sent (dm_tx (sv_daemon st)) @ [CloseFrame]"
  using assms
  by (simp_all add: idle_def run_def serve_step_def signalled_def serve_wake_def poll_def finish_serve_def
      put_frame_def tx_send_def)

lemma next_skips: "next_non_heartbeat (replicate k (Text Heartbeat) @ fs) = next_non_heartbeat fs"
  by (induction k) simp_all

lemma next_none: "next_non_heartbeat (replicate k (Text Heartbeat)) = (None, [])"
  using next_skips [of k "[]"] by simp

text \<open>A message told between stretches of quiet.\<close>

lemma quiet_sends:
  assumes "list_all quiet evs" and "idle (test_conf info) (length evs + n) st"
  obtains k where "sends st (replicate k Heartbeat) (run h (test_conf info) evs st)"
    "idle (test_conf info) n (run h (test_conf info) evs st)"
    "dm_os (sv_daemon (run h (test_conf info) evs st)) = dm_os (sv_daemon st)"
proof -
  obtain k where k: "k \<le> length evs" "sends st (replicate k Heartbeat) (run h (test_conf info) evs st)"
    "dm_os (sv_daemon (run h (test_conf info) evs st)) = dm_os (sv_daemon st)"
    using quiet_run [OF assms] by blast
  have "idle (test_conf info) n (run h (test_conf info) evs st)"
    using k(1) by (intro sends_idle [OF k(2)] idle_less [OF assms(2)]) simp
  from that [OF k(2) this k(3)] show thesis .
qed

theorem shutdown_tests_pass:
  assumes "list_all quiet evs" and "length evs + 2 \<le> room"
  shows "shutdown_sends_close_and_returns_shutdown h info (ws_pair os room) evs"
    and "server_close_returns_disconnected h info (ws_pair os room) evs"
proof -
  obtain st where st: "start_session (test_conf info) (ws_pair os room) = Some st"
    "idle (test_conf info) (Suc (length evs)) st" "sent (dm_tx (sv_daemon st)) = [Text (register_message (test_conf info))]"
    by (rule started [of "Suc (length evs)" room info os]) (use assms(2) in simp)
  obtain k where k: "sends st (replicate k Heartbeat) (run h (test_conf info) evs st)"
    "idle (test_conf info) 1 (run h (test_conf info) evs st)"
    by (rule quiet_sends [OF assms(1), of info 1 st h]) (use st(2) in simp_all)
  show "shutdown_sends_close_and_returns_shutdown h info (ws_pair os room) evs"
    using st(1,3) told_shutdown [of info 0 "run h (test_conf info) evs st" h] k
    by (simp add: shutdown_sends_close_and_returns_shutdown_def run_append unread_def sends_def)
  show "server_close_returns_disconnected h info (ws_pair os room) evs"
    using st(1) told_closed [OF k(2), of h] by (simp add: server_close_returns_disconnected_def run_append)
qed

text \<open>The session between two stretches of quiet in which one message is told.\<close>

lemma told_between:
  assumes "list_all quiet evs1" and "list_all quiet evs2"
    and "idle (test_conf info) (length evs1 + length ms + length evs2 + n) st"
    and step: "\<And>st. idle (test_conf info) (length ms) st \<Longrightarrow> dm_os (sv_daemon st) = os \<Longrightarrow>
      sends st ms (serve_step h (test_conf info) st (told m))"
    and "dm_os (sv_daemon st) = os"
  obtains k l where "sends st (replicate k Heartbeat @ ms @ replicate l Heartbeat)
      (run h (test_conf info) (evs1 @ told m # evs2) st)"
    "idle (test_conf info) n (run h (test_conf info) (evs1 @ told m # evs2) st)"
    "dm_os (sv_daemon (run h (test_conf info) (evs1 @ told m # evs2) st)) =
       dm_os (sv_daemon (serve_step h (test_conf info) (run h (test_conf info) evs1 st) (told m)))"
proof -
  obtain k where k: "sends st (replicate k Heartbeat) (run h (test_conf info) evs1 st)"
    "idle (test_conf info) (length ms + (length evs2 + n)) (run h (test_conf info) evs1 st)"
    "dm_os (sv_daemon (run h (test_conf info) evs1 st)) = os"
    by (rule quiet_sends [OF assms(1), of info "length ms + (length evs2 + n)" st h])
      (use assms(3,5) in \<open>simp_all add: add.assoc\<close>)
  let ?st = "serve_step h (test_conf info) (run h (test_conf info) evs1 st) (told m)"
  have s: "sends (run h (test_conf info) evs1 st) ms ?st"
    by (rule step [OF idle_less [OF k(2)] k(3)]) simp
  obtain l where l: "sends ?st (replicate l Heartbeat) (run h (test_conf info) evs2 ?st)"
    "idle (test_conf info) n (run h (test_conf info) evs2 ?st)"
    "dm_os (sv_daemon (run h (test_conf info) evs2 ?st)) = dm_os (sv_daemon ?st)"
    by (rule quiet_sends [OF assms(2) sends_idle [OF s k(2)]])
  from that [of k l] sends_trans [OF sends_trans [OF k(1) s] l(1)] l(2,3) show thesis
    by (simp add: run_append run_Cons)
qed

theorem heartbeat_answer_tests_pass:
  assumes "list_all quiet evs1" and "list_all quiet evs2" and "length evs1 + length evs2 + 2 \<le> room"
  shows "pi_host_name info \<noteq> Some [] \<Longrightarrow> rejected_heartbeat_reregisters_in_place h info (ws_pair os room) evs1 evs2"
    and "successful_heartbeat_ack_is_ignored h info (ws_pair os room) evs1 evs2"
proof -
  obtain st where st: "start_session (test_conf info) (ws_pair os room) = Some st"
    "idle (test_conf info) (length evs1 + length evs2 + 1) st"
    "sent (dm_tx (sv_daemon st)) = [Text (register_message (test_conf info))]"
    by (rule started [of "length evs1 + length evs2 + 1" room info os]) (use assms(3) in simp)
  obtain k l where nacked: "sends st (replicate k Heartbeat @ [register_message (test_conf info)] @ replicate l Heartbeat)
      (run h (test_conf info) (evs1 @ told nack # evs2) st)"
    "idle (test_conf info) 0 (run h (test_conf info) (evs1 @ told nack # evs2) st)"
    by (rule told_between [OF assms(1,2), of info "[register_message (test_conf info)]" 0 st "dm_os (sv_daemon st)" h nack])
      (use st(2) in \<open>simp_all add: told_nack\<close>)
  show "rejected_heartbeat_reregisters_in_place h info (ws_pair os room) evs1 evs2" if "pi_host_name info \<noteq> Some []"
    using st(1,3) nacked(1) told_closed [OF nacked(2), of h] that
    by (simp add: rejected_heartbeat_reregisters_in_place_def unread_def sends_def next_skips test_registration
        test_host_name)
  obtain k l where acked: "sends st (replicate k Heartbeat @ [] @ replicate l Heartbeat)
      (run h (test_conf info) (evs1 @ told (HeartbeatAck True []) # evs2) st)"
    "idle (test_conf info) 1 (run h (test_conf info) (evs1 @ told (HeartbeatAck True []) # evs2) st)"
    by (rule told_between [OF assms(1,2), of info "[]" 1 st "dm_os (sv_daemon st)" h "HeartbeatAck True []"])
      (use st(2) in \<open>simp_all add: told_ack\<close>)
  show "successful_heartbeat_ack_is_ignored h info (ws_pair os room) evs1 evs2"
    using st(1,3) acked(1) told_closed [OF acked(2), of h]
    by (simp add: successful_heartbeat_ack_is_ignored_def unread_def sends_def next_skips next_none)
qed

text \<open>All that is unread are heartbeats.\<close>

definition caught_up :: "platform_info \<Rightarrow> nat \<Rightarrow> 'o \<Rightarrow> nat \<times> 'o serve_state \<Rightarrow> bool" where
  "caught_up info n os s \<longleftrightarrow>
     (case s of (seen, st) \<Rightarrow> idle (test_conf info) n st \<and> dm_os (sv_daemon st) = os \<and>
        seen \<le> length (sent (dm_tx (sv_daemon st))) \<and> (\<exists>j. unread seen st = replicate j (Text Heartbeat)))"

lemma told_nack_os:
  "idle (test_conf info) (Suc n) st \<Longrightarrow>
     dm_os (sv_daemon (serve_step h (test_conf info) st (told nack))) = dm_os (sv_daemon st)"
  by (simp add: idle_def serve_step_def told_def nack_def serve_wake_def poll_def serve_frame_def put_frame_def
      tx_send_def)

lemma evicted:
  assumes "caught_up info (Suc (length evs) + n) os (seen, st)" and "list_all quiet evs"
  obtains seen' st' where "evict_once h (test_conf info) evs (r, seen, st) = (r + 1, seen', st')"
    "caught_up info n os (seen', st')"
proof -
  obtain j where c: "idle (test_conf info) (Suc (length evs) + n) st" "dm_os (sv_daemon st) = os"
    "seen \<le> length (sent (dm_tx (sv_daemon st)))" "unread seen st = replicate j (Text Heartbeat)"
    using assms(1) by (auto simp: caught_up_def)
  let ?st = "run h (test_conf info) (told nack # evs) st"
  obtain k l where s: "sends st (replicate k Heartbeat @ [register_message (test_conf info)] @ replicate l Heartbeat)
      (run h (test_conf info) ([] @ told nack # evs) st)" "idle (test_conf info) n (run h (test_conf info) ([] @ told nack # evs) st)"
    "dm_os (sv_daemon (run h (test_conf info) ([] @ told nack # evs) st)) =
       dm_os (sv_daemon (serve_step h (test_conf info) (run h (test_conf info) [] st) (told nack)))"
    by (rule told_between [of "[]" evs info "[register_message (test_conf info)]" n st os h nack])
      (use assms(2) c in \<open>simp_all add: told_nack\<close>)
  have all: "sent (dm_tx (sv_daemon ?st)) = sent (dm_tx (sv_daemon st)) @ replicate k (Text Heartbeat) @
      Text (register_message (test_conf info)) # replicate l (Text Heartbeat)"
    using s(1) by (simp add: sends_def)
  have "unread seen ?st = replicate j (Text Heartbeat) @ replicate k (Text Heartbeat) @
      Text (register_message (test_conf info)) # replicate l (Text Heartbeat)"
    using c(3,4) by (simp add: unread_def all)
  then have next_one: "next_non_heartbeat (unread seen ?st) =
      (Some (register_message (test_conf info)), replicate l (Text Heartbeat))"
    by (simp add: next_skips test_registration)
  let ?seen = "length (sent (dm_tx (sv_daemon ?st))) - l"
  have "unread ?seen ?st = replicate l (Text Heartbeat)" by (simp add: unread_def all)
  moreover have "dm_os (sv_daemon ?st) = os"
    using s(3) told_nack_os [of info "length evs + n" st h] c(1,2) by (simp add: run_def)
  ultimately have "caught_up info n os (?seen, ?st)" using s(2) by (auto simp: caught_up_def)
  moreover have "evict_once h (test_conf info) evs (r, seen, st) = (r + 1, ?seen, ?st)"
    using next_one by (simp add: evict_once_def test_registration Let_def)
  ultimately show thesis by (intro that)
qed

theorem session_recovery_test_passes:
  assumes "list_all quiet evs0" and "list_all quiet evs1" and "list_all quiet evs2" and "list_all quiet evs3"
    and "length evs0 + length evs1 + length evs2 + length evs3 + 4 \<le> room"
    and "fst (execute (processes h) ''echo recovered'' 30 [] None os) = Inr out" and "trim (co_stdout out) = ''recovered''"
  shows "daemon_recovers_and_keeps_serving_after_eviction h info (ws_pair os room) evs0 evs1 evs2 evs3"
proof -
  let ?c = "test_conf info" and ?n = "Suc (length evs1) + (Suc (length evs2) + (Suc (length evs3)))"
  obtain st where st: "start_session ?c (ws_pair os room) = Some st" "idle ?c (length evs0 + ?n) st"
    "sent (dm_tx (sv_daemon st)) = [Text (register_message ?c)]" "dm_os (sv_daemon st) = os"
    by (rule started [of "length evs0 + ?n" room info os]) (use assms(5) in simp)
  obtain k where k: "sends st (replicate k Heartbeat) (run h ?c evs0 st)" "idle ?c ?n (run h ?c evs0 st)"
    "dm_os (sv_daemon (run h ?c evs0 st)) = dm_os (sv_daemon st)"
    by (rule quiet_sends [OF assms(1) st(2)])
  then have "caught_up info ?n os (1, run h ?c evs0 st)"
    using st(3,4) by (auto simp: caught_up_def sends_def unread_def)
  then obtain seen1 st1 where one: "evict_once h ?c evs1 (0, 1, run h ?c evs0 st) = (0 + 1, seen1, st1)"
    "caught_up info (Suc (length evs2) + (Suc (length evs3))) os (seen1, st1)"
    by (rule evicted [OF _ assms(2)])
  from this(2) obtain seen2 st2 where two: "evict_once h ?c evs2 (0 + 1, seen1, st1) = (0 + 1 + 1, seen2, st2)"
    "caught_up info (Suc (length evs3)) os (seen2, st2)"
    by (rule evicted [OF _ assms(3)])
  then obtain j where j: "idle ?c (Suc (length evs3)) st2" "dm_os (sv_daemon st2) = os"
    "seen2 \<le> length (sent (dm_tx (sv_daemon st2)))" "unread seen2 st2 = replicate j (Text Heartbeat)"
    by (auto simp: caught_up_def)
  let ?exec = "ExecuteCommand ''recovery-1'' ''echo recovered'' 30 [] None"
  let ?out = "CommandOutput ''recovery-1'' (co_stdout out) (co_stderr out) (co_exit_code out) (co_duration_ms out)"
  let ?st = "run h ?c (told ?exec # evs3) st2"
  obtain k l where s: "sends st2 (replicate k Heartbeat @ [?out] @ replicate l Heartbeat)
      (run h ?c ([] @ told ?exec # evs3) st2)" "idle ?c 0 (run h ?c ([] @ told ?exec # evs3) st2)"
    by (rule told_between [of "[]" evs3 info "[?out]" 0 st2 os h ?exec])
      (use assms(4,6) j in \<open>simp_all add: told_exec\<close>)
  then have "unread seen2 ?st = replicate j (Text Heartbeat) @ replicate k (Text Heartbeat) @
      Text ?out # replicate l (Text Heartbeat)"
    using j(3,4) by (simp add: unread_def sends_def)
  then have "command_output_in 5 (unread seen2 ?st) = Some (''recovery-1'', co_stdout out)"
    by (simp add: numeral_eq_Suc next_skips)
  with st(1) one(1) two(1) told_closed [OF s(2), of h] assms(7) show ?thesis
    by (simp add: daemon_recovers_and_keeps_serving_after_eviction_def)
qed

lemma signal_test_passes: "shutdown_signal_resolves_on_sigterm"
  by (simp add: shutdown_signal_resolves_on_sigterm_def shutdown_signal_def)

end
