(* ===== verification/Success.thy ===== *)
theory Success
  imports RoundTrip
begin

text \<open>
  When a snapshot is created. Nothing but the disk makes a creation fail: if every path can be
  written and what lies in the directories of the store is what the manager puts there, storing
  some bytes, building a tree and creating a snapshot all succeed.
\<close>

section \<open>A disk that takes every write\<close>

definition takes_writes :: "fsys \<Rightarrow> bool" where
  "takes_writes fs \<longleftrightarrow> (\<forall>p. writable fs p)"

definition dir_or_none :: "node option \<Rightarrow> bool" where
  "dir_or_none x \<longleftrightarrow> x = None \<or> is_dir_node x"

definition file_or_none :: "node option \<Rightarrow> bool" where
  "file_or_none x \<longleftrightarrow> (case x of None \<Rightarrow> True | Some (File _ _ _) \<Rightarrow> True | _ \<Rightarrow> False)"

lemma kinds [simp]:
  "dir_or_none None" "file_or_none None" "file_or_none (Some (File d m t))" "dir_or_none (Some (Dir m' t))"
  by (simp_all add: dir_or_none_def file_or_none_def)

lemma file_or_none_dir: "file_or_none x \<Longrightarrow> \<not> is_dir_node x" "file_or_none x \<Longrightarrow> \<not> is_link_node x"
  by (auto simp: file_or_none_def split: option.splits node.splits)

text \<open>The places of the objects: directories where directories belong, files where files belong.\<close>

definition clear_objects :: "path \<Rightarrow> fsys \<Rightarrow> bool" where
  "clear_objects root fs \<longleftrightarrow> is_dir_node (lstat fs root) \<and> dir_or_none (lstat fs (root @ [''objects''])) \<and>
     (\<forall>h. valid_hash h \<longrightarrow> dir_or_none (lstat fs (root @ [''objects'', take 2 h])) \<and>
        file_or_none (lstat fs (object_path root h)) \<and> file_or_none (lstat fs (temp_file root h)))"

lemma clear_objectsD:
  assumes "clear_objects root fs" and "valid_hash h"
  shows "is_dir_node (lstat fs root)" "dir_or_none (lstat fs (root @ [''objects'']))"
    "dir_or_none (lstat fs (root @ [''objects'', take 2 h]))" "file_or_none (lstat fs (object_path root h))"
    "file_or_none (lstat fs (temp_file root h))"
  using assms by (simp_all add: clear_objects_def)

section \<open>Puts\<close>

lemma make_dir:
  assumes "takes_writes fs" and "is_dir_node (lstat fs d)" and "plain_name c" and "dir_or_none (lstat fs (d @ [c]))"
  shows "\<exists>fs1. make_dirs fs d (c # cs) = make_dirs fs1 (d @ [c]) cs \<and> takes_writes fs1 \<and>
    is_dir_node (lstat fs1 (d @ [c])) \<and> (\<forall>q. q \<noteq> d @ [c] \<longrightarrow> lstat fs1 q = lstat fs q)"
proof (cases "lstat fs (d @ [c])")
  case None
  with assms show ?thesis
    by (intro exI [of _ "put_node (d @ [c]) (Dir 16877 0) fs"])
      (simp add: locate_plain takes_writes_def lstat_put)
next
  case (Some x)
  with assms(4) have "is_dir_node (Some x)" by (simp add: dir_or_none_def)
  moreover from this have "locate True fs d c = Some (d @ [c])"
    using Some assms(3) by (cases x) (simp_all add: locate_plain)
  ultimately show ?thesis using Some assms(1) by (intro exI [of _ fs]) simp
qed

lemma object_dirs_made:
  assumes "takes_writes fs" and "clear_objects root fs" and "valid_hash h"
  obtains fs1 where "fs_create_dir_all root (object_dir h) fs = Some fs1"
proof -
  note c = clear_objectsD [OF assms(2,3)]
  obtain fs1 where one: "make_dirs fs root [''objects'', take 2 h] = make_dirs fs1 (root @ [''objects'']) [take 2 h]"
    "takes_writes fs1" "is_dir_node (lstat fs1 (root @ [''objects'']))"
    "\<forall>q. q \<noteq> root @ [''objects''] \<longrightarrow> lstat fs1 q = lstat fs q"
    using make_dir [OF assms(1) c(1) plain_objects c(2)] by blast
  have "dir_or_none (lstat fs1 ((root @ [''objects'']) @ [take 2 h]))" using one(4) c(3) by simp
  from make_dir [OF one(2,3) hex_parts(1) [OF assms(3)] this, of "[]"] obtain fs2 where
    "make_dirs fs1 (root @ [''objects'']) [take 2 h] = Some fs2" by auto
  with one(1) have "fs_create_dir_all root (object_dir h) fs = Some fs2"
    using hash_to_path_split(3) [OF assms(3)] not_absolute_object [of h "[]"] by (simp add: fs_create_dir_all_def)
  then show thesis by (rule that)
qed

text \<open>Once the directories are there, a temporary file that can be written is moved into place.\<close>

lemma moved_into_place:
  assumes "no_links root fs" and "valid_hash h" and "dirs_there root h fs" and "takes_writes fs"
    and "lstat fs (temp_file root h) = Some (File d m t)" and "file_or_none (lstat fs (object_path root h))"
  shows "fs_rename root (temp_path h) (object_file h) fs =
    Some (put_node (object_path root h) (File d m t) (drop_node (temp_file root h) fs))"
  using assms object_path_temp [OF assms(2), of root h] file_or_none_dir(1) [OF assms(6)]
  by (auto simp: fs_rename_def locate_temp_path locate_object_path takes_writes_def butlast_object dirs_there_def)

text \<open>What a successful put leaves, in full.\<close>

definition placed :: "path \<Rightarrow> string \<Rightarrow> fsys \<Rightarrow> fsys \<Rightarrow> bool" where
  "placed root h fs fs' \<longleftrightarrow> takes_writes fs' \<and> is_dir_node (lstat fs' (root @ [''objects''])) \<and>
     is_dir_node (lstat fs' (root @ [''objects'', take 2 h])) \<and> file_or_none (lstat fs' (object_path root h)) \<and>
     file_or_none (lstat fs' (temp_file root h)) \<and>
     (\<forall>q. q \<notin> {root @ [''objects''], root @ [''objects'', take 2 h], object_path root h, temp_file root h} \<longrightarrow>
        lstat fs' q = lstat fs q)"

lemma placed_clear:
  assumes "clear_objects root fs" and "placed root h fs fs'" and "valid_hash h"
  shows "clear_objects root fs'"
proof -
  let ?new = "{root @ [''objects''], root @ [''objects'', take 2 h], object_path root h, temp_file root h}"
  note same = assms(2) [unfolded placed_def, THEN conjunct2, THEN conjunct2, THEN conjunct2, THEN conjunct2,
      THEN conjunct2, rule_format]
  have "root \<notin> ?new" by (auto simp: object_path_def temp_file_def)
  then have root: "is_dir_node (lstat fs' root)" using assms(1) same by (simp add: clear_objects_def)
  have "dir_or_none (lstat fs' (root @ [''objects'', take 2 k])) \<and> file_or_none (lstat fs' (object_path root k)) \<and>
      file_or_none (lstat fs' (temp_file root k))" if "valid_hash k" for k
  proof (intro conjI)
    note c = clear_objectsD [OF assms(1) that]
    show "dir_or_none (lstat fs' (root @ [''objects'', take 2 k]))"
    proof (cases "take 2 k = take 2 h")
      case True
      with assms(2) show ?thesis by (simp add: placed_def dir_or_none_def)
    next
      case False
      then have "root @ [''objects'', take 2 k] \<notin> ?new" by (auto simp: object_path_def temp_file_def)
      with c(3) same show ?thesis by simp
    qed
    show "file_or_none (lstat fs' (object_path root k))"
    proof (cases "k = h")
      case True
      with assms(2) show ?thesis by (simp add: placed_def)
    next
      case False
      then have "object_path root k \<notin> ?new" using object_path_temp [OF that] by (simp add: object_path_eq)
      with c(4) same show ?thesis by simp
    qed
    show "file_or_none (lstat fs' (temp_file root k))"
    proof (cases "temp_file root k = temp_file root h")
      case True
      with assms(2) show ?thesis by (simp add: placed_def)
    next
      case False
      then have "temp_file root k \<notin> ?new" using object_path_temp [OF assms(3), of root k] by auto
      with c(5) same show ?thesis by simp
    qed
  qed
  with root assms(2) show ?thesis by (simp add: clear_objects_def placed_def dir_or_none_def)
qed

lemma store_object_succeeds:
  assumes "no_links root fs" and "takes_writes fs" and "clear_objects root fs" and "valid_hash h"
    and puts: "\<And>fs1. fs_create_dir_all root (object_dir h) fs = Some fs1 \<Longrightarrow> takes_writes fs1 \<Longrightarrow>
      file_or_none (lstat fs1 (temp_file root h)) \<Longrightarrow>
      \<exists>fs2 d m t. write_temp fs1 = (Inr fs2, fs2) \<and> only_at (temp_file root h) fs1 fs2 \<and>
        lstat fs2 (temp_file root h) = Some (File d m t)"
  obtains fs' where "store_object root h write_temp fs = (Inr h, fs')" "takes_writes fs'" "clear_objects root fs'"
proof (cases "fs_exists fs root (object_file h)")
  case True
  then have "store_object root h write_temp fs = (Inr h, fs)"
    by (simp add: store_object_def hash_to_path_split(1) [OF assms(4)])
  then show thesis using assms(2,3) by (rule that)
next
  case new: False
  obtain fs1 where fs1: "fs_create_dir_all root (object_dir h) fs = Some fs1"
    using object_dirs_made [OF assms(2-4)] .
  note d = make_object_dirs [OF assms(1,4) fs1]
  have w1: "takes_writes fs1" using assms(2) d(3) by (simp add: takes_writes_def)
  have "lstat fs1 (temp_file root h) = lstat fs (temp_file root h)"
    "lstat fs1 (object_path root h) = lstat fs (object_path root h)" by (simp_all add: d(4))
  then have f1: "file_or_none (lstat fs1 (temp_file root h))" "file_or_none (lstat fs1 (object_path root h))"
    using clear_objectsD(4,5) [OF assms(3,4)] by simp_all
  obtain fs2 c m t where fs2: "write_temp fs1 = (Inr fs2, fs2)" "only_at (temp_file root h) fs1 fs2"
    "lstat fs2 (temp_file root h) = Some (File c m t)"
    using puts [OF fs1 w1 f1(1)] by blast
  have "no_links root fs2" "dirs_there root h fs2" "takes_writes fs2"
    "lstat fs2 (object_path root h) = lstat fs1 (object_path root h)"
    using d(1,2) w1 fs2(2,3) object_path_temp [OF assms(4), of root h]
    by (auto simp: only_at_dirs only_at_def takes_writes_def intro: only_at_links [OF fs2(2)])
  then have ren: "fs_rename root (temp_path h) (object_file h) fs2 =
      Some (put_node (object_path root h) (File c m t) (drop_node (temp_file root h) fs2))"
    using moved_into_place [OF _ assms(4) _ _ fs2(3)] f1(2) by simp
  let ?fs3 = "put_node (object_path root h) (File c m t) (drop_node (temp_file root h) fs2)"
  have "placed root h fs ?fs3"
    using \<open>dirs_there root h fs2\<close> \<open>takes_writes fs2\<close> fs2(2) d(4) object_path_temp [OF assms(4), of root h]
    by (auto simp: placed_def takes_writes_def dirs_there_def lstat_put lstat_drop only_at_def)
  from that [OF _ _ placed_clear [OF assms(3) this assms(4)]] show thesis
    using new fs1 fs2(1) ren \<open>takes_writes fs2\<close>
    by (simp add: store_object_def hash_to_path_split(1) [OF assms(4)] takes_writes_def)
qed

lemma temp_written:
  assumes "no_links root fs1" and "dirs_there root h fs1" and "valid_hash h" and "takes_writes fs1"
    and "file_or_none (lstat fs1 (temp_file root h))"
  obtains m where "fs_write now root (temp_path h) c fs1 = Some (put_node (temp_file root h) (File c m now) fs1)"
  using assms locate_temp_path [OF assms(1,3), of True]
  by (cases "lstat fs1 (temp_file root h)"; cases "the (lstat fs1 (temp_file root h))")
    (auto simp: fs_write_def takes_writes_def butlast_object dirs_there_def file_or_none_def)

lemma put_blob_succeeds:
  assumes "no_links root fs" and "hash_fn H" and "takes_writes fs" and "clear_objects root fs"
  obtains fs' where "put_blob H now root c fs = (Inr (H c), fs')" "takes_writes fs'" "clear_objects root fs'"
proof -
  have ok: "valid_hash (H c)" using assms(2) by (simp add: hash_fn_def)
  show thesis
  proof (rule store_object_succeeds [OF assms(1,3,4) ok])
    fix fs1
    assume a: "fs_create_dir_all root (object_dir (H c)) fs = Some fs1" "takes_writes fs1"
      "file_or_none (lstat fs1 (temp_file root (H c)))"
    note dirs = make_object_dirs [OF assms(1) ok a(1)]
    obtain m where "fs_write now root (temp_path (H c)) c fs1 =
        Some (put_node (temp_file root (H c)) (File c m now) fs1)"
      by (rule temp_written [OF dirs(2,1) ok a(2,3)])
    then show "\<exists>fs2 d m t. (case fs_write now root (temp_path (H c)) c fs1 of
        None \<Rightarrow> (Inl IoError, fs1) | Some fs2 \<Rightarrow> (Inr fs2, fs2)) = (Inr fs2, fs2) \<and>
        only_at (temp_file root (H c)) fs1 fs2 \<and> lstat fs2 (temp_file root (H c)) = Some (File d m t)"
      by (intro exI [of _ "put_node (temp_file root (H c)) (File c m now) fs1"] exI [of _ c] exI [of _ m]
          exI [of _ now]) (simp add: only_at_put lstat_put)
  next
    fix fs'
    assume "store_object root (H c) (\<lambda>fs1. case fs_write now root (temp_path (H c)) c fs1 of
        None \<Rightarrow> (Inl IoError, fs1) | Some fs2 \<Rightarrow> (Inr fs2, fs2)) fs = (Inr (H c), fs')"
      "takes_writes fs'" "clear_objects root fs'"
    then show thesis by (intro that [of fs']) (simp_all add: put_blob_def)
  qed
qed

lemma put_file_succeeds:
  assumes "no_links root fs" and "hash_fn H" and "takes_writes fs" and "clear_objects root fs"
    and "plain_name s" and "lstat fs (base @ [s]) = Some (File c m t)"
  obtains fs' where "put_file H now root base s fs = (Inr (H c), fs')" "takes_writes fs'" "clear_objects root fs'"
proof -
  have ok: "valid_hash (H c)" using assms(2) by (simp add: hash_fn_def)
  let ?w = "\<lambda>fs1. case fs_copy now base s root (temp_path (H c)) fs1 of
      None \<Rightarrow> (Inl (Msg ''Failed to copy file to object store''), fs1) | Some fs2 \<Rightarrow> (Inr fs2, fs2)"
  show thesis
  proof (rule store_object_succeeds [OF assms(1,3,4) ok])
    fix fs1
    assume a: "fs_create_dir_all root (object_dir (H c)) fs = Some fs1" "takes_writes fs1"
      "file_or_none (lstat fs1 (temp_file root (H c)))"
    note dirs = make_object_dirs [OF assms(1) ok a(1)]
    obtain m0 where w: "fs_write now root (temp_path (H c)) c fs1 =
        Some (put_node (temp_file root (H c)) (File c m0 now) fs1)"
      by (rule temp_written [OF dirs(2,1) ok a(2,3)])
    let ?fs2 = "put_node (temp_file root (H c)) (File c m0 now) fs1"
    have "no_links root ?fs2" "dirs_there root (H c) ?fs2"
      using dirs(1,2) by (auto simp: no_links_def dirs_there_def lstat_put)
    then have "locate True ?fs2 root (temp_path (H c)) = Some (temp_file root (H c))"
      using locate_temp_path [OF _ ok] by simp
    then have "fs_copy now base s root (temp_path (H c)) fs1 =
        Some (put_node (temp_file root (H c)) (File c m now) ?fs2)"
      using dirs(5) [OF assms(6)] assms(5) w by (simp add: fs_copy_def locate_plain)
    then show "\<exists>fs2 d m t. ?w fs1 = (Inr fs2, fs2) \<and> only_at (temp_file root (H c)) fs1 fs2 \<and>
        lstat fs2 (temp_file root (H c)) = Some (File d m t)"
      by (intro exI [of _ "put_node (temp_file root (H c)) (File c m now) ?fs2"] exI [of _ c] exI [of _ m]
          exI [of _ now]) (simp add: only_at_def lstat_put)
  next
    fix fs'
    assume "store_object root (H c) ?w fs = (Inr (H c), fs')" "takes_writes fs'" "clear_objects root fs'"
    moreover have "fs_read fs base s = Some c" using assms(5,6) by (simp add: fs_read_def locate_plain)
    ultimately show thesis by (intro that [of fs']) (simp_all add: put_file_def hash_file_whole Let_def)
  qed
qed

section \<open>Trees\<close>

definition buildable :: "manager \<Rightarrow> path \<Rightarrow> fsys \<Rightarrow> bool" where
  "buildable mg d fs \<longleftrightarrow> store_sound mg fs \<and> source_ok mg fs d \<and> takes_writes fs \<and> clear_objects (mg_root mg) fs"

lemma buildable_grows:
  assumes "buildable mg d fs" and "grows mg fs fs'" and "takes_writes fs'" and "clear_objects (mg_root mg) fs'"
  shows "buildable mg d fs'" "lstat fs' (d @ q) = lstat fs (d @ q)"
  using assms source_frame(1,3) [of mg fs d fs'] by (simp_all add: buildable_def grows_def)

lemma buildable_put_blob:
  assumes "buildable mg d fs" and "hash_ok mg"
  obtains fs' where "put_blob (mg_hash mg) now (mg_root mg) c fs = (Inr (mg_hash mg c), fs')" "grows mg fs fs'"
    "takes_writes fs'" "clear_objects (mg_root mg) fs'"
proof -
  have ok: "no_links (mg_root mg) fs" "hash_fn (mg_hash mg)" "takes_writes fs" "clear_objects (mg_root mg) fs"
    "store_sound mg fs"
    using assms by (auto simp: buildable_def store_sound_def hash_ok_def)
  obtain fs' where fs': "put_blob (mg_hash mg) now (mg_root mg) c fs = (Inr (mg_hash mg c), fs')"
    "takes_writes fs'" "clear_objects (mg_root mg) fs'"
    by (rule put_blob_succeeds [OF ok(1-4)])
  from that [OF this(1) put_blob_spelled(1) [OF ok(5) assms(2) fs'(1)] fs'(2,3)] show thesis .
qed

lemma buildable_put_file:
  assumes "buildable mg d fs" and "hash_ok mg" and "plain_name x" and "lstat fs (d @ [x]) = Some (File c m t)"
  obtains fs' where "put_file (mg_hash mg) now (mg_root mg) d x fs = (Inr (mg_hash mg c), fs')" "grows mg fs fs'"
    "takes_writes fs'" "clear_objects (mg_root mg) fs'"
proof -
  have ok: "no_links (mg_root mg) fs" "hash_fn (mg_hash mg)" "takes_writes fs" "clear_objects (mg_root mg) fs"
    "store_sound mg fs"
    using assms by (auto simp: buildable_def store_sound_def hash_ok_def)
  obtain fs' where fs': "put_file (mg_hash mg) now (mg_root mg) d x fs = (Inr (mg_hash mg c), fs')"
    "takes_writes fs'" "clear_objects (mg_root mg) fs'"
    by (rule put_file_succeeds [OF ok(1-4) assms(3,4)])
  from that [OF this(1) put_file_spelled(1) [OF ok(5) assms(2-4) fs'(1)] fs'(2,3)] show thesis .
qed

text \<open>A result that is no error, on a disk that still takes writes.\<close>

definition goes_on :: "manager \<Rightarrow> fsys \<Rightarrow> (store_error + 'a) \<times> fsys \<Rightarrow> bool" where
  "goes_on mg fs res \<longleftrightarrow> (case res of (r, fs') \<Rightarrow>
     (\<exists>x. r = Inr x) \<and> grows mg fs fs' \<and> takes_writes fs' \<and> clear_objects (mg_root mg) fs')"

lemma goes_on_trans: "grows mg fs fs1 \<Longrightarrow> goes_on mg fs1 res \<Longrightarrow> goes_on mg fs res"
  by (auto simp: goes_on_def intro: grows_trans)

lemma build_entries_succeeds:
  assumes ok: "hash_ok mg"
    and sub: "\<And>x fs res. buildable mg (d @ [x]) fs \<Longrightarrow> sub (d @ [x]) fs = Some res \<Longrightarrow> goes_on mg fs res"
  shows "buildable mg d fs \<Longrightarrow> \<forall>x \<in> set names. lstat fs (d @ [x]) \<noteq> None \<Longrightarrow>
    build_entries sub mg now d names acc fs = Some res \<Longrightarrow> goes_on mg fs res"
proof (induction names arbitrary: fs acc)
  case Nil
  then show ?case by (cases acc) (auto simp: goes_on_def buildable_def grows_refl)
next
  case (Cons x names)
  obtain es k z where acc: "acc = (es, k, z)" by (cases acc)
  obtain node where node: "lstat fs (d @ [x]) = Some node" using Cons.prems(2) by auto
  then have plain: "plain_name x" using Cons.prems(1) by (auto simp: buildable_def intro: source_plain)
  have go: ?case if "grows mg fs fs1" "takes_writes fs1" "clear_objects (mg_root mg) fs1"
    "build_entries sub mg now d names acc' fs1 = Some res" for fs1 acc'
  proof -
    note b = buildable_grows [OF Cons.prems(1) that(1-3)]
    have "\<forall>y \<in> set names. lstat fs1 (d @ [y]) \<noteq> None" using Cons.prems(2) b(2) by simp
    from goes_on_trans [OF that(1) Cons.IH [OF b(1) this that(4)]] show ?thesis .
  qed
  show ?case
  proof (cases node)
    case (File c m t)
    obtain fs1 where "put_file (mg_hash mg) now (mg_root mg) d x fs = (Inr (mg_hash mg c), fs1)" "grows mg fs fs1"
      "takes_writes fs1" "clear_objects (mg_root mg) fs1"
      by (rule buildable_put_file [OF Cons.prems(1) ok plain node [unfolded File]])
    with Cons.prems(3) node File acc go show ?thesis by simp
  next
    case (Link target t)
    obtain fs1 where "put_blob (mg_hash mg) now (mg_root mg) (bytes_of target) fs = (Inr (mg_hash mg (bytes_of target)), fs1)"
      "grows mg fs fs1" "takes_writes fs1" "clear_objects (mg_root mg) fs1"
      by (rule buildable_put_blob [OF Cons.prems(1) ok])
    with Cons.prems(3) node Link acc go show ?thesis by simp
  next
    case (Dir m t)
    have "buildable mg (d @ [x]) fs"
      using Cons.prems(1) node Dir source_ok_sub [of mg fs d x] by (simp add: buildable_def)
    from sub [OF this] obtain r fs1 where "sub (d @ [x]) fs = Some (Inr r, fs1)" "grows mg fs fs1"
      "takes_writes fs1" "clear_objects (mg_root mg) fs1"
      using Cons.prems(3) node Dir acc by (cases "sub (d @ [x]) fs") (auto simp: goes_on_def split: prod.splits)
    with Cons.prems(3) node Dir acc go show ?thesis by (cases r) simp
  next
    case Special
    with Cons.prems(1,3) node acc go [of fs] show ?thesis by (simp add: buildable_def grows_refl)
  qed
qed

lemma build_tree_succeeds:
  "hash_ok mg \<Longrightarrow> buildable mg d fs \<Longrightarrow> build_tree mg now n d fs = Some res \<Longrightarrow> goes_on mg fs res"
proof (induction n arbitrary: d fs res)
  case 0
  then show ?case by simp
next
  case (Suc n)
  have dir: "is_dir_node (lstat fs d)" using Suc.prems(2) by (simp add: buildable_def source_ok_def)
  then obtain res1 where one: "build_entries (build_tree mg now n) mg now d (fs_read_dir fs d) ([], 0, 0) fs = Some res1"
    using Suc.prems(3) by (cases "build_entries (build_tree mg now n) mg now d (fs_read_dir fs d) ([], 0, 0) fs") auto
  have "goes_on mg fs res1"
    by (rule build_entries_succeeds [OF Suc.prems(1) Suc.IH [OF Suc.prems(1)] Suc.prems(2) _ one])
      (simp_all add: read_dir_names)
  then obtain es k z fs1 where fs1: "res1 = (Inr (es, k, z), fs1)" "grows mg fs fs1" "takes_writes fs1"
    "clear_objects (mg_root mg) fs1"
    by (cases res1) (auto simp: goes_on_def)
  obtain fs2 where "put_blob (mg_hash mg) now (mg_root mg) (mg_enc_tree mg es) fs1 =
      (Inr (mg_hash mg (mg_enc_tree mg es)), fs2)" "grows mg fs1 fs2" "takes_writes fs2" "clear_objects (mg_root mg) fs2"
    by (rule buildable_put_blob [OF buildable_grows(1) [OF Suc.prems(2) fs1(2-4)] Suc.prems(1)])
  with Suc.prems(3) dir one fs1 grows_trans [OF fs1(2)] show ?case by (auto simp: goes_on_def)
qed

section \<open>Snapshots\<close>

definition files_only :: "path \<Rightarrow> fsys \<Rightarrow> bool" where
  "files_only d fs \<longleftrightarrow> (\<forall>x. file_or_none (lstat fs (d @ [x])))"

lemma through_succeeds:
  assumes "plain_dir d fs" and "plain_name s" and "plain_name t" and "takes_writes fs" and "files_only d fs"
  obtains fs1 fs2 where "fs_write now d t c fs = Some fs1" "fs_rename d t s fs1 = Some fs2" "takes_writes fs2"
    "files_only d fs2" "writable fs2 = writable fs"
proof -
  have d: "is_dir_node (lstat fs d)" "file_or_none (lstat fs (d @ [t]))" "file_or_none (lstat fs (d @ [s]))"
    "locate True fs d t = Some (d @ [t])"
    using assms(1,3,5) by (simp_all add: plain_dir_def files_only_def locate_plain)
  obtain m where w: "fs_write now d t c fs = Some (put_node (d @ [t]) (File c m now) fs)"
    using d assms(4)
    by (cases "lstat fs (d @ [t])"; cases "the (lstat fs (d @ [t]))")
      (auto simp: fs_write_def takes_writes_def file_or_none_def)
  let ?fs1 = "put_node (d @ [t]) (File c m now) fs"
  let ?fs2 = "if s = t then ?fs1 else put_node (d @ [s]) (File c m now) (drop_node (d @ [t]) ?fs1)"
  have "fs_rename d t s ?fs1 = Some ?fs2"
    using assms(2-4) d(1) file_or_none_dir(1) [OF d(3)]
    by (simp add: fs_rename_def locate_plain_nofollow lstat_put takes_writes_def)
  moreover have "takes_writes ?fs2" "writable ?fs2 = writable fs" "files_only d ?fs2"
    using assms(4,5) by (auto simp: takes_writes_def files_only_def lstat_put lstat_drop)
  ultimately show thesis using w by (intro that)
qed

text \<open>A store that works: \<open>ready\<close> says it of the disk, and every creation keeps it.\<close>

definition store_ready :: "manager \<Rightarrow> fsys \<Rightarrow> bool" where
  "store_ready mg fs \<longleftrightarrow> store_ok mg fs \<and> store_sound mg fs \<and> takes_writes fs \<and> clear_objects (mg_root mg) fs \<and>
     files_only (snapshots_dir mg) fs \<and> files_only (tags_dir mg) fs"

lemma ready_write:
  assumes "store_ready mg fs" and "d = snapshots_dir mg \<or> d = tags_dir mg" and "plain_name s" and "plain_name t"
  obtains fs1 fs2 where "fs_write now d t c fs = Some fs1" "fs_rename d t s fs1 = Some fs2" "store_ready mg fs2"
    "\<forall>q. q \<noteq> d @ [s] \<longrightarrow> lstat fs2 q = (if q = d @ [t] then None else lstat fs q)"
proof -
  have r: "store_ok mg fs" "store_sound mg fs" "takes_writes fs" "clear_objects (mg_root mg) fs"
    "files_only (snapshots_dir mg) fs" "files_only (tags_dir mg) fs"
    using assms(1) by (simp_all add: store_ready_def)
  have d: "plain_dir d fs" "files_only d fs" using store_dirs [OF r(1)] r(5,6) assms(2) by blast+
  obtain fs1 fs2 where fs2: "fs_write now d t c fs = Some fs1" "fs_rename d t s fs1 = Some fs2" "takes_writes fs2"
    "files_only d fs2"
    by (rule through_succeeds [OF d(1) assms(3,4) r(3) d(2)])
  note eff = write_through [OF d(1) assms(3,4) fs2(1,2)]
  have ok: "store_ok mg fs2"
    using eff(2) by (intro store_ok_write [OF r(1) assms(2) eff(3)]) auto
  have objects: "lstat fs2 (mg_root mg @ ''objects'' # q) = lstat fs (mg_root mg @ ''objects'' # q)"
    and root: "lstat fs2 (mg_root mg) = lstat fs (mg_root mg)" for q
    using assms(2) eff(3) by (auto simp: snapshots_dir_def tags_dir_def)
  have other: "files_only d' fs2" if "d' = snapshots_dir mg \<or> d' = tags_dir mg" for d'
  proof (cases "d' = d")
    case False
    with that assms(2) have "lstat fs2 (d' @ [x]) = lstat fs (d' @ [x])" for x
      using eff(3) by (auto simp: snapshots_dir_def tags_dir_def)
    then show ?thesis using that r(5,6) by (auto simp: files_only_def)
  qed (use fs2(4) in simp)
  have "store_sound mg fs2" "clear_objects (mg_root mg) fs2"
    using r(2,4) ok objects root by (simp_all add: store_sound_def clear_objects_def store_ok_def object_path_def temp_file_def)
  then have "store_ready mg fs2" using ok fs2(3) other by (simp add: store_ready_def)
  with that [OF fs2(1,2)] eff(3) show thesis by blast
qed

lemma write_snapshot_succeeds:
  assumes "store_ready mg fs" and "uuid_ok (sn_id s)"
  obtains fs' where "write_snapshot mg now s fs = (Inr (), fs')" "store_ready mg fs'"
proof -
  have temp: "plain_name (sn_id s @ ''.tmp'')"
    using temp_of_plain [OF uuid_plain [OF assms(2)]] by (simp add: uuid_temp [OF assms(2)])
  obtain fs1 fs2 where "fs_write now (snapshots_dir mg) (sn_id s @ ''.tmp'') (mg_enc mg s) fs = Some fs1"
    "fs_rename (snapshots_dir mg) (sn_id s @ ''.tmp'') (snapshot_file (sn_id s)) fs1 = Some fs2" "store_ready mg fs2"
    "\<forall>q. q \<noteq> snapshots_dir mg @ [snapshot_file (sn_id s)] \<longrightarrow>
      lstat fs2 q = (if q = snapshots_dir mg @ [sn_id s @ ''.tmp''] then None else lstat fs q)"
    by (rule ready_write [OF assms(1) disjI1 [OF refl] uuid_plain [OF assms(2)] temp])
  then show thesis by (intro that [of fs2]) (simp_all add: write_snapshot_def uuid_temp [OF assms(2)])
qed

lemma add_tags_succeed:
  "store_ready mg fs \<Longrightarrow> list_all plain_name tags \<Longrightarrow>
     \<exists>fs'. add_tags mg now i tags fs = (Inr (), fs') \<and> store_ready mg fs'"
proof (induction tags arbitrary: fs)
  case Nil
  then show ?case by simp
next
  case (Cons tag tags)
  have plain: "plain_name tag" "plain_name (tag_temp tag)"
    using Cons.prems(2) by (simp_all add: tag_temp_def temp_of_plain)
  obtain fs1 fs2 where "fs_write now (tags_dir mg) (tag_temp tag) (bytes_of i) fs = Some fs1"
    "fs_rename (tags_dir mg) (tag_temp tag) tag fs1 = Some fs2" "store_ready mg fs2"
    "\<forall>q. q \<noteq> tags_dir mg @ [tag] \<longrightarrow> lstat fs2 q = (if q = tags_dir mg @ [tag_temp tag] then None else lstat fs q)"
    by (rule ready_write [OF Cons.prems(1) disjI2 [OF refl] plain])
  with Cons.IH [of fs2] Cons.prems(2) show ?case by (simp add: add_tag_def)
qed

lemma ready_creates:
  assumes "store_ready mg fs" and "hash_ok mg" and "uuid_ok uuid"
    and "\<forall>t \<in> set (input_tags tags). validate_tag_name t = Inr () \<and> lstat fs (tags_dir mg @ [t]) = None"
    and "locate True fs cwd workspace = Some src" and "source_ok mg fs src" and "depth_bound mg fs < fuel"
  obtains fs' where "create_snapshot mg now uuid fuel cwd workspace msg tags fs = Some (Inr uuid, fs')"
    "store_ready mg fs'"
proof -
  let ?tags = "input_tags tags"
  have r: "store_ok mg fs" "store_sound mg fs" "takes_writes fs" "clear_objects (mg_root mg) fs"
    "files_only (snapshots_dir mg) fs" "files_only (tags_dir mg) fs"
    using assms(1) by (simp_all add: store_ready_def)
  have valid: "check_all validate_tag_name ?tags = Inr ()" using assms(4) by (simp add: check_all_iff)
  have plain: "plain_name t" if "t \<in> set ?tags" for t
    using assms(4) that valid_tag_plain by blast
  have "tag_is_free mg fs t = Inr ()" if "t \<in> set ?tags" for t
    using assms(4) that read_plain(2) [OF store_dirs(2) [OF r(1)] plain [OF that]] by (simp add: tag_is_free_def)
  then have free: "check_all (tag_is_free mg fs) ?tags = Inr ()" by (simp add: check_all_iff)
  have "build_tree mg now fuel src fs \<noteq> None"
    using build_tree_returns [OF _ depth_bound_root [of mg fs] _ dirs_within_bound, of fuel src now] r(2) assms(2,7)
    by (simp add: hash_ok_def store_sound_def)
  then obtain res where res: "build_tree mg now fuel src fs = Some res" by blast
  have "buildable mg src fs" using r(2-4) assms(6) by (simp add: buildable_def)
  from build_tree_succeeds [OF assms(2) this res] obtain h k z fs1 where
    fs1: "res = (Inr (h, k, z), fs1)" "grows mg fs fs1" "takes_writes fs1" "clear_objects (mg_root mg) fs1"
    by (cases res) (auto simp: goes_on_def)
  have frame: "objects_only (mg_root mg) fs fs1" "store_sound mg fs1" using fs1(2) by (simp_all add: grows_def)
  have "lstat fs1 (snapshots_dir mg @ [x]) = lstat fs (snapshots_dir mg @ [x])"
    "lstat fs1 (tags_dir mg @ [x]) = lstat fs (tags_dir mg @ [x])" for x
    using frame by (auto simp: objects_only_def in_objects_def snapshots_dir_def tags_dir_def)
  then have ready: "store_ready mg fs1"
    using r(5,6) fs1(3,4) frame(2) store_ok_objects [OF r(1) frame(1)] by (simp add: store_ready_def files_only_def)
  let ?s = "\<lparr>sn_id = uuid, sn_created_at = as_secs now, sn_tree = h,
      sn_message = (case msg of None \<Rightarrow> ''Snapshot '' @ uuid | Some m \<Rightarrow> m),
      sn_tags = ?tags, sn_workspace = workspace, sn_file_count = k, sn_total_size = z\<rparr>"
  obtain fs2 where fs2: "write_snapshot mg now ?s fs1 = (Inr (), fs2)" "store_ready mg fs2"
    by (rule write_snapshot_succeeds [OF ready, of ?s]) (simp_all add: assms(3))
  from add_tags_succeed [OF fs2(2), of ?tags now uuid] plain obtain fs3 where
    "add_tags mg now uuid ?tags fs2 = (Inr (), fs3)" "store_ready mg fs3" by (auto simp: list_all_iff)
  with that [of fs3] valid free assms(5) res fs1(1) fs2(1) show thesis by (simp add: create_snapshot_def)
qed


lemma work_disk_ready: "store_ready work_manager work_disk"
proof -
  have dirs: "mg_root work_manager = [''s'']" by (simp add: spell_manager_def)
  have "takes_writes work_disk" by (simp add: takes_writes_def work_disk_def)
  moreover have "clear_objects [''s''] work_disk" "files_only [''s'', ''snapshots''] work_disk"
    "files_only [''s'', ''refs'', ''tags''] work_disk"
    by (simp_all add: clear_objects_def files_only_def work_disk_node object_path_def temp_file_def)
  ultimately show ?thesis
    using work_disk_ok(1,2) by (simp add: store_ready_def snapshots_dir_def tags_dir_def dirs)
qed


end
