(* ===== verification/StoreTests.thy ===== *)
theory StoreTests
  imports Success
begin

text \<open>
  The unit tests of the object store (\<open>sandd/src/snapshot/object_store.rs\<close>), over the model. A test gets the
  fresh temporary directory it asks for, the hash function and the clock at each write; it passes with
  every hash function that has the documented form.
\<close>

section \<open>The tests\<close>

definition test_put_and_get_blob :: "(bytes \<Rightarrow> string) \<Rightarrow> nat \<Rightarrow> path \<Rightarrow> fsys \<Rightarrow> bool" where
  "test_put_and_get_blob H now temp_dir fs =
     (let content = bytes_of ''Hello, world!''
      in case put_blob H now temp_dir content fs of
           (Inr hash, fs) \<Rightarrow> get_blob temp_dir hash fs = Inr content
         | _ \<Rightarrow> False)"

definition modified_at :: "fsys \<Rightarrow> path \<Rightarrow> string \<Rightarrow> nat option" where
  "modified_at fs base s = map_option snd (fs_metadata fs base s)"

definition test_deduplication :: "(bytes \<Rightarrow> string) \<Rightarrow> nat \<Rightarrow> nat \<Rightarrow> path \<Rightarrow> fsys \<Rightarrow> bool" where
  "test_deduplication H now1 now2 temp_dir fs =
     (let content = bytes_of ''Same content''
      in case put_blob H now1 temp_dir content fs of
           (Inr hash1, fs1) \<Rightarrow>
             (case hash_to_path hash1 of
                Inr blob_path \<Rightarrow>
                  (case (modified_at fs1 temp_dir blob_path, put_blob H now2 temp_dir content fs1) of
                     (Some first_modified, (Inr hash2, fs2)) \<Rightarrow>
                       hash1 = hash2 \<and> object_exists temp_dir hash1 fs2 \<and>
                       modified_at fs2 temp_dir blob_path = Some first_modified
                   | _ \<Rightarrow> False)
              | _ \<Rightarrow> False)
         | _ \<Rightarrow> False)"

definition test_hash_sharding :: "path \<Rightarrow> bool" where
  "test_hash_sharding temp_dir =
     (case hash_to_path ''abc123def456789'' of
        Inr p \<Rightarrow>
          (let components = temp_dir @ split_on CHR ''/'' p
           in 3 \<le> length components \<and> components ! (length components - 2) = ''ab'' \<and>
              components ! (length components - 1) = ''c123def456789'')
      | _ \<Rightarrow> False)"

definition is_ok :: "'e + 'a \<Rightarrow> bool" where
  "is_ok r = (case r of Inl _ \<Rightarrow> False | Inr _ \<Rightarrow> True)"

definition test_hash_validation :: bool where
  "test_hash_validation =
     (is_ok (hash_to_path ''abc123'') \<and> is_ok (hash_to_path ''def456789abcdef'') \<and>
      \<not> is_ok (hash_to_path ''ab'') \<and> \<not> is_ok (hash_to_path ''a'') \<and> \<not> is_ok (hash_to_path []) \<and>
      \<not> is_ok (hash_to_path ''../etc/passwd'') \<and> \<not> is_ok (hash_to_path ''..'') \<and>
      \<not> is_ok (hash_to_path ''ab/../cd'') \<and> \<not> is_ok (hash_to_path ''abc/123''))"

definition test_large_file_streaming :: "(bytes \<Rightarrow> string) \<Rightarrow> nat \<Rightarrow> nat \<Rightarrow> nat \<Rightarrow> path \<Rightarrow> fsys \<Rightarrow> bool" where
  "test_large_file_streaming H now1 now2 now3 temp_dir fs =
     (let chunk = replicate (1024 * 1024) 0xAB
      in case fs_write now1 temp_dir ''large.bin'' (concat (replicate 10 chunk)) fs of
           None \<Rightarrow> False
         | Some fs \<Rightarrow>
             (case put_file H now2 temp_dir temp_dir ''large.bin'' fs of
                (Inr hash, fs) \<Rightarrow>
                  object_exists temp_dir hash fs \<and>
                  fst (put_file H now3 temp_dir temp_dir ''large.bin'' fs) = Inr hash
              | _ \<Rightarrow> False))"

section \<open>They pass\<close>

definition fresh_dir :: "path \<Rightarrow> fsys \<Rightarrow> bool" where
  "fresh_dir d fs \<longleftrightarrow> takes_writes fs \<and> is_dir_node (lstat fs d) \<and> (\<forall>x q. lstat fs (d @ x # q) = None)"

lemma is_dir_no_link: "is_dir_node x \<Longrightarrow> \<not> is_link_node x"
  by (cases x rule: is_dir_node.cases) simp_all

lemma fresh_store:
  assumes "fresh_dir d fs"
  shows "no_links d fs" "clear_objects d fs"
proof -
  have "\<not> is_link_node (lstat fs (d @ p))" for p
    using assms by (cases p) (auto simp: fresh_dir_def is_dir_no_link)
  then show "no_links d fs" by (simp add: no_links_def)
  show "clear_objects d fs"
    using assms by (simp add: fresh_dir_def clear_objects_def object_path_def temp_file_def)
qed

lemma new_object:
  assumes "put_effect root h c fs (Inr h, fs')" and "valid_hash h" and "\<not> fs_exists fs root (object_file h)"
  obtains m t where "no_links root fs'" "dirs_there root h fs'" "lstat fs' (object_path root h) = Some (File c m t)"
proof -
  have "no_links root fs' \<and> dirs_there root h fs' \<and> (\<exists>m t. lstat fs' (object_path root h) = Some (File c m t))"
    using assms(1,3) unfolding put_effect_def prod.case by simp
  then show thesis using that by blast
qed

lemma object_there:
  assumes "no_links root fs" and "dirs_there root h fs" and "lstat fs (object_path root h) = Some (File c m t)"
    and "valid_hash h"
  shows "fs_exists fs root (object_file h)" "object_exists root h fs" "modified_at fs root (object_file h) = Some t"
    "get_blob root h fs = Inr c"
  using assms hash_to_path_split(1) [OF assms(4)]
  by (simp_all add: exists_object object_exists_def modified_at_def fs_metadata_def locate_object_path get_object)

lemma store_tests_pass:
  assumes "fresh_dir d fs" and "hash_fn H"
  shows "test_put_and_get_blob H now d fs" "test_deduplication H now1 now2 d fs"
proof -
  note s = fresh_store [OF assms(1)]
  have new: "\<not> fs_exists fs d (object_file h)" if "valid_hash h" for h
    using assms(1) exists_object [OF s(1) that] by (simp add: fresh_dir_def object_path_def)
  have one: "\<exists>fs' m t. put_blob H now d c fs = (Inr (H c), fs') \<and> no_links d fs' \<and> dirs_there d (H c) fs' \<and>
      lstat fs' (object_path d (H c)) = Some (File c m t)" for c now
  proof -
    have ok: "valid_hash (H c)" using assms(2) by (simp add: hash_fn_def)
    obtain fs' where put: "put_blob H now d c fs = (Inr (H c), fs')"
      by (rule put_blob_succeeds [OF s(1) assms(2) _ s(2)]) (use assms(1) in \<open>simp_all add: fresh_dir_def\<close>)
    with put_blob_effect [OF s(1) assms(2), of c now] have "put_effect d (H c) c fs (Inr (H c), fs')" by simp
    from new_object [OF this ok new [OF ok]] put show ?thesis by metis
  qed
  have ok: "valid_hash (H c)" for c using assms(2) by (simp add: hash_fn_def)
  show "test_put_and_get_blob H now d fs"
    using one [of now "bytes_of ''Hello, world!''"] object_there(4) [OF _ _ _ ok]
    unfolding test_put_and_get_blob_def Let_def by fastforce
  let ?c = "bytes_of ''Same content''"
  obtain fs1 m t where fs1: "put_blob H now1 d ?c fs = (Inr (H ?c), fs1)" "no_links d fs1" "dirs_there d (H ?c) fs1"
    "lstat fs1 (object_path d (H ?c)) = Some (File ?c m t)"
    using one [of now1 ?c] by blast
  note there = object_there [OF fs1(2-4) ok]
  have "put_blob H now2 d ?c fs1 = (Inr (H ?c), fs1)"
    using there(1) by (simp add: put_blob_def store_object_def hash_to_path_split(1) [OF ok])
  with fs1(1) there show "test_deduplication H now1 now2 d fs"
    by (simp add: test_deduplication_def Let_def hash_to_path_split(1) [OF ok])
qed

lemma hash_tests_pass: "test_hash_sharding d" "test_hash_validation"
proof -
  have "hash_to_path ''abc123def456789'' = Inr ''objects/ab/c123def456789''" by code_simp
  then show "test_hash_sharding d" by (simp add: test_hash_sharding_def Let_def nth_append)
  show "test_hash_validation" by code_simp
qed

lemma large_file_test_passes:
  assumes "fresh_dir d fs" and "hash_fn H"
  shows "test_large_file_streaming H now1 now2 now3 d fs"
proof -
  note s = fresh_store [OF assms(1)]
  obtain c :: bytes where c: "c = concat (replicate 10 (replicate (1024 * 1024) 0xAB))" by blast
  have ok: "valid_hash (H c)" using assms(2) by (simp add: hash_fn_def)
  let ?fs1 = "put_node (d @ [''large.bin'']) (File c 33188 now1) fs"
  have plain: "plain_name ''large.bin''" by (simp add: plain_name_def)
  have w: "fs_write now1 d ''large.bin'' c fs = Some ?fs1"
    using assms(1) by (simp add: fs_write_def fresh_dir_def locate_plain plain takes_writes_def)
  have apart: "d @ [''large.bin''] \<noteq> object_path d k" "d @ [''large.bin''] \<noteq> temp_file d k" for k
    by (simp_all add: object_path_def temp_file_def)
  have fs1: "no_links d ?fs1" "takes_writes ?fs1" "clear_objects d ?fs1" "lstat ?fs1 (d @ [''large.bin'']) = Some (File c 33188 now1)"
    using assms(1) s apart
    by (simp_all add: no_links_def fresh_dir_def takes_writes_def clear_objects_def lstat_put object_path_def temp_file_def)
  obtain fs2 where put: "put_file H now2 d d ''large.bin'' ?fs1 = (Inr (H c), fs2)"
    by (rule put_file_succeeds [OF fs1(1) assms(2) fs1(2,3) plain fs1(4)])
  with put_file_effect [OF fs1(1) assms(2) plain fs1(4), of now2]
  have eff: "put_effect d (H c) c ?fs1 (Inr (H c), fs2)" by simp
  have "lstat ?fs1 (object_path d (H c)) = None"
    using assms(1) by (simp add: lstat_put fresh_dir_def object_path_def)
  then have "\<not> fs_exists ?fs1 d (object_file (H c))" using exists_object [OF fs1(1) ok] by simp
  from new_object [OF eff ok this] obtain m t where fs2: "no_links d fs2" "dirs_there d (H c) fs2"
    "lstat fs2 (object_path d (H c)) = Some (File c m t)" .
  note there = object_there [OF fs2 ok]
  have "lstat fs2 (d @ [''large.bin'']) = Some (File c 33188 now1)"
    using put_effect_frame [OF eff] fs1(4) by (simp add: objects_only_def in_objects_def)
  then have "fs_read fs2 d ''large.bin'' = Some c" by (simp add: fs_read_def locate_plain plain)
  then have "put_file H now3 d d ''large.bin'' fs2 = (Inr (H c), fs2)"
    using there(1) by (simp add: put_file_def hash_file_whole store_object_def hash_to_path_split(1) [OF ok])
  with w put there(2) show ?thesis
    unfolding test_large_file_streaming_def Let_def c [symmetric] by simp
qed

end
