(* ===== verification/Catalogue.thy ===== *)
theory Catalogue
  imports Success SnapshotDelete
begin

text \<open>
  What the snapshot manager promises: its store is a catalogue, a list of snapshots with distinct ids,
  each with its tags. This theory states the operations of the catalogue, without a disk, and shows
  that the manager answers every sequence of operations as the catalogue does, errors included.
\<close>

section \<open>The specification\<close>

type_synonym catalogue = "snapshot_info list"

definition cat_get :: "catalogue \<Rightarrow> string \<Rightarrow> store_error + snapshot_info" where
  "cat_get c i =
     (case find (\<lambda>s. si_id s = i) c of
        None \<Rightarrow> Inl (Msg (''Snapshot '' @ i @ '' not found''))
      | Some s \<Rightarrow> Inr s)"

text \<open>The snapshot that a tag names.\<close>

definition cat_owner :: "catalogue \<Rightarrow> string \<Rightarrow> snapshot_info option" where
  "cat_owner c t = find (\<lambda>s. t \<in> set (si_tags s)) c"

definition cat_find :: "catalogue \<Rightarrow> string \<Rightarrow> store_error + snapshot_info option" where
  "cat_find c t = (case validate_tag_name t of Inl e \<Rightarrow> Inl e | Inr _ \<Rightarrow> Inr (cat_owner c t))"

definition cat_named :: "catalogue \<Rightarrow> string \<Rightarrow> store_error + snapshot_info" where
  "cat_named c t =
     (case cat_owner c t of
        None \<Rightarrow> Inl (Msg (''Tag '' @ quoted t @ '' does not exist''))
      | Some s \<Rightarrow> Inr s)"

definition cat_list :: "catalogue \<Rightarrow> string list option \<Rightarrow> store_error + snapshot_info list" where
  "cat_list c tags =
     (case tags of
        None \<Rightarrow> Inr (sort_key age_key c)
      | Some ts \<Rightarrow>
          (case check_all validate_tag_name ts of
             Inl e \<Rightarrow> Inl e
           | Inr _ \<Rightarrow> map_sum id (\<lambda>ss. sort_key age_key (remdups ss)) (map_result (cat_named c) ts)))"

definition cat_untaken :: "catalogue \<Rightarrow> string \<Rightarrow> store_error + unit" where
  "cat_untaken c t =
     (if cat_owner c t = None then Inr () else Inl (Msg (''Tag '' @ quoted t @ '' already exists'')))"

text \<open>A new snapshot of a tree.\<close>

definition cat_create ::
  "nat \<Rightarrow> string \<Rightarrow> ftree \<Rightarrow> string option \<Rightarrow> string list option \<Rightarrow> catalogue \<Rightarrow> (store_error + string) \<times> catalogue" where
  "cat_create now uuid t msg tags c =
     (let tags = input_tags tags
      in case check_all validate_tag_name tags of
           Inl e \<Rightarrow> (Inl e, c)
         | Inr _ \<Rightarrow>
             (case check_all (cat_untaken c) tags of
                Inl e \<Rightarrow> (Inl e, c)
              | Inr _ \<Rightarrow>
                  (Inr uuid,
                   \<lparr>si_id = uuid, si_created_at = as_secs now,
                    si_message = (case msg of None \<Rightarrow> ''Snapshot '' @ uuid | Some m \<Rightarrow> m), si_tags = tags,
                    si_file_count = leaves t, si_total_size = volume t\<rparr> # c)))"

definition cat_delete :: "string \<Rightarrow> catalogue \<Rightarrow> (store_error + unit) \<times> catalogue" where
  "cat_delete i c =
     (case cat_get c i of
        Inl e \<Rightarrow> (Inl e, c)
      | Inr _ \<Rightarrow> (Inr (), filter (\<lambda>s. si_id s \<noteq> i) c))"

section \<open>A disk that holds a catalogue\<close>

text \<open>The files of the snapshots and of the tags are those of the catalogue, and they read as it says.\<close>

definition holds_info :: "manager \<Rightarrow> fsys \<Rightarrow> snapshot_info \<Rightarrow> bool" where
  "holds_info mg fs s \<longleftrightarrow> uuid_ok (si_id s) \<and> get_snapshot mg (si_id s) fs = Inr s \<and>
     (\<forall>t \<in> set (si_tags s). plain_name t \<and> \<not> temp_like t \<and> get_snapshot_by_tag mg t fs = Inr (Some (si_id s)))"

definition holds :: "manager \<Rightarrow> fsys \<Rightarrow> catalogue \<Rightarrow> bool" where
  "holds mg fs c \<longleftrightarrow> store_ready mg fs \<and> distinct (map si_id c) \<and> (\<forall>s \<in> set c. holds_info mg fs s) \<and>
     (\<forall>x. lstat fs (snapshots_dir mg @ [x]) \<noteq> None \<longrightarrow> x \<in> snapshot_file ` si_id ` set c) \<and>
     (\<forall>t. lstat fs (tags_dir mg @ [t]) \<noteq> None \<longrightarrow> (\<exists>s \<in> set c. t \<in> set (si_tags s)))"

lemma holdsD:
  assumes "holds mg fs c"
  shows "store_ready mg fs" "distinct (map si_id c)" "s \<in> set c \<Longrightarrow> holds_info mg fs s"
    "lstat fs (snapshots_dir mg @ [x]) \<noteq> None \<Longrightarrow> x \<in> snapshot_file ` si_id ` set c"
    "lstat fs (tags_dir mg @ [t]) \<noteq> None \<Longrightarrow> \<exists>s \<in> set c. t \<in> set (si_tags s)"
    "store_ok mg fs" "plain_dir (snapshots_dir mg) fs" "plain_dir (tags_dir mg) fs"
proof -
  show ok: "store_ok mg fs" using assms by (simp add: holds_def store_ready_def)
  show "plain_dir (snapshots_dir mg) fs" "plain_dir (tags_dir mg) fs" by (rule store_dirs [OF ok])+
qed (use assms in \<open>auto simp: holds_def\<close>)

lemma snapshot_file_inj [simp]: "snapshot_file i = snapshot_file j \<longleftrightarrow> i = j"
  by (simp add: snapshot_file_def)

lemma missing_snapshot:
  assumes "plain_dir (snapshots_dir mg) fs" and "plain_name (snapshot_file i)"
    and "lstat fs (snapshots_dir mg @ [snapshot_file i]) = None"
  shows "get_snapshot mg i fs = Inl (Msg (''Snapshot '' @ i @ '' not found''))"
  using assms by (simp add: get_snapshot_def read_snapshot_def fs_read_to_string_def read_plain)

lemma get_refines:
  assumes "holds mg fs c" and "plain_name (snapshot_file i)"
  shows "get_snapshot mg i fs = cat_get c i"
proof (cases "find (\<lambda>s. si_id s = i) c")
  case None
  then have "\<forall>s \<in> set c. si_id s \<noteq> i" by (simp add: find_None_iff)
  then have "snapshot_file i \<notin> snapshot_file ` si_id ` set c" by auto
  then have "lstat fs (snapshots_dir mg @ [snapshot_file i]) = None" using holdsD(4) [OF assms(1)] by blast
  from missing_snapshot [OF holdsD(7) [OF assms(1)] assms(2) this] None show ?thesis by (simp add: cat_get_def)
next
  case (Some s)
  then have "s \<in> set c" "si_id s = i" by (auto simp: find_Some_iff)
  then show ?thesis using holdsD(3) [OF assms(1)] Some by (auto simp: holds_info_def cat_get_def)
qed

text \<open>The owner of a tag is the one snapshot that lists it.\<close>

lemma tag_refines:
  assumes "holds mg fs c" and "plain_name t"
  shows "get_snapshot_by_tag mg t fs = Inr (map_option si_id (cat_owner c t))"
    "lstat fs (tags_dir mg @ [t]) = None \<longleftrightarrow> cat_owner c t = None"
proof -
  have two: "get_snapshot_by_tag mg t fs = Inr (map_option si_id (cat_owner c t)) \<and>
    (lstat fs (tags_dir mg @ [t]) = None \<longleftrightarrow> cat_owner c t = None)"
  proof (cases "cat_owner c t")
    case None
    then have "\<not> (\<exists>s \<in> set c. t \<in> set (si_tags s))" by (auto simp: cat_owner_def find_None_iff)
    then have "lstat fs (tags_dir mg @ [t]) = None" using holdsD(5) [OF assms(1)] by blast
    then show ?thesis
      using None read_plain(2) [OF holdsD(8) [OF assms(1)] assms(2)] by (simp add: get_snapshot_by_tag_def)
  next
    case (Some s)
    then have "s \<in> set c" "t \<in> set (si_tags s)" by (auto simp: cat_owner_def find_Some_iff)
    then have "get_snapshot_by_tag mg t fs = Inr (Some (si_id s))"
      using holdsD(3) [OF assms(1)] by (auto simp: holds_info_def)
    moreover from this have "fs_exists fs (tags_dir mg) t"
      by (auto simp: get_snapshot_by_tag_def split: if_splits)
    ultimately show ?thesis
      using Some read_plain(2) [OF holdsD(8) [OF assms(1)] assms(2)] by simp
  qed
  then show "get_snapshot_by_tag mg t fs = Inr (map_option si_id (cat_owner c t))"
    "lstat fs (tags_dir mg @ [t]) = None \<longleftrightarrow> cat_owner c t = None" by blast+
qed

lemma owner_there:
  "cat_owner c t = Some s \<Longrightarrow> s \<in> set c \<and> t \<in> set (si_tags s)"
  by (auto simp: cat_owner_def find_Some_iff)

lemma find_refines:
  assumes "holds mg fs c"
  shows "find_snapshot_by_tag mg t fs = cat_find c t"
proof (cases "validate_tag_name t")
  case (Inr u)
  then have "plain_name t" by (rule valid_tag_plain)
  note tag = tag_refines(1) [OF assms this]
  show ?thesis
  proof (cases "cat_owner c t")
    case (Some s)
    from owner_there [OF this] have "get_snapshot mg (si_id s) fs = Inr s"
      using holdsD(3) [OF assms] by (simp add: holds_info_def)
    with Some tag Inr show ?thesis by (simp add: find_snapshot_by_tag_def cat_find_def)
  qed (use tag Inr in \<open>simp add: find_snapshot_by_tag_def cat_find_def\<close>)
qed (simp add: find_snapshot_by_tag_def cat_find_def)

section \<open>Lists\<close>

lemma map_result_cong: "(\<And>x. x \<in> set xs \<Longrightarrow> f x = g x) \<Longrightarrow> map_result f xs = map_result g xs"
  by (induction xs) (auto split: sum.splits)

text \<open>Sorting by age and dropping repeated ids gives the one list in strict order.\<close>

lemma strict_order_unique:
  assumes "sorted_wrt (\<lambda>a b. age_key a < age_key b) xs" and "sorted_wrt (\<lambda>a b. age_key a < age_key b) ys"
    and "set xs = set ys"
  shows "xs = ys"
proof -
  have "map age_key xs = map age_key ys"
    using assms by (intro strict_sorted_equal) (simp_all add: sorted_wrt_map)
  moreover have "inj_on age_key (set zs)" if "sorted_wrt (\<lambda>a b. age_key a < age_key b) zs" for zs
    using that by (induction zs) auto
  ultimately show ?thesis using assms(1,3) by (metis map_inj_on sup.idem)
qed

lemma strict_by_age: "distinct xs \<Longrightarrow> inj_on si_id (set xs) \<Longrightarrow> sorted_wrt (\<lambda>a b. age_key a < age_key b) (sort_key age_key xs)"
proof -
  assume d: "distinct xs" "inj_on si_id (set xs)"
  have "inj_on age_key (set xs)" using d(2) by (auto simp: inj_on_def age_key_def)
  then have "distinct (map age_key (sort_key age_key xs))" using d(1) by (simp add: distinct_map)
  moreover have "sorted (map age_key (sort_key age_key xs))" by simp
  ultimately have "sorted_wrt (<) (map age_key (sort_key age_key xs))" by (simp add: strict_sorted_iff)
  then show ?thesis by (simp add: sorted_wrt_map)
qed

lemma sorted_once:
  assumes "set raw = set xs" and "inj_on si_id (set xs)"
  shows "dedup_ids (sort_key age_key raw) = sort_key age_key (remdups xs)"
proof -
  have "set (dedup_ids (sort_key age_key raw)) = set (sort_key age_key raw) \<and>
      sorted_wrt (\<lambda>a b. age_key a < age_key b) (dedup_ids (sort_key age_key raw))"
    using assms by (intro dedup_ids_sorted) simp_all
  moreover have "sorted_wrt (\<lambda>a b. age_key a < age_key b) (sort_key age_key (remdups xs))"
    using assms(2) by (intro strict_by_age) simp_all
  ultimately show ?thesis using assms(1) by (intro strict_order_unique) simp_all
qed

lemma snapshot_file_parts: "uuid_ok i \<Longrightarrow> split_dot (snapshot_file i) = (i, Some ''json'')"
proof -
  assume i: "uuid_ok i"
  then have "CHR ''.'' \<notin> set i" "i \<noteq> []" using uuid_chars [OF i] by (auto simp: uuid_ok_def)
  then show ?thesis by (simp add: split_dot_def snapshot_file_def Let_def)
qed

lemma ids_refine:
  assumes "holds mg fs c"
  shows "set (snapshot_ids mg fs) = si_id ` set c"
proof -
  have uuid: "uuid_ok (si_id s)" if "s \<in> set c" for s
    using holdsD(3) [OF assms that] by (simp add: holds_info_def)
  have "lstat fs (snapshots_dir mg @ [snapshot_file (si_id s)]) \<noteq> None" if "s \<in> set c" for s
    using holdsD(3) [OF assms that] missing_snapshot [OF holdsD(7) [OF assms] uuid_plain [OF uuid [OF that]]]
    by (auto simp: holds_info_def)
  then have "set (fs_read_dir fs (snapshots_dir mg)) = snapshot_file ` si_id ` set c"
    using holdsD(4) [OF assms] by (auto simp: read_dir_names)
  then show ?thesis
    using uuid by (force simp: snapshot_ids_def snapshot_file_parts)
qed

lemma named_refines:
  assumes "holds mg fs c" and "plain_name t"
  shows "tag_target mg fs t = map_sum id si_id (cat_named c t)"
  using tag_refines(1) [OF assms] by (simp add: tag_target_def cat_named_def split: option.splits)

lemma map_result_sum: "map_result (\<lambda>x. map_sum id f (g x)) xs = map_sum id (map f) (map_result g xs)"
  by (induction xs) (auto split: sum.splits simp: map_sum_def)

lemma list_refines:
  assumes "holds mg fs c"
  shows "list_snapshots mg tags fs = cat_list c tags"
proof -
  have inj: "inj_on si_id (set c)" "distinct c"
    using holdsD(2) [OF assms] by (simp_all add: distinct_map)
  have get: "get_snapshot mg (si_id s) fs = Inr s" if "s \<in> set c" for s
    using holdsD(3) [OF assms that] by (simp add: holds_info_def)
  have read: "map_result (\<lambda>i. get_snapshot mg i fs) (map si_id ss) = Inr ss" if "set ss \<subseteq> set c" for ss
    using that get by (induction ss) auto
  show ?thesis
  proof (cases tags)
    case None
    define ids where "ids = snapshot_ids mg fs"
    have "set ids = si_id ` set c" using ids_refine [OF assms] by (simp add: ids_def)
    define ss where "ss = map (\<lambda>i. the (find (\<lambda>s. si_id s = i) c)) ids"
    have found: "find (\<lambda>s. si_id s = si_id s') c = Some s'" if "s' \<in> set c" for s'
    proof (cases "find (\<lambda>s. si_id s = si_id s') c")
      case (Some s)
      then have "s \<in> set c" "si_id s = si_id s'" by (auto simp: find_Some_iff)
      with inj_onD [OF inj(1)] that Some show ?thesis by metis
    qed (use that in \<open>auto simp: find_None_iff\<close>)
    have "map si_id ss = ids"
      unfolding ss_def map_map by (rule map_idI) (use \<open>set ids = _\<close> found in auto)
    moreover have "set ss = set c" using \<open>set ids = _\<close> found by (force simp: ss_def)
    ultimately have "map_result (\<lambda>i. get_snapshot mg i fs) ids = Inr ss" using read [of ss] by simp
    moreover have "dedup_ids (sort_key age_key ss) = sort_key age_key c"
      using sorted_once [OF \<open>set ss = set c\<close> inj(1)] inj(2) by (simp add: distinct_remdups_id)
    moreover have "is_dir_node (lstat fs (snapshots_dir mg))" using holdsD(7) [OF assms] by (simp add: plain_dir_def)
    ultimately show ?thesis using None by (simp add: list_snapshots_def listed_ids_def cat_list_def ids_def)
  next
    case (Some ts)
    show ?thesis
    proof (cases "check_all validate_tag_name ts")
      case (Inr u)
      then have plain: "plain_name t" if "t \<in> set ts" for t
        using that valid_tag_plain by (auto simp: check_all_iff)
      have "map_result (tag_target mg fs) ts = map_result (\<lambda>t. map_sum id si_id (cat_named c t)) ts"
        by (rule map_result_cong) (rule named_refines [OF assms plain])
      also have "\<dots> = map_sum id (map si_id) (map_result (cat_named c) ts)" by (rule map_result_sum)
      finally have ids: "listed_ids mg tags fs = map_sum id (map si_id) (map_result (cat_named c) ts)"
        using Some Inr by (simp add: listed_ids_def)
      show ?thesis
      proof (cases "map_result (cat_named c) ts")
        case ss: (Inr ss)
        have "set ss \<subseteq> set c"
        proof
          fix s
          assume "s \<in> set ss"
          then have "Inr s \<in> set (map (cat_named c) ts)" using map_result_map [OF ss] by auto
          then show "s \<in> set c" by (auto simp: cat_named_def split: option.splits dest: owner_there)
        qed
        from read [OF this] sorted_once [OF refl inj_on_subset [OF inj(1) this]] ids Some Inr ss
        show ?thesis by (simp add: list_snapshots_def cat_list_def)
      qed (use ids Some Inr in \<open>simp add: list_snapshots_def cat_list_def\<close>)
    qed (use Some in \<open>simp add: list_snapshots_def listed_ids_def cat_list_def\<close>)
  qed
qed

section \<open>Counts of a tree\<close>

text \<open>Trees with the same places have the same counts, in whatever order their names are.\<close>

lemma sum_by_name:
  assumes "distinct (map fst ts)"
  shows "sum_list (map (\<lambda>(x, t). f t) ts) = (\<Sum>x \<in> fst ` set ts. f (the (map_of ts x)))"
proof -
  have "sum_list (map (\<lambda>(x, t). f t) ts) = sum (\<lambda>(x, t). f t) (set ts)"
    using assms by (intro sum_list_distinct_conv_sum_set) (simp add: distinct_map)
  also have "\<dots> = (\<Sum>p \<in> set ts. f (the (map_of ts (fst p))))"
    using assms by (intro sum.cong) auto
  also have "\<dots> = (\<Sum>x \<in> fst ` set ts. f (the (map_of ts x)))"
    using assms by (simp add: sum.reindex distinct_map comp_def)
  finally show ?thesis .
qed

lemma same_look_counts:
  "tree_ok t \<Longrightarrow> tree_ok t' \<Longrightarrow> look t = look t' \<Longrightarrow> leaves t = leaves t' \<and> volume t = volume t'"
proof (induction t arbitrary: t')
  case (FFile c m s)
  then have "look t' [] = Some (SFile c m s)" by (metis look.simps(1))
  then show ?case by (cases t') auto
next
  case (FLink s)
  then have "look t' [] = Some (SLink s)" by (metis look.simps(2))
  then show ?case by (cases t') auto
next
  case (FDir ts)
  have "look t' [] = Some SDir" using FDir.prems(3) by (metis look.simps(3))
  then obtain ts' where t': "t' = FDir ts'" by (cases t') auto
  have d: "distinct (map fst ts)" "distinct (map fst ts')" using FDir.prems(1,2) t' by simp_all
  have same: "(case map_of ts x of None \<Rightarrow> None | Some t \<Rightarrow> look t q) = (case map_of ts' x of None \<Rightarrow> None | Some t \<Rightarrow> look t q)" for x q
    using fun_cong [OF FDir.prems(3), of "x # q"] t' by simp
  have some: "look u [] \<noteq> None" for u by (cases u) auto
  have there: "map_of ts x = None \<longleftrightarrow> map_of ts' x = None" for x
    using same [of "[]" x] some by (cases "map_of ts x"; cases "map_of ts' x"; metis option.simps(4,5))
  then have names: "fst ` set ts = fst ` set ts'" by (auto simp: map_of_eq_None_iff set_eq_iff)
  have "leaves (the (map_of ts x)) = leaves (the (map_of ts' x)) \<and>
      volume (the (map_of ts x)) = volume (the (map_of ts' x))" if x: "x \<in> fst ` set ts" for x
  proof -
    obtain u where u: "map_of ts x = Some u" using x by (cases "map_of ts x") (simp_all add: map_of_eq_None_iff)
    then obtain u' where u': "map_of ts' x = Some u'" using there [of x] by (cases "map_of ts' x") simp_all
    have "look u q = look u' q" for q using same [of q x] u u' by simp
    then have "look u = look u'" by (rule ext)
    moreover have in_ts: "(x, u) \<in> set ts" "(x, u') \<in> set ts'" using u u' by (auto dest: map_of_SomeD)
    moreover have "tree_ok u" "tree_ok u'" using in_ts FDir.prems(1,2) t' by auto
    ultimately show ?thesis using FDir.IH [of "(x, u)" u u'] u u' by simp
  qed
  then show ?case
    using sum_by_name [OF d(1), of leaves] sum_by_name [OF d(2), of leaves]
      sum_by_name [OF d(1), of volume] sum_by_name [OF d(2), of volume] names t' by simp
qed

section \<open>Creating\<close>

text \<open>A workspace: a name in the working directory, apart from the store, of a directory with this tree.\<close>

definition workspace_ok :: "manager \<Rightarrow> fsys \<Rightarrow> path \<Rightarrow> string \<Rightarrow> ftree \<Rightarrow> bool" where
  "workspace_ok mg fs cwd w t \<longleftrightarrow> plain_name w \<and> source_ok mg fs (cwd @ [w]) \<and> captures fs (cwd @ [w]) t \<and> tree_ok t \<and>
     (\<forall>p q. cwd @ w # q \<noteq> mg_root mg @ p)"

lemma workspace_same:
  assumes "workspace_ok mg fs cwd w t" and "\<And>q. (\<And>p. q \<noteq> mg_root mg @ p) \<Longrightarrow> lstat fs' q = lstat fs q"
  shows "workspace_ok mg fs' cwd w t"
proof -
  have "lstat fs' ((cwd @ [w]) @ q) = lstat fs ((cwd @ [w]) @ q)" for q
    using assms(1) by (intro assms(2)) (simp add: workspace_ok_def)
  moreover from this [of "[]"] have "lstat fs' (cwd @ [w]) = lstat fs (cwd @ [w])" by simp
  ultimately show ?thesis using assms(1) by (simp add: workspace_ok_def source_ok_def captures_def)
qed

lemma add_tags_temps:
  "store_ok mg fs \<Longrightarrow> list_all plain_name tags \<Longrightarrow> \<not> list_ex temp_like tags \<Longrightarrow>
     add_tags mg now i tags fs = (Inr u, fs') \<Longrightarrow>
     (\<forall>x. temp_like x \<longrightarrow> lstat fs (tags_dir mg @ [x]) = None) \<Longrightarrow> temp_like x \<Longrightarrow> lstat fs' (tags_dir mg @ [x]) = None"
proof (induction tags arbitrary: fs)
  case Nil
  then show ?case by simp
next
  case (Cons tag tags)
  obtain fs0 fs1 where w: "fs_write now (tags_dir mg) (tag_temp tag) (bytes_of i) fs = Some fs0"
    "fs_rename (tags_dir mg) (tag_temp tag) tag fs0 = Some fs1" "add_tags mg now i tags fs1 = (Inr u, fs')"
    "add_tag mg now i tag fs = (Inr (), fs1)"
    using Cons.prems(4) by (auto simp: add_tag_def split: option.splits)
  have plain: "plain_name tag" "plain_name (tag_temp tag)"
    using Cons.prems(2) by (simp_all add: tag_temp_def temp_of_plain)
  note eff = write_through(3) [OF store_dirs(2) [OF Cons.prems(1)] plain w(1,2)]
  have "lstat fs1 (tags_dir mg @ [y]) = None" if "temp_like y" for y
    using eff [of "tags_dir mg @ [y]"] that Cons.prems(3,5) by (cases "y = tag") simp_all
  moreover have "store_ok mg fs1" by (rule add_tag_effect(1) [OF Cons.prems(1) plain(1) w(4)])
  ultimately show ?case using Cons.IH [OF _ _ _ w(3)] Cons.prems(2,3,6) by simp
qed

text \<open>A creation leaves no file in the directory of the snapshots, and no tag, but its own.\<close>

lemma create_leaves:
  assumes "store_ok mg fs" and "codec_ok mg" and "uuid_ok uuid" and "\<not> list_ex temp_like (input_tags tags)"
    and "create_snapshot mg now uuid fuel cwd workspace msg tags fs = Some (Inr i, fs')"
    and "\<forall>x. temp_like x \<longrightarrow> lstat fs (tags_dir mg @ [x]) = None"
  shows "lstat fs' (snapshots_dir mg @ [x]) \<noteq> None \<Longrightarrow> x = snapshot_file uuid \<or> lstat fs (snapshots_dir mg @ [x]) \<noteq> None"
    "lstat fs' (tags_dir mg @ [t]) \<noteq> None \<Longrightarrow> t \<in> set (input_tags tags) \<or> lstat fs (tags_dir mg @ [t]) \<noteq> None"
proof -
  have "(lstat fs' (snapshots_dir mg @ [x]) \<noteq> None \<longrightarrow> x = snapshot_file uuid \<or> lstat fs (snapshots_dir mg @ [x]) \<noteq> None) \<and>
    (lstat fs' (tags_dir mg @ [t]) \<noteq> None \<longrightarrow> t \<in> set (input_tags tags) \<or> lstat fs (tags_dir mg @ [t]) \<noteq> None)"
  proof (rule create_snapshot_parts [OF assms(5)])
    fix dir fs1 fs2 u and s :: snapshot
    assume s: "sn_id s = uuid" "check_all validate_tag_name (input_tags tags) = Inr ()"
      and build: "build_tree mg now fuel dir fs = Some (Inr (sn_tree s, sn_file_count s, sn_total_size s), fs1)"
      and more: "write_snapshot mg now s fs1 = (Inr u, fs2)" "add_tags mg now uuid (input_tags tags) fs2 = (Inr (), fs')"
    have frame: "objects_only (mg_root mg) fs fs1"
      using build_tree_frame [OF _ _ build] assms(1,2) by (simp add: codec_ok_def store_ok_def)
    have ok1: "store_ok mg fs1" using assms(1) frame by (rule store_ok_objects)
    have plain: "list_all plain_name (input_tags tags)"
      using s(2) valid_tag_plain by (auto simp: check_all_iff list_all_iff)
    have apart: "tags_dir mg \<noteq> snapshots_dir mg" "\<not> in_objects (mg_root mg) (snapshots_dir mg @ [a])"
      "\<not> in_objects (mg_root mg) (tags_dir mg @ [b])" for a b
      by (auto simp: snapshots_dir_def tags_dir_def in_objects_def)
    have temp: "plain_name (uuid @ ''.tmp'')"
      using temp_of_plain [OF uuid_plain [OF assms(3)]] by (simp add: uuid_temp [OF assms(3)])
    obtain fs0 where w: "fs_write now (snapshots_dir mg) (uuid @ ''.tmp'') (mg_enc mg s) fs1 = Some fs0"
      "fs_rename (snapshots_dir mg) (uuid @ ''.tmp'') (snapshot_file uuid) fs0 = Some fs2"
      using more(1) by (auto simp: write_snapshot_def s(1) uuid_temp [OF assms(3)] split: option.splits)
    note eff = write_through(3) [OF store_dirs(1) [OF ok1] uuid_plain [OF assms(3)] temp w]
    have ok2: "store_ok mg fs2"
      using write_snapshot_effect(1) [OF ok1 _ more(1)] s(1) assms(3) by simp
    from add_tags_effect [OF ok2 plain input_tags_distinct assms(4) more(2)]
    have late: "\<And>q. \<forall>t \<in> set (input_tags tags). q \<noteq> tags_dir mg @ [t] \<and> q \<noteq> tags_dir mg @ [tag_temp t] \<Longrightarrow>
      lstat fs' q = lstat fs2 q" by blast
    have early: "lstat fs1 (snapshots_dir mg @ [a]) = lstat fs (snapshots_dir mg @ [a])"
      "lstat fs1 (tags_dir mg @ [a]) = lstat fs (tags_dir mg @ [a])"
      "lstat fs2 (tags_dir mg @ [a]) = lstat fs1 (tags_dir mg @ [a])" for a
      using frame apart eff [of "tags_dir mg @ [a]"] by (simp_all add: objects_only_def)
    have "lstat fs' (snapshots_dir mg @ [x]) = lstat fs2 (snapshots_dir mg @ [x])"
      using apart(1) by (intro late) auto
    then have one: "lstat fs' (snapshots_dir mg @ [x]) \<noteq> None \<longrightarrow> x = snapshot_file uuid \<or> lstat fs (snapshots_dir mg @ [x]) \<noteq> None"
      using eff [of "snapshots_dir mg @ [x]"] early(1) [of x] by (cases "x = snapshot_file uuid") (simp_all split: if_splits)
    have two: "t \<in> set (input_tags tags) \<or> lstat fs (tags_dir mg @ [t]) \<noteq> None"
      if "lstat fs' (tags_dir mg @ [t]) \<noteq> None"
    proof (cases "temp_like t")
      case True
      have "\<forall>x. temp_like x \<longrightarrow> lstat fs2 (tags_dir mg @ [x]) = None" using assms(6) early(2,3) by simp
      from add_tags_temps [OF ok2 plain assms(4) more(2) this True] that show ?thesis by simp
    next
      case False
      then have "t \<noteq> tag_temp t'" for t' using tag_temp_like [of t'] by blast
      then have "lstat fs' (tags_dir mg @ [t]) = lstat fs2 (tags_dir mg @ [t])" if "t \<notin> set (input_tags tags)"
        using that by (intro late) auto
      with that early(2,3) show ?thesis by (cases "t \<in> set (input_tags tags)") simp_all
    qed
    show ?thesis using one two by blast
  qed
  then show "lstat fs' (snapshots_dir mg @ [x]) \<noteq> None \<Longrightarrow> x = snapshot_file uuid \<or> lstat fs (snapshots_dir mg @ [x]) \<noteq> None"
    "lstat fs' (tags_dir mg @ [t]) \<noteq> None \<Longrightarrow> t \<in> set (input_tags tags) \<or> lstat fs (tags_dir mg @ [t]) \<noteq> None"
    by blast+
qed

lemma check_all_cong: "(\<And>x. x \<in> set xs \<Longrightarrow> f x = g x) \<Longrightarrow> check_all f xs = check_all g xs"
  by (induction xs) (auto split: sum.splits)

lemma holds_no_temps: "holds mg fs c \<Longrightarrow> temp_like x \<Longrightarrow> lstat fs (tags_dir mg @ [x]) = None"
  using holdsD(3,5) [of mg fs c] by (metis holds_info_def)

lemma kept_info:
  assumes "holds mg fs c" and "codec_ok mg" and "uuid_ok uuid" and "uuid \<notin> si_id ` set c"
    and "\<not> list_ex temp_like (input_tags tags)" and "\<forall>t \<in> set (input_tags tags). cat_owner c t = None"
    and "create_snapshot mg now uuid fuel cwd w msg tags fs = Some (Inr i, fs')" and "s \<in> set c"
  shows "holds_info mg fs' s"
proof -
  have info: "holds_info mg fs s" by (rule holdsD(3) [OF assms(1,8)])
  then have id: "uuid_ok (si_id s)" "si_id s \<noteq> uuid" using assms(4,8) by (auto simp: holds_info_def)
  note keeps = create_keeps_others [OF holdsD(6) [OF assms(1)] assms(2,3) id _ _ assms(5,7)]
  have "plain_name (uuid @ ''.tmp'')"
    using temp_of_plain [OF uuid_plain [OF assms(3)]] by (simp add: uuid_temp [OF assms(3)])
  moreover have "uuid @ ''.tmp'' \<notin> set (input_tags tags)"
    using assms(5) by (force simp: temp_like_iff list_ex_iff)
  ultimately have "get_snapshot mg (si_id s) fs' = get_snapshot mg (si_id s) fs" using keeps by blast
  moreover have "get_snapshot_by_tag mg t fs' = get_snapshot_by_tag mg t fs" if "t \<in> set (si_tags s)" for t
  proof -
    have t: "plain_name t" "\<not> temp_like t" using that info by (simp_all add: holds_info_def)
    have "cat_owner c t \<noteq> None" using that assms(8) by (auto simp: cat_owner_def find_None_iff)
    then have "t \<notin> set (input_tags tags)" using assms(6) by auto
    moreover have "t \<notin> set (map tag_temp (input_tags tags))" using t(2) tag_temp_like by auto
    ultimately show ?thesis using keeps [OF t(1)] by simp
  qed
  ultimately show ?thesis using info by (simp add: holds_info_def)
qed

lemma create_refines:
  assumes "holds mg fs c" and "codec_ok mg" and "hash_ok mg" and "uuid_ok uuid" and "uuid \<notin> si_id ` set c"
    and "\<not> list_ex temp_like (input_tags tags)" and "workspace_ok mg fs cwd w t" and "depth_bound mg fs < fuel"
  obtains fs' where
    "create_snapshot mg now uuid fuel cwd w msg tags fs = Some (fst (cat_create now uuid t msg tags c), fs')"
    "holds mg fs' (snd (cat_create now uuid t msg tags c))" "\<And>q. (\<And>p. q \<noteq> mg_root mg @ p) \<Longrightarrow> lstat fs' q = lstat fs q"
proof (cases "check_all validate_tag_name (input_tags tags)")
  case (Inl e)
  with assms(1) show thesis by (intro that [of fs]) (simp_all add: create_snapshot_def cat_create_def)
next
  case (Inr u)
  then have valid: "validate_tag_name t = Inr ()" "plain_name t" if "t \<in> set (input_tags tags)" for t
    using that valid_tag_plain by (auto simp: check_all_iff)
  have "check_all (tag_is_free mg fs) (input_tags tags) = check_all (cat_untaken c) (input_tags tags)"
    using read_plain(2) [OF holdsD(8) [OF assms(1)]] tag_refines(2) [OF assms(1)] valid(2)
    by (intro check_all_cong) (simp add: tag_is_free_def cat_untaken_def)
  note free = this
  show thesis
  proof (cases "check_all (cat_untaken c) (input_tags tags)")
    case (Inl e)
    with assms(1) Inr free show thesis by (intro that [of fs]) (simp_all add: create_snapshot_def cat_create_def)
  next
    case new: (Inr v)
    then have none: "\<forall>t \<in> set (input_tags tags). cat_owner c t = None"
      by (auto simp: check_all_iff cat_untaken_def split: if_splits)
    let ?src = "cwd @ [w]"
    have src: "source_ok mg fs ?src" "plain_name w" "captures fs ?src t" "tree_ok t"
      using assms(7) by (simp_all add: workspace_ok_def)
    then have "\<not> is_link_node (lstat fs ?src)" by (cases "lstat fs ?src" rule: is_dir_node.cases) (simp_all add: source_ok_def)
    then have loc: "locate True fs cwd w = Some ?src" by (rule locate_plain [OF src(2)])
    have "\<forall>t \<in> set (input_tags tags). validate_tag_name t = Inr () \<and> lstat fs (tags_dir mg @ [t]) = None"
      using valid none tag_refines(2) [OF assms(1)] by blast
    from ready_creates [OF holdsD(1) [OF assms(1)] assms(3,4) this loc src(1) assms(8)]
    obtain fs' where cr: "create_snapshot mg now uuid fuel cwd w msg tags fs = Some (Inr uuid, fs')" "store_ready mg fs'" .
    have sound: "store_sound mg fs" using holdsD(1) [OF assms(1)] by (simp add: store_ready_def)
    obtain ts and s :: snapshot where ts: "read_snapshot mg uuid fs' = Inr s" "captures fs ?src (FDir ts)" "tree_ok (FDir ts)"
      "sn_file_count s = leaves (FDir ts)" "sn_total_size s = volume (FDir ts)"
      "\<And>q. (\<And>p. q \<noteq> mg_root mg @ p) \<Longrightarrow> lstat fs' q = lstat fs q"
      by (rule create_snapshot_spells [OF holdsD(6) [OF assms(1)] assms(2,3) sound assms(4,6) loc src(1) cr(1)]) blast
    have "look (FDir ts) = look t" using ts(2) src(3) by (simp add: captures_def fun_eq_iff)
    from same_look_counts [OF ts(3) src(4) this] ts(4,5) have counts: "sn_file_count s = leaves t" "sn_total_size s = volume t"
      by simp_all
    obtain s' :: snapshot where s': "sn_id s' = uuid" "sn_tags s' = input_tags tags" "sn_created_at s' = as_secs now"
      "sn_message s' = (case msg of None \<Rightarrow> ''Snapshot '' @ uuid | Some m \<Rightarrow> m)" "read_snapshot mg uuid fs' = Inr s'"
      "\<forall>t \<in> set (input_tags tags). get_snapshot_by_tag mg t fs' = Inr (Some uuid)"
      by (rule create_snapshot_effect [OF holdsD(6) [OF assms(1)] assms(2,4,6) cr(1)]) blast
    have "s' = s" using ts(1) s'(5) by simp
    define new where "new = \<lparr>si_id = uuid, si_created_at = as_secs now,
      si_message = (case msg of None \<Rightarrow> ''Snapshot '' @ uuid | Some m \<Rightarrow> m), si_tags = input_tags tags,
      si_file_count = leaves t, si_total_size = volume t\<rparr>"
    have cat: "cat_create now uuid t msg tags c = (Inr uuid, new # c)"
      using Inr new by (simp add: cat_create_def new_def)
    have "get_snapshot mg uuid fs' = Inr new"
      using get_snapshot_read [OF s'(5)] s' counts \<open>s' = s\<close> by (simp add: snapshot_info_of_def new_def)
    then have "holds_info mg fs' new"
      using s'(6) assms(4,6) valid(2) by (simp add: holds_info_def new_def list_ex_iff)
    moreover have "holds_info mg fs' s" if "s \<in> set c" for s
      by (rule kept_info [OF assms(1,2,4-6) none cr(1) that])
    moreover note leaves_only = create_leaves [OF holdsD(6) [OF assms(1)] assms(2,4,6) cr(1)]
    have "\<forall>x. temp_like x \<longrightarrow> lstat fs (tags_dir mg @ [x]) = None" using holds_no_temps [OF assms(1)] by blast
    note leaves_only = leaves_only [OF this]
    have "x \<in> snapshot_file ` si_id ` set (new # c)" if "lstat fs' (snapshots_dir mg @ [x]) \<noteq> None" for x
      using leaves_only(1) [OF that] holdsD(4) [OF assms(1), of x] by (auto simp: new_def)
    moreover have "\<exists>s \<in> set (new # c). x \<in> set (si_tags s)" if "lstat fs' (tags_dir mg @ [x]) \<noteq> None" for x
      using leaves_only(2) [OF that] holdsD(5) [OF assms(1), of x] by (auto simp: new_def)
    moreover have "distinct (map si_id (new # c))" using assms(5) holdsD(2) [OF assms(1)] by (simp add: new_def)
    ultimately have "holds mg fs' (new # c)" using cr(2) by (simp add: holds_def)
    with cr(1) cat ts(6) show thesis by (intro that [of fs']) simp_all
  qed
qed

section \<open>Deleting\<close>

lemma ready_drop:
  assumes "store_ready mg fs" and "d = snapshots_dir mg \<or> d = tags_dir mg"
  shows "store_ready mg (drop_node (d @ [s]) fs)"
proof -
  let ?fs = "drop_node (d @ [s]) fs"
  have r: "store_ok mg fs" "store_sound mg fs" "takes_writes fs" "clear_objects (mg_root mg) fs"
    "files_only (snapshots_dir mg) fs" "files_only (tags_dir mg) fs"
    using assms(1) by (simp_all add: store_ready_def)
  have drop: "lstat ?fs q = (if q = d @ [s] then None else lstat fs q)" for q by (simp add: lstat_drop)
  have ok: "store_ok mg ?fs" by (rule store_ok_drop [OF r(1) assms(2) drop])
  have objects: "lstat ?fs (mg_root mg @ ''objects'' # q) = lstat fs (mg_root mg @ ''objects'' # q)"
    "lstat ?fs (mg_root mg) = lstat fs (mg_root mg)" for q
    using assms(2) by (auto simp: drop snapshots_dir_def tags_dir_def)
  have "store_sound mg ?fs" "clear_objects (mg_root mg) ?fs"
    using r(2,4) ok objects by (simp_all add: store_sound_def clear_objects_def store_ok_def object_path_def temp_file_def)
  moreover have "files_only (snapshots_dir mg) ?fs" "files_only (tags_dir mg) ?fs"
    using r(5,6) by (simp_all add: files_only_def drop)
  ultimately show ?thesis using ok r(3) by (simp add: store_ready_def takes_writes_def)
qed

lemma file_removed:
  assumes "store_ready mg fs" and "d = snapshots_dir mg \<or> d = tags_dir mg" and "plain_name s"
    and "lstat fs (d @ [s]) \<noteq> None"
  shows "fs_remove_file d s fs = Some (drop_node (d @ [s]) fs)"
proof -
  have "file_or_none (lstat fs (d @ [s]))" "writable fs (d @ [s])"
    using assms(1,2) by (auto simp: store_ready_def files_only_def takes_writes_def)
  with assms(4) file_or_none_dir(1) show ?thesis
    by (auto simp: fs_remove_file_def locate_plain_nofollow [OF assms(3)])
qed

lemma remove_tags_succeed:
  "store_ready mg fs \<Longrightarrow> list_all plain_name tags \<Longrightarrow> \<exists>fs'. remove_tags mg tags fs = (Inr (), fs') \<and> store_ready mg fs'"
proof (induction tags arbitrary: fs)
  case Nil
  then show ?case by simp
next
  case (Cons tag tags)
  have plain: "plain_name tag" "list_all plain_name tags" using Cons.prems(2) by simp_all
  have dir: "plain_dir (tags_dir mg) fs" using Cons.prems(1) store_dirs(2) by (simp add: store_ready_def)
  show ?case
  proof (cases "fs_exists fs (tags_dir mg) tag")
    case True
    then have "lstat fs (tags_dir mg @ [tag]) \<noteq> None" using read_plain(2) [OF dir plain(1)] by simp
    from file_removed [OF Cons.prems(1) disjI2 [OF refl] plain(1) this] True
    have "remove_tag mg tag fs = (Inr (), drop_node (tags_dir mg @ [tag]) fs)" by (simp add: remove_tag_def)
    with Cons.IH [OF ready_drop [OF Cons.prems(1) disjI2 [OF refl]] plain(2)] show ?thesis by simp
  next
    case False
    then have "remove_tag mg tag fs = (Inr (), fs)" by (simp add: remove_tag_def)
    with Cons.IH [OF Cons.prems(1) plain(2)] show ?thesis by simp
  qed
qed

lemma owner_unique:
  assumes "holds mg fs c" and "s \<in> set c" and "s' \<in> set c" and "t \<in> set (si_tags s)" and "t \<in> set (si_tags s')"
  shows "s = s'"
proof -
  have "si_id s = si_id s'"
    using holdsD(3) [OF assms(1)] assms(2-5) by (metis holds_info_def option.inject sum.inject(2))
  with holdsD(2) [OF assms(1)] assms(2,3) show ?thesis by (metis distinct_map inj_onD)
qed

lemma delete_refines:
  assumes "holds mg fs c" and "plain_name (snapshot_file i)"
  obtains fs' where "delete_snapshot mg i fs = (fst (cat_delete i c), fs')" "holds mg fs' (snd (cat_delete i c))"
    "\<And>q. (\<And>p. q \<noteq> mg_root mg @ p) \<Longrightarrow> lstat fs' q = lstat fs q"
proof (cases "cat_get c i")
  case (Inl e)
  with assms(1) get_refines [OF assms] show thesis
    by (intro that [of fs]) (simp_all add: delete_snapshot_def cat_delete_def)
next
  case (Inr s)
  have get: "get_snapshot mg i fs = Inr s" using get_refines [OF assms] Inr by simp
  have s: "s \<in> set c" "si_id s = i" using Inr by (auto simp: cat_get_def find_Some_iff split: option.splits)
  have plain: "list_all plain_name (si_tags s)" using holdsD(3) [OF assms(1) s(1)] by (simp add: holds_info_def list_all_iff)
  obtain fs1 where fs1: "remove_tags mg (si_tags s) fs = (Inr (), fs1)" "store_ready mg fs1"
    using remove_tags_succeed [OF holdsD(1) [OF assms(1)] plain] by blast
  from remove_tags_effect [OF holdsD(6) [OF assms(1)] plain fs1(1)] have tags: "store_ok mg fs1"
    "\<And>q. lstat fs1 q = (if q \<in> (\<lambda>t. tags_dir mg @ [t]) ` set (si_tags s) then None else lstat fs q)" by auto
  have apart: "snapshots_dir mg @ [a] \<noteq> tags_dir mg @ [b]" for a b
    by (simp add: snapshots_dir_def tags_dir_def)
  have "lstat fs (snapshots_dir mg @ [snapshot_file i]) \<noteq> None"
    using missing_snapshot [OF holdsD(7) [OF assms(1)] assms(2)] get by auto
  then have "lstat fs1 (snapshots_dir mg @ [snapshot_file i]) \<noteq> None" using tags(2) apart by auto
  note rem = file_removed [OF fs1(2) disjI1 [OF refl] assms(2) this]
  let ?fs = "drop_node (snapshots_dir mg @ [snapshot_file i]) fs1"
  have del: "delete_snapshot mg i fs = (Inr (), ?fs)" using get fs1(1) rem by (simp add: delete_snapshot_def)
  have ready: "store_ready mg ?fs" by (rule ready_drop [OF fs1(2) disjI1 [OF refl]])
  then have now: "plain_dir (snapshots_dir mg) ?fs" "plain_dir (tags_dir mg) ?fs"
    using store_dirs by (simp_all add: store_ready_def)
  have places: "lstat ?fs (snapshots_dir mg @ [x]) = (if x = snapshot_file i then None else lstat fs (snapshots_dir mg @ [x]))"
    "lstat ?fs (tags_dir mg @ [t]) = (if t \<in> set (si_tags s) then None else lstat fs (tags_dir mg @ [t]))" for x t
    using tags(2) apart [of "snapshot_file i" t] apart [of x] by (auto simp: lstat_drop)
  have "holds_info mg ?fs s'" if s': "s' \<in> set c" "si_id s' \<noteq> i" for s'
  proof -
    have info: "holds_info mg fs s'" by (rule holdsD(3) [OF assms(1) s'(1)])
    then have id: "plain_name (snapshot_file (si_id s'))" using uuid_plain by (simp add: holds_info_def)
    have "get_snapshot mg (si_id s') ?fs = get_snapshot mg (si_id s') fs"
      using read_plain(1) [OF now(1) id] read_plain(1) [OF holdsD(7) [OF assms(1)] id] places(1) s'(2)
      by (simp add: get_snapshot_def read_snapshot_def fs_read_to_string_def)
    moreover have "get_snapshot_by_tag mg t ?fs = get_snapshot_by_tag mg t fs" if t: "t \<in> set (si_tags s')" for t
    proof -
      have "t \<notin> set (si_tags s)" using owner_unique [OF assms(1) s'(1) s(1) t] s s'(2) by blast
      moreover have "plain_name t" using t info by (simp add: holds_info_def)
      note read_plain [OF now(2) this] read_plain [OF holdsD(8) [OF assms(1)] this]
      ultimately show ?thesis using places(2) [of t] by (simp add: get_snapshot_by_tag_def fs_read_to_string_def)
    qed
    ultimately show ?thesis using info by (simp add: holds_info_def)
  qed
  moreover have "x \<in> snapshot_file ` si_id ` set (filter (\<lambda>s. si_id s \<noteq> i) c)" if "lstat ?fs (snapshots_dir mg @ [x]) \<noteq> None" for x
    using that places(1) [of x] holdsD(4) [OF assms(1), of x] by (auto split: if_splits)
  moreover have "\<exists>s \<in> set (filter (\<lambda>s. si_id s \<noteq> i) c). t \<in> set (si_tags s)" if "lstat ?fs (tags_dir mg @ [t]) \<noteq> None" for t
  proof -
    have t: "t \<notin> set (si_tags s)" "lstat fs (tags_dir mg @ [t]) \<noteq> None" using that places(2) [of t] by (auto split: if_splits)
    then obtain s' where "s' \<in> set c" "t \<in> set (si_tags s')" using holdsD(5) [OF assms(1)] by blast
    moreover have "si_id s' \<noteq> i"
      using calculation t(1) s holdsD(2) [OF assms(1)] by (metis distinct_map inj_on_eq_iff)
    ultimately show ?thesis by auto
  qed
  moreover have "distinct (map si_id (filter (\<lambda>s. si_id s \<noteq> i) c))"
    using holdsD(2) [OF assms(1)] by (rule distinct_map_filter)
  ultimately have "holds mg ?fs (filter (\<lambda>s. si_id s \<noteq> i) c)" using ready by (simp add: holds_def)
  moreover have "lstat ?fs q = lstat fs q" if "\<And>p. q \<noteq> mg_root mg @ p" for q
    using that tags(2) by (auto simp: lstat_drop snapshots_dir_def tags_dir_def)
  ultimately show thesis using del Inr by (intro that [of ?fs]) (simp_all add: cat_delete_def)
qed

section \<open>Sequences of operations\<close>

text \<open>The calls of the manager with their inputs: of a creation the clock, the fresh id, the workspace, the
  message and the tags.\<close>

datatype store_call =
    Create nat string string "string option" "string list option"
  | Delete string
  | Get string
  | FindTag string
  | ListAll "string list option"

datatype store_answer =
    Created "store_error + string"
  | Deleted "store_error + unit"
  | Got "store_error + snapshot_info"
  | Found "store_error + snapshot_info option"
  | Listed "store_error + snapshot_info list"
  | Stuck

definition serve_call :: "manager \<Rightarrow> path \<Rightarrow> store_call \<Rightarrow> fsys \<Rightarrow> store_answer \<times> fsys" where
  "serve_call mg cwd cl fs =
     (case cl of
        Create now uuid w msg tags \<Rightarrow>
          (case create_snapshot mg now uuid (Suc (depth_bound mg fs)) cwd w msg tags fs of
             None \<Rightarrow> (Stuck, fs) | Some (r, fs1) \<Rightarrow> (Created r, fs1))
      | Delete i \<Rightarrow> (case delete_snapshot mg i fs of (r, fs1) \<Rightarrow> (Deleted r, fs1))
      | Get i \<Rightarrow> (Got (get_snapshot mg i fs), fs)
      | FindTag t \<Rightarrow> (Found (find_snapshot_by_tag mg t fs), fs)
      | ListAll tags \<Rightarrow> (Listed (list_snapshots mg tags fs), fs))"

definition cat_call :: "(string \<Rightarrow> ftree) \<Rightarrow> store_call \<Rightarrow> catalogue \<Rightarrow> store_answer \<times> catalogue" where
  "cat_call trees cl c =
     (case cl of
        Create now uuid w msg tags \<Rightarrow> (case cat_create now uuid (trees w) msg tags c of (r, c1) \<Rightarrow> (Created r, c1))
      | Delete i \<Rightarrow> (case cat_delete i c of (r, c1) \<Rightarrow> (Deleted r, c1))
      | Get i \<Rightarrow> (Got (cat_get c i), c)
      | FindTag t \<Rightarrow> (Found (cat_find c t), c)
      | ListAll tags \<Rightarrow> (Listed (cat_list c tags), c))"

fun answers :: "(store_call \<Rightarrow> 's \<Rightarrow> store_answer \<times> 's) \<Rightarrow> store_call list \<Rightarrow> 's \<Rightarrow> store_answer list \<times> 's" where
  "answers f [] s = ([], s)"
| "answers f (cl # cls) s = (case f cl s of (a, s1) \<Rightarrow> case answers f cls s1 of (as, s2) \<Rightarrow> (a # as, s2))"

text \<open>The ids that the calls may use up, and what is asked of a call: ids without separators, no tag
  that looks like a temporary file, and a workspace apart from the store.\<close>

fun new_ids :: "store_call list \<Rightarrow> string list" where
  "new_ids [] = []"
| "new_ids (Create now uuid w msg tags # cls) = uuid # new_ids cls"
| "new_ids (_ # cls) = new_ids cls"

fun call_ok :: "manager \<Rightarrow> fsys \<Rightarrow> path \<Rightarrow> (string \<Rightarrow> ftree) \<Rightarrow> store_call \<Rightarrow> bool" where
  "call_ok mg fs cwd trees (Create now uuid w msg tags) =
     (uuid_ok uuid \<and> \<not> list_ex temp_like (input_tags tags) \<and> workspace_ok mg fs cwd w (trees w))"
| "call_ok mg fs cwd trees (Delete i) = plain_name (snapshot_file i)"
| "call_ok mg fs cwd trees (Get i) = plain_name (snapshot_file i)"
| "call_ok mg fs cwd trees _ = True"

lemma call_ok_same:
  "call_ok mg fs cwd trees cl \<Longrightarrow> (\<And>q. (\<And>p. q \<noteq> mg_root mg @ p) \<Longrightarrow> lstat fs' q = lstat fs q) \<Longrightarrow>
     call_ok mg fs' cwd trees cl"
  by (cases cl) (auto intro: workspace_same)

lemma cat_create_ids: "si_id ` set (snd (cat_create now uuid t msg tags c)) \<subseteq> insert uuid (si_id ` set c)"
  by (auto simp: cat_create_def Let_def split: sum.splits)

lemma distinct_ids:
  "distinct (map f c') \<Longrightarrow> f ` set c' \<subseteq> insert u (f ` set c) \<Longrightarrow> distinct (map f c @ u # is) \<Longrightarrow> distinct (map f c' @ is)"
  "distinct (map f c') \<Longrightarrow> f ` set c' \<subseteq> f ` set c \<Longrightarrow> distinct (map f c @ is) \<Longrightarrow> distinct (map f c' @ is)"
  by auto

lemma call_refines:
  assumes "holds mg fs c" and "codec_ok mg" and "hash_ok mg" and "call_ok mg fs cwd trees cl"
    and "distinct (map si_id c @ new_ids (cl # cls))"
  obtains fs' where "serve_call mg cwd cl fs = (fst (cat_call trees cl c), fs')" "holds mg fs' (snd (cat_call trees cl c))"
    "\<And>q. (\<And>p. q \<noteq> mg_root mg @ p) \<Longrightarrow> lstat fs' q = lstat fs q"
    "distinct (map si_id (snd (cat_call trees cl c)) @ new_ids cls)"
proof (cases cl)
  case (Create now uuid w msg tags)
  from assms(4) Create have ok: "uuid_ok uuid" "\<not> list_ex temp_like (input_tags tags)" "workspace_ok mg fs cwd w (trees w)"
    by simp_all
  have new: "uuid \<notin> si_id ` set c" using assms(5) Create by auto
  obtain fs' where
    "create_snapshot mg now uuid (Suc (depth_bound mg fs)) cwd w msg tags fs = Some (fst (cat_create now uuid (trees w) msg tags c), fs')"
    "holds mg fs' (snd (cat_create now uuid (trees w) msg tags c))" "\<And>q. (\<And>p. q \<noteq> mg_root mg @ p) \<Longrightarrow> lstat fs' q = lstat fs q"
    using create_refines [OF assms(1-3) ok(1) new ok(2,3) lessI] by blast
  moreover have "distinct (map si_id (snd (cat_create now uuid (trees w) msg tags c)) @ new_ids cls)"
    using assms(5) Create by (intro distinct_ids(1) [OF holdsD(2) [OF calculation(2)] cat_create_ids]) simp
  ultimately show thesis using Create
    by (intro that [of fs']) (simp_all add: serve_call_def cat_call_def split_def)
next
  case (Delete i)
  with assms(4) have "plain_name (snapshot_file i)" by simp
  then obtain fs' where
    "delete_snapshot mg i fs = (fst (cat_delete i c), fs')" "holds mg fs' (snd (cat_delete i c))"
    "\<And>q. (\<And>p. q \<noteq> mg_root mg @ p) \<Longrightarrow> lstat fs' q = lstat fs q"
    using delete_refines [OF assms(1)] by blast
  moreover have "si_id ` set (snd (cat_delete i c)) \<subseteq> si_id ` set c"
    by (auto simp: cat_delete_def split: sum.splits)
  then have "distinct (map si_id (snd (cat_delete i c)) @ new_ids cls)"
    by (rule distinct_ids(2) [OF holdsD(2) [OF calculation(2)]]) (use assms(5) Delete in simp_all)
  ultimately show thesis using Delete
    by (intro that [of fs']) (simp_all add: serve_call_def cat_call_def split_def)
next
  case (Get i)
  then show thesis using assms get_refines [OF assms(1), of i]
    by (intro that [of fs]) (simp_all add: serve_call_def cat_call_def)
next
  case (FindTag t)
  then show thesis using assms find_refines [OF assms(1), of t]
    by (intro that [of fs]) (simp_all add: serve_call_def cat_call_def)
next
  case (ListAll tags)
  then show thesis using assms list_refines [OF assms(1), of tags]
    by (intro that [of fs]) (simp_all add: serve_call_def cat_call_def)
qed

lemma calls_refine:
  assumes "codec_ok mg" and "hash_ok mg"
  shows "holds mg fs c \<Longrightarrow> list_all (call_ok mg fs cwd trees) cls \<Longrightarrow> distinct (map si_id c @ new_ids cls) \<Longrightarrow>
    \<exists>fs'. answers (serve_call mg cwd) cls fs = (fst (answers (cat_call trees) cls c), fs') \<and>
      holds mg fs' (snd (answers (cat_call trees) cls c)) \<and> (\<forall>q. (\<forall>p. q \<noteq> mg_root mg @ p) \<longrightarrow> lstat fs' q = lstat fs q)"
proof (induction cls arbitrary: fs c)
  case (Cons cl cls)
  have cl: "call_ok mg fs cwd trees cl" using Cons.prems(2) by simp
  obtain fs1 where fs1: "serve_call mg cwd cl fs = (fst (cat_call trees cl c), fs1)" "holds mg fs1 (snd (cat_call trees cl c))"
    "\<And>q. (\<And>p. q \<noteq> mg_root mg @ p) \<Longrightarrow> lstat fs1 q = lstat fs q"
    "distinct (map si_id (snd (cat_call trees cl c)) @ new_ids cls)"
    using call_refines [OF Cons.prems(1) assms cl Cons.prems(3)] by blast
  have "list_all (call_ok mg fs1 cwd trees) cls"
    using Cons.prems(2) call_ok_same [OF _ fs1(3)] by (simp add: list_all_iff)
  from Cons.IH [OF fs1(2) this fs1(4)] obtain fs2 where
    "answers (serve_call mg cwd) cls fs1 = (fst (answers (cat_call trees) cls (snd (cat_call trees cl c))), fs2)"
    "holds mg fs2 (snd (answers (cat_call trees) cls (snd (cat_call trees cl c))))"
    "\<forall>q. (\<forall>p. q \<noteq> mg_root mg @ p) \<longrightarrow> lstat fs2 q = lstat fs1 q" by blast
  with fs1(1,3) show ?case by (intro exI [of _ fs2]) (simp add: split_def)
qed simp


definition work_tree :: ftree where
  "work_tree = FDir [(''f'', FFile [2] 6 0), (''l'', FLink ''f'')]"

definition work_calls :: "store_call list" where
  "work_calls =
     [Create 0 ''a'' ''w'' None (Some [''v'']), FindTag ''v'',
      Create 0 ''b'' ''w'' (Some ''m'') (Some [''v'']), Create 0 ''c'' ''w'' None None,
      ListAll None, Delete ''a'', FindTag ''v'', Get ''a'', ListAll (Some [''v''])]"

lemma work_holds: "holds work_manager work_disk []" "workspace_ok work_manager work_disk [] ''w'' work_tree"
proof -
  show "holds work_manager work_disk []"
    using work_disk_ready by (simp add: holds_def work_disk_node snapshots_dir_def tags_dir_def spell_manager_def)
  have "look work_tree q = shape_of (lstat work_disk (''w'' # q))" for q
    by (cases q rule: list.exhaust [case_product list.exhaust]; cases "tl q")
      (auto simp: work_tree_def work_disk_node as_secs_def)
  then show "workspace_ok work_manager work_disk [] ''w'' work_tree"
    using work_disk_ok(3) by (simp add: workspace_ok_def captures_def)
      (simp add: work_tree_def plain_name_def spell_manager_def bytes_of_def)
qed

text \<open>Of each answer the error, or the first id.\<close>

definition headline :: "store_answer \<Rightarrow> store_error + string option" where
  "headline a =
     (case a of
        Created r \<Rightarrow> map_sum id Some r
      | Deleted r \<Rightarrow> map_sum id (\<lambda>_. None) r
      | Got r \<Rightarrow> map_sum id (Some \<circ> si_id) r
      | Found r \<Rightarrow> map_sum id (map_option si_id) r
      | Listed r \<Rightarrow> map_sum id (\<lambda>ss. map_option si_id (find (\<lambda>_. True) ss)) r
      | Stuck \<Rightarrow> Inr None)"


end
