(* ===== verification/RestoreOver.thy ===== *)
theory RestoreOver
  imports Success
begin

text \<open>
  Restoring a snapshot over what is there (\<open>restore_snapshot\<close> in \<open>sandd/src/snapshot/manager.rs\<close>): a
  directory that was changed since, or any other one. Afterwards the directory has the tree of the
  snapshot, exactly: what is missing is made, what differs is replaced, what is extra is removed.
  Existing files that are compared are put into the store on the way.
\<close>

section \<open>What stays true on the way\<close>

text \<open>The store can take objects.\<close>

definition sturdy :: "manager \<Rightarrow> fsys \<Rightarrow> bool" where
  "sturdy mg fs \<longleftrightarrow> store_sound mg fs \<and> takes_writes fs \<and> clear_objects (mg_root mg) fs"

text \<open>A place neither in the store nor above it.\<close>

definition apart :: "manager \<Rightarrow> path \<Rightarrow> bool" where
  "apart mg p \<longleftrightarrow> (\<forall>q r. mg_root mg @ q \<noteq> p @ r)"

text \<open>Only the objects and what is under the names \<open>X\<close> of \<open>d\<close> may differ.\<close>

definition restored :: "manager \<Rightarrow> path \<Rightarrow> string set \<Rightarrow> fsys \<Rightarrow> fsys \<Rightarrow> bool" where
  "restored mg d X fs fs' \<longleftrightarrow> sturdy mg fs' \<and> keeps_blobs mg fs fs' \<and>
     (\<forall>q. \<not> in_objects (mg_root mg) q \<longrightarrow> (\<forall>x \<in> X. \<forall>r. q \<noteq> d @ x # r) \<longrightarrow> lstat fs' q = lstat fs q)"

lemma restored_refl: "sturdy mg fs \<Longrightarrow> restored mg d X fs fs"
  by (simp add: restored_def keeps_refl)

lemma restored_trans:
  "restored mg d X fs fs1 \<Longrightarrow> restored mg d Y fs1 fs2 \<Longrightarrow> restored mg d (X \<union> Y) fs fs2"
  by (auto simp: restored_def intro: keeps_trans)

lemma restored_widen: "restored mg d X fs fs' \<Longrightarrow> X \<subseteq> Y \<Longrightarrow> restored mg d Y fs fs'"
  by (auto simp: restored_def)

lemma restored_up: "restored mg (base @ [x]) X fs fs' \<Longrightarrow> restored mg base {x} fs fs'"
  by (auto simp: restored_def)

lemma apart_below: "apart mg p \<Longrightarrow> apart mg (p @ q)"
  by (auto simp: apart_def)

lemma apart_objects: "apart mg p \<Longrightarrow> \<not> in_objects (mg_root mg) (p @ q)"
  unfolding apart_def in_objects_def by metis

lemma restored_other:
  assumes "restored mg d X fs fs'" and "apart mg d"
  shows "x \<notin> X \<Longrightarrow> lstat fs' (d @ x # q) = lstat fs (d @ x # q)" "lstat fs' d = lstat fs d"
proof -
  have "\<not> in_objects (mg_root mg) d" using apart_objects [OF assms(2), of "[]"] by simp
  then show "lstat fs' d = lstat fs d" using assms(1) by (simp add: restored_def)
  have "\<forall>y \<in> X. \<forall>r. d @ x # q \<noteq> d @ y # r" if "x \<notin> X" using that by auto
  then show "x \<notin> X \<Longrightarrow> lstat fs' (d @ x # q) = lstat fs (d @ x # q)"
    using assms(1) apart_objects [OF assms(2)] unfolding restored_def by blast
qed

lemma sturdy_same:
  assumes "sturdy mg fs" and "takes_writes fs'" and "\<And>p. lstat fs' (mg_root mg @ p) = lstat fs (mg_root mg @ p)"
  shows "sturdy mg fs'" "keeps_blobs mg fs fs'"
proof -
  have links: "no_links (mg_root mg) fs" "no_links (mg_root mg) fs'"
    using assms(1,3) by (simp_all add: sturdy_def store_sound_def no_links_def)
  have root: "lstat fs' (mg_root mg) = lstat fs (mg_root mg)" using assms(3) [of "[]"] by simp
  show "sturdy mg fs'"
    using assms links root by (simp add: sturdy_def store_sound_def clear_objects_def object_path_def temp_file_def)
  show "keeps_blobs mg fs fs'"
    using links assms(3) by (simp add: keeps_blobs_def get_blob_iff dirs_there_def object_path_def)
qed

text \<open>A change under one name of a directory apart from the store.\<close>

lemma restored_at:
  assumes "sturdy mg fs" and "apart mg (d @ [x])" and "takes_writes fs'"
    and "\<And>q. (\<And>r. q \<noteq> d @ x # r) \<Longrightarrow> lstat fs' q = lstat fs q"
  shows "restored mg d {x} fs fs'"
proof -
  have "lstat fs' (mg_root mg @ p) = lstat fs (mg_root mg @ p)" for p
    using assms(2) by (intro assms(4)) (simp add: apart_def)
  from sturdy_same [OF assms(1,3) this] assms(4) show ?thesis by (simp add: restored_def)
qed

lemma restored_only:
  assumes "sturdy mg fs" and "apart mg (d @ [x])" and "only_at (d @ [x]) fs fs'"
  shows "restored mg d {x} fs fs'"
proof (rule restored_at [OF assms(1,2)])
  show "takes_writes fs'" using assms(1,3) by (simp add: sturdy_def takes_writes_def only_at_def)
  show "lstat fs' q = lstat fs q" if "\<And>r. q \<noteq> d @ x # r" for q
    using that [of "[]"] assms(3) by (simp add: only_at_def)
qed

section \<open>Places that can take a tree\<close>

text \<open>Below a place, entries are in directories and have ordinary names.\<close>

definition tidy :: "fsys \<Rightarrow> path \<Rightarrow> bool" where
  "tidy fs p \<longleftrightarrow> (\<forall>q x. lstat fs (p @ q @ [x]) \<noteq> None \<longrightarrow> is_dir_node (lstat fs (p @ q)) \<and> plain_name x)"

text \<open>A file stands where a file goes, a directory where a directory goes, anything but a directory
  where a link goes, or nothing; and a file with the length and the time of the entry is the same file.\<close>

fun can_take :: "fsys \<Rightarrow> path \<Rightarrow> ftree \<Rightarrow> bool" where
  "can_take fs p (FFile c m s) =
     (case lstat fs p of
        None \<Rightarrow> True
      | Some (File c' m' t) \<Rightarrow>
          (of_nat (length c') = (of_nat (length c) :: u64) \<and> t = unat s * 1000000000 \<longrightarrow> c' = c)
      | _ \<Rightarrow> False)"
| "can_take fs p (FLink target) = (\<not> is_dir_node (lstat fs p))"
| "can_take fs p (FDir ts) = (dir_or_none (lstat fs p) \<and> (\<forall>(x, t) \<in> set ts. can_take fs (p @ [x]) t))"

lemma tidy_same: "tidy fs p \<Longrightarrow> (\<And>q. lstat fs' (p @ q) = lstat fs (p @ q)) \<Longrightarrow> tidy fs' p"
  by (simp add: tidy_def)

lemma tidy_below: "tidy fs p \<Longrightarrow> tidy fs (p @ q)"
  unfolding tidy_def by (metis append.assoc)

lemma can_take_same: "can_take fs p t \<Longrightarrow> (\<And>q. lstat fs' (p @ q) = lstat fs (p @ q)) \<Longrightarrow> can_take fs' p t"
proof (induction t arbitrary: p)
  case (FFile c m s)
  then show ?case using FFile.prems(2) [of "[]"] by simp
next
  case (FLink target)
  then show ?case using FLink.prems(2) [of "[]"] by simp
next
  case (FDir ts)
  have "can_take fs' (p @ [x]) t" if "(x, t) \<in> set ts" for x t
    using FDir.IH [OF that, of t "p @ [x]"] FDir.prems that by auto
  then show ?case using FDir.prems(1) FDir.prems(2) [of "[]"] by auto
qed

lemma tidy_empty:
  assumes "tidy fs p" and "\<not> is_dir_node (lstat fs p)"
  shows "lstat fs (p @ y # q) = None"
proof (induction q rule: rev_induct)
  case Nil
  have "lstat fs (p @ [] @ [y]) \<noteq> None \<Longrightarrow> is_dir_node (lstat fs (p @ []))" using assms(1) unfolding tidy_def by blast
  with assms(2) show ?case by (cases "lstat fs (p @ [y])") auto
next
  case (snoc z q)
  have "lstat fs (p @ (y # q) @ [z]) \<noteq> None \<Longrightarrow> is_dir_node (lstat fs (p @ y # q))"
    using assms(1) unfolding tidy_def by blast
  with snoc show ?case by (cases "lstat fs (p @ y # q @ [z])") auto
qed

text \<open>The times of the files below a place are whole seconds.\<close>

definition whole_secs :: "fsys \<Rightarrow> path \<Rightarrow> bool" where
  "whole_secs fs p \<longleftrightarrow> (\<forall>q c m t. lstat fs (p @ q) = Some (File c m t) \<longrightarrow> t = unat (as_secs t) * 1000000000)"

section \<open>A file\<close>

text \<open>Once the contents are there, the mode and the time are set.\<close>

lemma file_dressed:
  assumes "plain_name x" and "lstat fs (d @ [x]) = Some (File c k s)" and "takes_writes fs"
  obtains fs1 fs2 where "set_mode m d x fs = Some fs1" "set_mtime t d x fs1 = Some fs2" "only_at (d @ [x]) fs fs2"
    "lstat fs2 (d @ [x]) = Some (File c (or (and k 61440) (and m 4095)) t)"
proof -
  let ?p = "d @ [x]"
  let ?fs1 = "put_node ?p (chmod_node m (File c k s)) fs"
  let ?fs2 = "put_node ?p (touch_node t (chmod_node m (File c k s))) ?fs1"
  have "set_mode m d x fs = Some ?fs1"
    using change_fresh [OF assms(1,2)] assms(3) by (simp add: set_mode_def takes_writes_def)
  moreover have "set_mtime t d x ?fs1 = Some ?fs2"
    using change_fresh [OF assms(1), of ?fs1 d "chmod_node m (File c k s)"] assms(3)
    by (simp add: set_mtime_def takes_writes_def lstat_put)
  moreover have "only_at ?p fs ?fs2" by (simp add: only_at_def lstat_put)
  ultimately show thesis by (rule that) (simp add: lstat_put)
qed

lemma object_copied:
  assumes "no_links (mg_root mg) fs" and "is_dir_node (lstat fs d)" and "takes_writes fs" and "plain_name x"
    and "lstat fs (d @ [x]) = Some (File c' m' t')" and "get_blob (mg_root mg) h fs = Inr c"
  obtains fs' k where "copy_file now (mg_root mg) h d x fs = (Inr (), fs')" "only_at (d @ [x]) fs fs'"
    "lstat fs' (d @ [x]) = Some (File c k now)"
proof -
  let ?p = "d @ [x]"
  obtain m t where obj: "valid_hash h" "dirs_there (mg_root mg) h fs"
    "lstat fs (object_path (mg_root mg) h) = Some (File c m t)"
    using assms(6) by (auto simp: get_blob_iff [OF assms(1)])
  have loc: "locate True fs (mg_root mg) (object_file h) = Some (object_path (mg_root mg) h)"
    using obj by (simp add: locate_object_path [OF assms(1)])
  have here: "locate True fs d [] = Some d" by (simp add: locate_def is_absolute_def)
  have mk: "fs_create_dir_all d [] fs = Some fs"
    using here assms(2) by (cases "lstat fs d") (simp_all add: fs_create_dir_all_def is_absolute_def)
  define fs1 where "fs1 = put_node ?p (File c m' now) fs"
  have w: "fs_write now d x c fs = Some fs1"
    using assms(3-5) by (simp add: fs_write_def fs1_def locate_plain takes_writes_def)
  have "lstat fs1 ?p = Some (File c m' now)" by (simp add: fs1_def lstat_put)
  then have "locate True fs1 d x = Some ?p" using assms(4) by (simp add: locate_plain)
  then have "copy_file now (mg_root mg) h d x fs = (Inr (), put_node ?p (File c m now) fs1)"
    using mk hash_to_path_split(1) [OF obj(1)] loc obj(3) w by (simp add: copy_file_def fs_copy_def)
  then show thesis by (rule that) (simp_all add: only_at_def fs1_def lstat_put)
qed

lemma compared:
  assumes "sturdy mg fs" and "hash_ok mg" and "plain_name x" and "lstat fs (d @ [x]) = Some (File c m t)"
  obtains fs' where "put_file (mg_hash mg) now (mg_root mg) d x fs = (Inr (mg_hash mg c), fs')"
    "restored mg d {} fs fs'"
proof -
  have s: "store_sound mg fs" "takes_writes fs" "clear_objects (mg_root mg) fs" "no_links (mg_root mg) fs"
    "hash_fn (mg_hash mg)"
    using assms(1,2) by (simp_all add: sturdy_def store_sound_def hash_ok_def)
  obtain fs' where put: "put_file (mg_hash mg) now (mg_root mg) d x fs = (Inr (mg_hash mg c), fs')"
    "takes_writes fs'" "clear_objects (mg_root mg) fs'"
    by (rule put_file_succeeds [OF s(4,5,2,3) assms(3,4)])
  from put_file_spelled(1) [OF s(1) assms(2-4) put(1)] put(2,3)
  have "restored mg d {} fs fs'" by (simp add: restored_def sturdy_def grows_def objects_only_def)
  with put(1) show thesis by (rule that)
qed

text \<open>After the comparison either the contents are right or they are copied.\<close>

lemma should_copy_over:
  assumes "sturdy mg fs" and "hash_ok mg" and "apart mg d" and "plain_name (te_name e)"
    and "lstat fs (d @ [te_name e]) = Some (File c' m' t')"
    and "get_blob (mg_root mg) (te_hash e) fs = Inr c" and "te_size e = of_nat (length c)"
    and "can_take fs (d @ [te_name e]) (FFile c (and (te_mode e) 4095) (te_modified e))"
  obtains b fs' where "should_copy mg now d e fs = (Inr b, fs')" "restored mg d {} fs fs'" "b \<or> c' = c"
proof -
  let ?x = "te_name e" and ?p = "d @ [te_name e]"
  have at: "fs_exists fs d ?x" "fs_metadata fs d ?x = Some (of_nat (length c'), t')"
    using assms(4,5) by (simp_all add: fs_exists_def fs_metadata_def locate_plain)
  show thesis
  proof (cases "of_nat (length c') = te_size e \<and> t' = entry_time e")
    case True
    then have "should_copy mg now d e fs = (Inr False, fs)" using at by (simp add: should_copy_def)
    moreover have "c' = c" using True assms(5,7,8) by (simp add: entry_time_def)
    ultimately show thesis using restored_refl [OF assms(1)] by (intro that [of False fs]) simp_all
  next
    case False
    obtain fs1 where fs1: "put_file (mg_hash mg) now (mg_root mg) d ?x fs = (Inr (mg_hash mg c'), fs1)"
      "restored mg d {} fs fs1"
      using compared [OF assms(1,2,4,5)] by blast
    have "c' = c" if same: "mg_hash mg c' = te_hash e"
    proof -
      have "get_blob (mg_root mg) (te_hash e) fs1 = Inr c"
        using fs1(2) assms(6) by (simp add: restored_def keeps_blobs_def)
      moreover have "get_blob (mg_root mg) (mg_hash mg c') fs1 = Inr c'"
        using put_file_spelled(2) [OF _ assms(2,4,5) fs1(1)] assms(1) by (simp add: sturdy_def)
      ultimately show ?thesis using same by simp
    qed
    moreover have "should_copy mg now d e fs = (Inr (mg_hash mg c' \<noteq> te_hash e), fs1)"
      using False at fs1(1) by (auto simp: should_copy_def)
    ultimately show thesis using fs1(2) by (intro that [of "mg_hash mg c' \<noteq> te_hash e" fs1]) auto
  qed
qed

lemma restore_blob_over:
  assumes "sturdy mg fs" and "hash_ok mg" and "apart mg d" and "is_dir_node (lstat fs d)"
    and "plain_name (te_name e)" and "tidy fs (d @ [te_name e])"
    and "get_blob (mg_root mg) (te_hash e) fs = Inr c" and "te_size e = of_nat (length c)"
    and "can_take fs (d @ [te_name e]) (FFile c (and (te_mode e) 4095) (te_modified e))"
  obtains fs' k where "restore_blob mg now d e fs = (Inr (), fs')" "restored mg d {te_name e} fs fs'"
    "lstat fs' (d @ [te_name e]) = Some (File c k (entry_time e))" "and k 4095 = and (te_mode e) 4095"
    "\<And>y q. lstat fs' (d @ te_name e # y # q) = None"
proof -
  let ?x = "te_name e" and ?p = "d @ [te_name e]"
  have s: "takes_writes fs" "no_links (mg_root mg) fs" using assms(1) by (simp_all add: sturdy_def store_sound_def)
  have kind: "lstat fs ?p = None \<or> (\<exists>c' m' t'. lstat fs ?p = Some (File c' m' t'))"
    using assms(9) by (auto split: option.splits node.splits)
  have below: "lstat fs (?p @ y # q) = None" for y q
    by (rule tidy_empty [OF assms(6)]) (use kind in auto)
  have apart: "apart mg ?p" using assms(3) by (rule apart_below)
  obtain b fs1 fs2 k t where copy: "should_copy mg now d e fs = (Inr b, fs1)"
    "(if b then copy_file now (mg_root mg) (te_hash e) d ?x fs1 else (Inr (), fs1)) = (Inr (), fs2)"
    "restored mg d {?x} fs fs2" "lstat fs2 ?p = Some (File c k t)" "\<And>y q. lstat fs2 (?p @ y # q) = None"
  proof (cases "lstat fs ?p")
    case None
    have new: "fs_exists fs d ?x \<longleftrightarrow> False" using new_name(2) [OF assms(5) None] by simp
    have here: "locate True fs d [] = Some d" by (simp add: locate_def is_absolute_def)
    have mk: "fs_create_dir_all d [] fs = Some fs"
      using here assms(4) by (cases "lstat fs d") (simp_all add: fs_create_dir_all_def is_absolute_def)
    obtain m t where obj: "valid_hash (te_hash e)" "dirs_there (mg_root mg) (te_hash e) fs"
      "lstat fs (object_path (mg_root mg) (te_hash e)) = Some (File c m t)"
      using assms(7) by (auto simp: get_blob_iff [OF s(2)])
    have loc: "locate True fs (mg_root mg) (object_file (te_hash e)) = Some (object_path (mg_root mg) (te_hash e))"
      using obj by (simp add: locate_object_path [OF s(2)])
    define fs1 where "fs1 = put_node ?p (File c 33188 now) fs"
    have w: "fs_write now d ?x c fs = Some fs1"
      using new_name(1) [OF assms(5) None] None s(1) assms(4) by (simp add: fs_write_def fs1_def takes_writes_def)
    have "lstat fs1 ?p = Some (File c 33188 now)" by (simp add: fs1_def lstat_put)
    then have "locate True fs1 d ?x = Some ?p" using assms(5) by (simp add: locate_plain)
    then have "copy_file now (mg_root mg) (te_hash e) d ?x fs = (Inr (), put_node ?p (File c m now) fs1)"
      using mk hash_to_path_split(1) [OF obj(1)] loc obj(3) w by (simp add: copy_file_def fs_copy_def)
    moreover have "only_at ?p fs (put_node ?p (File c m now) fs1)"
      by (simp add: only_at_def fs1_def lstat_put)
    note only = this restored_only [OF assms(1) apart this]
    ultimately show thesis
      using new below by (intro that [of True fs "put_node ?p (File c m now) fs1" m now])
        (simp_all add: should_copy_def only(2) lstat_put fs1_def)
  next
    case (Some n)
    with kind obtain c' m' t' where old: "lstat fs ?p = Some (File c' m' t')" by auto
    obtain b fs1 where sc: "should_copy mg now d e fs = (Inr b, fs1)" "restored mg d {} fs fs1" "b \<or> c' = c"
      by (rule should_copy_over [OF assms(1-3,5) old assms(7-9)])
    note same = restored_other [OF sc(2) assms(3)]
    have s1: "sturdy mg fs1" "takes_writes fs1" "no_links (mg_root mg) fs1"
      using sc(2) by (simp_all add: restored_def sturdy_def store_sound_def)
    have at1: "lstat fs1 ?p = Some (File c' m' t')" "is_dir_node (lstat fs1 d)" "get_blob (mg_root mg) (te_hash e) fs1 = Inr c"
      "lstat fs1 (?p @ y # q) = None" for y q
      using same(1) [of ?x] same(2) old assms(4,7) sc(2) below [of y q] by (simp_all add: restored_def keeps_blobs_def)
    show thesis
    proof (cases b)
      case True
      obtain fs2 k where cp: "copy_file now (mg_root mg) (te_hash e) d ?x fs1 = (Inr (), fs2)" "only_at ?p fs1 fs2"
        "lstat fs2 ?p = Some (File c k now)"
        by (rule object_copied [OF s1(3) at1(2) s1(2) assms(5) at1(1,3)])
      have "restored mg d {?x} fs fs2"
        using restored_trans [OF sc(2) restored_only [OF s1(1) apart cp(2)]] by simp
      moreover have "lstat fs2 (?p @ y # q) = None" for y q
        using cp(2) at1(4) [of y q] by (simp add: only_at_def)
      ultimately show thesis using sc(1) cp(1,3) True by (intro that [of b fs1 fs2 k now]) simp_all
    next
      case False
      then have "c' = c" using sc(3) by simp
      moreover have "restored mg d {?x} fs fs1" by (rule restored_widen [OF sc(2)]) simp
      ultimately show thesis using sc(1) at1(1,4) False by (intro that [of b fs1 fs1 m' t']) simp_all
    qed
  qed
  have s2: "sturdy mg fs2" "takes_writes fs2" using copy(3) by (simp_all add: restored_def sturdy_def)
  obtain fs3 fs4 where dress: "set_mode (te_mode e) d ?x fs2 = Some fs3" "set_mtime (entry_time e) d ?x fs3 = Some fs4"
    "only_at ?p fs2 fs4" "lstat fs4 ?p = Some (File c (or (and k 61440) (and (te_mode e) 4095)) (entry_time e))"
    by (rule file_dressed [OF assms(5) copy(4) s2(2)])
  have "restore_blob mg now d e fs = (Inr (), fs4)"
    using copy(1,2) dress(1,2) by (simp add: restore_blob_def)
  moreover have "restored mg d {?x} fs fs4"
    using restored_trans [OF copy(3) restored_only [OF s2(1) apart dress(3)]] by simp
  moreover have "lstat fs4 (d @ ?x # y # q) = None" for y q
    using dress(3) copy(5) [of y q] by (simp add: only_at_def)
  ultimately show thesis using dress(4) chmod_bits by (intro that)
qed

section \<open>A link\<close>

lemma restore_symlink_over:
  assumes "sturdy mg fs" and "apart mg d" and "is_dir_node (lstat fs d)"
    and "plain_name (te_name e)" and "tidy fs (d @ [te_name e])"
    and "get_blob (mg_root mg) (te_hash e) fs = Inr (bytes_of target)" and "utf8_ok (bytes_of target)"
    and "\<not> is_dir_node (lstat fs (d @ [te_name e]))"
  obtains fs' t where "restore_symlink mg now d e fs = (Inr (), fs')" "restored mg d {te_name e} fs fs'"
    "lstat fs' (d @ [te_name e]) = Some (Link target t)" "\<And>y q. lstat fs' (d @ te_name e # y # q) = None"
proof -
  let ?x = "te_name e" and ?p = "d @ [te_name e]"
  have s: "takes_writes fs" using assms(1) by (simp add: sturdy_def)
  have there: "fs_exists fs d ?x \<or> fs_is_symlink fs d ?x \<longleftrightarrow> lstat fs ?p \<noteq> None"
  proof (cases "is_link_node (lstat fs ?p)")
    case True
    then show ?thesis
      using locate_plain_nofollow [OF assms(4), of fs d] by (cases "lstat fs ?p" rule: is_link_node.cases)
        (simp_all add: fs_is_symlink_def)
  next
    case False
    then show ?thesis
      using locate_plain [OF assms(4) False] locate_plain_nofollow [OF assms(4), of fs d]
      by (auto simp: fs_exists_def fs_is_symlink_def split: option.splits node.splits)
  qed
  define fs1 where "fs1 = (if lstat fs ?p = None then fs else drop_node ?p fs)"
  have "(if fs_exists fs d ?x \<or> fs_is_symlink fs d ?x then ignoring (fs_remove_file d ?x) fs else fs) = fs1"
    using there s assms(8)
    by (auto simp: fs1_def ignoring_def fs_remove_file_def locate_plain_nofollow [OF assms(4)] takes_writes_def)
  moreover have fs1: "lstat fs1 q = (if q = ?p then None else lstat fs q)" "takes_writes fs1" for q
    using s by (auto simp: fs1_def lstat_drop takes_writes_def)
  let ?fs = "put_node ?p (Link target now) fs1"
  have "fs_symlink now target d ?x fs1 = Some ?fs"
    using fs1(1) [of ?p] fs1(1) [of d] fs1(2) assms(3) new_name(1) [OF assms(4), of fs1]
    by (simp add: fs_symlink_def takes_writes_def)
  ultimately have "restore_symlink mg now d e fs = (Inr (), ?fs)"
    using assms(6,7) by (simp add: restore_symlink_def Let_def string_of_bytes)
  moreover have "restored mg d {?x} fs ?fs"
  proof (rule restored_at [OF assms(1) apart_below [OF assms(2)]])
    show "takes_writes ?fs" using fs1(2) by (simp add: takes_writes_def)
    show "lstat ?fs q = lstat fs q" if "\<And>r. q \<noteq> d @ ?x # r" for q
      using that [of "[]"] fs1(1) [of q] by (simp add: lstat_put)
  qed
  moreover have "lstat ?fs (d @ ?x # y # q) = None" for y q
    using tidy_empty [OF assms(5,8), of y q] fs1(1) by (simp add: lstat_put)
  ultimately show thesis by (intro that [of ?fs now]) (simp_all add: lstat_put)
qed

section \<open>What is extra\<close>

lemma remove_extra_frame:
  assumes "plain_name x" and "takes_writes fs" and "\<not> is_dir_node (lstat fs (d @ [x])) \<longrightarrow> (\<forall>y q. lstat fs (d @ x # y # q) = None)"
  shows "lstat (remove_extra d x fs) q = (if \<exists>r. q = d @ x # r then None else lstat fs q)"
    "takes_writes (remove_extra d x fs)"
proof -
  let ?p = "d @ [x]"
  let ?g = "fs\<lparr>nodes := filter (\<lambda>(q, _). take (length ?p) q \<noteq> ?p) (nodes fs)\<rparr>"
  note loc = locate_plain_nofollow [OF assms(1), of fs d]
  have all: "list_all (\<lambda>(q, _). take (length ?p) q = ?p \<longrightarrow> writable fs q) (nodes fs)"
    using assms(2) by (simp add: list_all_iff takes_writes_def)
  have under: "take (length ?p) q = ?p \<longleftrightarrow> (\<exists>r. q = d @ x # r)" for q
    by (metis append.assoc append_Cons append_Nil append_eq_conv_conj append_take_drop_id)
  have eq: "remove_extra d x fs = (if lstat fs ?p = None then fs
      else if is_dir_node (lstat fs ?p) then ?g else drop_node ?p fs)"
    using loc all assms(2)
    by (auto simp: remove_extra_def ignoring_def fs_remove_dir_all_def fs_remove_file_def takes_writes_def split: option.splits)
  show "takes_writes (remove_extra d x fs)" using assms(2) by (auto simp: eq takes_writes_def)
  have gone: "lstat ?g q = (if \<exists>r. q = d @ x # r then None else lstat fs q)"
    by (cases "q = []") (simp_all add: lstat_def map_of_filter_keys flip: under)
  show "lstat (remove_extra d x fs) q = (if \<exists>r. q = d @ x # r then None else lstat fs q)"
  proof (cases "is_dir_node (lstat fs ?p)")
    case True
    then have "remove_extra d x fs = ?g" by (cases "lstat fs ?p") (simp_all add: eq)
    then show ?thesis using gone by (simp del: append_eq_append_conv)
  next
    case False
    have drop: "lstat (remove_extra d x fs) q = (if q = ?p then None else lstat fs q)"
      using False by (simp add: eq lstat_drop)
    show ?thesis
    proof (cases "\<exists>r. q = d @ x # r")
      case True
      then obtain r where "q = d @ x # r" ..
      with drop False assms(3) show ?thesis by (cases r) simp_all
    qed (use drop in auto)
  qed
qed

lemma clean_extras_frame:
  assumes "takes_writes fs"
    and "\<And>y. y \<notin> set expected \<Longrightarrow> tidy fs (d @ [y]) \<and> (lstat fs (d @ [y]) \<noteq> None \<longrightarrow> plain_name y)"
  shows "lstat (clean_extras expected d fs) q = (if \<exists>y r. y \<notin> set expected \<and> q = d @ y # r then None else lstat fs q)"
    "takes_writes (clean_extras expected d fs)"
proof -
  define f where "f = (\<lambda>name fs. if name \<in> set expected then fs else remove_extra d name fs)"
  have below: "lstat fs (d @ x # y # q) = None" if "x \<notin> set expected" "\<not> is_dir_node (lstat fs (d @ [x]))" for x y q
    using tidy_empty [of fs "d @ [x]" y q] assms(2) that by simp
  have "\<forall>x \<in> set names - set expected. plain_name x \<Longrightarrow> takes_writes g \<Longrightarrow>
      \<forall>x y q. x \<notin> set expected \<and> \<not> is_dir_node (lstat g (d @ [x])) \<longrightarrow> lstat g (d @ x # y # q) = None \<Longrightarrow>
      takes_writes (fold f names g) \<and>
      (\<forall>q. lstat (fold f names g) q = (if \<exists>y \<in> set names. y \<notin> set expected \<and> (\<exists>r. q = d @ y # r) then None else lstat g q))"
    for names g
  proof (induction names arbitrary: g)
    case (Cons x names)
    show ?case
    proof (cases "x \<in> set expected")
      case True
      with Cons show ?thesis by (auto simp: f_def)
    next
      case False
      have x: "plain_name x" "\<not> is_dir_node (lstat g (d @ [x])) \<longrightarrow> (\<forall>y q. lstat g (d @ x # y # q) = None)"
        using Cons.prems False by simp_all
      note eff = remove_extra_frame [OF x(1) Cons.prems(2) x(2)]
      have "\<forall>z y q. z \<notin> set expected \<and> \<not> is_dir_node (lstat (remove_extra d x g) (d @ [z])) \<longrightarrow>
          lstat (remove_extra d x g) (d @ z # y # q) = None"
        using Cons.prems(3) by (simp add: eff(1))
      from Cons.IH [OF _ eff(2) this] Cons.prems(1) show ?thesis
        using False by (auto simp: f_def eff(1))
    qed
  qed simp
  note fold_eff = this
  have names: "\<forall>x \<in> set (fs_read_dir fs d) - set expected. plain_name x"
    using assms(2) by (simp add: read_dir_names)
  have clean: "takes_writes (clean_extras expected d fs)"
    "lstat (clean_extras expected d fs) q = (if \<exists>y \<in> set (fs_read_dir fs d). y \<notin> set expected \<and> (\<exists>r. q = d @ y # r) then None
       else lstat fs q)" for q
    using fold_eff [OF names assms(1)] below unfolding clean_extras_def f_def [symmetric] by auto
  show "takes_writes (clean_extras expected d fs)" by (rule clean(1))
  have "lstat fs (d @ y # r) = None" if "y \<notin> set (fs_read_dir fs d)" "y \<notin> set expected" for y r
    using that below [of y] by (cases r) (auto simp: read_dir_names)
  then show "lstat (clean_extras expected d fs) q = (if \<exists>y r. y \<notin> set expected \<and> q = d @ y # r then None else lstat fs q)"
    by (auto simp: clean(2))
qed

section \<open>All entries\<close>

text \<open>The tree is there and nothing else, and the times of files are those of the entries.\<close>

definition as_spelled :: "fsys \<Rightarrow> path \<Rightarrow> ftree \<Rightarrow> bool" where
  "as_spelled fs p t \<longleftrightarrow> captures fs p t \<and> whole_secs fs p \<and> (\<forall>q. look t q = None \<longrightarrow> lstat fs (p @ q) = None)"

lemma as_spelled_same: "as_spelled fs p t \<Longrightarrow> (\<And>q. lstat fs' (p @ q) = lstat fs (p @ q)) \<Longrightarrow> as_spelled fs' p t"
  by (simp add: as_spelled_def captures_def whole_secs_def)

lemma as_spelled_leaf:
  assumes "look t [] = shape_of (lstat fs p)" and "\<nexists>ts. t = FDir ts" and "\<And>y q. lstat fs (p @ y # q) = None"
    and "\<And>c m s. lstat fs p = Some (File c m s) \<Longrightarrow> s = unat (as_secs s) * 1000000000"
  shows "as_spelled fs p t"
proof -
  have "captures fs p t" using assms(1-3) by (intro captures_file) simp_all
  moreover have "s = unat (as_secs s) * 1000000000" if "lstat fs (p @ q) = Some (File c m s)" for q c m s
    using that assms(3,4) by (cases q) auto
  moreover have "lstat fs (p @ q) = None" if "look t q = None" for q
    using that assms(1,3) by (cases q; cases t) auto
  ultimately show ?thesis by (simp add: as_spelled_def whole_secs_def)
qed

lemma restore_entries_over:
  assumes hash: "hash_ok mg" and free: "apart mg d"
    and sub: "\<And>fs h x ts n. sturdy mg fs \<Longrightarrow> spells_tree mg fs n h ts \<Longrightarrow> n < m \<Longrightarrow> tree_ok (FDir ts) \<Longrightarrow> plain_name x \<Longrightarrow>
      is_dir_node (lstat fs d) \<Longrightarrow> tidy fs (d @ [x]) \<Longrightarrow> can_take fs (d @ [x]) (FDir ts) \<Longrightarrow>
      \<exists>fs'. sub h d x fs = Some (Inr (), fs') \<and> restored mg d {x} fs fs' \<and> as_spelled fs' (d @ [x]) (FDir ts)"
  shows "sturdy mg fs \<Longrightarrow> spells mg fs n es ts \<Longrightarrow> n \<le> m \<Longrightarrow> tree_ok (FDir ts) \<Longrightarrow> is_dir_node (lstat fs d) \<Longrightarrow>
    \<forall>(x, t) \<in> set ts. tidy fs (d @ [x]) \<and> can_take fs (d @ [x]) t \<Longrightarrow>
    \<exists>fs'. restore_entries sub mg now d es fs = Some (Inr (), fs') \<and> restored mg d (fst ` set ts) fs fs' \<and>
      (\<forall>(x, t) \<in> set ts. as_spelled fs' (d @ [x]) t)"
proof (induction es arbitrary: fs ts)
  case Nil
  then have "ts = []" by (auto elim: spells.cases)
  then show ?case using restored_refl [OF Nil.prems(1)] by simp
next
  case (Cons e es)
  let ?x = "te_name e"
  obtain t ts1 where ts: "ts = (?x, t) # ts1" "spells mg fs n es ts1"
    using Cons.prems(2) by (auto elim: spells_ConsE)
  have plain: "plain_name ?x" "tree_ok t" "tree_ok (FDir ts1)" "?x \<notin> fst ` set ts1"
    using Cons.prems(4) ts(1) by auto
  have at: "tidy fs (d @ [?x])" "can_take fs (d @ [?x]) t" using Cons.prems(6) ts(1) by auto
  have go: ?case
    if one: "(case te_type e of
              Blob \<Rightarrow> Some (restore_blob mg now d e fs)
            | Tree \<Rightarrow> sub (te_hash e) d ?x fs
            | Symlink \<Rightarrow> Some (restore_symlink mg now d e fs)
            | SymlinkDir \<Rightarrow> Some (restore_symlink mg now d e fs)) = Some (Inr (), fs1)"
      "restored mg d {?x} fs fs1" "as_spelled fs1 (d @ [?x]) t" for fs1
  proof -
    have kept: "sturdy mg fs1" "spells mg fs1 n es ts1" "is_dir_node (lstat fs1 d)"
      using one(2) spells_keeps [OF ts(2)] restored_other(2) [OF one(2) free] Cons.prems(5) by (simp_all add: restored_def)
    have "lstat fs1 ((d @ [x]) @ q) = lstat fs ((d @ [x]) @ q)" if "x \<in> fst ` set ts1" for x q
    proof -
      have "x \<notin> {?x}" using that plain(4) by blast
      from restored_other(1) [OF one(2) free this] show ?thesis by simp
    qed
    then have "\<forall>(x, t) \<in> set ts1. tidy fs1 (d @ [x]) \<and> can_take fs1 (d @ [x]) t"
      using Cons.prems(6) ts(1) tidy_same can_take_same by (fastforce simp del: append_assoc)
    from Cons.IH [OF kept(1,2) Cons.prems(3) plain(3) kept(3) this]
    obtain fs2 where rest: "restore_entries sub mg now d es fs1 = Some (Inr (), fs2)"
      "restored mg d (fst ` set ts1) fs1 fs2" "\<forall>(x, t) \<in> set ts1. as_spelled fs2 (d @ [x]) t" by blast
    have "as_spelled fs2 (d @ [?x]) t"
      using restored_other(1) [OF rest(2) free plain(4)] by (intro as_spelled_same [OF one(3)]) simp
    moreover have "restored mg d (fst ` set ts) fs fs2"
      using restored_trans [OF one(2) rest(2)] ts(1) by simp
    ultimately show ?thesis using one(1) rest(1,3) ts(1) by auto
  qed
  from Cons.prems(2) show ?case
  proof (rule spells_ConsE)
    fix c ts2
    assume blob: "te_type e = Blob" "get_blob (mg_root mg) (te_hash e) fs = Inr c" "te_size e = of_nat (length c)"
      "ts = (?x, FFile c (and (te_mode e) 4095) (te_modified e)) # ts2"
    then have t: "t = FFile c (and (te_mode e) 4095) (te_modified e)" using ts(1) by simp
    obtain fs1 k where r: "restore_blob mg now d e fs = (Inr (), fs1)" "restored mg d {?x} fs fs1"
      "lstat fs1 (d @ [?x]) = Some (File c k (entry_time e))" "and k 4095 = and (te_mode e) 4095"
      "\<And>y q. lstat fs1 (d @ ?x # y # q) = None"
      using restore_blob_over [OF Cons.prems(1) hash free Cons.prems(5) plain(1) at(1) blob(2,3) at(2) [unfolded t]] by blast
    have "as_spelled fs1 (d @ [?x]) t"
      using r(3-5) t by (intro as_spelled_leaf) (auto simp: as_secs_entry, simp add: entry_time_def)
    with r(1,2) blob(1) show ?case by (intro go) simp_all
  next
    fix target ts2
    assume link: "te_type e = Symlink \<or> te_type e = SymlinkDir"
      "get_blob (mg_root mg) (te_hash e) fs = Inr (bytes_of target)" "ts = (?x, FLink target) # ts2"
    then have t: "t = FLink target" using ts(1) by simp
    have ok: "utf8_ok (bytes_of target)" "\<not> is_dir_node (lstat fs (d @ [?x]))" using plain(2) at(2) t by simp_all
    obtain fs1 s where r: "restore_symlink mg now d e fs = (Inr (), fs1)" "restored mg d {?x} fs fs1"
      "lstat fs1 (d @ [?x]) = Some (Link target s)" "\<And>y q. lstat fs1 (d @ ?x # y # q) = None"
      using restore_symlink_over [OF Cons.prems(1) free Cons.prems(5) plain(1) at(1) link(2) ok] by blast
    have "as_spelled fs1 (d @ [?x]) t" using r(3,4) t by (intro as_spelled_leaf) auto
    with r(1,2) link(1) show ?case by (intro go) auto
  next
    fix b es' n' ts' ts2
    assume tree: "te_type e = Tree" "get_blob (mg_root mg) (te_hash e) fs = Inr b"
      "mg_dec_tree mg b = Some es'" "spells mg fs n' es' ts'" "n = Suc n'" "ts = (?x, FDir ts') # ts2"
    then have t: "t = FDir ts'" using ts(1) by simp
    have "spells_tree mg fs n' (te_hash e) ts'" using tree by (auto simp: spells_tree_def)
    from sub [OF Cons.prems(1) this _ _ plain(1) Cons.prems(5) at(1)] tree(5) Cons.prems(3) plain(2) at(2) t
    obtain fs1 where "sub (te_hash e) d ?x fs = Some (Inr (), fs1)" "restored mg d {?x} fs fs1"
      "as_spelled fs1 (d @ [?x]) t" by auto
    with tree(1) show ?case by (intro go) simp_all
  qed
qed

section \<open>Trees\<close>

lemma can_take_empty: "\<forall>q. lstat fs (p @ q) = None \<Longrightarrow> can_take fs p t"
proof (induction t arbitrary: p)
  case (FFile c m s)
  then show ?case using FFile [rule_format, of "[]"] by simp
next
  case (FLink target)
  then show ?case using FLink [rule_format, of "[]"] by simp
next
  case (FDir ts)
  have "can_take fs (p @ [x]) t" if "(x, t) \<in> set ts" for x t
    using FDir.IH [OF that, of t "p @ [x]"] FDir.prems by simp
  then show ?case using FDir.prems [rule_format, of "[]"] by auto
qed

lemma dest_made:
  assumes "sturdy mg fs" and "plain_name x" and "is_dir_node (lstat fs base)" and "apart mg (base @ [x])"
    and "tidy fs (base @ [x])" and "can_take fs (base @ [x]) (FDir ts)"
  obtains fs1 where "fs_create_dir_all base x fs = Some fs1" "locate True fs1 base x = Some (base @ [x])"
    "restored mg base {x} fs fs1" "is_dir_node (lstat fs1 (base @ [x]))" "tidy fs1 (base @ [x])"
    "can_take fs1 (base @ [x]) (FDir ts)"
proof (cases "lstat fs (base @ [x])")
  case None
  let ?d = "base @ [x]"
  have name: "\<not> is_absolute x" "split_on CHR ''/'' x = [x]"
    using assms(2) by (cases x; auto simp: is_absolute_def plain_name_def split_on_none)+
  let ?fs1 = "put_node ?d (Dir 16877 0) fs"
  have mk: "fs_create_dir_all base x fs = Some ?fs1"
    using name assms(1,3) None new_name(1) [OF assms(2) None]
    by (simp add: fs_create_dir_all_def sturdy_def takes_writes_def)
  have d1: "lstat ?fs1 ?d = Some (Dir 16877 0)" by (simp add: lstat_put)
  then have loc: "locate True ?fs1 base x = Some ?d" using assms(2) by (simp add: locate_plain)
  have empty: "lstat ?fs1 (?d @ y # q) = None" for y q
    using tidy_empty [OF assms(5), of y q] None by (simp add: lstat_put)
  have "tidy ?fs1 ?d"
    unfolding tidy_def
  proof (intro allI impI)
    fix q y
    assume "lstat ?fs1 (?d @ q @ [y]) \<noteq> None"
    with empty [of "hd (q @ [y])" "tl (q @ [y])"] show "is_dir_node (lstat ?fs1 (?d @ q)) \<and> plain_name y"
      by (cases q) auto
  qed
  moreover have "can_take ?fs1 ?d (FDir ts)"
    using can_take_empty [of ?fs1] empty d1 by (auto simp: dir_or_none_def)
  ultimately show thesis
    using mk loc d1 restored_only [OF assms(1,4) only_at_put] by (intro that [of ?fs1]) simp_all
next
  case (Some n)
  let ?d = "base @ [x]"
  have dir: "is_dir_node (lstat fs ?d)" using assms(6) Some by (simp add: dir_or_none_def)
  then have loc: "locate True fs base x = Some ?d"
    using assms(2) by (cases "lstat fs ?d" rule: is_dir_node.cases) (simp_all add: locate_plain)
  have name: "\<not> is_absolute x" "split_on CHR ''/'' x = [x]"
    using assms(2) by (cases x; auto simp: is_absolute_def plain_name_def split_on_none)+
  have "fs_create_dir_all base x fs = Some fs" using name loc Some dir by (simp add: fs_create_dir_all_def)
  with loc dir assms(5,6) restored_refl [OF assms(1)] show thesis by (intro that [of fs]) simp_all
qed

lemma restore_tree_over:
  assumes "hash_ok mg"
  shows "sturdy mg fs \<Longrightarrow> spells_tree mg fs n h ts \<Longrightarrow> n < m \<Longrightarrow> tree_ok (FDir ts) \<Longrightarrow> plain_name x \<Longrightarrow>
     is_dir_node (lstat fs base) \<Longrightarrow> apart mg (base @ [x]) \<Longrightarrow> tidy fs (base @ [x]) \<Longrightarrow> can_take fs (base @ [x]) (FDir ts) \<Longrightarrow>
     \<exists>fs'. restore_tree mg now m h base x fs = Some (Inr (), fs') \<and> restored mg base {x} fs fs' \<and>
       as_spelled fs' (base @ [x]) (FDir ts)"
proof (induction m arbitrary: fs n h ts base x)
  case 0
  then show ?case by simp
next
  case (Suc m)
  let ?d = "base @ [x]" and ?X = "fst ` set ts"
  note free = Suc.prems(7)
  obtain fs1 where fs1: "fs_create_dir_all base x fs = Some fs1" "locate True fs1 base x = Some ?d"
    "restored mg base {x} fs fs1" "is_dir_node (lstat fs1 ?d)" "tidy fs1 ?d" "can_take fs1 ?d (FDir ts)"
    by (rule dest_made [OF Suc.prems(1,5-9)])
  have s1: "sturdy mg fs1" "keeps_blobs mg fs fs1" using fs1(3) by (simp_all add: restored_def)
  obtain b es where tree: "get_blob (mg_root mg) h fs1 = Inr b" "mg_dec_tree mg b = Some es" "spells mg fs1 n es ts"
    using spells_tree_keeps [OF Suc.prems(2) s1(2)] by (auto simp: spells_tree_def)
  have "n \<le> m" using Suc.prems(3) by simp
  have "\<forall>(x, t) \<in> set ts. tidy fs1 (?d @ [x]) \<and> can_take fs1 (?d @ [x]) t"
    using fs1(6) tidy_below [OF fs1(5)] by auto
  then have "\<exists>fs2. restore_entries (restore_tree mg now m) mg now ?d es fs1 = Some (Inr (), fs2) \<and>
      restored mg ?d ?X fs1 fs2 \<and> (\<forall>(x, t) \<in> set ts. as_spelled fs2 (?d @ [x]) t)"
    by (intro restore_entries_over [where m = m, OF assms free _ s1(1) tree(3) \<open>n \<le> m\<close> Suc.prems(4) fs1(4)])
      (rule Suc.IH, simp_all add: apart_below [OF free, of "[_]", simplified])
  then obtain fs2 where ent: "restore_entries (restore_tree mg now m) mg now ?d es fs1 = Some (Inr (), fs2)"
    "restored mg ?d ?X fs1 fs2" "\<forall>(x, t) \<in> set ts. as_spelled fs2 (?d @ [x]) t" by blast
  have names: "set (map te_name es) = ?X" using arg_cong [OF spells_names [OF tree(3)], of set] by simp
  have s2: "sturdy mg fs2" "takes_writes fs2" using ent(2) by (simp_all add: restored_def sturdy_def)
  have extra: "tidy fs2 (?d @ [y]) \<and> (lstat fs2 (?d @ [y]) \<noteq> None \<longrightarrow> plain_name y)" if "y \<notin> set (map te_name es)" for y
  proof -
    have same: "lstat fs2 (?d @ y # q) = lstat fs1 (?d @ y # q)" for q
      using that names restored_other(1) [OF ent(2) free] by simp
    then have "tidy fs2 (?d @ [y])" by (intro tidy_same [OF tidy_below [OF fs1(5)]]) simp
    moreover have "lstat fs1 (?d @ [] @ [y]) \<noteq> None \<longrightarrow> plain_name y" using fs1(5) unfolding tidy_def by blast
    ultimately show ?thesis using same by simp
  qed
  define fs3 where "fs3 = clean_extras (map te_name es) ?d fs2"
  have clean: "lstat fs3 q = (if \<exists>y r. y \<notin> ?X \<and> q = ?d @ y # r then None else lstat fs2 q)" "takes_writes fs3" for q
    using clean_extras_frame [where expected = "map te_name es", OF s2(2) extra] unfolding names fs3_def by simp_all
  have "restore_tree mg now (Suc m) h base x fs = Some (Inr (), fs3)"
    using fs1(1,2) tree(1,2) ent(1) by (simp add: fs3_def)
  moreover have "restored mg base {x} fs2 fs3"
    by (rule restored_at [OF s2(1) free clean(2)]) (auto simp: clean(1))
  then have "restored mg base {x} fs fs3"
    using restored_trans [OF restored_trans [OF fs1(3) restored_up [OF ent(2)]], of "{x}" fs3] by simp
  moreover have "as_spelled fs3 ?d (FDir ts)"
  proof -
    have dir: "is_dir_node (lstat fs3 ?d)" using clean(1) [of ?d] restored_other(2) [OF ent(2) free] fs1(4) by simp
    have some: "as_spelled fs3 (?d @ [y]) t" if "map_of ts y = Some t" for y t
    proof (rule as_spelled_same [of fs2])
      show "as_spelled fs2 (?d @ [y]) t" using that ent(3) by (auto dest: map_of_SomeD)
      have "y \<in> ?X" using that by (force dest: map_of_SomeD)
      then show "lstat fs3 ((?d @ [y]) @ q) = lstat fs2 ((?d @ [y]) @ q)" for q by (simp add: clean(1))
    qed
    have none: "lstat fs3 (?d @ y # q) = None" if "map_of ts y = None" for y q
      using that by (simp add: clean(1) map_of_eq_None_iff)
    have "look (FDir ts) q = shape_of (lstat fs3 (?d @ q)) \<and>
        (look (FDir ts) q = None \<longrightarrow> lstat fs3 (?d @ q) = None) \<and>
        (\<forall>c k s. lstat fs3 (?d @ q) = Some (File c k s) \<longrightarrow> s = unat (as_secs s) * 1000000000)" for q
    proof (cases q)
      case Nil
      then show ?thesis using dir by (cases "lstat fs3 ?d" rule: is_dir_node.cases) simp_all
    next
      case (Cons y r)
      show ?thesis
      proof (cases "map_of ts y")
        case None
        then show ?thesis using none [OF None, of r] Cons by simp
      next
        case (Some t)
        from some [OF this] Some Cons show ?thesis
          by (simp add: as_spelled_def captures_def whole_secs_def)
      qed
    qed
    then show ?thesis unfolding as_spelled_def captures_def whole_secs_def by blast
  qed
  ultimately show ?case by blast
qed

section \<open>Rolling back\<close>

text \<open>What may stand where a node of the snapshot goes.\<close>

fun fits :: "shape option \<Rightarrow> node option \<Rightarrow> bool" where
  "fits (Some (SFile c m s)) y =
     (case y of
        None \<Rightarrow> True
      | Some (File c' m' t) \<Rightarrow>
          (of_nat (length c') = (of_nat (length c) :: u64) \<and> t = unat s * 1000000000 \<longrightarrow> c' = c)
      | _ \<Rightarrow> False)"
| "fits (Some (SLink target)) y = (\<not> is_dir_node y)"
| "fits (Some SDir) y = dir_or_none y"
| "fits None y = True"

lemma fits_take: "tree_ok t \<Longrightarrow> (\<And>q. fits (look t q) (lstat fs (p @ q))) \<Longrightarrow> can_take fs p t"
proof (induction t arbitrary: p)
  case (FFile c m s)
  then show ?case using FFile.prems(2) [of "[]"] by simp
next
  case (FLink target)
  then show ?case using FLink.prems(2) [of "[]"] by simp
next
  case (FDir ts)
  have "can_take fs (p @ [x]) t" if "(x, t) \<in> set ts" for x t
  proof -
    have "map_of ts x = Some t" "tree_ok t" using that FDir.prems(1) by auto
    then show ?thesis using FDir.IH [OF that, of t "p @ [x]"] FDir.prems(2) [of "x # _"] by simp
  qed
  then show ?case using FDir.prems(2) [of "[]"] by auto
qed

lemma create_restore_over:
  assumes "store_ok mg fs" and "codec_ok mg" and "hash_ok mg" and "store_sound mg fs" and "uuid_ok uuid"
    and "\<not> list_ex temp_like (input_tags tags)"
    and "locate True fs cwd workspace = Some src" and "source_ok mg fs src"
    and "create_snapshot mg now uuid fuel cwd workspace msg tags fs = Some (Inr i, fs1)"
    and "sturdy mg fs2" and "\<And>p. lstat fs2 (mg_root mg @ p) = lstat fs1 (mg_root mg @ p)"
    and "plain_name x" and "is_dir_node (lstat fs2 base)" and "apart mg (base @ [x])" and "tidy fs2 (base @ [x])"
    and "\<And>q. fits (shape_of (lstat fs (src @ q))) (lstat fs2 (base @ x # q))" and "fuel < fuel'"
  obtains ts fs3 where "captures fs src (FDir ts)" "restore_snapshot mg now' fuel' base i x fs2 = Some (Inr (), fs3)"
    "restored mg base {x} fs2 fs3" "as_spelled fs3 (base @ [x]) (FDir ts)"
proof (rule create_snapshot_spells [OF assms(1-9)])
  fix ts and s :: snapshot
  assume s: "i = uuid" "read_snapshot mg i fs1 = Inr s" "store_ok mg fs1" "no_links (mg_root mg) fs1"
    and ts: "spells_tree mg fs1 fuel (sn_tree s) ts" "captures fs src (FDir ts)" "tree_ok (FDir ts)"
  have links: "no_links (mg_root mg) fs2" using assms(10) by (simp add: sturdy_def store_sound_def)
  have "keeps_blobs mg fs1 fs2"
    using s(4) links assms(11) by (simp add: keeps_blobs_def get_blob_iff dirs_there_def object_path_def)
  note spelled = spells_tree_keeps [OF ts(1) this]
  have "read_snapshot mg i fs2 = Inr s"
    using read_snapshot_frame [OF s(3) uuid_plain [OF assms(5)] assms(11)] s(1,2) by simp
  moreover have "can_take fs2 (base @ [x]) (FDir ts)"
    using assms(16) ts(2) by (intro fits_take [OF ts(3)]) (simp add: captures_def)
  from restore_tree_over [OF assms(3,10) spelled assms(17) ts(3) assms(12-15) this] obtain fs3 where
    "restore_tree mg now' fuel' (sn_tree s) base x fs2 = Some (Inr (), fs3)" "restored mg base {x} fs2 fs3"
    "as_spelled fs3 (base @ [x]) (FDir ts)" by blast
  ultimately show thesis using ts(2) by (intro that [of ts fs3]) (simp_all add: restore_snapshot_def)
qed


text \<open>The workspace after a creation: the file was changed, the link lost, a directory with a file added.\<close>

definition work_changed :: fsys where
  "work_changed =
     put_node [''w'', ''x'', ''y''] (File [9] 6 0) (put_node [''w'', ''x''] (Dir 0 0)
       (put_node [''w'', ''f''] (File [3, 4] 6 1) (drop_node [''w'', ''l''] work_created)))"

lemma over_created_ok:
  "store_ready work_manager work_created" "hd q \<noteq> ''s'' \<Longrightarrow> lstat work_created q = lstat work_disk q"
proof -
  have facts: "uuid_ok ''a''" "locate True work_disk [] ''/w'' = Some [''w'']" "\<not> list_ex temp_like (input_tags None)"
    by code_simp+
  have deep: "depth_bound work_manager work_disk < 9" by (simp add: depth_bound_def work_disk_def spell_manager_def)
  have no_tags: "\<forall>t \<in> set (input_tags None). validate_tag_name t = Inr () \<and> lstat work_disk (tags_dir work_manager @ [t]) = None"
    by (simp add: input_tags_def)
  obtain fs where "create_snapshot work_manager 0 ''a'' 9 [] ''/w'' (Some ''m'') None work_disk = Some (Inr ''a'', fs)"
    "store_ready work_manager fs"
    using ready_creates [OF work_disk_ready spell_manager_ok(1) facts(1) no_tags facts(2) work_disk_ok(3) deep] by blast
  with work_create show "store_ready work_manager work_created" by simp
  assume "hd q \<noteq> ''s''"
  then have "q \<noteq> mg_root work_manager @ p" for p by (auto simp: spell_manager_def)
  then show "lstat work_created q = lstat work_disk q"
    using create_snapshot_spells [OF work_disk_ok(1) spell_manager_ok(2,1) work_disk_ok(2) facts(1,3,2) work_disk_ok(3) work_create]
    by blast
qed

lemma work_changed_node:
  "lstat work_changed q =
     (if q = [''w'', ''x'', ''y''] then Some (File [9] 6 0) else if q = [''w'', ''x''] then Some (Dir 0 0)
      else if q = [''w'', ''f''] then Some (File [3, 4] 6 1) else if q = [''w'', ''l''] then None
      else lstat work_created q)"
  by (simp add: work_changed_def lstat_put lstat_drop)


end
