(* ===== verification/TempDir.thy ===== *)
theory TempDir
  imports Catalogue RestoreOver
begin

text \<open>
  A directory as a tree. The operations of the file system and of the snapshot manager, below a
  directory that holds a store beside other things, do to the disk what they do to the tree of those
  things and to the catalogue of the store. A program that works in such a directory can then be run
  on the tree: each rule at the end takes one operation off its front.
\<close>

section \<open>Trees\<close>

lemma look_root: "look t [] \<noteq> None"
  by (cases t) simp_all

lemma look_dir: "look t [] = Some SDir \<longleftrightarrow> (\<exists>ts. t = FDir ts)"
  by (cases t) simp_all

lemma look_parent: "tree_ok t \<Longrightarrow> look t (q @ [x]) \<noteq> None \<Longrightarrow> look t q = Some SDir \<and> plain_name x"
proof (induction q arbitrary: t)
  case Nil
  then obtain ts where ts: "t = FDir ts" "map_of ts x \<noteq> None" by (cases t) (auto split: option.splits)
  then have "(x, the (map_of ts x)) \<in> set ts" by (auto dest: map_of_SomeD)
  with Nil.prems(1) ts(1) show ?case by auto
next
  case (Cons y q)
  then obtain ts u where u: "t = FDir ts" "map_of ts y = Some u" by (cases t) (auto split: option.splits)
  then have "tree_ok u" using Cons.prems(1) by (auto dest!: map_of_SomeD)
  with Cons.IH [OF this] Cons.prems(2) u show ?case by simp
qed

lemma look_link: "tree_ok t \<Longrightarrow> look t q = Some (SLink target) \<Longrightarrow> utf8_ok (bytes_of target)"
proof (induction q arbitrary: t)
  case Nil
  then show ?case by (cases t) simp_all
next
  case (Cons y q)
  then obtain ts u where u: "t = FDir ts" "map_of ts y = Some u" by (cases t) (auto split: option.splits)
  then have "tree_ok u" using Cons.prems(1) by (auto dest!: map_of_SomeD)
  with Cons.IH [OF this] Cons.prems(2) u show ?case by simp
qed

text \<open>Put the tree \<open>u\<close> at a place.\<close>

fun plant :: "path \<Rightarrow> ftree \<Rightarrow> ftree \<Rightarrow> ftree" where
  "plant [] u t = u"
| "plant (x # q) u (FDir ts) =
     FDir (AList.update x (case map_of ts x of None \<Rightarrow> plant q u (FDir []) | Some t \<Rightarrow> plant q u t) ts)"
| "plant (x # q) u t = t"

lemma look_plant:
  "look t p = Some SDir \<Longrightarrow> look (plant (p @ [x]) u t) r =
     (if take (length p + 1) r = p @ [x] then look u (drop (length p + 1) r) else look t r)"
proof (induction p arbitrary: t r)
  case Nil
  then obtain ts where t: "t = FDir ts" by (auto simp: look_dir)
  show ?case
  proof (cases r)
    case (Cons y q)
    then show ?thesis by (cases "map_of ts x") (simp_all add: t update_conv')
  qed (simp add: t)
next
  case (Cons y p)
  then obtain ts v where v: "t = FDir ts" "map_of ts y = Some v" "look v p = Some SDir"
    by (cases t) (auto split: option.splits)
  show ?case
  proof (cases r)
    case r: (Cons z q)
    show ?thesis
    proof (cases "z = y")
      case True
      then show ?thesis using Cons.IH [OF v(3), of q] v r by (simp add: update_conv')
    next
      case False
      then show ?thesis using v r by (simp add: update_conv')
    qed
  qed (use v in simp)
qed

lemma plant_ok:
  "tree_ok t \<Longrightarrow> tree_ok u \<Longrightarrow> look t p = Some SDir \<Longrightarrow> plain_name x \<Longrightarrow> tree_ok (plant (p @ [x]) u t)"
proof (induction p arbitrary: t)
  case Nil
  then obtain ts where t: "t = FDir ts" by (auto simp: look_dir)
  have "distinct (map fst (AList.update x u ts))" using Nil.prems(1) t by (simp add: distinct_update)
  moreover have "plain_name z \<and> tree_ok v" if "(z, v) \<in> set (AList.update x u ts)" for z v
    using that Nil.prems t calculation
    by (metis (no_types, lifting) case_prodD fun_upd_apply map_of_SomeD map_of_is_SomeI tree_ok.simps(3) update_conv' option.inject)
  ultimately show ?case using t by (cases "map_of ts x") auto
next
  case (Cons y p)
  then obtain ts v where v: "t = FDir ts" "map_of ts y = Some v" "look v p = Some SDir"
    by (cases t) (auto split: option.splits)
  have in_ts: "(y, v) \<in> set ts" using v(2) by (rule map_of_SomeD)
  then have "plain_name y" "tree_ok v" using Cons.prems(1) v(1) by auto
  note new = Cons.IH [OF this(2) Cons.prems(2) v(3) Cons.prems(4)]
  let ?v = "plant (p @ [x]) u v"
  have "distinct (map fst (AList.update y ?v ts))" using Cons.prems(1) v(1) by (simp add: distinct_update)
  moreover have "plain_name z \<and> tree_ok w" if "(z, w) \<in> set (AList.update y ?v ts)" for z w
    using that Cons.prems(1) v(1) new \<open>plain_name y\<close> calculation
    by (metis (no_types, lifting) case_prodD fun_upd_apply map_of_SomeD map_of_is_SomeI tree_ok.simps(3) update_conv' option.inject)
  ultimately show ?case using v by auto
qed

section \<open>What a directory shows\<close>

text \<open>Below \<open>d\<close>, the store apart, the disk has this tree and nothing else.\<close>

definition displays :: "path \<Rightarrow> fsys \<Rightarrow> ftree \<Rightarrow> bool" where
  "displays d fs t \<longleftrightarrow> tree_ok t \<and> look t [] = Some SDir \<and> (\<forall>q. look t (''store'' # q) = None) \<and>
     (\<forall>q. q \<noteq> [] \<longrightarrow> hd q \<noteq> ''store'' \<longrightarrow> look t q = shape_of (lstat fs (d @ q)) \<and> (look t q = None \<longrightarrow> lstat fs (d @ q) = None))"

text \<open>No file is from the time when seconds no longer fit into sixty-four bits.\<close>

definition early :: "path \<Rightarrow> fsys \<Rightarrow> bool" where
  "early d fs \<longleftrightarrow> (\<forall>q c m t. hd q \<noteq> ''store'' \<longrightarrow> lstat fs (d @ q) = Some (File c m t) \<longrightarrow> t div 1000000000 < 2 ^ 64)"

text \<open>A snapshot of the store from which this tree can be restored.\<close>

definition kept :: "manager \<Rightarrow> fsys \<Rightarrow> string \<Rightarrow> nat \<Rightarrow> ftree \<Rightarrow> bool" where
  "kept mg fs i n u \<longleftrightarrow> (\<exists>s ts. plain_name (snapshot_file i) \<and> read_snapshot mg i fs = Inr s \<and>
     spells_tree mg fs n (sn_tree s) ts \<and> tree_ok (FDir ts) \<and> tree_ok u \<and> look (FDir ts) = look u)"

text \<open>The store, if the manager has been started, holds the catalogue \<open>c\<close>, and the snapshots \<open>ks\<close> can be
  restored.\<close>

definition scene ::
  "manager \<Rightarrow> path \<Rightarrow> ftree \<Rightarrow> catalogue option \<Rightarrow> (string \<times> nat \<times> ftree) list \<Rightarrow> fsys \<Rightarrow> bool" where
  "scene mg d t c ks fs \<longleftrightarrow> mg_root mg = d @ [''store''] \<and> codec_ok mg \<and> hash_ok mg \<and> list_all plain_name d \<and>
     (\<forall>k. is_dir_node (lstat fs (take k d))) \<and> takes_writes fs \<and> displays d fs t \<and> early d fs \<and>
     (case c of None \<Rightarrow> \<forall>q. lstat fs (d @ ''store'' # q) = None | Some c \<Rightarrow> holds mg fs c) \<and>
     (\<forall>(i, n, u) \<in> set ks. kept mg fs i n u)"

lemma sceneD:
  assumes "scene mg d t c ks fs"
  shows "mg_root mg = d @ [''store'']" "codec_ok mg" "hash_ok mg" "list_all plain_name d" "is_dir_node (lstat fs (take k d))"
    "takes_writes fs" "displays d fs t" "early d fs" "c = Some c' \<Longrightarrow> holds mg fs c'"
    "c = None \<Longrightarrow> lstat fs (d @ ''store'' # q) = None" "(i, n, u) \<in> set ks \<Longrightarrow> kept mg fs i n u" "is_dir_node (lstat fs d)"
proof -
  have "is_dir_node (lstat fs (take (length d) d))" using assms unfolding scene_def by blast
  then show "is_dir_node (lstat fs d)" by simp
qed (use assms in \<open>auto simp: scene_def\<close>)

lemma showsD:
  assumes "displays d fs t"
  shows "tree_ok t" "look t [] = Some SDir" "look t (''store'' # q) = None"
    "q \<noteq> [] \<Longrightarrow> hd q \<noteq> ''store'' \<Longrightarrow> shape_of (lstat fs (d @ q)) = look t q"
    "q \<noteq> [] \<Longrightarrow> hd q \<noteq> ''store'' \<Longrightarrow> lstat fs (d @ q) = None \<longleftrightarrow> look t q = None"
  using assms by (auto simp: displays_def)

lemma shown_store: "displays d fs t \<Longrightarrow> look t q \<noteq> None \<Longrightarrow> q \<noteq> [] \<Longrightarrow> hd q \<noteq> ''store''"
  using showsD(3) by (cases q) fastforce+

text \<open>What is shown is there.\<close>

lemma shown_node:
  assumes "displays d fs t" and "q \<noteq> []"
  shows "look t q = Some SDir \<Longrightarrow> is_dir_node (lstat fs (d @ q))"
    "look t q = Some (SFile c m s) \<Longrightarrow> \<exists>m' s'. lstat fs (d @ q) = Some (File c m' s') \<and> as_secs s' = s"
    "look t q = Some (SLink target) \<Longrightarrow> \<exists>s'. lstat fs (d @ q) = Some (Link target s')"
    "look t q = None \<Longrightarrow> hd q \<noteq> ''store'' \<Longrightarrow> lstat fs (d @ q) = None"
proof -
  have same: "shape_of (lstat fs (d @ q)) = look t q" if "look t q \<noteq> None"
    using showsD(4) [OF assms(1,2) shown_store [OF assms(1) that assms(2)]] .
  show "look t q = Some SDir \<Longrightarrow> is_dir_node (lstat fs (d @ q))"
    "look t q = Some (SFile c m s) \<Longrightarrow> \<exists>m' s'. lstat fs (d @ q) = Some (File c m' s') \<and> as_secs s' = s"
    "look t q = Some (SLink target) \<Longrightarrow> \<exists>s'. lstat fs (d @ q) = Some (Link target s')"
    using same by (cases "lstat fs (d @ q)" rule: shape_of.cases; simp)+
  show "look t q = None \<Longrightarrow> hd q \<noteq> ''store'' \<Longrightarrow> lstat fs (d @ q) = None" using showsD(5) [OF assms] by simp
qed

section \<open>Changes beside the store\<close>

lemma holds_same:
  assumes "holds mg fs c" and "takes_writes fs'" and "\<And>p. lstat fs' (mg_root mg @ p) = lstat fs (mg_root mg @ p)"
  shows "holds mg fs' c"
proof -
  have ready: "store_ready mg fs" by (rule holdsD(1) [OF assms(1)])
  have dirs: "lstat fs' (snapshots_dir mg @ p) = lstat fs (snapshots_dir mg @ p)"
    "lstat fs' (tags_dir mg @ p) = lstat fs (tags_dir mg @ p)" for p
    using assms(3) by (simp_all add: snapshots_dir_def tags_dir_def)
  have "lstat fs' (snapshots_dir mg) = lstat fs (snapshots_dir mg)" "lstat fs' (tags_dir mg) = lstat fs (tags_dir mg)"
    using dirs [of "[]"] by simp_all
  then have ok: "store_ok mg fs'"
    using holdsD(6) [OF assms(1)] assms(3) by (simp add: store_ok_def no_links_def)
  have "sturdy mg fs" using ready by (simp add: sturdy_def store_ready_def)
  from sturdy_same(1) [OF this assms(2,3)] have "store_ready mg fs'"
    using ready ok dirs by (simp add: store_ready_def sturdy_def files_only_def)
  moreover have "holds_info mg fs' s" if "s \<in> set c" for s
  proof -
    have info: "holds_info mg fs s" by (rule holdsD(3) [OF assms(1) that])
    have "get_snapshot mg (si_id s) fs' = get_snapshot mg (si_id s) fs"
      using read_snapshot_frame [OF holdsD(6) [OF assms(1)] _ assms(3)] info uuid_plain
      by (simp add: get_snapshot_def holds_info_def)
    moreover have "get_snapshot_by_tag mg x fs' = get_snapshot_by_tag mg x fs" if "plain_name x" for x
      using read_plain [OF store_dirs(2) [OF ok] that] read_plain [OF holdsD(8) [OF assms(1)] that] dirs(2)
      by (simp add: get_snapshot_by_tag_def fs_read_to_string_def)
    ultimately show ?thesis using info by (simp add: holds_info_def)
  qed
  ultimately show ?thesis using assms(1) dirs by (simp add: holds_def)
qed

lemma kept_keeps:
  assumes "kept mg fs i n u" and "read_snapshot mg i fs' = read_snapshot mg i fs" and "keeps_blobs mg fs fs'"
  shows "kept mg fs' i n u"
  using assms spells_tree_keeps [OF _ assms(3)] unfolding kept_def by metis

lemma scene_outside:
  assumes "scene mg d t c ks fs" and "takes_writes fs'" and "\<And>q. (\<And>r. q \<noteq> d @ x # r) \<Longrightarrow> lstat fs' q = lstat fs q"
    and "x \<noteq> ''store''" and "displays d fs' t'" and "early d fs'" and "ks = [] \<or> c \<noteq> None"
  shows "scene mg d t' c ks fs'"
proof -
  note s = sceneD [OF assms(1)]
  have store: "lstat fs' (mg_root mg @ p) = lstat fs (mg_root mg @ p)" for p
    using assms(4) by (intro assms(3)) (simp add: s(1))
  have "is_dir_node (lstat fs' (take k d))" for k
  proof -
    have "take k d \<noteq> d @ x # r" for r by (auto dest: arg_cong [of _ _ length])
    then have "lstat fs' (take k d) = lstat fs (take k d)" by (rule assms(3))
    then show ?thesis using s(5) by simp
  qed
  moreover have "case c of None \<Rightarrow> \<forall>q. lstat fs' (d @ ''store'' # q) = None | Some c \<Rightarrow> holds mg fs' c"
  proof (cases c)
    case None
    then show ?thesis using s(10) store by (simp add: s(1))
  next
    case (Some c')
    then show ?thesis using holds_same [OF s(9) assms(2) store] by simp
  qed
  moreover have "kept mg fs' i n u" if k: "(i, n, u) \<in> set ks" for i n u
  proof -
    obtain c' where c': "c = Some c'" using assms(7) k by (cases c) auto
    then have "sturdy mg fs" using holdsD(1) [OF s(9)] by (simp add: sturdy_def store_ready_def)
    from sturdy_same(2) [OF this assms(2) store] have "keeps_blobs mg fs fs'" .
    moreover have "kept mg fs i n u" by (rule s(11) [OF k])
    moreover from this have "read_snapshot mg i fs' = read_snapshot mg i fs"
      using read_snapshot_frame [OF holdsD(6) [OF s(9) [OF c']] _ store] by (auto simp: kept_def)
    ultimately show ?thesis using kept_keeps by blast
  qed
  ultimately show ?thesis using s(1-4) assms(2,5,6) by (auto simp: scene_def)
qed

text \<open>A new file, link or directory.\<close>

lemma scene_put:
  assumes "scene mg d t c ks fs" and "look t p = Some SDir" and "look t (p @ [x]) = None" and "hd (p @ [x]) \<noteq> ''store''"
    and "plain_name x" and "shape_of (Some n) = look u []" and "tree_ok u" and "\<forall>y q. look u (y # q) = None"
    and "\<forall>c m s. n = File c m s \<longrightarrow> s div 1000000000 < 2 ^ 64" and "ks = [] \<or> c \<noteq> None"
  shows "scene mg d (plant (p @ [x]) u t) c ks (put_node (d @ p @ [x]) n fs)"
proof -
  note s = sceneD [OF assms(1)]
  let ?p = "p @ [x]" and ?fs = "put_node (d @ p @ [x]) n fs"
  have put: "lstat ?fs q = (if q = d @ ?p then Some n else lstat fs q)" for q by (simp add: lstat_put)
  have below: "look t (?p @ y # q) = None" for y q
  proof (rule ccontr)
    assume some: "look t (?p @ y # q) \<noteq> None"
    have "look t (?p @ r @ [z]) \<noteq> None \<Longrightarrow> look t ?p \<noteq> None" for r z
    proof (induction r arbitrary: z rule: rev_induct)
      case Nil
      then show ?case using look_parent [OF showsD(1) [OF s(7)], of ?p z] by simp
    next
      case (snoc w r)
      then show ?case using look_parent [OF showsD(1) [OF s(7)], of "?p @ r @ [w]" z] snoc.IH [of w] by simp
    qed
    moreover obtain r z where "y # q = r @ [z]" by (metis append_butlast_last_id list.distinct(1))
    ultimately have "look t ?p \<noteq> None" using some by simp
    with assms(3) show False by simp
  qed
  have shown: "displays d ?fs (plant ?p u t)"
    unfolding displays_def
  proof (intro conjI allI impI)
    show "tree_ok (plant ?p u t)" by (rule plant_ok [OF showsD(1) [OF s(7)] assms(7,2,5)])
    show "look (plant ?p u t) [] = Some SDir" using look_plant [OF assms(2)] showsD(2) [OF s(7)] by simp
    show "look (plant ?p u t) (''store'' # q) = None" for q
      using look_plant [OF assms(2), of x u "''store'' # q"] showsD(3) [OF s(7)] assms(4) by (cases p) auto
    fix q
    assume q: "q \<noteq> []" "hd q \<noteq> ''store''"
    have "look (plant ?p u t) q = shape_of (lstat ?fs (d @ q)) \<and> (look (plant ?p u t) q = None \<longrightarrow> lstat ?fs (d @ q) = None)"
    proof (cases "take (length p + 1) q = ?p")
      case True
      then obtain r where r: "q = ?p @ r" by (metis append_take_drop_id)
      show ?thesis
      proof (cases r)
        case Nil
        then show ?thesis using look_plant [OF assms(2), of x u q] True r assms(6) look_root [of u]
          by (simp add: put)
      next
        case (Cons y r')
        then show ?thesis using look_plant [OF assms(2), of x u q] True r assms(8) below [of y r'] showsD(5) [OF s(7) q]
          by (simp add: put)
      qed
    next
      case False
      then have "q \<noteq> ?p" by auto
      then show ?thesis using False look_plant [OF assms(2), of x u q] showsD(4,5) [OF s(7) q] by (simp add: put)
    qed
    then show "look (plant ?p u t) q = shape_of (lstat ?fs (d @ q))" "look (plant ?p u t) q = None \<Longrightarrow> lstat ?fs (d @ q) = None"
      by blast+
  qed
  have old: "early d ?fs"
    using s(8) assms(9) by (auto simp: early_def put)
  have same: "lstat ?fs q = lstat fs q" if "\<And>r. q \<noteq> d @ hd ?p # r" for q
    using that [of "tl ?p"] by (simp add: put)
  have "takes_writes ?fs" using s(6) by (simp add: takes_writes_def)
  from scene_outside [OF assms(1) this same assms(4) shown old assms(10)] show ?thesis .
qed

section \<open>Paths\<close>

text \<open>From the place \<open>p\<close> the components \<open>cs\<close> lead through directories, and not to a link.\<close>

fun way :: "ftree \<Rightarrow> path \<Rightarrow> string list \<Rightarrow> bool" where
  "way t p [] = True"
| "way t p [c] = (plain_name c \<and> hd (p @ [c]) \<noteq> ''store'' \<and>
     (case look t (p @ [c]) of Some (SLink _) \<Rightarrow> False | _ \<Rightarrow> True))"
| "way t p (c # cs) = (plain_name c \<and> look t (p @ [c]) = Some SDir \<and> way t (p @ [c]) cs)"

lemma scene_walk: "scene mg d t c ks fs \<Longrightarrow> way t p cs \<Longrightarrow> walk n f fs (d @ p) cs = Some (d @ p @ cs)"
proof (induction t p cs rule: way.induct)
  case (2 t p x)
  have "\<not> is_link_node (lstat fs (d @ p @ [x]))"
  proof
    assume "is_link_node (lstat fs (d @ p @ [x]))"
    then obtain target s where "lstat fs (d @ p @ [x]) = Some (Link target s)"
      by (cases "lstat fs (d @ p @ [x])" rule: is_link_node.cases) auto
    then have "look t (p @ [x]) = Some (SLink target)"
      using showsD(4) [OF sceneD(7) [OF 2(1)], of "p @ [x]"] 2(2) by simp
    with 2(2) show False by simp
  qed
  then show ?case using 2(2) by (auto simp: plain_name_def split: option.splits node.splits)
next
  case (3 t p x y cs)
  have "is_dir_node (lstat fs (d @ p @ [x]))"
    using shown_node(1) [OF sceneD(7) [OF 3(2)], of "p @ [x]"] 3(3) by simp
  then obtain m s where "lstat fs (d @ p @ [x]) = Some (Dir m s)" by (cases "lstat fs (d @ p @ [x])" rule: is_dir_node.cases) auto
  with 3 show ?case by (auto simp: plain_name_def)
qed simp

lemma scene_locate:
  assumes "scene mg d t c ks fs" and "\<not> is_absolute s" and "split_on CHR ''/'' s = cs" and "way t p cs"
  shows "locate f fs (d @ p) s = Some (d @ p @ cs)"
  using scene_walk [OF assms(1,4)] assms(2,3) by (simp add: locate_def)

lemma way_end: "way t p (ds @ [x]) \<Longrightarrow> plain_name x"
proof (induction ds arbitrary: p)
  case (Cons y ds)
  then show ?case by (cases "ds @ [x]") auto
qed simp

lemma way_start: "way t [] (c # cs) \<Longrightarrow> displays d fs t \<Longrightarrow> c \<noteq> ''store''"
  using shown_store [of d fs t "[c]"] by (cases cs) auto

section \<open>One operation at a time\<close>

text \<open>A program on the disk runs in the option type: it gives nothing where it panics.\<close>

definition unwrapped :: "('e + 'a) \<times> fsys \<Rightarrow> ('a \<times> fsys) option" where
  "unwrapped r = (case r of (Inl e, fs) \<Rightarrow> None | (Inr x, fs) \<Rightarrow> Some (x, fs))"

definition ok :: "'e + 'a \<Rightarrow> 'a option" where
  "ok r = (case r of Inl e \<Rightarrow> None | Inr x \<Rightarrow> Some x)"

lemma write_then:
  assumes "scene mg d t c ks fs" and "\<not> is_absolute s" and "split_on CHR ''/'' s = cs" and "way t p cs" and "cs \<noteq> []"
    and "look t (p @ butlast cs) = Some SDir" and "look t (p @ cs) = None" and "now div 1000000000 < 2 ^ 64" and "ks = [] \<or> c \<noteq> None"
    and "\<And>fs'. scene mg d (plant (p @ cs) (FFile content 420 (as_secs now)) t) c ks fs' \<Longrightarrow> k fs' = Some ()"
  shows "Option.bind (fs_write now (d @ p) s content fs) k = Some ()"
proof -
  obtain ds x where cs: "cs = ds @ [x]" using assms(5) by (metis rev_exhaust)
  note sc = sceneD [OF assms(1)]
  have name: "hd (p @ cs) \<noteq> ''store'' \<and> plain_name x"
    using assms(4,6) shown_store [OF sc(7), of "p @ ds"] way_start [OF _ sc(7)] way_end [of t p ds x] cs
    by (cases "p @ ds") (auto simp flip: append_assoc)
  have dir: "is_dir_node (lstat fs (d @ p @ ds))"
  proof (cases "p @ ds = []")
    case False
    then show ?thesis using shown_node(1) [OF sc(7), of "p @ ds"] assms(6) cs by simp
  qed (use sc(12) in simp)
  have "lstat fs (d @ p @ cs) = None"
    using shown_node(4) [OF sc(7), of "p @ cs"] assms(5,7) name by simp
  then have "fs_write now (d @ p) s content fs = Some (put_node (d @ (p @ ds) @ [x]) (File content 33188 now) fs)"
    using scene_locate [OF assms(1-4), of True] sc(6) dir cs by (simp add: fs_write_def takes_writes_def butlast_append)
  moreover have "scene mg d (plant ((p @ ds) @ [x]) (FFile content 420 (as_secs now)) t) c ks
      (put_node (d @ (p @ ds) @ [x]) (File content 33188 now) fs)"
    using assms(6-9) cs name by (intro scene_put [OF assms(1)]) simp_all
  ultimately show ?thesis using assms(10) cs by simp
qed

fun mkdirs :: "ftree \<Rightarrow> path \<Rightarrow> string list \<Rightarrow> ftree option" where
  "mkdirs t p [] = Some t"
| "mkdirs t p (c # cs) =
     (if plain_name c \<and> hd (p @ [c]) \<noteq> ''store''
      then (case look t (p @ [c]) of
              None \<Rightarrow> mkdirs (plant (p @ [c]) (FDir []) t) (p @ [c]) cs
            | Some SDir \<Rightarrow> mkdirs t (p @ [c]) cs
            | _ \<Rightarrow> None)
      else None)"

lemma scene_mkdirs:
  "scene mg d t c ks fs \<Longrightarrow> ks = [] \<or> c \<noteq> None \<Longrightarrow> look t p = Some SDir \<Longrightarrow> mkdirs t p cs = Some t' \<Longrightarrow>
     \<exists>fs'. make_dirs fs (d @ p) cs = Some fs' \<and> scene mg d t' c ks fs'"
proof (induction cs arbitrary: fs t p)
  case Nil
  then show ?case by auto
next
  case (Cons x cs)
  note sc = sceneD [OF Cons.prems(1)]
  have x: "plain_name x" "hd (p @ [x]) \<noteq> ''store''" using Cons.prems(4) by (simp_all split: if_splits)
  have dir: "is_dir_node (lstat fs (d @ p))"
  proof (cases "p = []")
    case False
    then show ?thesis using shown_node(1) [OF sc(7)] Cons.prems(3) by simp
  qed (use sc(12) in simp)
  have w: "writable fs q" for q using sc(6) by (simp add: takes_writes_def)
  show ?case
  proof (cases "look t (p @ [x])")
    case None
    have no: "lstat fs (d @ p @ [x]) = None" using shown_node(4) [OF sc(7) _ None] x(2) by simp
    then have "make_dirs fs (d @ p) (x # cs) = make_dirs (put_node (d @ p @ [x]) (Dir 16877 0) fs) (d @ p @ [x]) cs"
      using locate_plain [OF x(1), of fs "d @ p"] dir w by (simp add: butlast_append)
    moreover have "scene mg d (plant (p @ [x]) (FDir []) t) c ks (put_node (d @ p @ [x]) (Dir 16877 0) fs)"
      using Cons.prems(2,3) None x by (intro scene_put [OF Cons.prems(1)]) simp_all
    moreover have "look (plant (p @ [x]) (FDir []) t) (p @ [x]) = Some SDir"
      using look_plant [OF Cons.prems(3)] by simp
    ultimately show ?thesis using Cons.IH Cons.prems(2,4) None x by simp
  next
    case (Some y)
    then have y: "y = SDir" using Cons.prems(4) x by (cases y) simp_all
    have "is_dir_node (lstat fs (d @ p @ [x]))" using shown_node(1) [OF sc(7)] Some y by simp
    then obtain m s where "lstat fs (d @ p @ [x]) = Some (Dir m s)" by (cases "lstat fs (d @ p @ [x])" rule: is_dir_node.cases) auto
    then have "make_dirs fs (d @ p) (x # cs) = make_dirs fs (d @ p @ [x]) cs"
      using locate_plain [OF x(1), of fs "d @ p"] by simp
    then show ?thesis using Cons.IH [OF Cons.prems(1,2), of "p @ [x]"] Cons.prems(4) Some y x by simp
  qed
qed

lemma mkdir_then:
  assumes "scene mg d t c ks fs" and "\<not> is_absolute s" and "split_on CHR ''/'' s = cs" and "look t p = Some SDir"
    and "mkdirs t p cs = Some t'" and "ks = [] \<or> c \<noteq> None"
    and "\<And>fs'. scene mg d t' c ks fs' \<Longrightarrow> k fs' = Some ()"
  shows "Option.bind (fs_create_dir_all (d @ p) s fs) k = Some ()"
  using scene_mkdirs [OF assms(1,6,4,5)] assms(2,3,7) by (auto simp: fs_create_dir_all_def)

lemma link_then:
  assumes "scene mg d t c ks fs" and "plain_name s" and "hd (p @ [s]) \<noteq> ''store''"
    and "look t p = Some SDir" and "look t (p @ [s]) = None" and "utf8_ok (bytes_of target)" and "ks = [] \<or> c \<noteq> None"
    and "\<And>fs'. scene mg d (plant (p @ [s]) (FLink target) t) c ks fs' \<Longrightarrow> k fs' = Some ()"
  shows "Option.bind (fs_symlink now target (d @ p) s fs) k = Some ()"
proof -
  note sc = sceneD [OF assms(1)]
  have dir: "is_dir_node (lstat fs (d @ p))"
  proof (cases "p = []")
    case False
    then show ?thesis using shown_node(1) [OF sc(7)] assms(4) by simp
  qed (use sc(12) in simp)
  have "lstat fs (d @ p @ [s]) = None" using shown_node(4) [OF sc(7) _ assms(5)] assms(3) by simp
  then have "fs_symlink now target (d @ p) s fs = Some (put_node (d @ p @ [s]) (Link target now) fs)"
    using sc(6) dir locate_plain_nofollow [OF assms(2), of fs "d @ p"]
    by (simp add: fs_symlink_def takes_writes_def butlast_append)
  moreover have "scene mg d (plant (p @ [s]) (FLink target) t) c ks (put_node (d @ p @ [s]) (Link target now) fs)"
    using assms(2-7) by (intro scene_put [OF assms(1)]) simp_all
  ultimately show ?thesis using assms(8) by simp
qed

lemma shown_file:
  assumes "scene mg d t c ks fs" and "\<not> is_absolute s" and "split_on CHR ''/'' s = cs" and "way t p cs" and "cs \<noteq> []"
    and "look t (p @ cs) = Some (SFile content m s')"
  obtains m' s'' where "locate True fs (d @ p) s = Some (d @ p @ cs)" "lstat fs (d @ p @ cs) = Some (File content m' s'')"
    "as_secs s'' = s'" "s'' div 1000000000 < 2 ^ 64"
proof -
  note sc = sceneD [OF assms(1)]
  obtain m' s'' where f: "lstat fs (d @ p @ cs) = Some (File content m' s'')" "as_secs s'' = s'"
    using shown_node(2) [OF sc(7) _ assms(6)] assms(5) by auto
  have "hd (p @ cs) \<noteq> ''store''" using shown_store [OF sc(7), of "p @ cs"] assms(5,6) by simp
  then have "s'' div 1000000000 < 2 ^ 64" using sc(8) f(1) unfolding early_def by blast
  with f that scene_locate [OF assms(1-4)] show thesis by blast
qed

lemma read_shown:
  assumes "scene mg d t c ks fs" and "\<not> is_absolute s" and "split_on CHR ''/'' s = cs" and "way t p cs" and "cs \<noteq> []"
    and "look t (p @ cs) = Some (SFile content m s')"
  shows "fs_read fs (d @ p) s = Some content"
    "utf8_ok content \<Longrightarrow> fs_read_to_string fs (d @ p) s = Some (string_of content)"
proof -
  obtain m' s'' where "locate True fs (d @ p) s = Some (d @ p @ cs)" "lstat fs (d @ p @ cs) = Some (File content m' s'')"
    using shown_file [OF assms] by blast
  then show "fs_read fs (d @ p) s = Some content" by (simp add: fs_read_def)
  then show "utf8_ok content \<Longrightarrow> fs_read_to_string fs (d @ p) s = Some (string_of content)"
    by (simp add: fs_read_to_string_def)
qed

text \<open>\<open>Path::is_dir\<close> and \<open>fs::read_link\<close>.\<close>

definition fs_is_dir :: "fsys \<Rightarrow> path \<Rightarrow> string \<Rightarrow> bool" where
  "fs_is_dir fs base s =
     (case locate True fs base s of None \<Rightarrow> False | Some p \<Rightarrow> is_dir_node (lstat fs p))"

definition fs_read_link :: "fsys \<Rightarrow> path \<Rightarrow> string \<Rightarrow> string option" where
  "fs_read_link fs base s =
     (case locate False fs base s of
        None \<Rightarrow> None
      | Some p \<Rightarrow> (case lstat fs p of Some (Link target _) \<Rightarrow> Some target | _ \<Rightarrow> None))"

lemma shown_kind:
  assumes "scene mg d t c ks fs" and "\<not> is_absolute s" and "split_on CHR ''/'' s = cs" and "way t p cs" and "cs \<noteq> []"
  shows "look t (p @ cs) = Some SDir \<Longrightarrow> fs_is_dir fs (d @ p) s"
    "look t (p @ cs) \<noteq> None \<Longrightarrow> fs_exists fs (d @ p) s"
    "look t (p @ cs) = None \<Longrightarrow> hd (p @ cs) \<noteq> ''store'' \<Longrightarrow> \<not> fs_exists fs (d @ p) s"
proof -
  note sc = sceneD [OF assms(1)]
  note loc = scene_locate [OF assms(1-4), of True]
  show "look t (p @ cs) = Some SDir \<Longrightarrow> fs_is_dir fs (d @ p) s"
    using shown_node(1) [OF sc(7), of "p @ cs"] assms(5) loc by (simp add: fs_is_dir_def)
  show "look t (p @ cs) \<noteq> None \<Longrightarrow> fs_exists fs (d @ p) s"
    using showsD(5) [OF sc(7), of "p @ cs"] shown_store [OF sc(7), of "p @ cs"] assms(5) loc by (auto simp: fs_exists_def)
  show "look t (p @ cs) = None \<Longrightarrow> hd (p @ cs) \<noteq> ''store'' \<Longrightarrow> \<not> fs_exists fs (d @ p) s"
    using shown_node(4) [OF sc(7), of "p @ cs"] assms(5) loc by (simp add: fs_exists_def)
qed

lemma link_shown:
  assumes "scene mg d t c ks fs" and "plain_name s" and "look t (p @ [s]) = Some (SLink target)"
  shows "fs_read_link fs (d @ p) s = Some target"
  using shown_node(3) [OF sceneD(7) [OF assms(1)] _ assms(3)] locate_plain_nofollow [OF assms(2), of fs "d @ p"]
  by (auto simp: fs_read_link_def)

section \<open>The manager\<close>

lemma make_dirs_there:
  "list_all plain_name ds \<Longrightarrow> (\<And>k. is_dir_node (lstat fs (cur @ take k ds))) \<Longrightarrow> make_dirs fs cur (ds @ cs) = make_dirs fs (cur @ ds) cs"
proof (induction ds arbitrary: cur)
  case (Cons x ds)
  have dir: "is_dir_node (lstat fs (cur @ [x]))" using Cons.prems(2) [of 1] by simp
  then have "locate True fs cur x = Some (cur @ [x])"
    using Cons.prems(1) by (cases "lstat fs (cur @ [x])" rule: is_dir_node.cases) (simp_all add: locate_plain)
  then have "make_dirs fs cur ((x # ds) @ cs) = make_dirs fs (cur @ [x]) (ds @ cs)"
    using dir by (auto split: option.splits)
  moreover have "make_dirs fs (cur @ [x]) (ds @ cs) = make_dirs fs ((cur @ [x]) @ ds) cs"
    using Cons.prems(1) Cons.prems(2) [of "Suc _"] by (intro Cons.IH) simp_all
  ultimately show ?case by simp
qed simp

lemma make_new_dir:
  assumes "takes_writes fs" and "is_dir_node (lstat fs cur)" and "plain_name x" and "lstat fs (cur @ [x]) = None"
  shows "make_dirs fs cur (x # cs) = make_dirs (put_node (cur @ [x]) (Dir 16877 0) fs) (cur @ [x]) cs"
  using assms locate_plain [OF assms(3), of fs cur] by (simp add: takes_writes_def)

lemma manager_started:
  assumes "scene mg d t None [] fs"
  obtains fs' where "manager_new (d @ [''store'']) fs = (Inr (), fs')" "takes_writes fs'"
    "\<And>q. lstat fs' q = (if q \<in> {d @ [''store''], d @ [''store'', ''snapshots''], d @ [''store'', ''refs''], d @ [''store'', ''refs'', ''tags'']}
       then Some (Dir 16877 0) else lstat fs q)"
proof -
  note sc = sceneD [OF assms]
  let ?s = "d @ [''store'']"
  let ?new = "\<lambda>p fs. put_node p (Dir 16877 0) fs"
  have none: "lstat fs (?s @ q) = None" for q using sc(10) by simp
  have dirs: "is_dir_node (lstat fs ([] @ take k d))" for k using sc(5) by simp
  have plain: "plain_name ''store''" "plain_name ''snapshots''" "plain_name ''refs''" "plain_name ''tags''"
    by (simp_all add: plain_name_def)
  let ?fs1 = "?new (?s @ [''snapshots'']) (?new ?s fs)"
  have w: "takes_writes (?new p g)" if "takes_writes g" for p g using that by (simp add: takes_writes_def)
  have one: "make_dirs fs [] (?s @ [''snapshots'']) = Some ?fs1"
    using make_dirs_there [OF sc(4) dirs, of "[''store'', ''snapshots'']"] sc(6,12) none [of "[]"] none plain
    by (simp add: make_new_dir w lstat_put del: make_dirs.simps(2))
  let ?fs2 = "?new (?s @ [''refs'', ''tags'']) (?new (?s @ [''refs'']) ?fs1)"
  have still: "is_dir_node (lstat ?fs1 ([] @ take k ?s))" for k
  proof (cases "k \<le> length d")
    case True
    then have "take k ?s = take k d" by simp
    moreover have "take k d \<noteq> ?s @ q" for q by (auto dest: arg_cong [of _ _ length])
    then have "take k d \<noteq> ?s @ [''snapshots'']" "take k d \<noteq> ?s @ []" by blast+
    ultimately show ?thesis using sc(5) by (simp add: lstat_put)
  next
    case False
    then have "take k ?s = ?s" by simp
    then show ?thesis by (simp add: lstat_put)
  qed
  have "list_all plain_name ?s" using sc(4) plain by simp
  note go = make_dirs_there [OF this still, of "[''refs'', ''tags'']"]
  have "is_dir_node (lstat ?fs1 ?s)" using still [of "length ?s"] by simp
  then have two: "make_dirs ?fs1 [] (?s @ [''refs'', ''tags'']) = Some ?fs2"
    using go sc(6) none plain by (simp add: make_new_dir w lstat_put del: make_dirs.simps(2))
  have "manager_new ?s fs = (Inr (), ?fs2)" using one two by (simp add: manager_new_def)
  then show thesis using sc(6) by (intro that [of ?fs2]) (auto simp: w lstat_put)
qed

lemma start_then:
  assumes "scene mg d t None [] fs" and "\<And>fs'. scene mg d t (Some []) [] fs' \<Longrightarrow> k ((), fs') = Some ()"
  shows "Option.bind (unwrapped (manager_new (d @ [''store'']) fs)) k = Some ()"
proof -
  note sc = sceneD [OF assms(1)]
  obtain fs' where new: "manager_new (d @ [''store'']) fs = (Inr (), fs')" "takes_writes fs'"
    "\<And>q. lstat fs' q = (if q \<in> {d @ [''store''], d @ [''store'', ''snapshots''], d @ [''store'', ''refs''], d @ [''store'', ''refs'', ''tags'']}
       then Some (Dir 16877 0) else lstat fs q)"
    using manager_started [OF assms(1)] by blast
  have store: "lstat fs' (mg_root mg @ p) =
      (if p \<in> {[], [''snapshots''], [''refs''], [''refs'', ''tags'']} then Some (Dir 16877 0) else None)" for p
    using new(3) sc(10) by (simp add: sc(1))
  have links: "no_links (mg_root mg) fs'" by (simp add: no_links_def store)
  have ok: "store_ok mg fs'" using links by (simp add: store_ok_def snapshots_dir_def tags_dir_def store)
  have root: "lstat fs' (mg_root mg) = Some (Dir 16877 0)" using store [of "[]"] by simp
  have "store_ready mg fs'"
    using ok links new(2) root
    by (simp add: store_ready_def store_sound_def clear_objects_def files_only_def object_path_def temp_file_def
        snapshots_dir_def tags_dir_def store)
  then have holds: "holds mg fs' []" by (simp add: holds_def snapshots_dir_def tags_dir_def store)
  have same: "lstat fs' (d @ q) = lstat fs (d @ q)" if "hd q \<noteq> ''store''" for q
    using that new(3) [of "d @ q"] by auto
  have "is_dir_node (lstat fs' (take k d))" for k
    using sc(5) [of k] new(3) [of "take k d"] by simp
  moreover have "displays d fs' t" using sc(7) same by (simp add: displays_def)
  moreover have "early d fs'" using sc(8) same by (simp add: early_def)
  ultimately have "scene mg d t (Some []) [] fs'" using sc(1-4) new(2) holds by (simp add: scene_def)
  from assms(2) [OF this] new(1) show ?thesis by (simp add: unwrapped_def)
qed

section \<open>Creating and restoring\<close>

text \<open>A name of the directory with its tree.\<close>

fun entry :: "ftree \<Rightarrow> string \<Rightarrow> ftree option" where
  "entry (FDir ts) x = map_of ts x"
| "entry _ x = None"

lemma look_entry: "look t (x # q) = (case entry t x of None \<Rightarrow> None | Some u \<Rightarrow> look u q)"
  by (cases t) (simp_all split: option.splits)

lemma entry_ok: "tree_ok t \<Longrightarrow> entry t x = Some u \<Longrightarrow> tree_ok u \<and> plain_name x"
  by (cases t) (auto dest!: map_of_SomeD)

lemma scene_workspace:
  assumes "scene mg d t c ks fs" and "entry t w = Some u" and "look u [] = Some SDir"
  shows "workspace_ok mg fs d w u" "w \<noteq> ''store''"
proof -
  note sc = sceneD [OF assms(1)]
  have look: "look t (w # q) = look u q" for q using assms(2) by (simp add: look_entry)
  have u: "tree_ok u" "plain_name w" using entry_ok [OF showsD(1) [OF sc(7)] assms(2)] by simp_all
  show w: "w \<noteq> ''store''" using shown_store [OF sc(7), of "[w]"] assms(3) look [of "[]"] by simp
  have shape: "shape_of (lstat fs (d @ w # q)) = look u q" "lstat fs (d @ w # q) = None \<longleftrightarrow> look u q = None" for q
    using showsD(4,5) [OF sc(7), of "w # q"] look w by simp_all
  have dir: "is_dir_node (lstat fs (d @ w # q))" if "look u q = Some SDir" for q
    using shape(1) [of q] that by (cases "lstat fs (d @ w # q)" rule: shape_of.cases) simp_all
  have "source_ok mg fs (d @ [w])"
    unfolding source_ok_def
  proof (intro conjI allI impI)
    show "\<not> in_objects (mg_root mg) ((d @ [w]) @ q)" for q using w by (auto simp: in_objects_def sc(1))
    show "is_dir_node (lstat fs (d @ [w]))" using dir [of "[]"] assms(3) by simp
    show "is_dir_node (lstat fs ((d @ [w]) @ q))" "plain_name x" if "lstat fs ((d @ [w]) @ q @ [x]) \<noteq> None" for q x
      using look_parent [OF u(1), of q x] that shape(2) [of "q @ [x]"] dir [of q] by simp_all
    show "utf8_ok (bytes_of target)" if "lstat fs ((d @ [w]) @ q) = Some (Link target s)" for q target s
      using look_link [OF u(1), of q target] that shape(1) [of q] by simp
  qed
  then show "workspace_ok mg fs d w u" using u shape(1) w by (simp add: workspace_ok_def captures_def sc(1))
qed

lemma create_then:
  assumes "scene mg d t (Some c) ks fs" and "entry t w = Some u" and "look u [] = Some SDir"
    and "uuid_ok uuid" and "uuid \<notin> si_id ` set c" and "\<not> list_ex temp_like (input_tags tags)" and "depth_bound mg fs < fuel"
    and "cat_create now uuid u msg tags c = (Inr uuid, c')"
    and "\<And>fs'. scene mg d t (Some c') [(uuid, fuel, u)] fs' \<Longrightarrow> k (uuid, fs') = Some ()"
  shows "Option.bind (Option.bind (create_snapshot mg now uuid fuel d w msg tags fs) unwrapped) k = Some ()"
proof -
  note sc = sceneD [OF assms(1)]
  note ws = scene_workspace [OF assms(1-3)]
  have holds: "holds mg fs c" using sc(9) by simp
  obtain fs' where cr: "create_snapshot mg now uuid fuel d w msg tags fs = Some (Inr uuid, fs')" "holds mg fs' c'"
    "\<And>q. (\<And>p. q \<noteq> mg_root mg @ p) \<Longrightarrow> lstat fs' q = lstat fs q"
    using create_refines [OF holds sc(2,3) assms(4-6) ws(1) assms(7), of now msg] assms(8) by auto
  have src: "source_ok mg fs (d @ [w])" "plain_name w" "captures fs (d @ [w]) u" using ws(1) by (simp_all add: workspace_ok_def)
  then have "\<not> is_link_node (lstat fs (d @ [w]))" by (cases "lstat fs (d @ [w])" rule: is_dir_node.cases) (simp_all add: source_ok_def)
  then have loc: "locate True fs d w = Some (d @ [w])" by (rule locate_plain [OF src(2)])
  have sound: "store_sound mg fs" using holdsD(1) [OF holds] by (simp add: store_ready_def)
  obtain s ts where s: "read_snapshot mg uuid fs' = Inr s" "spells_tree mg fs' fuel (sn_tree s) ts"
    "captures fs (d @ [w]) (FDir ts)" "tree_ok (FDir ts)"
    by (rule create_snapshot_spells [OF holdsD(6) [OF holds] sc(2,3) sound assms(4,6) loc src(1) cr(1)]) blast
  have "look (FDir ts) = look u" using s(3) src(3) by (simp add: captures_def fun_eq_iff)
  then have kept: "kept mg fs' uuid fuel u" using s uuid_plain [OF assms(4)] ws(1) unfolding kept_def workspace_ok_def by blast
  have same: "lstat fs' (d @ q) = lstat fs (d @ q)" if "hd q \<noteq> ''store''" for q
    using that by (intro cr(3)) (auto simp: sc(1))
  have "is_dir_node (lstat fs' (take k d))" for k
  proof -
    have "take k d \<noteq> mg_root mg @ p" for p by (auto simp: sc(1) dest: arg_cong [of _ _ length])
    from cr(3) [OF this] sc(5) show ?thesis by simp
  qed
  moreover have "displays d fs' t" using sc(7) same by (simp add: displays_def)
  moreover have "early d fs'" using sc(8) same by (simp add: early_def)
  moreover have "takes_writes fs'" using holdsD(1) [OF cr(2)] by (simp add: store_ready_def)
  ultimately have "scene mg d t (Some c') [(uuid, fuel, u)] fs'" using sc(1-4) cr(2) kept by (simp add: scene_def)
  from assms(9) [OF this] cr(1) show ?thesis by (simp add: unwrapped_def)
qed

text \<open>The tree \<open>u\<close> may be restored over what is there.\<close>

fun over :: "ftree \<Rightarrow> ftree option \<Rightarrow> bool" where
  "over (FFile c m s) y =
     (case y of
        None \<Rightarrow> True
      | Some (FFile c' m' s') \<Rightarrow> (of_nat (length c') = (of_nat (length c) :: u64) \<and> s' = s \<longrightarrow> c' = c)
      | _ \<Rightarrow> False)"
| "over (FLink target) y = (case y of Some (FDir us) \<Rightarrow> False | _ \<Rightarrow> True)"
| "over (FDir ts) y =
     (case y of
        None \<Rightarrow> True
      | Some (FDir us) \<Rightarrow> (\<forall>(x, t) \<in> set ts. over t (map_of us x))
      | _ \<Rightarrow> False)"

fun fits_shape :: "shape option \<Rightarrow> shape option \<Rightarrow> bool" where
  "fits_shape (Some (SFile c m s)) y =
     (case y of
        None \<Rightarrow> True
      | Some (SFile c' m' s') \<Rightarrow> (of_nat (length c') = (of_nat (length c) :: u64) \<and> s' = s \<longrightarrow> c' = c)
      | _ \<Rightarrow> False)"
| "fits_shape (Some (SLink target)) y = (y \<noteq> Some SDir)"
| "fits_shape (Some SDir) y = (y = None \<or> y = Some SDir)"
| "fits_shape None y = True"

lemma fits_shape_none: "fits_shape x None"
  by (cases x; cases "the x") auto

lemma fits_of_shape: "fits_shape x (shape_of n) \<Longrightarrow> shape_of n = None \<longrightarrow> n = None \<Longrightarrow> fits x n"
proof -
  assume a: "fits_shape x (shape_of n)" "shape_of n = None \<longrightarrow> n = None"
  have secs: "as_secs (unat s * 1000000000) = s" for s :: u64 by (simp add: as_secs_def)
  show "fits x n"
  proof (cases x)
    case (Some z)
    then show ?thesis using a secs
      by (cases z; cases n rule: shape_of.cases) (auto simp: dir_or_none_def)
  qed simp
qed

lemma over_looks: "over u y \<Longrightarrow> fits_shape (look u q) (case y of None \<Rightarrow> None | Some v \<Rightarrow> look v q)"
proof (induction q arbitrary: u y)
  case Nil
  then show ?case by (cases u; cases y; cases "the y") auto
next
  case (Cons x q)
  show ?case
  proof (cases "look u (x # q)")
    case (Some z)
    then obtain ts v where v: "u = FDir ts" "map_of ts x = Some v" by (cases u) (auto split: option.splits)
    show ?thesis
    proof (cases y)
      case None
      then show ?thesis by (simp add: fits_shape_none)
    next
      case y: (Some w)
      then obtain us where us: "w = FDir us" using Cons.prems v by (cases w) auto
      have "over v (map_of us x)" using Cons.prems v y us by (auto dest!: map_of_SomeD)
      from Cons.IH [OF this] show ?thesis using v y us by simp
    qed
  qed simp
qed

lemma scene_can_take:
  assumes "scene mg d t c ks fs" and "x \<noteq> ''store''" and "over u (entry t x)" and "tree_ok v" and "look v = look u"
  shows "can_take fs (d @ [x]) v" "tidy fs (d @ [x])"
proof -
  note sc = sceneD [OF assms(1)]
  have shape: "shape_of (lstat fs (d @ x # q)) = look t (x # q)" "lstat fs (d @ x # q) = None \<longleftrightarrow> look t (x # q) = None" for q
    using showsD(4,5) [OF sc(7), of "x # q"] assms(2) by simp_all
  have "fits (look v q) (lstat fs ((d @ [x]) @ q))" for q
    using over_looks [OF assms(3), of q] shape [of q] assms(5) by (intro fits_of_shape) (simp_all add: look_entry)
  then show "can_take fs (d @ [x]) v" by (intro fits_take [OF assms(4)])
  show "tidy fs (d @ [x])"
    unfolding tidy_def
  proof (intro allI impI)
    fix q y
    assume "lstat fs ((d @ [x]) @ q @ [y]) \<noteq> None"
    then have "look t ((x # q) @ [y]) \<noteq> None" using shape(2) [of "q @ [y]"] by simp
    from look_parent [OF showsD(1) [OF sc(7)] this] have "look t (x # q) = Some SDir" "plain_name y" by simp_all
    moreover from this(1) have "is_dir_node (lstat fs (d @ x # q))"
      using shape(1) [of q] by (cases "lstat fs (d @ x # q)" rule: shape_of.cases) simp_all
    ultimately show "is_dir_node (lstat fs ((d @ [x]) @ q)) \<and> plain_name y" by simp
  qed
qed

lemma holds_restored:
  assumes "holds mg fs c" and "restored mg d X fs fs'" and "apart mg d \<or> (\<forall>x \<in> X. apart mg (d @ [x]))"
  shows "holds mg fs' c" "plain_name (snapshot_file i) \<Longrightarrow> read_snapshot mg i fs' = read_snapshot mg i fs"
proof -
  have ready: "store_ready mg fs" by (rule holdsD(1) [OF assms(1)])
  have same: "lstat fs' (mg_root mg @ p) = lstat fs (mg_root mg @ p)" if "\<not> in_objects (mg_root mg) (mg_root mg @ p)" for p
  proof -
    have "mg_root mg @ p \<noteq> d @ x # r" if "x \<in> X" for x r
      using assms(3) that unfolding apart_def by (metis append.assoc append_Cons append_Nil)
    then show ?thesis using that assms(2) unfolding restored_def by blast
  qed
  have dirs: "lstat fs' (snapshots_dir mg @ p) = lstat fs (snapshots_dir mg @ p)"
    "lstat fs' (tags_dir mg @ p) = lstat fs (tags_dir mg @ p)" for p
    using same [of "''snapshots'' # p"] same [of "''refs'' # ''tags'' # p"]
    by (simp_all add: snapshots_dir_def tags_dir_def in_objects_def)
  have sturdy: "sturdy mg fs'" using assms(2) by (simp add: restored_def)
  then have ok: "store_ok mg fs'"
    using holdsD(6) [OF assms(1)] dirs [of "[]"] by (simp add: store_ok_def sturdy_def store_sound_def)
  have "store_ready mg fs'"
    using ready ok sturdy dirs by (simp add: store_ready_def sturdy_def files_only_def)
  moreover have read: "read_snapshot mg i fs' = read_snapshot mg i fs" if "plain_name (snapshot_file i)" for i
    using read_plain(1) [OF store_dirs(1) [OF ok] that] read_plain(1) [OF holdsD(7) [OF assms(1)] that] dirs(1)
    by (simp add: read_snapshot_def fs_read_to_string_def)
  moreover have "holds_info mg fs' s" if "s \<in> set c" for s
  proof -
    have info: "holds_info mg fs s" by (rule holdsD(3) [OF assms(1) that])
    have "get_snapshot mg (si_id s) fs' = get_snapshot mg (si_id s) fs"
      using read info uuid_plain by (simp add: get_snapshot_def holds_info_def)
    moreover have "get_snapshot_by_tag mg x fs' = get_snapshot_by_tag mg x fs" if "plain_name x" for x
      using read_plain [OF store_dirs(2) [OF ok] that] read_plain [OF holdsD(8) [OF assms(1)] that] dirs(2)
      by (simp add: get_snapshot_by_tag_def fs_read_to_string_def)
    ultimately show ?thesis using info by (simp add: holds_info_def)
  qed
  ultimately show "holds mg fs' c" using assms(1) dirs by (simp add: holds_def)
  show "plain_name (snapshot_file i) \<Longrightarrow> read_snapshot mg i fs' = read_snapshot mg i fs" by (rule read)
qed

lemma restore_then:
  assumes "scene mg d t (Some c) ks fs" and "(i, n, u) \<in> set ks" and "n < fuel" and "plain_name x" and "x \<noteq> ''store''"
    and "over u (entry t x)" and "look u [] = Some SDir"
    and "\<And>fs'. scene mg d (plant [x] u t) (Some c) ks fs' \<Longrightarrow> whole_secs fs' (d @ [x]) \<Longrightarrow> k ((), fs') = Some ()"
  shows "Option.bind (Option.bind (restore_snapshot mg now fuel d i x fs) unwrapped) k = Some ()"
proof -
  note sc = sceneD [OF assms(1)]
  have holds: "holds mg fs c" using sc(9) by simp
  obtain s ts where s: "plain_name (snapshot_file i)" "read_snapshot mg i fs = Inr s" "spells_tree mg fs n (sn_tree s) ts"
    "tree_ok (FDir ts)" "tree_ok u" "look (FDir ts) = look u"
    using sc(11) [OF assms(2)] unfolding kept_def by blast
  have sturdy: "sturdy mg fs" using holdsD(1) [OF holds] by (simp add: sturdy_def store_ready_def)
  have free: "apart mg (d @ [x])" using assms(5) by (simp add: apart_def sc(1))
  note take = scene_can_take [OF assms(1,5,6) s(4,6)]
  obtain fs' where fs': "restore_tree mg now fuel (sn_tree s) d x fs = Some (Inr (), fs')" "restored mg d {x} fs fs'"
    "as_spelled fs' (d @ [x]) (FDir ts)"
    using restore_tree_over [OF sc(3) sturdy s(3) assms(3) s(4) assms(4) sc(12) free take(2,1)] by blast
  have res: "restore_snapshot mg now fuel d i x fs = Some (Inr (), fs')"
    using s(2) fs'(1) by (simp add: restore_snapshot_def)
  have whole: "whole_secs fs' (d @ [x])" using fs'(3) by (simp add: as_spelled_def)
  have objects: "\<not> in_objects (mg_root mg) (d @ q)" if "hd q \<noteq> ''store''" for q
    using that by (auto simp: in_objects_def sc(1))
  have same: "lstat fs' (d @ q) = lstat fs (d @ q)" if "hd q \<noteq> ''store''" "\<And>r. q \<noteq> x # r" for q
    using objects [OF that(1)] that(2) fs'(2) by (auto simp: restored_def)
  have at: "look u q = shape_of (lstat fs' (d @ x # q)) \<and> (look u q = None \<longrightarrow> lstat fs' (d @ x # q) = None)" for q
    using fs'(3) s(6) by (simp add: as_spelled_def captures_def)
  have top: "look t [] = Some SDir" by (rule showsD(2) [OF sc(7)])
  note planted = look_plant [OF top, of x u, simplified]
  have shown_at: "look (plant [x] u t) q = shape_of (lstat fs' (d @ q)) \<and> (look (plant [x] u t) q = None \<longrightarrow> lstat fs' (d @ q) = None)"
    if q: "q \<noteq> []" "hd q \<noteq> ''store''" for q
  proof (cases "\<exists>r. q = x # r")
    case True
    then obtain r where "q = x # r" ..
    then show ?thesis using planted [of q] at [of r] by simp
  next
    case False
    with q have "take (Suc 0) q \<noteq> [x]" by (cases q) auto
    then show ?thesis using planted [of q] same [OF q(2)] False showsD(4,5) [OF sc(7) q] by simp
  qed
  have "displays d fs' (plant [x] u t)"
    unfolding displays_def
  proof (intro conjI)
    show "tree_ok (plant [x] u t)" using plant_ok [OF showsD(1) [OF sc(7)] s(5) top assms(4)] by simp
    show "look (plant [x] u t) [] = Some SDir" using planted [of "[]"] top by simp
    show "\<forall>q. look (plant [x] u t) (''store'' # q) = None"
      using planted [of "''store'' # _"] showsD(3) [OF sc(7)] assms(5) by simp
  qed (use shown_at in blast)
  moreover have "early d fs'"
    unfolding early_def
  proof (intro allI impI)
    fix q content m s'
    assume f: "hd q \<noteq> ''store''" "lstat fs' (d @ q) = Some (File content m s')"
    show "s' div 1000000000 < 2 ^ 64"
    proof (cases "\<exists>r. q = x # r")
      case True
      then have "s' = unat (as_secs s') * 1000000000" using whole f(2) by (auto simp: whole_secs_def)
      then have "s' div 1000000000 = unat (as_secs s')" by (metis nonzero_mult_div_cancel_right zero_neq_numeral)
      also have "\<dots> < 2 ^ LENGTH(64)" by (rule unsigned_less)
      finally show ?thesis by simp
    next
      case False
      then have "lstat fs (d @ q) = Some (File content m s')" using same [OF f(1)] f(2) by simp
      then show ?thesis using sc(8) f(1) unfolding early_def by blast
    qed
  qed
  moreover have "is_dir_node (lstat fs' (take k d))" for k
  proof -
    have "take k d \<noteq> d @ x # r" "take k d \<noteq> mg_root mg @ ''objects'' # r" for r
      by (auto simp: sc(1) dest: arg_cong [of _ _ length])
    then have "lstat fs' (take k d) = lstat fs (take k d)" using fs'(2) unfolding restored_def in_objects_def by blast
    then show ?thesis using sc(5) by simp
  qed
  moreover have side: "apart mg d \<or> (\<forall>y \<in> {x}. apart mg (d @ [y]))" using free by simp
  note hr = holds_restored [OF holds fs'(2) side]
  have "holds mg fs' c" by (rule hr(1))
  moreover have "\<forall>(j, m, v) \<in> set ks. kept mg fs' j m v"
  proof (intro ballI, clarify)
    fix j m v
    assume that: "(j, m, v) \<in> set ks"
    have old: "kept mg fs j m v" by (rule sc(11) [OF that])
    then have "plain_name (snapshot_file j)" unfolding kept_def by blast
    then have "read_snapshot mg j fs' = read_snapshot mg j fs" by (rule hr(2))
    moreover have "keeps_blobs mg fs fs'" using fs'(2) by (simp add: restored_def)
    ultimately show "kept mg fs' j m v" by (rule kept_keeps [OF old])
  qed
  moreover have "takes_writes fs'" using fs'(2) by (simp add: restored_def sturdy_def)
  ultimately have "scene mg d (plant [x] u t) (Some c) ks fs'" using sc(1-4) by (simp add: scene_def)
  from assms(8) [OF this whole] res show ?thesis by (simp add: unwrapped_def)
qed

end
