(* ===== verification/ManagerTests.thy ===== *)
theory ManagerTests
  imports TempDir "HOL-Library.Monad_Syntax"
begin

text \<open>
  The unit tests of the snapshot manager (\<open>sandd/src/snapshot/manager.rs\<close>), over the model. A test gets
  the fresh temporary directory it asks for, the clock at each reading and the ids it draws, and gives
  nothing where the source panics, a false assertion included. It passes with every hash function and
  encoding that have their documented form. The bounds on the walks of trees are those of
  \<open>create_snapshot_returns\<close> and \<open>snapshot_round_trip\<close>.
\<close>

section \<open>Assertions, and calls whose errors panic\<close>

definition asserts :: "bool \<Rightarrow> unit option" where
  "asserts b = (if b then Some () else None)"

definition err :: "'e + 'a \<Rightarrow> 'e option" where
  "err r = (case r of Inl e \<Rightarrow> Some e | Inr x \<Rightarrow> None)"

definition says :: "store_error \<Rightarrow> string \<Rightarrow> bool" where
  "says e text = (case e of Msg s \<Rightarrow> contains text s | _ \<Rightarrow> False)"

definition path_text :: "path \<Rightarrow> string" where
  "path_text p = concat (map (\<lambda>x. CHR ''/'' # x) p)"

definition new_manager :: "path \<Rightarrow> fsys \<Rightarrow> fsys option" where
  "new_manager store_dir fs = map_option snd (unwrapped (manager_new store_dir fs))"

definition created ::
  "manager \<Rightarrow> nat \<Rightarrow> string \<Rightarrow> nat \<Rightarrow> path \<Rightarrow> string \<Rightarrow> string list option \<Rightarrow> fsys \<Rightarrow> ((store_error + string) \<times> fsys) option" where
  "created mg now uuid n dir msg tags fs = create_snapshot mg now uuid n dir ''workspace'' (Some msg) tags fs"

text \<open>A creation also gives the depth it allowed for, from which a restore takes its own.\<close>

definition creates ::
  "manager \<Rightarrow> nat \<Rightarrow> string \<Rightarrow> path \<Rightarrow> string \<Rightarrow> string list option \<Rightarrow> fsys \<Rightarrow> (string \<times> nat \<times> fsys) option" where
  "creates mg now uuid dir msg tags fs =
     (let n = Suc (depth_bound mg fs)
      in map_option (\<lambda>(i, fs). (i, n, fs)) (Option.bind (created mg now uuid n dir msg tags fs) unwrapped))"

definition creates_not ::
  "manager \<Rightarrow> nat \<Rightarrow> string \<Rightarrow> path \<Rightarrow> string \<Rightarrow> string list option \<Rightarrow> fsys \<Rightarrow> (store_error \<times> fsys) option" where
  "creates_not mg now uuid dir msg tags fs =
     Option.bind (created mg now uuid (Suc (depth_bound mg fs)) dir msg tags fs)
       (\<lambda>(r, fs). map_option (\<lambda>e. (e, fs)) (err r))"

definition restores :: "manager \<Rightarrow> nat \<Rightarrow> nat \<Rightarrow> path \<Rightarrow> string \<Rightarrow> fsys \<Rightarrow> fsys option" where
  "restores mg now n dir i fs =
     map_option snd (Option.bind (restore_snapshot mg now (Suc n) dir i ''restored'' fs) unwrapped)"

definition deletes :: "manager \<Rightarrow> string \<Rightarrow> fsys \<Rightarrow> fsys option" where
  "deletes mg i fs = map_option snd (unwrapped (delete_snapshot mg i fs))"

section \<open>Programs on the tree\<close>

text \<open>The program runs to its end on every disk on which the directory shows this tree and the store holds
  this catalogue; below the names \<open>ws\<close> the times are whole seconds.\<close>

definition runs ::
  "manager \<Rightarrow> path \<Rightarrow> ftree \<Rightarrow> catalogue option \<Rightarrow> (string \<times> nat \<times> ftree) list \<Rightarrow> string list \<Rightarrow> (fsys \<Rightarrow> unit option) \<Rightarrow> bool" where
  "runs mg d t c ks ws k \<longleftrightarrow>
     (\<forall>fs. scene mg d t c ks fs \<longrightarrow> (\<forall>x \<in> set ws. whole_secs fs (d @ [x])) \<longrightarrow> k fs = Some ())"

named_theorems runs_rules

lemma runsI:
  "(\<And>fs. scene mg d t c ks fs \<Longrightarrow> (\<And>x. x \<in> set ws \<Longrightarrow> whole_secs fs (d @ [x])) \<Longrightarrow> k fs = Some ()) \<Longrightarrow> runs mg d t c ks ws k"
  by (simp add: runs_def)

lemma runsD: "runs mg d t c ks [] k \<Longrightarrow> scene mg d t c ks fs \<Longrightarrow> k fs = Some ()"
  by (simp add: runs_def)

lemma runs_done [simp]: "runs mg d t c ks ws (\<lambda>fs. Some ())"
  by (simp add: runs_def)

lemma bind_map_option: "Option.bind (map_option f x) k = Option.bind x (k \<circ> f)"
  by (cases x) simp_all

lemma runs_new [runs_rules]:
  assumes "runs mg d t (Some []) [] [] k"
  shows "runs mg d t None [] ws (\<lambda>fs. Option.bind (new_manager (d @ [''store'']) fs) k)"
  unfolding new_manager_def bind_map_option
  by (intro runsI, erule start_then) (simp add: runsD [OF assms])

lemma runs_write [runs_rules]:
  assumes "\<not> is_absolute s" and "split_on CHR ''/'' s = cs" and "way t p cs" and "cs \<noteq> []"
    and "look t (p @ butlast cs) = Some SDir" and "look t (p @ cs) = None" and "now div 1000000000 < 2 ^ 64" and "ks = [] \<or> c \<noteq> None"
    and "plant (p @ cs) (FFile content 420 (as_secs now)) t = t'" and "runs mg d t' c ks [] k"
  shows "runs mg d t c ks ws (\<lambda>fs. Option.bind (fs_write now (d @ p) s content fs) k)"
  by (intro runsI, erule write_then [OF _ assms(1-8)]) (simp only: assms(9) runsD [OF assms(10)])

lemma runs_mkdir:
  assumes "\<not> is_absolute s" and "split_on CHR ''/'' s = cs" and "look t p = Some SDir"
    and "mkdirs t p cs = Some t'" and "ks = [] \<or> c \<noteq> None" and "runs mg d t' c ks [] k"
  shows "runs mg d t c ks ws (\<lambda>fs. Option.bind (fs_create_dir_all (d @ p) s fs) k)"
  by (intro runsI, erule mkdir_then) (use assms runsD [OF assms(6)] in simp_all)

lemmas [runs_rules] = runs_mkdir [where p = "[x]" for x] runs_mkdir [where p = "[]", simplified append_Nil2]

lemma runs_link [runs_rules]:
  assumes "plain_name s" and "hd (p @ [s]) \<noteq> ''store''" and "look t p = Some SDir" and "look t (p @ [s]) = None"
    and "utf8_ok (bytes_of target)" and "ks = [] \<or> c \<noteq> None" and "plant (p @ [s]) (FLink target) t = t'"
    and "runs mg d t' c ks [] k"
  shows "runs mg d t c ks ws (\<lambda>fs. Option.bind (fs_symlink now target (d @ p) s fs) k)"
  by (intro runsI, erule link_then) (use assms runsD [OF assms(8)] in simp_all)

lemma runs_read [runs_rules]:
  assumes "\<not> is_absolute s" and "split_on CHR ''/'' s = cs" and "way t p cs" and "cs \<noteq> []"
    and "look t (p @ cs) = Some (SFile content m s')" and "runs mg d t c ks ws (k content)"
  shows "runs mg d t c ks ws (\<lambda>fs. Option.bind (fs_read fs (d @ p) s) (\<lambda>x. k x fs))"
  using read_shown(1) [OF _ assms(1-5)] assms(6) by (simp add: runs_def)

lemma runs_read_string [runs_rules]:
  assumes "\<not> is_absolute s" and "split_on CHR ''/'' s = cs" and "way t p cs" and "cs \<noteq> []"
    and "look t (p @ cs) = Some (SFile content m s')" and "utf8_ok content" and "runs mg d t c ks ws (k (string_of content))"
  shows "runs mg d t c ks ws (\<lambda>fs. Option.bind (fs_read_to_string fs (d @ p) s) (\<lambda>x. k x fs))"
  using read_shown(2) [OF _ assms(1-6)] assms(7) by (simp add: runs_def)

lemma runs_time [runs_rules]:
  assumes "\<not> is_absolute s" and "split_on CHR ''/'' s = cs" and "way t p cs" and "cs \<noteq> []"
    and "look t (p @ cs) = Some (SFile content m s')"
    and "\<And>time. as_secs time = s' \<Longrightarrow> time div 1000000000 < 2 ^ 64 \<Longrightarrow> (hd (p @ cs) \<in> set ws \<Longrightarrow> time = unat s' * 1000000000) \<Longrightarrow>
      runs mg d t c ks ws (k (of_nat (length content), time))"
  shows "runs mg d t c ks ws (\<lambda>fs. Option.bind (fs_metadata fs (d @ p) s) (\<lambda>x. k x fs))"
proof (rule runsI)
  fix fs
  assume s: "scene mg d t c ks fs" and whole: "\<And>x. x \<in> set ws \<Longrightarrow> whole_secs fs (d @ [x])"
  obtain m' time where f: "locate True fs (d @ p) s = Some (d @ p @ cs)" "lstat fs (d @ p @ cs) = Some (File content m' time)"
    "as_secs time = s'" "time div 1000000000 < 2 ^ 64"
    by (rule shown_file [OF s assms(1-5)])
  have "time = unat s' * 1000000000" if "hd (p @ cs) \<in> set ws"
  proof -
    have "d @ p @ cs = (d @ [hd (p @ cs)]) @ tl (p @ cs)" using assms(4) by (cases "p @ cs") simp_all
    with whole [OF that] f(2,3) show ?thesis unfolding whole_secs_def by metis
  qed
  then have "runs mg d t c ks ws (k (of_nat (length content), time))" by (rule assms(6) [OF f(3,4)])
  with s whole f(1,2) show "Option.bind (fs_metadata fs (d @ p) s) (\<lambda>x. k x fs) = Some ()"
    by (simp add: runs_def fs_metadata_def)
qed

lemma runs_read_link [runs_rules]:
  assumes "plain_name s" and "look t (p @ [s]) = Some (SLink target)" and "runs mg d t c ks ws (k target)"
  shows "runs mg d t c ks ws (\<lambda>fs. Option.bind (fs_read_link fs (d @ p) s) (\<lambda>x. k x fs))"
  using link_shown [OF _ assms(1,2)] assms(3) by (simp add: runs_def)

lemma runs_asserts [runs_rules]:
  "b \<Longrightarrow> runs mg d t c ks ws k \<Longrightarrow> runs mg d t c ks ws (\<lambda>fs. Option.bind (asserts b) (\<lambda>_. k fs))"
  by (simp add: runs_def asserts_def)

lemma runs_is_dir [runs_rules]:
  assumes "\<not> is_absolute s" and "split_on CHR ''/'' s = cs" and "way t p cs" and "cs \<noteq> []"
    and "look t (p @ cs) = Some SDir" and "runs mg d t c ks ws k"
  shows "runs mg d t c ks ws (\<lambda>fs. Option.bind (asserts (fs_is_dir fs (d @ p) s)) (\<lambda>_. k fs))"
  using shown_kind(1) [OF _ assms(1-5)] assms(6) by (simp add: runs_def asserts_def)

lemma runs_exists:
  assumes "\<not> is_absolute s" and "split_on CHR ''/'' s = cs" and "way t p cs" and "cs \<noteq> []"
    and "look t (p @ cs) \<noteq> None" and "runs mg d t c ks ws k"
  shows "runs mg d t c ks ws (\<lambda>fs. Option.bind (asserts (fs_exists fs (d @ p) s)) (\<lambda>_. k fs))"
  using shown_kind(2) [OF _ assms(1-5)] assms(6) by (simp add: runs_def asserts_def)

lemma runs_gone:
  assumes "\<not> is_absolute s" and "split_on CHR ''/'' s = cs" and "way t p cs" and "cs \<noteq> []"
    and "look t (p @ cs) = None" and "hd (p @ cs) \<noteq> ''store''" and "runs mg d t c ks ws k"
  shows "runs mg d t c ks ws (\<lambda>fs. Option.bind (asserts (\<not> fs_exists fs (d @ p) s)) (\<lambda>_. k fs))"
  using shown_kind(3) [OF _ assms(1-6)] assms(7) by (simp add: runs_def asserts_def)

lemmas [runs_rules] = runs_exists [where p = "[x]" for x] runs_gone [where p = "[x]" for x]

section \<open>Programs on the catalogue\<close>

lemma scene_store:
  assumes "scene mg d t (Some c) ks fs" and "holds mg fs' c'" and "\<And>q. (\<And>p. q \<noteq> mg_root mg @ p) \<Longrightarrow> lstat fs' q = lstat fs q"
    and "\<And>i n u. (i, n, u) \<in> set ks' \<Longrightarrow> kept mg fs' i n u"
  shows "scene mg d t (Some c') ks' fs'"
proof -
  note sc = sceneD [OF assms(1)]
  have same: "lstat fs' (d @ q) = lstat fs (d @ q)" if "hd q \<noteq> ''store''" for q
    using that by (intro assms(3)) (auto simp: sc(1))
  have "is_dir_node (lstat fs' (take k d))" for k
  proof -
    have "take k d \<noteq> mg_root mg @ p" for p by (auto simp: sc(1) dest: arg_cong [of _ _ length])
    from assms(3) [OF this] sc(5) show ?thesis by simp
  qed
  moreover have "displays d fs' t" using sc(7) same by (simp add: displays_def)
  moreover have "early d fs'" using sc(8) same by (simp add: early_def)
  moreover have "takes_writes fs'" using holdsD(1) [OF assms(2)] by (simp add: store_ready_def)
  ultimately show ?thesis using sc(1-4) assms(2,4) by (auto simp: scene_def)
qed

lemma runs_creates [runs_rules]:
  assumes "entry t ''workspace'' = Some u" and "look u [] = Some SDir" and "uuid_ok uuid" and "uuid \<notin> si_id ` set c"
    and "\<not> list_ex temp_like (input_tags tags)" and "cat_create now uuid u (Some msg) tags c = (Inr uuid, c')"
    and "\<And>n. runs mg d t (Some c') [(uuid, n, u)] [] (\<lambda>fs. k (uuid, n, fs))"
  shows "runs mg d t (Some c) ks ws (\<lambda>fs. Option.bind (creates mg now uuid d msg tags fs) k)"
  unfolding creates_def created_def Let_def bind_map_option
  by (intro runsI, erule create_then [OF _ assms(1-5) lessI assms(6)]) (simp add: runsD [OF assms(7)])

lemma runs_creates_not [runs_rules]:
  assumes "entry t ''workspace'' = Some u" and "look u [] = Some SDir" and "uuid_ok uuid" and "uuid \<notin> si_id ` set c"
    and "\<not> list_ex temp_like (input_tags tags)" and "cat_create now uuid u (Some msg) tags c = (Inl e, c')"
    and "runs mg d t (Some c') [] [] (\<lambda>fs. k (e, fs))"
  shows "runs mg d t (Some c) ks ws (\<lambda>fs. Option.bind (creates_not mg now uuid d msg tags fs) k)"
proof (rule runsI)
  fix fs
  assume s: "scene mg d t (Some c) ks fs"
  note sc = sceneD [OF s]
  have holds: "holds mg fs c" using sc(9) by simp
  obtain fs' where cr: "create_snapshot mg now uuid (Suc (depth_bound mg fs)) d ''workspace'' (Some msg) tags fs = Some (Inl e, fs')"
    "holds mg fs' c'" "\<And>q. (\<And>p. q \<noteq> mg_root mg @ p) \<Longrightarrow> lstat fs' q = lstat fs q"
    using create_refines [OF holds sc(2,3) assms(3-5) scene_workspace(1) [OF s assms(1,2)] lessI, of now "Some msg"] assms(6) by auto
  have "scene mg d t (Some c') [] fs'" by (rule scene_store [OF s cr(2,3)]) simp_all
  with runsD [OF assms(7)] cr(1) show "Option.bind (creates_not mg now uuid d msg tags fs) k = Some ()"
    by (simp add: creates_not_def created_def err_def)
qed

lemma runs_restores [runs_rules]:
  assumes "map_of ks i = Some (n, u)" and "over u (entry t ''restored'')" and "look u [] = Some SDir" and "plant [''restored''] u t = t'"
    and "runs mg d t' (Some c) ks [''restored''] k"
  shows "runs mg d t (Some c) ks ws (\<lambda>fs. Option.bind (restores mg now n d i fs) k)"
  unfolding restores_def bind_map_option
proof (intro runsI, erule restore_then [OF _ map_of_SomeD [OF assms(1)] lessI])
  show "plain_name ''restored''" by (simp add: plain_name_def)
qed (use assms(2-5) in \<open>simp_all add: runs_def\<close>)

lemma runs_deletes [runs_rules]:
  assumes "plain_name (snapshot_file i)" and "cat_delete i c = (Inr (), c')" and "runs mg d t (Some c') [] [] k"
  shows "runs mg d t (Some c) ks ws (\<lambda>fs. Option.bind (deletes mg i fs) k)"
proof (rule runsI)
  fix fs
  assume s: "scene mg d t (Some c) ks fs"
  have holds: "holds mg fs c" using sceneD(9) [OF s] by simp
  obtain fs' where dl: "delete_snapshot mg i fs = (Inr (), fs')" "holds mg fs' c'"
    "\<And>q. (\<And>p. q \<noteq> mg_root mg @ p) \<Longrightarrow> lstat fs' q = lstat fs q"
    using delete_refines [OF holds assms(1)] assms(2) by auto
  have "scene mg d t (Some c') [] fs'" by (rule scene_store [OF s dl(2,3)]) simp_all
  with runsD [OF assms(3)] dl(1) show "Option.bind (deletes mg i fs) k = Some ()"
    by (simp add: deletes_def unwrapped_def)
qed

lemma runs_holds: "(\<And>fs. holds mg fs c \<Longrightarrow> k fs = k' fs) \<Longrightarrow> runs mg d t (Some c) ks ws k' \<Longrightarrow> runs mg d t (Some c) ks ws k"
  using sceneD(9) by (fastforce simp: runs_def)

lemma runs_deletes_not [runs_rules]:
  assumes "plain_name (snapshot_file i)" and "cat_get c i = Inl e" and "runs mg d t (Some c) ks ws k"
  shows "runs mg d t (Some c) ks ws (\<lambda>fs. Option.bind (asserts (isl (fst (delete_snapshot mg i fs)))) (\<lambda>_. k fs))"
  by (rule runs_holds [OF _ assms(3)])
    (simp add: asserts_def delete_snapshot_def get_refines [OF _ assms(1)] assms(2))

lemma runs_get [runs_rules]:
  assumes "plain_name (snapshot_file i)" and "cat_get c i = Inr x" and "runs mg d t (Some c) ks ws (k x)"
  shows "runs mg d t (Some c) ks ws (\<lambda>fs. Option.bind (ok (get_snapshot mg i fs)) (\<lambda>x. k x fs))"
  by (rule runs_holds [OF _ assms(3)]) (simp add: ok_def get_refines [OF _ assms(1)] assms(2))

lemma runs_get_not [runs_rules]:
  assumes "plain_name (snapshot_file i)" and "cat_get c i = Inl e" and "runs mg d t (Some c) ks ws k"
  shows "runs mg d t (Some c) ks ws (\<lambda>fs. Option.bind (asserts (isl (get_snapshot mg i fs))) (\<lambda>_. k fs))"
  by (rule runs_holds [OF _ assms(3)]) (simp add: asserts_def get_refines [OF _ assms(1)] assms(2))

lemma runs_find [runs_rules]:
  assumes "cat_find c x = Inr y" and "runs mg d t (Some c) ks ws (k y)"
  shows "runs mg d t (Some c) ks ws (\<lambda>fs. Option.bind (ok (find_snapshot_by_tag mg x fs)) (\<lambda>y. k y fs))"
  by (rule runs_holds [OF _ assms(2)]) (simp add: ok_def find_refines assms(1))

lemma runs_list [runs_rules]:
  assumes "cat_list c tags = Inr y" and "runs mg d t (Some c) ks ws (k y)"
  shows "runs mg d t (Some c) ks ws (\<lambda>fs. Option.bind (ok (list_snapshots mg tags fs)) (\<lambda>y. k y fs))"
  by (rule runs_holds [OF _ assms(2)]) (simp add: ok_def list_refines assms(1))

lemma runs_list_not [runs_rules]:
  assumes "cat_list c tags = Inl e" and "runs mg d t (Some c) ks ws (k e)"
  shows "runs mg d t (Some c) ks ws (\<lambda>fs. Option.bind (err (list_snapshots mg tags fs)) (\<lambda>y. k y fs))"
  by (rule runs_holds [OF _ assms(2)]) (simp add: err_def list_refines assms(1))

text \<open>The file of a tag.\<close>

lemma tag_exists:
  assumes "scene mg d t (Some c) ks fs" and "plain_name x"
  shows "fs_exists fs (d @ [''store'', ''refs'', ''tags'']) x \<longleftrightarrow> cat_owner c x \<noteq> None"
proof -
  have "holds mg fs c" using sceneD(9) [OF assms(1)] by simp
  from read_plain(2) [OF holdsD(8) [OF this] assms(2)] tag_refines(2) [OF this assms(2)] sceneD(1) [OF assms(1)]
  show ?thesis by (simp add: tags_dir_def) (metis not_None_eq)
qed

lemma runs_tag [runs_rules]:
  assumes "plain_name x" and "cat_owner c x \<noteq> None" and "runs mg d t (Some c) ks ws k"
  shows "runs mg d t (Some c) ks ws
    (\<lambda>fs. Option.bind (asserts (fs_exists fs (d @ [''store'', ''refs'', ''tags'']) x)) (\<lambda>_. k fs))"
  using assms by (simp add: runs_def asserts_def tag_exists)

lemma runs_no_tag [runs_rules]:
  assumes "plain_name x" and "cat_owner c x = None" and "runs mg d t (Some c) ks ws k"
  shows "runs mg d t (Some c) ks ws
    (\<lambda>fs. Option.bind (asserts (\<not> fs_exists fs (d @ [''store'', ''refs'', ''tags'']) x)) (\<lambda>_. k fs))"
  using assms by (simp add: runs_def asserts_def tag_exists)

text \<open>An assertion at the end.\<close>

lemmas [runs_rules] = runs_asserts [where k = "\<lambda>fs. Some ()", simplified] runs_is_dir [where k = "\<lambda>fs. Some ()", simplified]
  runs_get_not [where k = "\<lambda>fs. Some ()", simplified] runs_deletes_not [where k = "\<lambda>fs. Some ()", simplified]

section \<open>The tests\<close>

definition test_create_and_restore_snapshot :: "manager \<Rightarrow> path \<Rightarrow> (nat \<Rightarrow> nat) \<Rightarrow> (nat \<Rightarrow> string) \<Rightarrow> fsys \<Rightarrow> unit option" where
  "test_create_and_restore_snapshot mg temp_dir now uuid fs =
     (let workspace = temp_dir @ [''workspace'']; restore_dir = temp_dir @ [''restored'']; store_dir = temp_dir @ [''store'']
      in do {
        fs \<leftarrow> fs_create_dir_all temp_dir ''workspace'' fs;
        fs \<leftarrow> fs_write (now 0) workspace ''file1.txt'' (bytes_of ''Hello'') fs;
        fs \<leftarrow> fs_create_dir_all workspace ''subdir'' fs;
        fs \<leftarrow> fs_write (now 1) workspace ''subdir/file2.txt'' (bytes_of ''World'') fs;
        fs \<leftarrow> new_manager store_dir fs;
        (snapshot_id, n, fs) \<leftarrow> creates mg (now 2) (uuid 0) temp_dir ''Test snapshot'' None fs;
        fs \<leftarrow> restores mg (now 3) n temp_dir snapshot_id fs;
        content1 \<leftarrow> fs_read_to_string fs restore_dir ''file1.txt'';
        asserts (content1 = ''Hello'');
        content2 \<leftarrow> fs_read_to_string fs restore_dir ''subdir/file2.txt'';
        asserts (content2 = ''World'');
        Some ()
      })"

definition test_timestamp_preservation :: "manager \<Rightarrow> path \<Rightarrow> (nat \<Rightarrow> nat) \<Rightarrow> (nat \<Rightarrow> string) \<Rightarrow> fsys \<Rightarrow> unit option" where
  "test_timestamp_preservation mg temp_dir now uuid fs =
     (let workspace = temp_dir @ [''workspace'']; restore_dir = temp_dir @ [''restored'']; store_dir = temp_dir @ [''store'']
      in do {
        fs \<leftarrow> fs_create_dir_all temp_dir ''workspace'' fs;
        fs \<leftarrow> fs_write (now 0) workspace ''test.txt'' (bytes_of ''content'') fs;
        (_, original_mtime) \<leftarrow> fs_metadata fs workspace ''test.txt'';
        fs \<leftarrow> new_manager store_dir fs;
        (snapshot_id, n, fs) \<leftarrow> creates mg (now 1) (uuid 0) temp_dir ''Test'' None fs;
        fs \<leftarrow> restores mg (now 2) n temp_dir snapshot_id fs;
        (_, restored_mtime) \<leftarrow> fs_metadata fs restore_dir ''test.txt'';
        asserts ((if restored_mtime > original_mtime then restored_mtime - original_mtime else original_mtime - restored_mtime) < 1000000000);
        Some ()
      })"

definition test_list_snapshots :: "manager \<Rightarrow> path \<Rightarrow> (nat \<Rightarrow> nat) \<Rightarrow> (nat \<Rightarrow> string) \<Rightarrow> fsys \<Rightarrow> unit option" where
  "test_list_snapshots mg temp_dir now uuid fs =
     (let workspace = temp_dir @ [''workspace'']; store_dir = temp_dir @ [''store'']
      in do {
        fs \<leftarrow> fs_create_dir_all temp_dir ''workspace'' fs;
        fs \<leftarrow> fs_write (now 0) workspace ''test.txt'' (bytes_of ''content'') fs;
        fs \<leftarrow> new_manager store_dir fs;
        (id1, n, fs) \<leftarrow> creates mg (now 1) (uuid 0) temp_dir ''First'' (Some [''tag1'']) fs;
        (id2, n, fs) \<leftarrow> creates mg (now 2) (uuid 1) temp_dir ''Second'' (Some [''tag2'']) fs;
        snapshots \<leftarrow> ok (list_snapshots mg None fs);
        asserts (length snapshots = 2);
        asserts (si_message (snapshots ! 0) = ''Second'');
        asserts (si_message (snapshots ! 1) = ''First'');
        tag1_snapshots \<leftarrow> ok (list_snapshots mg (Some [''tag1'']) fs);
        asserts (length tag1_snapshots = 1);
        asserts (si_message (tag1_snapshots ! 0) = ''First'');
        tag2_snapshot \<leftarrow> ok (find_snapshot_by_tag mg ''tag2'' fs);
        asserts (map_option si_message tag2_snapshot = Some ''Second'');
        Some ()
      })"

definition test_binary_files :: "manager \<Rightarrow> path \<Rightarrow> (nat \<Rightarrow> nat) \<Rightarrow> (nat \<Rightarrow> string) \<Rightarrow> fsys \<Rightarrow> unit option" where
  "test_binary_files mg temp_dir now uuid fs =
     (let workspace = temp_dir @ [''workspace'']; restore_dir = temp_dir @ [''restored'']; store_dir = temp_dir @ [''store'']
      in do {
        fs \<leftarrow> fs_create_dir_all temp_dir ''workspace'' fs;
        fs \<leftarrow> fs_write (now 0) workspace ''binary.dat'' [0x00, 0xFF, 0xAB, 0xCD, 0x12, 0x34] fs;
        fs \<leftarrow> new_manager store_dir fs;
        (snapshot_id, n, fs) \<leftarrow> creates mg (now 1) (uuid 0) temp_dir ''Binary test'' None fs;
        fs \<leftarrow> restores mg (now 2) n temp_dir snapshot_id fs;
        restored \<leftarrow> fs_read fs restore_dir ''binary.dat'';
        asserts (restored = [0x00, 0xFF, 0xAB, 0xCD, 0x12, 0x34]);
        Some ()
      })"

definition test_empty_directories :: "manager \<Rightarrow> path \<Rightarrow> (nat \<Rightarrow> nat) \<Rightarrow> (nat \<Rightarrow> string) \<Rightarrow> fsys \<Rightarrow> unit option" where
  "test_empty_directories mg temp_dir now uuid fs =
     (let workspace = temp_dir @ [''workspace'']; restore_dir = temp_dir @ [''restored'']; store_dir = temp_dir @ [''store'']
      in do {
        fs \<leftarrow> fs_create_dir_all temp_dir ''workspace'' fs;
        fs \<leftarrow> fs_create_dir_all workspace ''empty'' fs;
        fs \<leftarrow> fs_create_dir_all workspace ''nested/empty/dirs'' fs;
        fs \<leftarrow> new_manager store_dir fs;
        (snapshot_id, n, fs) \<leftarrow> creates mg (now 0) (uuid 0) temp_dir ''Empty dirs test'' None fs;
        fs \<leftarrow> restores mg (now 1) n temp_dir snapshot_id fs;
        asserts (fs_is_dir fs restore_dir ''empty'');
        asserts (fs_is_dir fs restore_dir ''nested/empty/dirs'');
        Some ()
      })"

definition test_special_filenames :: "manager \<Rightarrow> path \<Rightarrow> (nat \<Rightarrow> nat) \<Rightarrow> (nat \<Rightarrow> string) \<Rightarrow> fsys \<Rightarrow> unit option" where
  "test_special_filenames mg temp_dir now uuid fs =
     (let workspace = temp_dir @ [''workspace'']; restore_dir = temp_dir @ [''restored'']; store_dir = temp_dir @ [''store'']
      in do {
        fs \<leftarrow> fs_create_dir_all temp_dir ''workspace'' fs;
        fs \<leftarrow> fs_write (now 0) workspace ''file with spaces.txt'' (bytes_of ''Spaces'') fs;
        fs \<leftarrow> fs_write (now 1) workspace ''file-with-dashes.txt'' (bytes_of ''Dashes'') fs;
        fs \<leftarrow> new_manager store_dir fs;
        (snapshot_id, n, fs) \<leftarrow> creates mg (now 2) (uuid 0) temp_dir ''Special names'' None fs;
        fs \<leftarrow> restores mg (now 3) n temp_dir snapshot_id fs;
        spaces \<leftarrow> fs_read_to_string fs restore_dir ''file with spaces.txt'';
        asserts (spaces = ''Spaces'');
        dashes \<leftarrow> fs_read_to_string fs restore_dir ''file-with-dashes.txt'';
        asserts (dashes = ''Dashes'');
        Some ()
      })"

definition test_restore_skip_unchanged :: "manager \<Rightarrow> path \<Rightarrow> (nat \<Rightarrow> nat) \<Rightarrow> (nat \<Rightarrow> string) \<Rightarrow> fsys \<Rightarrow> unit option" where
  "test_restore_skip_unchanged mg temp_dir now uuid fs =
     (let workspace = temp_dir @ [''workspace'']; restore_dir = temp_dir @ [''restored'']; store_dir = temp_dir @ [''store'']
      in do {
        fs \<leftarrow> fs_create_dir_all temp_dir ''workspace'' fs;
        fs \<leftarrow> fs_write (now 0) workspace ''file.txt'' (bytes_of ''content'') fs;
        fs \<leftarrow> new_manager store_dir fs;
        (snapshot_id, n, fs) \<leftarrow> creates mg (now 1) (uuid 0) temp_dir ''Test'' None fs;
        fs \<leftarrow> restores mg (now 2) n temp_dir snapshot_id fs;
        (_, first_timestamp) \<leftarrow> fs_metadata fs restore_dir ''file.txt'';
        fs \<leftarrow> restores mg (now 3) n temp_dir snapshot_id fs;
        (_, second_timestamp) \<leftarrow> fs_metadata fs restore_dir ''file.txt'';
        asserts (first_timestamp = second_timestamp);
        Some ()
      })"

definition test_symlinks :: "manager \<Rightarrow> path \<Rightarrow> (nat \<Rightarrow> nat) \<Rightarrow> (nat \<Rightarrow> string) \<Rightarrow> fsys \<Rightarrow> unit option" where
  "test_symlinks mg temp_dir now uuid fs =
     (let workspace = temp_dir @ [''workspace'']; restore_dir = temp_dir @ [''restored'']; store_dir = temp_dir @ [''store'']
      in do {
        fs \<leftarrow> fs_create_dir_all temp_dir ''workspace'' fs;
        fs \<leftarrow> fs_write (now 0) workspace ''target.txt'' (bytes_of ''Target'') fs;
        fs \<leftarrow> fs_symlink (now 1) (path_text (workspace @ [''target.txt''])) workspace ''link.txt'' fs;
        fs \<leftarrow> new_manager store_dir fs;
        (snapshot_id, n, fs) \<leftarrow> creates mg (now 2) (uuid 0) temp_dir ''Symlink test'' None fs;
        fs \<leftarrow> restores mg (now 3) n temp_dir snapshot_id fs;
        link_target \<leftarrow> fs_read_link fs restore_dir ''link.txt'';
        asserts (contains ''target.txt'' link_target);
        target \<leftarrow> fs_read_to_string fs restore_dir ''target.txt'';
        asserts (target = ''Target'');
        Some ()
      })"

definition test_get_snapshot :: "manager \<Rightarrow> path \<Rightarrow> (nat \<Rightarrow> nat) \<Rightarrow> (nat \<Rightarrow> string) \<Rightarrow> fsys \<Rightarrow> unit option" where
  "test_get_snapshot mg temp_dir now uuid fs =
     (let workspace = temp_dir @ [''workspace'']; store_dir = temp_dir @ [''store'']
      in do {
        fs \<leftarrow> fs_create_dir_all temp_dir ''workspace'' fs;
        fs \<leftarrow> fs_write (now 0) workspace ''file.txt'' (bytes_of ''Content'') fs;
        fs \<leftarrow> new_manager store_dir fs;
        (snapshot_id, n, fs) \<leftarrow> creates mg (now 1) (uuid 0) temp_dir ''Test message'' (Some [''tag1'', ''tag2'']) fs;
        snapshot \<leftarrow> ok (get_snapshot mg snapshot_id fs);
        asserts (si_id snapshot = snapshot_id);
        asserts (si_message snapshot = ''Test message'');
        asserts (si_tags snapshot = [''tag1'', ''tag2'']);
        asserts (si_file_count snapshot = 1);
        asserts (isl (get_snapshot mg ''non-existent-id'' fs));
        Some ()
      })"

definition test_delete_snapshot :: "manager \<Rightarrow> path \<Rightarrow> (nat \<Rightarrow> nat) \<Rightarrow> (nat \<Rightarrow> string) \<Rightarrow> fsys \<Rightarrow> unit option" where
  "test_delete_snapshot mg temp_dir now uuid fs =
     (let workspace = temp_dir @ [''workspace'']; store_dir = temp_dir @ [''store'']
      in do {
        fs \<leftarrow> fs_create_dir_all temp_dir ''workspace'' fs;
        fs \<leftarrow> fs_write (now 0) workspace ''file.txt'' (bytes_of ''Content'') fs;
        fs \<leftarrow> new_manager store_dir fs;
        (snap1_id, n, fs) \<leftarrow> creates mg (now 1) (uuid 0) temp_dir ''Snapshot 1'' None fs;
        (snap2_id, n, fs) \<leftarrow> creates mg (now 2) (uuid 1) temp_dir ''Snapshot 2'' None fs;
        snapshots \<leftarrow> ok (list_snapshots mg None fs);
        asserts (length snapshots = 2);
        fs \<leftarrow> deletes mg snap1_id fs;
        snapshots \<leftarrow> ok (list_snapshots mg None fs);
        asserts (length snapshots = 1);
        asserts (si_id (snapshots ! 0) = snap2_id);
        asserts (isl (get_snapshot mg snap1_id fs));
        Some ()
      })"

definition test_tag_immutability :: "manager \<Rightarrow> path \<Rightarrow> (nat \<Rightarrow> nat) \<Rightarrow> (nat \<Rightarrow> string) \<Rightarrow> fsys \<Rightarrow> unit option" where
  "test_tag_immutability mg temp_dir now uuid fs =
     (let workspace = temp_dir @ [''workspace'']; store_dir = temp_dir @ [''store'']
      in do {
        fs \<leftarrow> fs_create_dir_all temp_dir ''workspace'' fs;
        fs \<leftarrow> fs_write (now 0) workspace ''file.txt'' (bytes_of ''Content'') fs;
        fs \<leftarrow> new_manager store_dir fs;
        (snap1, n, fs) \<leftarrow> creates mg (now 1) (uuid 0) temp_dir ''First'' (Some [''v1.0.0'']) fs;
        (e, fs) \<leftarrow> creates_not mg (now 2) (uuid 1) temp_dir ''Second'' (Some [''v1.0.0'']) fs;
        asserts (says e ''already exists'');
        Some ()
      })"

definition test_delete_snapshot_with_tags :: "manager \<Rightarrow> path \<Rightarrow> (nat \<Rightarrow> nat) \<Rightarrow> (nat \<Rightarrow> string) \<Rightarrow> fsys \<Rightarrow> unit option" where
  "test_delete_snapshot_with_tags mg temp_dir now uuid fs =
     (let workspace = temp_dir @ [''workspace'']; store_dir = temp_dir @ [''store'']
      in do {
        fs \<leftarrow> fs_create_dir_all temp_dir ''workspace'' fs;
        fs \<leftarrow> fs_write (now 0) workspace ''file.txt'' (bytes_of ''Content'') fs;
        fs \<leftarrow> new_manager store_dir fs;
        (snap_id, n, fs) \<leftarrow> creates mg (now 1) (uuid 0) temp_dir ''Test'' (Some [''v1.0.0'', ''stable'']) fs;
        asserts (fs_exists fs (store_dir @ [''refs'', ''tags'']) ''v1.0.0'');
        asserts (fs_exists fs (store_dir @ [''refs'', ''tags'']) ''stable'');
        fs \<leftarrow> deletes mg snap_id fs;
        asserts (\<not> fs_exists fs (store_dir @ [''refs'', ''tags'']) ''v1.0.0'');
        asserts (\<not> fs_exists fs (store_dir @ [''refs'', ''tags'']) ''stable'');
        (new_id, n, fs) \<leftarrow> creates mg (now 2) (uuid 1) temp_dir ''New'' (Some [''v1.0.0'']) fs;
        asserts (isl (fst (delete_snapshot mg ''non-existent-id'' fs)));
        Some ()
      })"

definition test_list_snapshots_deduplication :: "manager \<Rightarrow> path \<Rightarrow> (nat \<Rightarrow> nat) \<Rightarrow> (nat \<Rightarrow> string) \<Rightarrow> fsys \<Rightarrow> unit option" where
  "test_list_snapshots_deduplication mg temp_dir now uuid fs =
     (let workspace = temp_dir @ [''workspace'']; store_dir = temp_dir @ [''store'']
      in do {
        fs \<leftarrow> fs_create_dir_all temp_dir ''workspace'' fs;
        fs \<leftarrow> fs_write (now 0) workspace ''file.txt'' (bytes_of ''Content'') fs;
        fs \<leftarrow> new_manager store_dir fs;
        (snap_id, n, fs) \<leftarrow> creates mg (now 1) (uuid 0) temp_dir ''Test'' (Some [''v1.0.0'', ''stable'', ''latest'']) fs;
        snapshots \<leftarrow> ok (list_snapshots mg (Some [''v1.0.0'', ''stable'', ''latest'']) fs);
        asserts (length snapshots = 1);
        asserts (si_message (snapshots ! 0) = ''Test'');
        Some ()
      })"

definition test_validate_tag_name :: bool where
  "test_validate_tag_name =
     (let valid = [''v1.0.0'', ''stable'', ''release-2024'', ''tag_name'', ''TAG123''];
          invalid = [''../etc/passwd'', ''..'' @ [CHR 0x5C] @ ''windows'' @ [CHR 0x5C] @ ''system32'', ''/etc/passwd'',
            ''C:'' @ [CHR 0x5C] @ ''windows'' @ [CHR 0x5C] @ ''system32'', ''subdir/tag'', ''subdir'' @ [CHR 0x5C] @ ''tag'',
            ''.'', ''..'', [], ''tag'' @ [CHR 0x00] @ ''null'', ''tag'' @ [CHR 0x0A] @ ''line'']
      in list_all (\<lambda>tag. \<not> isl (validate_tag_name tag)) valid \<and> list_all (\<lambda>tag. isl (validate_tag_name tag)) invalid)"

definition test_duplicate_tags_in_input :: "manager \<Rightarrow> path \<Rightarrow> (nat \<Rightarrow> nat) \<Rightarrow> (nat \<Rightarrow> string) \<Rightarrow> fsys \<Rightarrow> unit option" where
  "test_duplicate_tags_in_input mg temp_dir now uuid fs =
     (let workspace = temp_dir @ [''workspace'']; store_dir = temp_dir @ [''store'']
      in do {
        fs \<leftarrow> fs_create_dir_all temp_dir ''workspace'' fs;
        fs \<leftarrow> fs_write (now 0) workspace ''file.txt'' (bytes_of ''Content'') fs;
        fs \<leftarrow> new_manager store_dir fs;
        (snap_id, n, fs) \<leftarrow> creates mg (now 1) (uuid 0) temp_dir ''Test'' (Some [''v1.0.0'', ''v1.0.0'', ''stable'', ''v1.0.0'']) fs;
        snapshot \<leftarrow> ok (get_snapshot mg snap_id fs);
        asserts (si_tags snapshot = [''stable'', ''v1.0.0'']);
        Some ()
      })"

definition test_list_nonexistent_tag :: "manager \<Rightarrow> path \<Rightarrow> (nat \<Rightarrow> nat) \<Rightarrow> (nat \<Rightarrow> string) \<Rightarrow> fsys \<Rightarrow> unit option" where
  "test_list_nonexistent_tag mg temp_dir now uuid fs =
     (let store_dir = temp_dir @ [''store'']
      in do {
        fs \<leftarrow> new_manager store_dir fs;
        e \<leftarrow> err (list_snapshots mg (Some [''nonexistent'']) fs);
        asserts (says e ''does not exist'');
        Some ()
      })"

definition test_restore_always_clean :: "manager \<Rightarrow> path \<Rightarrow> (nat \<Rightarrow> nat) \<Rightarrow> (nat \<Rightarrow> string) \<Rightarrow> fsys \<Rightarrow> unit option" where
  "test_restore_always_clean mg temp_dir now uuid fs =
     (let workspace = temp_dir @ [''workspace'']; restore_dir = temp_dir @ [''restored'']; store_dir = temp_dir @ [''store'']
      in do {
        fs \<leftarrow> fs_create_dir_all temp_dir ''workspace'' fs;
        fs \<leftarrow> fs_write (now 0) workspace ''file1.txt'' (bytes_of ''content1'') fs;
        fs \<leftarrow> fs_create_dir_all workspace ''dir1'' fs;
        fs \<leftarrow> fs_write (now 1) workspace ''dir1/file2.txt'' (bytes_of ''content2'') fs;
        fs \<leftarrow> new_manager store_dir fs;
        (snapshot_id, n, fs) \<leftarrow> creates mg (now 2) (uuid 0) temp_dir ''Clean test'' None fs;
        fs \<leftarrow> fs_create_dir_all temp_dir ''restored'' fs;
        fs \<leftarrow> fs_write (now 3) restore_dir ''extra_file.txt'' (bytes_of ''should be deleted'') fs;
        fs \<leftarrow> fs_create_dir_all restore_dir ''extra_dir'' fs;
        fs \<leftarrow> fs_write (now 4) restore_dir ''extra_dir/nested.txt'' (bytes_of ''also deleted'') fs;
        fs \<leftarrow> fs_create_dir_all restore_dir ''dir1'' fs;
        fs \<leftarrow> fs_write (now 5) restore_dir ''dir1/extra_in_dir.txt'' (bytes_of ''delete me'') fs;
        fs \<leftarrow> restores mg (now 6) n temp_dir snapshot_id fs;
        asserts (fs_exists fs restore_dir ''file1.txt'');
        asserts (fs_exists fs restore_dir ''dir1/file2.txt'');
        asserts (\<not> fs_exists fs restore_dir ''extra_file.txt'');
        asserts (\<not> fs_exists fs restore_dir ''extra_dir'');
        asserts (\<not> fs_exists fs restore_dir ''dir1/extra_in_dir.txt'');
        content1 \<leftarrow> fs_read_to_string fs restore_dir ''file1.txt'';
        asserts (content1 = ''content1'');
        content2 \<leftarrow> fs_read_to_string fs restore_dir ''dir1/file2.txt'';
        asserts (content2 = ''content2'');
        Some ()
      })"

section \<open>They pass\<close>

text \<open>What a test draws: readings of the clock that fit into sixty-four bits of seconds, and fresh ids.\<close>

definition draws :: "(nat \<Rightarrow> nat) \<Rightarrow> (nat \<Rightarrow> string) \<Rightarrow> bool" where
  "draws now uuid \<longleftrightarrow> (\<forall>i. now i div 1000000000 < 2 ^ 64) \<and> (\<forall>i. uuid_ok (uuid i)) \<and> inj uuid"

lemma drawsD:
  assumes "draws now uuid"
  shows "now i div 1000000000 < 18446744073709551616" "uuid_ok (uuid i)" "uuid i = uuid j \<longleftrightarrow> i = j"
    "uuid i \<noteq> ''non-existent-id''" "plain_name (snapshot_file (uuid i))"
proof -
  show ok: "uuid_ok (uuid i)" using assms by (simp add: draws_def)
  have "\<not> uuid_ok ''non-existent-id''" by code_simp
  with ok show "uuid i \<noteq> ''non-existent-id''" by metis
  show "plain_name (snapshot_file (uuid i))" using ok by (rule uuid_plain)
qed (use assms in \<open>simp_all add: draws_def inj_eq\<close>)

lemma ascii_text: "list_all (\<lambda>c. of_char c < (128 :: u8)) s \<Longrightarrow> utf8_ok (bytes_of s)"
  by (rule utf8_ok_ascii) (auto simp: bytes_of_def list_all_iff)

text \<open>The tags of the tests.\<close>

lemma test_tags:
  "input_tags None = []" "input_tags (Some [''tag1'']) = [''tag1'']" "input_tags (Some [''tag2'']) = [''tag2'']"
  "input_tags (Some [''tag1'', ''tag2'']) = [''tag1'', ''tag2'']" "input_tags (Some [''v1.0.0'']) = [''v1.0.0'']"
  "input_tags (Some [''v1.0.0'', ''stable'']) = [''stable'', ''v1.0.0'']"
  "input_tags (Some [''v1.0.0'', ''stable'', ''latest'']) = [''latest'', ''stable'', ''v1.0.0'']"
  "input_tags (Some [''v1.0.0'', ''v1.0.0'', ''stable'', ''v1.0.0'']) = [''stable'', ''v1.0.0'']"
  "\<forall>x \<in> set [''tag1'', ''tag2'', ''v1.0.0'', ''stable'', ''latest'', ''nonexistent'']. validate_tag_name x = Inr () \<and> \<not> temp_like x"
  by code_simp+

lemma no_such_file: "plain_name (snapshot_file ''non-existent-id'')"
  by code_simp

lemmas test_eval =
  is_absolute_def plain_name_def cat_create_def cat_delete_def cat_get_def cat_find_def cat_owner_def cat_untaken_def
  cat_list_def cat_named_def ascii_text string_of_bytes test_tags(1-8) test_tags(9) [simplified] map_sum_def says_def quoted_def
  no_such_file [unfolded plain_name_def]

lemma create_and_restore_snapshot_runs:
  assumes "draws now uuid"
  shows "runs mg d (FDir []) None [] [] (test_create_and_restore_snapshot mg d now uuid)"
  unfolding test_create_and_restore_snapshot_def Let_def
  by (auto intro!: runs_rules simp: test_eval drawsD [OF assms] drawsD(5) [OF assms, unfolded plain_name_def])

lemma binary_files_runs:
  assumes "draws now uuid"
  shows "runs mg d (FDir []) None [] [] (test_binary_files mg d now uuid)"
  unfolding test_binary_files_def Let_def
  by (auto intro!: runs_rules simp: test_eval drawsD [OF assms] drawsD(5) [OF assms, unfolded plain_name_def])

lemma empty_directories_runs:
  assumes "draws now uuid"
  shows "runs mg d (FDir []) None [] [] (test_empty_directories mg d now uuid)"
  unfolding test_empty_directories_def Let_def
  by (auto intro!: runs_rules simp: test_eval drawsD [OF assms] drawsD(5) [OF assms, unfolded plain_name_def])

lemma special_filenames_runs:
  assumes "draws now uuid"
  shows "runs mg d (FDir []) None [] [] (test_special_filenames mg d now uuid)"
  unfolding test_special_filenames_def Let_def
  by (auto intro!: runs_rules simp: test_eval drawsD [OF assms] drawsD(5) [OF assms, unfolded plain_name_def])

lemma restore_always_clean_runs:
  assumes "draws now uuid"
  shows "runs mg d (FDir []) None [] [] (test_restore_always_clean mg d now uuid)"
  unfolding test_restore_always_clean_def Let_def
  by (auto intro!: runs_rules simp: test_eval drawsD [OF assms] drawsD(5) [OF assms, unfolded plain_name_def])

lemma restore_skip_unchanged_runs:
  assumes "draws now uuid"
  shows "runs mg d (FDir []) None [] [] (test_restore_skip_unchanged mg d now uuid)"
  unfolding test_restore_skip_unchanged_def Let_def
  by (auto intro!: runs_rules simp: test_eval drawsD [OF assms] drawsD(5) [OF assms, unfolded plain_name_def])

lemma get_snapshot_runs:
  assumes "draws now uuid"
  shows "runs mg d (FDir []) None [] [] (test_get_snapshot mg d now uuid)"
  unfolding test_get_snapshot_def Let_def
  by (auto intro!: runs_rules simp: test_eval drawsD [OF assms] drawsD(5) [OF assms, unfolded plain_name_def])

lemma delete_snapshot_runs:
  assumes "draws now uuid"
  shows "runs mg d (FDir []) None [] [] (test_delete_snapshot mg d now uuid)"
  unfolding test_delete_snapshot_def Let_def
  by (auto intro!: runs_rules simp: test_eval drawsD [OF assms] drawsD(5) [OF assms, unfolded plain_name_def])

lemma tag_immutability_runs:
  assumes "draws now uuid"
  shows "runs mg d (FDir []) None [] [] (test_tag_immutability mg d now uuid)"
  unfolding test_tag_immutability_def Let_def
  by (auto intro!: runs_rules simp: test_eval drawsD [OF assms] drawsD(5) [OF assms, unfolded plain_name_def])

lemma delete_snapshot_with_tags_runs:
  assumes "draws now uuid"
  shows "runs mg d (FDir []) None [] [] (test_delete_snapshot_with_tags mg d now uuid)"
  unfolding test_delete_snapshot_with_tags_def Let_def
  by (auto intro!: runs_rules simp: test_eval drawsD [OF assms] drawsD(5) [OF assms, unfolded plain_name_def])

lemma list_snapshots_deduplication_runs:
  assumes "draws now uuid"
  shows "runs mg d (FDir []) None [] [] (test_list_snapshots_deduplication mg d now uuid)"
  unfolding test_list_snapshots_deduplication_def Let_def
  by (auto intro!: runs_rules simp: test_eval drawsD [OF assms] drawsD(5) [OF assms, unfolded plain_name_def])

lemma duplicate_tags_in_input_runs:
  assumes "draws now uuid"
  shows "runs mg d (FDir []) None [] [] (test_duplicate_tags_in_input mg d now uuid)"
  unfolding test_duplicate_tags_in_input_def Let_def
  by (auto intro!: runs_rules simp: test_eval drawsD [OF assms] drawsD(5) [OF assms, unfolded plain_name_def])

lemma list_nonexistent_tag_runs:
  assumes "draws now uuid"
  shows "runs mg d (FDir []) None [] [] (test_list_nonexistent_tag mg d now uuid)"
  unfolding test_list_nonexistent_tag_def Let_def
  by (auto intro!: runs_rules simp: test_eval drawsD [OF assms] drawsD(5) [OF assms, unfolded plain_name_def])

lemma contains_end: "contains p (a @ p)"
  unfolding contains_iff by (metis append_Nil2)

lemma symlinks_runs:
  assumes "draws now uuid" and "utf8_ok (bytes_of (path_text (d @ [''workspace'', ''target.txt''])))"
  shows "runs mg d (FDir []) None [] [] (test_symlinks mg d now uuid)"
proof -
  have "path_text (d @ [''workspace'', ''target.txt'']) = (path_text d @ ''/workspace/'') @ ''target.txt''"
    by (simp add: path_text_def)
  then have "contains ''target.txt'' (path_text (d @ [''workspace'', ''target.txt'']))" by (simp only: contains_end)
  then show ?thesis
    unfolding test_symlinks_def Let_def
    by (auto intro!: runs_rules simp: test_eval drawsD [OF assms(1)] assms(2))
qed

text \<open>Between the two creations the test sleeps for a second.\<close>

lemma as_secs_whole: "time div 1000000000 < 18446744073709551616 \<Longrightarrow> unat (as_secs time) = time div 1000000000"
  by (simp add: as_secs_def unat_of_nat)

lemma list_snapshots_runs:
  assumes "draws now uuid" and "now 1 + 1000000000 \<le> now 2"
  shows "runs mg d (FDir []) None [] [] (test_list_snapshots mg d now uuid)"
proof -
  have "now 1 div 1000000000 < now 2 div 1000000000" using div_le_mono [OF assms(2), of 1000000000] by simp
  then have "as_secs (now (Suc 0)) < as_secs (now 2)"
    using as_secs_whole [OF drawsD(1) [OF assms(1)]] by (simp add: word_less_nat_alt)
  then show ?thesis
    unfolding test_list_snapshots_def Let_def
    by (auto intro!: runs_rules simp: test_eval drawsD [OF assms(1)] age_key_def less_eq_age_key_def)
qed

lemma time_near:
  assumes "as_secs time = s" and "time div 1000000000 < 18446744073709551616"
  shows "time < unat s * 1000000000 \<Longrightarrow> unat s * 1000000000 - time < 1000000000"
    "\<not> time < unat s * 1000000000 \<Longrightarrow> time - unat s * 1000000000 < 1000000000"
  using as_secs_whole [OF assms(2)] assms(1) by auto

lemma timestamp_preservation_runs:
  assumes "draws now uuid"
  shows "runs mg d (FDir []) None [] [] (test_timestamp_preservation mg d now uuid)"
  unfolding test_timestamp_preservation_def Let_def
  by (auto intro!: runs_rules simp: test_eval drawsD [OF assms] time_near)

lemma tests_valid_tags: test_validate_tag_name
  by code_simp

lemmas these_run =
  create_and_restore_snapshot_runs [THEN runsD] timestamp_preservation_runs [THEN runsD]
  binary_files_runs [THEN runsD] empty_directories_runs [THEN runsD] special_filenames_runs [THEN runsD]
  restore_skip_unchanged_runs [THEN runsD] get_snapshot_runs [THEN runsD] delete_snapshot_runs [THEN runsD]
  tag_immutability_runs [THEN runsD] delete_snapshot_with_tags_runs [THEN runsD]
  list_snapshots_deduplication_runs [THEN runsD] duplicate_tags_in_input_runs [THEN runsD]
  list_nonexistent_tag_runs [THEN runsD] restore_always_clean_runs [THEN runsD]

text \<open>The directory of a test holds nothing, and the disk takes every write.\<close>

lemma manager_tests_pass:
  assumes "scene mg d (FDir []) None [] fs" and "draws now uuid"
  shows "test_create_and_restore_snapshot mg d now uuid fs = Some ()" "test_timestamp_preservation mg d now uuid fs = Some ()"
    "test_binary_files mg d now uuid fs = Some ()" "test_empty_directories mg d now uuid fs = Some ()"
    "test_special_filenames mg d now uuid fs = Some ()" "test_restore_skip_unchanged mg d now uuid fs = Some ()"
    "test_get_snapshot mg d now uuid fs = Some ()" "test_delete_snapshot mg d now uuid fs = Some ()"
    "test_tag_immutability mg d now uuid fs = Some ()" "test_delete_snapshot_with_tags mg d now uuid fs = Some ()"
    "test_list_snapshots_deduplication mg d now uuid fs = Some ()" "test_duplicate_tags_in_input mg d now uuid fs = Some ()"
    "test_list_nonexistent_tag mg d now uuid fs = Some ()" "test_restore_always_clean mg d now uuid fs = Some ()"
    "now 1 + 1000000000 \<le> now 2 \<Longrightarrow> test_list_snapshots mg d now uuid fs = Some ()"
    "utf8_ok (bytes_of (path_text (d @ [''workspace'', ''target.txt'']))) \<Longrightarrow> test_symlinks mg d now uuid fs = Some ()"
  by (simp_all add: these_run [OF assms(2,1)] list_snapshots_runs [OF assms(2), THEN runsD, OF _ assms(1)]
    symlinks_runs [OF assms(2), THEN runsD, OF _ assms(1)])

text \<open>There are such directories and draws.\<close>

definition temp_disk :: fsys where
  "temp_disk = \<lparr>nodes = [([''tmp''], Dir 0 0)], writable = (\<lambda>_. True), other_len = (\<lambda>_. 4096)\<rparr>"

abbreviation temp_manager :: manager where
  "temp_manager \<equiv> work_manager\<lparr>mg_root := [''tmp'', ''store'']\<rparr>"

lemma temp_scene: "scene temp_manager [''tmp''] (FDir []) None [] temp_disk"
proof -
  have node: "lstat temp_disk p = (if p = [] then Some (Dir 16877 0) else if p = [''tmp''] then Some (Dir 0 0) else None)" for p
    by (simp add: lstat_def temp_disk_def)
  have "hash_ok temp_manager" "codec_ok temp_manager"
    using spell_manager_ok(1) [of demo_enc demo_dec] spell_manager_ok(2) by (simp_all add: hash_ok_def codec_ok_def)
  moreover have "look (FDir []) q = None" if "q \<noteq> []" for q using that by (cases q) simp_all
  ultimately show ?thesis
    by (auto simp: scene_def displays_def early_def takes_writes_def node plain_name_def) (simp_all add: temp_disk_def take_Cons')
qed

lemma temp_draws: "draws (\<lambda>i. if i = 2 then 1000000000 else 0) (\<lambda>i. replicate (Suc i) CHR ''a'')"
  by (auto simp: draws_def uuid_ok_def is_hex_def inj_def)

lemma manager_tests_somewhere:
  "test_restore_always_clean temp_manager [''tmp''] (\<lambda>i. if i = 2 then 1000000000 else 0)
     (\<lambda>i. replicate (Suc i) CHR ''a'') temp_disk = Some ()"
  by (rule manager_tests_pass(14) [OF temp_scene temp_draws])

end
